(* ===== verification/Binder_Prelude.thy ===== *)
theory Binder_Prelude
  imports Main "HOL-Library.Word"
begin

text \<open>
  Shared vocabulary of the development: bytes and little-endian words, the
  outcomes of C++ code (a value, a thrown exception, or an access outside the
  memory it may touch), checked access to a block of memory, the
  \<^verbatim>\<open>std::unordered_map\<close> operations the sources use, and a small
  state-and-exception monad in which the stateful components are written.
\<close>

unbundle bit_operations_syntax

named_theorems wire \<open>encoding and decoding of values in byte buffers\<close>
named_theorems umap \<open>laws of the unordered map operations\<close>
named_theorems run_simps \<open>evaluation of the state and exception monad\<close>

section \<open>Outcomes\<close>

text \<open>
  \<open>OutOfRange\<close> is \<^verbatim>\<open>std::out_of_range\<close>, \<open>RuntimeError\<close> any other
  \<^verbatim>\<open>std::exception\<close> (mostly \<^verbatim>\<open>std::runtime_error\<close>), \<open>MemFault\<close> is an access the
  C++ standard gives no meaning to (outside an allocation, through a null or a
  dangling reference): no handler of the sources can catch it. \<open>Blocked\<close> is not an
  exception: the thread waits for something that does not come. \<open>Aborted\<close> is a call of
  \<^verbatim>\<open>abort\<close>, which only the Android libraries make.
\<close>

type_synonym byte = "8 word"
type_synonym u16 = "16 word"
type_synonym u32 = "32 word"
type_synonym u64 = "64 word"

datatype exn = OutOfRange | RuntimeError | MemFault | Blocked | Aborted

type_synonym 'a res = "exn + 'a"

fun bindR :: "'a res \<Rightarrow> ('a \<Rightarrow> 'b res) \<Rightarrow> 'b res" where
  "bindR (Inl e) f = Inl e"
| "bindR (Inr x) f = f x"

lemma bindR_Inr_iff: "bindR r f = Inr y \<longleftrightarrow> (\<exists>x. r = Inr x \<and> f x = Inr y)"
  by (cases r) auto

lemma bindR_Inr_E:
  assumes "bindR r f = Inr y"
  obtains x where "r = Inr x" and "f x = Inr y"
  using assms by (auto simp: bindR_Inr_iff)

section \<open>The state and exception monad\<close>

text \<open>
  A computation on a state \<open>'s\<close> ends in a value or in an exception, and the
  changes it made before an exception stay, as they do in C++.
\<close>

type_synonym ('s, 'a) comp = "'s \<Rightarrow> 'a res \<times> 's"

definition retS :: "'a \<Rightarrow> ('s, 'a) comp" where
  [run_simps]: "retS x = (\<lambda>s. (Inr x, s))"

definition throwS :: "exn \<Rightarrow> ('s, 'a) comp" where
  [run_simps]: "throwS e = (\<lambda>s. (Inl e, s))"

definition bindS :: "('s, 'a) comp \<Rightarrow> ('a \<Rightarrow> ('s, 'b) comp) \<Rightarrow> ('s, 'b) comp" where
  "bindS m f = (\<lambda>s. case m s of (Inl e, s') \<Rightarrow> (Inl e, s') | (Inr x, s') \<Rightarrow> f x s')"

definition getS :: "('s \<Rightarrow> 'a) \<Rightarrow> ('s, 'a) comp" where
  [run_simps]: "getS f = (\<lambda>s. (Inr (f s), s))"

definition modS :: "('s \<Rightarrow> 's) \<Rightarrow> ('s, unit) comp" where
  [run_simps]: "modS f = (\<lambda>s. (Inr (), f s))"

definition liftS :: "'a res \<Rightarrow> ('s, 'a) comp" where
  [run_simps]: "liftS r = (\<lambda>s. (r, s))"

text \<open>\<open>seqS\<close> is a statement sequence, \<open>tryS\<close> a try block whose handler says which
  exceptions it catches.\<close>

definition seqS :: "('s, unit) comp \<Rightarrow> ('s, 'b) comp \<Rightarrow> ('s, 'b) comp" where
  "seqS m k = bindS m (\<lambda>_. k)"

definition tryS :: "('s, 'a) comp \<Rightarrow> (exn \<Rightarrow> ('s, 'a) comp option) \<Rightarrow> ('s, 'a) comp" where
  "tryS m h = (\<lambda>s. case m s of
      (Inl e, s') \<Rightarrow> (case h e of None \<Rightarrow> (Inl e, s') | Some k \<Rightarrow> k s')
    | (Inr x, s') \<Rightarrow> (Inr x, s'))"

primrec forS :: "'x list \<Rightarrow> ('x \<Rightarrow> ('s, unit) comp) \<Rightarrow> ('s, unit) comp" where
  "forS [] f = retS ()"
| "forS (x # xs) f = seqS (f x) (forS xs f)"

lemma bindS_run [run_simps]:
  "m s = (Inr x, s') \<Longrightarrow> bindS m f s = f x s'"
  "m s = (Inl e, s') \<Longrightarrow> bindS m f s = (Inl e, s')"
  by (simp_all add: bindS_def)

lemma seqS_run [run_simps]:
  "m s = (Inr (), s') \<Longrightarrow> seqS m k s = k s'"
  "m s = (Inl e, s') \<Longrightarrow> seqS m k s = (Inl e, s')"
  by (simp_all add: seqS_def bindS_def)

lemma tryS_run [run_simps]:
  "m s = (Inr x, s') \<Longrightarrow> tryS m h s = (Inr x, s')"
  "m s = (Inl e, s') \<Longrightarrow> h e = None \<Longrightarrow> tryS m h s = (Inl e, s')"
  "m s = (Inl e, s') \<Longrightarrow> h e = Some k \<Longrightarrow> tryS m h s = k s'"
  by (simp_all add: tryS_def)

section \<open>Reasoning about computations\<close>

text \<open>
  A triple: from a state with \<open>P\<close>, a value leaves a state with \<open>Q\<close>, an exception
  that can be caught leaves one with \<open>E\<close>. After a \<open>MemFault\<close> the process has no
  defined state, and the triple says nothing of it.
\<close>

definition validS ::
    "('s \<Rightarrow> bool) \<Rightarrow> ('s, 'a) comp \<Rightarrow> ('a \<Rightarrow> 's \<Rightarrow> bool) \<Rightarrow> ('s \<Rightarrow> bool) \<Rightarrow> bool" where
  "validS P m Q E \<longleftrightarrow> (\<forall>s. P s \<longrightarrow>
     (case m s of (Inr x, s') \<Rightarrow> Q x s' | (Inl e, s') \<Rightarrow> e \<noteq> MemFault \<longrightarrow> E s'))"

lemma validS_I:
  assumes "\<And>s x s'. P s \<Longrightarrow> m s = (Inr x, s') \<Longrightarrow> Q x s'"
    and "\<And>s e s'. P s \<Longrightarrow> m s = (Inl e, s') \<Longrightarrow> e \<noteq> MemFault \<Longrightarrow> E s'"
  shows "validS P m Q E"
  unfolding validS_def
proof (intro allI impI)
  fix s assume "P s"
  then show "case m s of (Inr x, s') \<Rightarrow> Q x s' | (Inl e, s') \<Rightarrow> e \<noteq> MemFault \<longrightarrow> E s'"
    using assms [of s] by (cases "m s"; cases "fst (m s)") auto
qed

lemma validS_value: "validS P m Q E \<Longrightarrow> P s \<Longrightarrow> m s = (Inr x, s') \<Longrightarrow> Q x s'"
  by (fastforce simp: validS_def)

lemma validS_exn: "validS P m Q E \<Longrightarrow> P s \<Longrightarrow> m s = (Inl e, s') \<Longrightarrow> e \<noteq> MemFault \<Longrightarrow> E s'"
  by (fastforce simp: validS_def)

lemma validS_conseq:
  assumes "validS P m Q E" and "\<And>s. P' s \<Longrightarrow> P s"
    and "\<And>x s. Q x s \<Longrightarrow> Q' x s" and "\<And>s. E s \<Longrightarrow> E' s"
  shows "validS P' m Q' E'"
proof (rule validS_I)
  fix s x s' assume "P' s" and "m s = (Inr x, s')"
  with assms show "Q' x s'" by (blast dest: validS_value)
next
  fix s e s' assume "P' s" and "m s = (Inl e, s')" and "e \<noteq> MemFault"
  with assms show "E' s'" by (blast dest: validS_exn)
qed

lemma validS_pre: "validS P m Q E \<Longrightarrow> (\<And>s. P' s \<Longrightarrow> P s) \<Longrightarrow> validS P' m Q E"
  by (erule validS_conseq) auto

lemma validS_ret [simp]: "validS (Q x) (retS x) Q E"
  and validS_throw [simp]: "validS E (throwS e) Q E"
  and validS_get [simp]: "validS (\<lambda>s. Q (f s) s) (getS f) Q E"
  and validS_mod [simp]: "validS (\<lambda>s. Q () (g s)) (modS g) Q E"
  by (simp_all add: validS_def retS_def throwS_def getS_def modS_def)

lemma validS_lift:
  "validS (\<lambda>s. (\<forall>x. r = Inr x \<longrightarrow> Q x s) \<and> (\<forall>e. r = Inl e \<longrightarrow> e \<noteq> MemFault \<longrightarrow> E s)) (liftS r) Q E"
  by (cases r) (simp_all add: validS_def liftS_def)

lemma validS_bind:
  assumes "validS P m R E" and "\<And>x. validS (R x) (f x) Q E"
  shows "validS P (bindS m f) Q E"
proof (rule validS_I)
  fix s y s' assume "P s" and "bindS m f s = (Inr y, s')"
  then obtain x s1 where "m s = (Inr x, s1)" "f x s1 = (Inr y, s')"
    by (auto simp: bindS_def split: prod.splits sum.splits)
  with assms \<open>P s\<close> show "Q y s'" by (meson validS_value)
next
  fix s e s' assume P: "P s" and b: "bindS m f s = (Inl e, s')" and e: "e \<noteq> MemFault"
  obtain r s1 where m: "m s = (r, s1)" by (cases "m s")
  show "E s'"
  proof (cases r)
    case (Inl e0)
    with m b have "m s = (Inl e, s')" by (simp add: bindS_def)
    with assms(1) P e show ?thesis by (blast dest: validS_exn)
  next
    case (Inr x)
    with m assms(1) P have "R x s1" by (blast dest: validS_value)
    moreover have "f x s1 = (Inl e, s')" using m b Inr by (simp add: bindS_def)
    ultimately show ?thesis using assms(2) [of x] e by (blast dest: validS_exn)
  qed
qed

lemma validS_seq:
  "validS P m (\<lambda>_. R) E \<Longrightarrow> validS R k Q E \<Longrightarrow> validS P (seqS m k) Q E"
  unfolding seqS_def by (rule validS_bind)

lemma validS_try:
  assumes "validS P m Q E" and "h MemFault = None" and "\<And>e k. h e = Some k \<Longrightarrow> validS E k Q E"
  shows "validS P (tryS m h) Q E"
proof (rule validS_I)
  fix s y s' assume P: "P s" and t: "tryS m h s = (Inr y, s')"
  show "Q y s'"
  proof (cases "m s")
    case (Pair r s1)
    show ?thesis
    proof (cases r)
      case (Inl e)
      with Pair t obtain k where k: "h e = Some k" "k s1 = (Inr y, s')"
        by (auto simp: tryS_def split: option.splits)
      then have "e \<noteq> MemFault" using assms(2) by auto
      with P Pair Inl assms(1) have "E s1" by (auto dest: validS_exn)
      with k assms(3) show ?thesis by (blast dest: validS_value)
    next
      case (Inr x)
      with Pair t P assms(1) show ?thesis by (auto simp: tryS_def dest: validS_value)
    qed
  qed
next
  fix s e s' assume P: "P s" and t: "tryS m h s = (Inl e, s')" and e: "e \<noteq> MemFault"
  obtain r s1 where m: "m s = (r, s1)" by (cases "m s")
  with t obtain e0 where r: "r = Inl e0" by (cases r) (auto simp: tryS_def)
  show "E s'"
  proof (cases "h e0")
    case None
    with t m r have "m s = (Inl e, s')" by (simp add: tryS_def)
    with assms(1) P e show ?thesis by (blast dest: validS_exn)
  next
    case (Some k)
    then have "e0 \<noteq> MemFault" using assms(2) by auto
    with m r P assms(1) have "E s1" by (blast dest: validS_exn)
    moreover have "k s1 = (Inl e, s')" using t m r Some by (simp add: tryS_def)
    ultimately show ?thesis using assms(3) [OF Some] e by (blast dest: validS_exn)
  qed
qed

text \<open>A property of states that a computation keeps.\<close>

abbreviation keepsS :: "('s \<Rightarrow> bool) \<Rightarrow> ('s, 'a) comp \<Rightarrow> bool" where
  "keepsS P m \<equiv> validS P m (\<lambda>_. P) P"

lemma keepsS_D:
  assumes "keepsS P m" and "P s" and "m s = (r, s')" and "r \<noteq> Inl MemFault"
  shows "P s'"
  using assms by (cases r) (auto dest: validS_value validS_exn)

lemma keepsS_ret [simp]: "keepsS P (retS x)"
  and keepsS_throw [simp]: "keepsS P (throwS e)"
  and keepsS_get [simp]: "keepsS P (getS f)"
  and keepsS_lift [simp]: "keepsS P (liftS r)"
  by (simp_all add: validS_def retS_def throwS_def getS_def liftS_def split: sum.splits)

lemma keepsS_mod: "(\<And>s. P s \<Longrightarrow> P (f s)) \<Longrightarrow> keepsS P (modS f)"
  by (simp add: validS_def modS_def)

lemma keepsS_bind: "keepsS P m \<Longrightarrow> (\<And>x. keepsS P (f x)) \<Longrightarrow> keepsS P (bindS m f)"
  by (rule validS_bind)

lemma keepsS_seq: "keepsS P m \<Longrightarrow> keepsS P k \<Longrightarrow> keepsS P (seqS m k)"
  by (rule validS_seq)

lemma keepsS_for: "(\<And>x. x \<in> set xs \<Longrightarrow> keepsS P (f x)) \<Longrightarrow> keepsS P (forS xs f)"
  by (induction xs) (auto intro: keepsS_seq)

lemmas keepsS_intros = keepsS_mod keepsS_bind keepsS_seq keepsS_for

section \<open>Memory blocks\<close>

text \<open>
  A block is one allocation. Reading or writing a range that does not lie inside
  the block is a \<open>MemFault\<close>.
\<close>

definition mem_read :: "nat \<Rightarrow> nat \<Rightarrow> byte list \<Rightarrow> byte list res" where
  "mem_read off n b = (if off + n \<le> length b then Inr (take n (drop off b)) else Inl MemFault)"

definition mem_write :: "nat \<Rightarrow> byte list \<Rightarrow> byte list \<Rightarrow> byte list res" where
  "mem_write off xs b =
     (if off + length xs \<le> length b then Inr (take off b @ xs @ drop (off + length xs) b)
      else Inl MemFault)"

lemma mem_write_length: "mem_write off xs b = Inr b' \<Longrightarrow> length b' = length b"
  by (auto simp: mem_write_def split: if_splits)

lemma mem_read_length: "mem_read off n b = Inr xs \<Longrightarrow> length xs = n"
  by (auto simp: mem_read_def split: if_splits)

lemma mem_write_end:
  "mem_write (length b) xs (b @ junk) =
     (if length xs \<le> length junk then Inr (b @ xs @ drop (length xs) junk) else Inl MemFault)"
  by (simp add: mem_write_def)

lemma mem_read_write_same:
  "mem_write off xs b = Inr b' \<Longrightarrow> n = length xs \<Longrightarrow> mem_read off n b' = Inr xs"
  by (auto simp: mem_write_def mem_read_def min_def split: if_splits)

lemma mem_read_write_other:
  assumes "mem_write off xs b = Inr b'"
    and "off' + n \<le> off \<or> off + length xs \<le> off'"
  shows "mem_read off' n b' = mem_read off' n b"
  using assms
proof (elim disjE)
  assume w: "mem_write off xs b = Inr b'" and le: "off' + n \<le> off"
  from w have b': "b' = take off b @ xs @ drop (off + length xs) b"
    and len: "off + length xs \<le> length b" by (auto simp: mem_write_def split: if_splits)
  have "take n (drop off' b') = take n (drop off' b)"
    unfolding b' using le len by (simp add: take_drop min_def)
  then show ?thesis using mem_write_length [OF w] by (simp add: mem_read_def)
next
  assume w: "mem_write off xs b = Inr b'" and le: "off + length xs \<le> off'"
  from w have b': "b' = take off b @ xs @ drop (off + length xs) b"
    and len: "off + length xs \<le> length b" by (auto simp: mem_write_def split: if_splits)
  have "drop off' b' = drop off' b"
    unfolding b' using le len by simp
  then show ?thesis using mem_write_length [OF w] by (simp add: mem_read_def)
qed

lemma mem_read_append:
  assumes "mem_read off m b = Inr xs" and "mem_read (off + m) n b = Inr ys"
  shows "mem_read off (m + n) b = Inr (xs @ ys)"
  using assms by (auto simp: mem_read_def take_add add.commute split: if_splits)

lemma mem_read_part:
  assumes "mem_read off n b = Inr xs" and "k + m \<le> n"
  shows "mem_read (off + k) m b = Inr (take m (drop k xs))"
  using assms by (auto simp: mem_read_def drop_take min_def add.commute split: if_splits)

section \<open>Little-endian words\<close>

definition le_bytes :: "nat \<Rightarrow> 'a::len word \<Rightarrow> byte list" where
  "le_bytes n w = map (\<lambda>i. ucast (drop_bit (8 * i) w)) [0..<n]"

primrec le_word :: "byte list \<Rightarrow> 'a::len word" where
  "le_word [] = 0"
| "le_word (b # bs) = ucast b OR push_bit 8 (le_word bs)"

lemma length_le_bytes [simp]: "length (le_bytes n w) = n"
  by (simp add: le_bytes_def)

lemma le_bytes_0 [simp]: "le_bytes 0 w = []"
  by (simp add: le_bytes_def)

lemma le_bytes_nth: "i < n \<Longrightarrow> le_bytes n w ! i = ucast (drop_bit (8 * i) w)"
  by (simp add: le_bytes_def)

lemma le_bytes_Suc: "le_bytes (Suc n) w = ucast w # le_bytes n (drop_bit 8 w)"
proof (rule nth_equalityI)
  fix i assume "i < length (le_bytes (Suc n) w)"
  then show "le_bytes (Suc n) w ! i = (ucast w # le_bytes n (drop_bit 8 w)) ! i"
    by (cases i) (simp_all add: le_bytes_nth drop_bit_drop_bit ac_simps del: upt_Suc)
qed simp

lemma le_bytes_hd: "0 < n \<Longrightarrow> hd (le_bytes n w) = ucast w"
  by (cases n) (simp_all add: le_bytes_Suc)

lemma bit_le_word:
  "bit (le_word bs :: 'a::len word) k \<longleftrightarrow>
     k < LENGTH('a) \<and> k div 8 < length bs \<and> bit (bs ! (k div 8)) (k mod 8)"
proof (induction bs arbitrary: k)
  case Nil
  then show ?case by simp
next
  case (Cons b bs)
  show ?case
  proof (cases "k < 8")
    case True
    then show ?thesis by (auto simp: bit_simps)
  next
    case False
    then obtain j where j: "k = j + 8" by (metis le_add_diff_inverse2 not_less)
    have "\<not> bit b k" using False bit_imp_le_length [of b k] by auto
    moreover have "(j + 8) div 8 = Suc (j div 8)" by simp
    ultimately show ?thesis
      using Cons.IH [of j] by (auto simp: j bit_simps)
  qed
qed

lemma bit_le_bytes:
  "i < n \<Longrightarrow> bit (le_bytes n w ! i) j \<longleftrightarrow> j < 8 \<and> bit w (8 * i + j)"
  by (auto simp: le_bytes_nth bit_simps ac_simps)

lemma le_word_le_bytes [wire]:
  fixes w :: "'a::len word"
  assumes "LENGTH('a) \<le> 8 * n"
  shows "le_word (le_bytes n w) = w"
proof (rule bit_word_eqI)
  fix k assume k: "k < LENGTH('a)"
  then have "k div 8 < n" using assms by auto
  then show "bit (le_word (le_bytes n w) :: 'a word) k = bit w k"
    using k by (simp add: bit_le_word bit_le_bytes)
qed

lemma le_bytes_le_word [wire]:
  assumes "length bs = n" and "8 * n \<le> LENGTH('a::len)"
  shows "le_bytes n (le_word bs :: 'a word) = bs"
proof (rule nth_equalityI)
  fix i assume "i < length (le_bytes n (le_word bs :: 'a word))"
  then have i: "i < n" by simp
  show "le_bytes n (le_word bs :: 'a word) ! i = bs ! i"
  proof (rule bit_word_eqI)
    fix j :: nat assume j: "j < LENGTH(8)"
    then have "(8 * i + j) div 8 = i" and "(8 * i + j) mod 8 = j" and "8 * i + j < LENGTH('a)"
      using i assms(2) by auto
    then show "bit (le_bytes n (le_word bs :: 'a word) ! i) j = bit (bs ! i) j"
      using i j assms(1) by (simp add: bit_le_bytes bit_le_word)
  qed
qed (simp add: assms)

lemma le_word_append:
  "le_word (xs @ ys) = (le_word xs OR push_bit (8 * length xs) (le_word ys) :: 'a::len word)"
  by (induction xs) (simp_all add: push_bit_or or.assoc)

lemma bit_le_word_le_bytes:
  "bit (le_word (le_bytes k w) :: 'a::len word) n \<longleftrightarrow> n < LENGTH('a) \<and> n < 8 * k \<and> bit w n"
proof -
  have "n div 8 < k \<longleftrightarrow> n < 8 * k" by auto
  then show ?thesis by (auto simp: bit_le_word bit_le_bytes)
qed

lemma take_le_bytes: "take k (le_bytes n w) = le_bytes (min k n) w"
  by (rule nth_equalityI) (auto simp: le_bytes_nth)

lemma drop_le_bytes: "drop k (le_bytes n w) = le_bytes (n - k) (drop_bit (8 * k) w)"
  by (rule nth_equalityI) (simp_all add: le_bytes_nth drop_bit_drop_bit algebra_simps)

text \<open>A field of \<open>n\<close> bytes of a structure in memory.\<close>

definition load :: "nat \<Rightarrow> nat \<Rightarrow> byte list \<Rightarrow> 'a::len word res" where
  "load off n b = bindR (mem_read off n b) (\<lambda>v. Inr (le_word v))"

definition store :: "nat \<Rightarrow> nat \<Rightarrow> 'a::len word \<Rightarrow> byte list \<Rightarrow> byte list res" where
  "store off n w b = mem_write off (le_bytes n w) b"

lemma store_length: "store off n w b = Inr b' \<Longrightarrow> length b' = length b"
  by (auto simp: store_def dest: mem_write_length)

lemma store_ok: "off + n \<le> length b \<Longrightarrow> \<exists>b'. store off n w b = Inr b'"
  by (simp add: store_def mem_write_def)

lemma load_ok: "off + n \<le> length b \<Longrightarrow> \<exists>w. load off n b = Inr (w :: 'a::len word)"
  by (simp add: load_def mem_read_def)

lemma load_store_same:
  assumes "store off n (w :: 'a::len word) b = Inr b'" and "LENGTH('a) \<le> 8 * n"
  shows "load off n b' = Inr w"
  using assms mem_read_write_same [of off "le_bytes n w" b b' n]
  by (simp add: load_def store_def le_word_le_bytes)

lemma load_store_other:
  assumes "store off n w b = Inr b'" and "off' + m \<le> off \<or> off + n \<le> off'"
  shows "load off' m b' = load off' m b"
  using assms mem_read_write_other [of off "le_bytes n w" b b' off' m]
  by (simp add: load_def store_def)

lemma mem_read_store_other:
  assumes "store off n w b = Inr b'" and "off' + m \<le> off \<or> off + n \<le> off'"
  shows "mem_read off' m b' = mem_read off' m b"
  using assms mem_read_write_other [of off "le_bytes n w" b b' off' m]
  by (simp add: store_def)

lemma mem_write_nth:
  assumes "mem_write off xs b = Inr b'" and "k < length b"
  shows "b' ! k = (if off \<le> k \<and> k < off + length xs then xs ! (k - off) else b ! k)"
  using assms by (auto simp: mem_write_def nth_append min_def split: if_splits)

lemma mem_write_commute:
  assumes w1: "mem_write p xs b = Inr b1" and w2: "mem_write q ys b = Inr b2"
    and dis: "p + length xs \<le> q \<or> q + length ys \<le> p"
  shows "mem_write q ys b1 = mem_write p xs b2"
proof -
  have l: "length b1 = length b" "length b2 = length b"
    using mem_write_length [OF w1] mem_write_length [OF w2] by simp_all
  obtain c1 where c1: "mem_write q ys b1 = Inr c1"
    using w2 l by (auto simp: mem_write_def split: if_splits)
  obtain c2 where c2: "mem_write p xs b2 = Inr c2"
    using w1 l by (auto simp: mem_write_def split: if_splits)
  have "c1 = c2"
  proof (rule nth_equalityI)
    show len: "length c1 = length c2" using mem_write_length [OF c1] mem_write_length [OF c2] l by simp
    fix k assume "k < length c1"
    then have k: "k < length b" using mem_write_length [OF c1] l by simp
    show "c1 ! k = c2 ! k"
      using mem_write_nth [OF c1] mem_write_nth [OF c2] mem_write_nth [OF w1] mem_write_nth [OF w2] k l dis
      by auto
  qed
  then show ?thesis using c1 c2 by simp
qed

lemma mem_write_read:
  assumes "mem_read off n b = Inr xs" and "mem_write off ys b = Inr b'" and "length ys = n"
  shows "mem_write off xs b' = Inr b"
proof -
  have l: "length b' = length b" "length xs = n"
    using mem_write_length [OF assms(2)] mem_read_length [OF assms(1)] by simp_all
  obtain c where c: "mem_write off xs b' = Inr c"
    using assms(2,3) l by (auto simp: mem_write_def split: if_splits)
  have "c = b"
  proof (rule nth_equalityI)
    show "length c = length b" using mem_write_length [OF c] l by simp
    fix k assume "k < length c"
    then have k: "k < length b" using mem_write_length [OF c] l by simp
    have "off \<le> k \<Longrightarrow> k < off + n \<Longrightarrow> xs ! (k - off) = b ! k"
      using assms(1) by (auto simp: mem_read_def split: if_splits)
    then show "c ! k = b ! k"
      using mem_write_nth [OF c] mem_write_nth [OF assms(2)] k l assms(3) by auto
  qed
  then show ?thesis using c by simp
qed

lemma store_commute:
  assumes "store p n v b = Inr b1" and "store q m w b = Inr b2" and "p + n \<le> q \<or> q + m \<le> p"
  shows "store q m w b1 = store p n v b2"
  using mem_write_commute [of p "le_bytes n v" b b1 q "le_bytes m w" b2] assms by (simp add: store_def)

lemma store_restore:
  fixes v :: "'a::len word"
  assumes "load off n b = Inr v" and "store off n (w :: 'b::len word) b = Inr b'" and "8 * n \<le> LENGTH('a)"
  shows "store off n v b' = Inr b"
proof -
  obtain xs where xs: "mem_read off n b = Inr xs" "v = le_word xs"
    using assms(1) by (auto simp: load_def bindR_Inr_iff)
  then have "le_bytes n v = xs" using assms(3) mem_read_length by (auto intro: le_bytes_le_word)
  then show ?thesis
    using mem_write_read [OF xs(1), of "le_bytes n w" b'] assms(2) by (simp add: store_def)
qed

lemma unat_ucast_mod: "unat (ucast (w :: 'a::len word) :: 'b::len word) = unat w mod 2 ^ LENGTH('b)"
  by (simp add: unsigned_ucast_eq take_bit_eq_mod)

lemma unat_bound: "unat (w :: 'a::len word) < 2 ^ LENGTH('a)"
  by (rule unsigned_less)

lemma unat_byte_less [simp]: "unat (b :: byte) < 256"
  using unat_bound [of b] by simp

lemma word_plus_1_nonzero: "(w :: 'a::len word) \<noteq> - 1 \<Longrightarrow> w + 1 \<noteq> 0"
  by (metis add_eq_0_iff add.commute)

lemma word_less_Suc:
  fixes w :: "'a::len word"
  assumes "w \<noteq> - 1" and "v \<le> w"
  shows "v < w + 1"
proof -
  have "1 + w \<noteq> 0" using word_plus_1_nonzero [OF assms(1)] by (simp add: add.commute)
  then have "unat (1 + w) = Suc (unat w)" by (rule unatSuc)
  then show ?thesis using assms(2) by (simp add: word_less_nat_alt word_le_nat_alt add.commute)
qed

section \<open>Lookup tables\<close>

lemma find_code:
  "distinct (map f xs) \<Longrightarrow> x \<in> set xs \<Longrightarrow> find (\<lambda>y. f y = f x) xs = Some x"
  by (induction xs) auto

section \<open>std::unordered_map\<close>

text \<open>
  A map is the list of its entries in the order an iteration visits them. The
  standard leaves that order open; \<open>um_insert\<close> puts a new entry last, and the
  properties that are about iteration are stated for every list of entries.
  As in C++, inserting under a key that is present changes nothing.
\<close>

type_synonym ('k, 'v) um = "('k \<times> 'v) list"

definition um_find :: "'k \<Rightarrow> ('k, 'v) um \<Rightarrow> 'v option" where
  "um_find k m = map_of m k"

definition um_insert :: "'k \<Rightarrow> 'v \<Rightarrow> ('k, 'v) um \<Rightarrow> ('k, 'v) um" where
  "um_insert k v m = (if um_find k m = None then m @ [(k, v)] else m)"

definition um_erase :: "'k \<Rightarrow> ('k, 'v) um \<Rightarrow> ('k, 'v) um" where
  "um_erase k m = filter (\<lambda>(k', v). k' \<noteq> k) m"

text \<open>\<open>um_store\<close> assigns through an iterator: the entry keeps its place.\<close>

definition um_store :: "'k \<Rightarrow> 'v \<Rightarrow> ('k, 'v) um \<Rightarrow> ('k, 'v) um" where
  "um_store k v m = map (\<lambda>(k', v'). if k' = k then (k', v) else (k', v')) m"

definition um_ok :: "('k, 'v) um \<Rightarrow> bool" where
  "um_ok m \<longleftrightarrow> distinct (map fst m)"

lemma um_find_Nil [simp]: "um_find k [] = None"
  by (simp add: um_find_def)

lemma um_find_insert:
  "um_find k' (um_insert k v m) =
     (if k' = k \<and> um_find k m = None then Some v else um_find k' m)"
  by (auto simp: um_insert_def um_find_def map_add_def split: option.splits)

lemma um_find_erase: "um_find k' (um_erase k m) = (if k' = k then None else um_find k' m)"
  by (induction m) (auto simp: um_erase_def um_find_def)

lemma um_find_store:
  "um_find k' (um_store k v m) =
     (if k' = k \<and> um_find k m \<noteq> None then Some v else um_find k' m)"
  by (induction m) (auto simp: um_store_def um_find_def)

lemmas um_find_simps [umap] = um_find_insert um_find_erase um_find_store

lemma um_ok_Nil [simp]: "um_ok []"
  by (simp add: um_ok_def)

lemma um_ok_insert [simp]: "um_ok m \<Longrightarrow> um_ok (um_insert k v m)"
  by (auto simp: um_ok_def um_insert_def um_find_def map_of_eq_None_iff)

lemma um_ok_erase [simp]: "um_ok m \<Longrightarrow> um_ok (um_erase k m)"
  by (auto simp: um_ok_def um_erase_def distinct_map intro: inj_on_subset)

lemma um_ok_store [simp]: "um_ok m \<Longrightarrow> um_ok (um_store k v m)"
proof -
  have "map fst (um_store k v m) = map fst m"
    by (auto simp: um_store_def)
  then show "um_ok m \<Longrightarrow> um_ok (um_store k v m)" by (simp add: um_ok_def)
qed

lemma um_find_in_set: "um_find k m = Some v \<Longrightarrow> (k, v) \<in> set m"
  by (simp add: um_find_def map_of_SomeD)

lemma um_ok_find: "um_ok m \<Longrightarrow> (k, v) \<in> set m \<Longrightarrow> um_find k m = Some v"
  by (simp add: um_ok_def um_find_def)

text \<open>The interface the components rely on, and its provider.\<close>

locale entry_table =
  fixes empty :: "'m"
    and find :: "'k \<Rightarrow> 'm \<Rightarrow> 'v option"
    and add :: "'k \<Rightarrow> 'v \<Rightarrow> 'm \<Rightarrow> 'm"
    and erase :: "'k \<Rightarrow> 'm \<Rightarrow> 'm"
    and ok :: "'m \<Rightarrow> bool"
  assumes find_empty: "find k empty = None"
    and find_add: "ok m \<Longrightarrow> find k' (add k v m) =
          (if k' = k \<and> find k m = None then Some v else find k' m)"
    and find_erase: "ok m \<Longrightarrow> find k' (erase k m) = (if k' = k then None else find k' m)"
    and ok_empty: "ok empty"
    and ok_add: "ok m \<Longrightarrow> ok (add k v m)"
    and ok_erase: "ok m \<Longrightarrow> ok (erase k m)"
begin

lemma add_fresh: "ok m \<Longrightarrow> find k m = None \<Longrightarrow> find k (add k v m) = Some v"
  by (simp add: find_add)

lemma add_present: "ok m \<Longrightarrow> find k m \<noteq> None \<Longrightarrow> find k (add k v m) = find k m"
  by (simp add: find_add)

lemma erase_add_fresh:
  "ok m \<Longrightarrow> find k m = None \<Longrightarrow> find k' (erase k (add k v m)) = find k' m"
  by (simp add: find_erase find_add ok_add)

lemma add_erase:
  "ok m \<Longrightarrow> find k' (add k v (erase k m)) = (if k' = k then Some v else find k' m)"
  by (simp add: find_erase find_add ok_erase)

end

interpretation ut: entry_table "[]" um_find um_insert um_erase um_ok
  by unfold_locales (simp_all add: um_find_simps)

end
