(* ===== verification/Buffer.thy ===== *)
theory Buffer
  imports Binder_Prelude
begin

text \<open>
  \<^verbatim>\<open>src/src/binderd/buffer.cpp\<close>: the byte buffers every message, parcel and
  socket frame is kept in. What the C allocator decides (whether it grants a
  request, what bytes a grown block holds) is a parameter of the operations.
\<close>

text \<open>\<open>grants a n\<close>: a request for \<open>n\<close> bytes is met; \<open>fill a i\<close>: the byte that a
  block grown by \<^verbatim>\<open>realloc\<close> holds at position \<open>i\<close>.\<close>

record allocator =
  grants :: "nat \<Rightarrow> bool"
  fill :: "nat \<Rightarrow> byte"

definition total_alloc :: "allocator \<Rightarrow> bool" where
  "total_alloc a \<longleftrightarrow> (\<forall>n. grants a n)"

lemma total_allocD [simp]: "total_alloc a \<Longrightarrow> grants a n"
  by (simp add: total_alloc_def)

text \<open>An allocator that meets every request, for concrete examples.\<close>

definition plain_alloc :: allocator where
  "plain_alloc = \<lparr>grants = \<lambda>_. True, fill = \<lambda>_. 0\<rparr>"

lemma total_plain_alloc [simp]: "total_alloc plain_alloc"
  by (simp add: total_alloc_def plain_alloc_def)

text \<open>\<open>Buffer::Implementation\<close>: \<^verbatim>\<open>size_\<close> is the length of \<open>bdata\<close>; a buffer made
  around existing memory is immutable, that is, it may not be resized.\<close>

record buffer =
  bdata :: "byte list"
  immutable :: bool

definition buffer_allocate :: "allocator \<Rightarrow> nat \<Rightarrow> byte list res" where
  "buffer_allocate a sz =
     (if sz = 0 then Inr []
      else if grants a sz then Inr (replicate sz 0)
      else Inl RuntimeError)"

definition Buffer_sized :: "allocator \<Rightarrow> nat \<Rightarrow> buffer res" where
  "Buffer_sized a sz =
     bindR (buffer_allocate a sz) (\<lambda>d. Inr \<lparr>bdata = d, immutable = False\<rparr>)"

definition CreateBufferWithSize :: "allocator \<Rightarrow> nat \<Rightarrow> buffer res" where
  "CreateBufferWithSize a sz = Buffer_sized a sz"

definition Buffer_view :: "byte list \<Rightarrow> buffer" where
  "Buffer_view d = \<lparr>bdata = d, immutable = True\<rparr>"

definition buffer_GetSize :: "buffer \<Rightarrow> nat" where
  "buffer_GetSize b = length (bdata b)"

definition grown :: "allocator \<Rightarrow> nat \<Rightarrow> byte list \<Rightarrow> byte list" where
  "grown a sz d = take sz d @ map (fill a) [length d..<sz]"

definition buffer_Resize :: "allocator \<Rightarrow> nat \<Rightarrow> buffer \<Rightarrow> buffer res" where
  "buffer_Resize a sz b =
     (if immutable b then Inl RuntimeError
      else if \<not> grants a sz then Inl RuntimeError
      else Inr (b\<lparr>bdata := grown a sz (bdata b)\<rparr>))"

abbreviation empty_buffer :: buffer where
  "empty_buffer \<equiv> \<lparr>bdata = [], immutable = False\<rparr>"

lemma CreateBufferWithSize_0 [simp]: "CreateBufferWithSize a 0 = Inr empty_buffer"
  by (simp add: CreateBufferWithSize_def Buffer_sized_def buffer_allocate_def)

lemma length_grown [simp]: "length (grown a sz d) = sz"
  by (auto simp: grown_def min_def)

lemma grown_append: "grown a (length d + n) d = d @ map (fill a) [length d..<length d + n]"
  by (simp add: grown_def)

lemma Buffer_sized_zero:
  assumes "Buffer_sized a n = Inr b"
  shows "bdata b = replicate n 0" and "\<not> immutable b"
  using assms by (auto simp: Buffer_sized_def buffer_allocate_def split: if_splits)

lemma buffer_Resize_keeps:
  assumes "buffer_Resize a n b = Inr b'"
  shows "length (bdata b') = n"
    and "take (min n (length (bdata b))) (bdata b') = take n (bdata b)"
  using assms by (auto simp: buffer_Resize_def grown_def min_def split: if_splits)

lemma buffer_Resize_immutable: "buffer_Resize a n (Buffer_view d) = Inl RuntimeError"
  by (simp add: buffer_Resize_def Buffer_view_def)

end
