(* ===== verification/Binary_IO.thy ===== *)
theory Binary_IO
  imports Buffer
begin

text \<open>
  \<^verbatim>\<open>src/src/binderd/common/binary_writer.cpp\<close> and
  \<^verbatim>\<open>src/src/binderd/common/binary_reader.cpp\<close>: writing values into a growing
  buffer and reading them back. The reader takes one byte of each integer it
  reads, whatever the integer's width; the lemmas state exactly what of a
  written value comes back.
\<close>

unbundle bit_operations_syntax

section \<open>Padding\<close>

text \<open>The sources define \<^verbatim>\<open>SIZE_T_MAX\<close> as \<^verbatim>\<open>UINT32_MAX\<close>; \<^verbatim>\<open>size_t\<close> has 64 bits.\<close>

definition PAD_SIZE_UNSAFE :: "u64 \<Rightarrow> u64" where
  "PAD_SIZE_UNSAFE s = (s + 3) AND NOT 3"

definition pad_size :: "nat \<Rightarrow> nat res" where
  "pad_size s =
     (if s > 4294967295 - 3 then Inl RuntimeError
      else Inr (unat (PAD_SIZE_UNSAFE (of_nat s))))"

definition pad_mask :: "u32 list" where
  "pad_mask = [0x00000000, 0x00ffffff, 0x0000ffff, 0x000000ff]"

section \<open>The writer\<close>

text \<open>\<open>wpos\<close> is \<^verbatim>\<open>current - buffer->GetBegin()\<close>.\<close>

record writer =
  wbuf :: buffer
  wpos :: nat
  use_padding :: bool

definition BinaryWriter :: "buffer \<Rightarrow> writer" where
  "BinaryWriter b = \<lparr>wbuf = b, wpos = 0, use_padding = True\<rparr>"

definition writer_SetPadding :: "bool \<Rightarrow> writer \<Rightarrow> writer" where
  "writer_SetPadding enable w = w\<lparr>use_padding := enable\<rparr>"

definition GetBytesWritten :: "writer \<Rightarrow> nat" where
  "GetBytesWritten w = wpos w"

definition writer_Finalize :: "writer \<Rightarrow> buffer" where
  "writer_Finalize w = wbuf w"

definition ensure_size :: "allocator \<Rightarrow> nat \<Rightarrow> writer \<Rightarrow> writer res" where
  "ensure_size a sz w =
     (if buffer_GetSize (wbuf w) - wpos w \<ge> sz then Inr w
      else bindR (buffer_Resize a (buffer_GetSize (wbuf w) + sz) (wbuf w))
             (\<lambda>b. Inr (w\<lparr>wbuf := b\<rparr>)))"

definition poke :: "nat \<Rightarrow> byte list \<Rightarrow> writer \<Rightarrow> writer res" where
  "poke off xs w =
     bindR (mem_write off xs (bdata (wbuf w))) (\<lambda>d. Inr (w\<lparr>wbuf := (wbuf w)\<lparr>bdata := d\<rparr>\<rparr>))"

definition WriteValue :: "allocator \<Rightarrow> byte list \<Rightarrow> writer \<Rightarrow> writer res" where
  "WriteValue a v w =
     bindR (ensure_size a (length v) w) (\<lambda>w.
     bindR (poke (wpos w) v w) (\<lambda>w.
     Inr (w\<lparr>wpos := wpos w + length v\<rparr>)))"

definition WriteUint16 :: "allocator \<Rightarrow> u16 \<Rightarrow> writer \<Rightarrow> writer res" where
  "WriteUint16 a v = WriteValue a (le_bytes 2 v)"

definition WriteUint32 :: "allocator \<Rightarrow> u32 \<Rightarrow> writer \<Rightarrow> writer res" where
  "WriteUint32 a v = WriteValue a (le_bytes 4 v)"

definition WriteUint64 :: "allocator \<Rightarrow> u64 \<Rightarrow> writer \<Rightarrow> writer res" where
  "WriteUint64 a v = WriteValue a (le_bytes 8 v)"

definition WriteInt16 :: "allocator \<Rightarrow> u16 \<Rightarrow> writer \<Rightarrow> writer res" where
  "WriteInt16 a v = WriteValue a (le_bytes 2 v)"

definition WriteInt32 :: "allocator \<Rightarrow> u32 \<Rightarrow> writer \<Rightarrow> writer res" where
  "WriteInt32 a v = WriteValue a (le_bytes 4 v)"

definition WriteInt64 :: "allocator \<Rightarrow> u64 \<Rightarrow> writer \<Rightarrow> writer res" where
  "WriteInt64 a v = WriteValue a (le_bytes 8 v)"

text \<open>The padding step: the 32-bit word that ends at the padded end of the data is
  masked, which clears the bytes past the data.\<close>

definition mask_padding :: "nat \<Rightarrow> nat \<Rightarrow> writer \<Rightarrow> writer res" where
  "mask_padding sz padded w =
     bindR (mem_read (wpos w + padded - sz - 4) 4 (bdata (wbuf w))) (\<lambda>v.
     bindR (poke (wpos w + padded - sz - 4)
              (le_bytes 4 ((le_word v :: u32) AND pad_mask ! (padded - sz))) w) (\<lambda>w.
     Inr (w\<lparr>wpos := wpos w + (padded - sz)\<rparr>)))"

definition WriteData :: "allocator \<Rightarrow> byte list \<Rightarrow> writer \<Rightarrow> writer res" where
  "WriteData a d w =
     (let sz = length d in
      if sz > 2147483647 then Inl OutOfRange
      else
        bindR (if use_padding w then pad_size sz else Inr sz) (\<lambda>padded.
        bindR (ensure_size a padded w) (\<lambda>w.
        bindR (poke (wpos w) d w) (\<lambda>w.
        (let w = w\<lparr>wpos := wpos w + sz\<rparr> in
         if padded \<noteq> sz then mask_padding sz padded w else Inr w)))))"

definition WriteSizedData :: "allocator \<Rightarrow> byte list \<Rightarrow> writer \<Rightarrow> writer res" where
  "WriteSizedData a d w = bindR (WriteInt32 a (of_nat (length d)) w) (WriteData a d)"

text \<open>\<open>WriteString\<close> of a \<^verbatim>\<open>std::string\<close> writes its bytes and the terminating
  zero; \<open>WriteString16\<close> is the \<^verbatim>\<open>std::u16string\<close> overload.\<close>

definition WriteString :: "allocator \<Rightarrow> byte list \<Rightarrow> writer \<Rightarrow> writer res" where
  "WriteString a s = WriteSizedData a (s @ [0])"

definition u16_bytes :: "u16 list \<Rightarrow> byte list" where
  "u16_bytes s = concat (map (le_bytes 2) s)"

definition WriteString16 :: "allocator \<Rightarrow> u16 list \<Rightarrow> writer \<Rightarrow> writer res" where
  "WriteString16 a s w =
     bindR (WriteInt32 a (of_nat (length s)) w) (\<lambda>w.
     if length s = 0 then Inr w else WriteData a (u16_bytes (s @ [0])) w)"

section \<open>The reader\<close>

text \<open>\<open>rpos\<close> is \<^verbatim>\<open>current - begin\<close>, the length of \<open>rblock\<close> is \<^verbatim>\<open>end - begin\<close>.\<close>

record reader =
  rblock :: "byte list"
  rpos :: nat
  ruse_padding :: bool

definition BinaryReader :: "buffer \<Rightarrow> nat \<Rightarrow> reader" where
  "BinaryReader b offset = \<lparr>rblock = bdata b, rpos = offset, ruse_padding = True\<rparr>"

definition reader_SetPadding :: "bool \<Rightarrow> reader \<Rightarrow> reader" where
  "reader_SetPadding enable r = r\<lparr>ruse_padding := enable\<rparr>"

definition GetBytesRead :: "reader \<Rightarrow> nat" where
  "GetBytesRead r = rpos r"

definition GetBytesLeft :: "reader \<Rightarrow> nat" where
  "GetBytesLeft r = length (rblock r) - rpos r"

text \<open>\<open>ReadValue n\<close> is \<^verbatim>\<open>ReadValue<T>\<close> for a type of \<open>n\<close> bytes:
  \<^verbatim>\<open>static_cast<T>(*impl->current)\<close> converts the one byte at the current
  position.\<close>

definition ReadValue :: "nat \<Rightarrow> reader \<Rightarrow> ('a::len word \<times> reader) res" where
  "ReadValue n r =
     (if rpos r + n > length (rblock r) then Inl OutOfRange
      else Inr (ucast (rblock r ! rpos r), r\<lparr>rpos := rpos r + n\<rparr>))"

definition ReadUint16 :: "reader \<Rightarrow> (u16 \<times> reader) res" where
  "ReadUint16 = ReadValue 2"

definition ReadUint32 :: "reader \<Rightarrow> (u32 \<times> reader) res" where
  "ReadUint32 = ReadValue 4"

definition ReadUint64 :: "reader \<Rightarrow> (u64 \<times> reader) res" where
  "ReadUint64 = ReadValue 8"

definition ReadInt16 :: "reader \<Rightarrow> (u16 \<times> reader) res" where
  "ReadInt16 = ReadValue 2"

definition ReadInt32 :: "reader \<Rightarrow> (u32 \<times> reader) res" where
  "ReadInt32 = ReadValue 4"

definition ReadInt64 :: "reader \<Rightarrow> (u64 \<times> reader) res" where
  "ReadInt64 = ReadValue 8"

definition Skip :: "nat \<Rightarrow> reader \<Rightarrow> reader res" where
  "Skip n r =
     (if rpos r + n > length (rblock r) then Inl OutOfRange
      else Inr (r\<lparr>rpos := rpos r + n\<rparr>))"

text \<open>The result of \<open>ReadData\<close> is a buffer over the memory that was read (the
  \<^verbatim>\<open>memcpy\<close> copies the bytes onto themselves); a request for no bytes gives a
  new empty buffer.\<close>

definition ReadData :: "nat \<Rightarrow> reader \<Rightarrow> (buffer \<times> reader) res" where
  "ReadData sz r =
     (if sz = 0 then Inr (empty_buffer, r)
      else
        bindR (if ruse_padding r then pad_size sz else Inr sz) (\<lambda>padded.
        if rpos r + padded > length (rblock r) then Inl OutOfRange
        else Inr (Buffer_view (take sz (drop (rpos r) (rblock r))),
                  r\<lparr>rpos := rpos r + padded\<rparr>)))"

definition ReadSizedData :: "reader \<Rightarrow> (buffer \<times> reader) res" where
  "ReadSizedData r = bindR (ReadInt32 r) (\<lambda>(sz, r). ReadData (unat (scast sz :: u64)) r)"

text \<open>Both string readers compute the byte count from \<open>sz + 1\<close>. \<open>sz\<close> is a byte
  (see \<open>ReadValue\<close>), so \<open>sz + 1\<close> does not overflow a 32-bit int.\<close>

definition ReadString :: "allocator \<Rightarrow> reader \<Rightarrow> (byte list \<times> reader) res" where
  "ReadString a r =
     bindR (ReadInt32 r) (\<lambda>(sz, r).
     let data_size = unat sz + 1 in
     bindR (if ruse_padding r then pad_size data_size else Inr data_size) (\<lambda>padded.
     if rpos r + padded > length (rblock r) then Inl OutOfRange
     else
       bindR (CreateBufferWithSize a data_size) (\<lambda>data.
       bindR (mem_write 0 (take data_size (drop (rpos r) (rblock r))) (bdata data)) (\<lambda>d.
       Inr (take (unat sz) d, r\<lparr>rpos := rpos r + padded\<rparr>)))))"

fun u16_of_bytes :: "byte list \<Rightarrow> u16 list" where
  "u16_of_bytes (x # y # bs) = le_word [x, y] # u16_of_bytes bs"
| "u16_of_bytes _ = []"

definition ReadString16 :: "allocator \<Rightarrow> reader \<Rightarrow> (u16 list \<times> reader) res" where
  "ReadString16 a r =
     bindR (ReadInt32 r) (\<lambda>(sz, r).
     let data_size = (unat sz + 1) * 2 in
     bindR (if ruse_padding r then pad_size data_size else Inr data_size) (\<lambda>padded.
     if rpos r + padded > length (rblock r) then Inl OutOfRange
     else
       bindR (CreateBufferWithSize a data_size) (\<lambda>data.
       bindR (mem_write 0 (take data_size (drop (rpos r) (rblock r))) (bdata data)) (\<lambda>d.
       Inr (take (unat sz) (u16_of_bytes d), r\<lparr>rpos := rpos r + padded\<rparr>)))))"

section \<open>Padding rounds up to a multiple of four\<close>

lemma and_not_mask: "(x :: 'a::len word) AND NOT (mask n) = push_bit n (drop_bit n x)"
  by (rule bit_word_eqI) (auto simp: bit_simps)

lemma and_not_3: "(x :: u64) AND NOT 3 = push_bit 2 (drop_bit 2 x)"
proof -
  have "(3 :: u64) = mask 2" by (simp add: mask_eq_exp_minus_1)
  then show ?thesis by (simp only: and_not_mask)
qed

lemma pad_size_eq:
  assumes "s \<le> 4294967292"
  shows "pad_size s = Inr (4 * ((s + 3) div 4))"
proof -
  let ?x = "of_nat s + 3 :: u64"
  have x: "unat ?x = s + 3"
    using assms by (simp add: unat_word_ariths unat_of_nat)
  have d: "unat (drop_bit 2 ?x) = (s + 3) div 4"
    using x by (simp add: unat_drop_bit_eq drop_bit_eq_div unat_div)
  have lt: "(s + 3) div 4 * 4 < 2 ^ 64"
    using assms by simp
  have "unat (push_bit 2 (drop_bit 2 ?x)) = (s + 3) div 4 * 4"
    using lt by (simp add: push_bit_eq_mult unat_word_ariths d)
  then have "unat (PAD_SIZE_UNSAFE (of_nat s)) = 4 * ((s + 3) div 4)"
    by (simp only: PAD_SIZE_UNSAFE_def and_not_3 mult.commute)
  then show ?thesis
    using assms by (simp add: pad_size_def)
qed

definition padded_len :: "nat \<Rightarrow> nat" where
  "padded_len s = 4 * ((s + 3) div 4)"

lemma padded_len_bounds: "s \<le> padded_len s" "padded_len s < s + 4" "padded_len s mod 4 = 0"
  by (auto simp: padded_len_def)

lemma padded_len_ge_4: "0 < s \<Longrightarrow> 4 \<le> padded_len s"
  by (auto simp: padded_len_def)

lemma pad_size_padded [wire]: "s \<le> 4294967292 \<Longrightarrow> pad_size s = Inr (padded_len s)"
  by (simp add: pad_size_eq padded_len_def)

section \<open>Appending to a buffer\<close>

definition appending :: "writer \<Rightarrow> bool" where
  "appending w \<longleftrightarrow> wpos w = length (bdata (wbuf w)) \<and> \<not> immutable (wbuf w)"

definition wappend :: "byte list \<Rightarrow> writer \<Rightarrow> writer" where
  "wappend xs w = w\<lparr>wbuf := (wbuf w)\<lparr>bdata := bdata (wbuf w) @ xs\<rparr>, wpos := wpos w + length xs\<rparr>"

lemma wappend_simps [simp]:
  "bdata (wbuf (wappend xs w)) = bdata (wbuf w) @ xs"
  "immutable (wbuf (wappend xs w)) = immutable (wbuf w)"
  "wpos (wappend xs w) = wpos w + length xs"
  "use_padding (wappend xs w) = use_padding w"
  "wappend [] w = w"
  "wappend ys (wappend xs w) = wappend (xs @ ys) w"
  by (simp_all add: wappend_def)

lemma appending_wappend [simp]: "appending w \<Longrightarrow> appending (wappend xs w)"
  by (simp add: appending_def)

lemma ensure_size_appending:
  assumes "total_alloc a" and "appending w"
  obtains js where "length js = n"
    and "ensure_size a n w = Inr (w\<lparr>wbuf := (wbuf w)\<lparr>bdata := bdata (wbuf w) @ js\<rparr>\<rparr>)"
proof (cases "n = 0")
  case True
  then show thesis by (intro that [of "[]"]) (simp_all add: ensure_size_def)
next
  case False
  let ?js = "map (fill a) [length (bdata (wbuf w))..<length (bdata (wbuf w)) + n]"
  have "ensure_size a n w = Inr (w\<lparr>wbuf := (wbuf w)\<lparr>bdata := bdata (wbuf w) @ ?js\<rparr>\<rparr>)"
    using assms False
    by (simp add: ensure_size_def appending_def buffer_GetSize_def buffer_Resize_def grown_append)
  then show thesis by (intro that [of ?js]) simp_all
qed

lemma WriteValue_append [wire]:
  assumes "total_alloc a" and "appending w"
  shows "WriteValue a v w = Inr (wappend v w)"
proof -
  from assms obtain js where js: "length js = length v"
    and e: "ensure_size a (length v) w = Inr (w\<lparr>wbuf := (wbuf w)\<lparr>bdata := bdata (wbuf w) @ js\<rparr>\<rparr>)"
    by (rule ensure_size_appending)
  from assms(2) js e show ?thesis
    by (simp add: WriteValue_def poke_def appending_def mem_write_end wappend_def)
qed

lemmas Write_defs = WriteUint16_def WriteUint32_def WriteUint64_def
  WriteInt16_def WriteInt32_def WriteInt64_def

lemma le_bytes_and_mask:
  assumes "m \<le> n"
  shows "le_bytes n ((w :: 'a::len word) AND mask (8 * m)) = take m (le_bytes n w) @ replicate (n - m) 0"
proof (rule nth_equalityI)
  fix i assume "i < length (le_bytes n (w AND mask (8 * m)))"
  then have i: "i < n" by simp
  show "le_bytes n (w AND mask (8 * m)) ! i = (take m (le_bytes n w) @ replicate (n - m) 0) ! i"
  proof (cases "i < m")
    case True
    then have "le_bytes n (w AND mask (8 * m)) ! i = le_bytes n w ! i"
      using i assms by (auto intro!: bit_word_eqI simp: bit_le_bytes bit_simps dest: bit_imp_le_length)
    then show ?thesis using True assms by (simp add: nth_append)
  next
    case False
    then have "le_bytes n (w AND mask (8 * m)) ! i = 0"
      using i by (auto intro!: bit_word_eqI simp: bit_le_bytes bit_simps)
    then show ?thesis using False i assms by (simp add: nth_append)
  qed
qed (use assms in simp)

lemma pad_mask_eq: "k \<in> {1, 2, 3} \<Longrightarrow> pad_mask ! k = mask (8 * (4 - k))"
  by (auto simp: pad_mask_def mask_eq_exp_minus_1)

lemma masked_word:
  assumes "k \<in> {1, 2, 3}" and "length v = 4"
  shows "le_bytes 4 ((le_word v :: u32) AND pad_mask ! k) = take (4 - k) v @ replicate k 0"
  using assms by (auto simp: pad_mask_eq le_bytes_and_mask le_bytes_le_word)

lemma mask_padding_append:
  assumes k: "padded - length d \<in> {1, 2, 3}" and p: "4 \<le> padded" "length d < padded"
    and js: "length js = padded - length d"
    and w: "bdata (wbuf w) = b @ d @ js" "wpos w = length (b @ d)"
  shows "mask_padding (length d) padded w =
     Inr (w\<lparr>wbuf := (wbuf w)\<lparr>bdata := b @ d @ replicate (length js) 0\<rparr>,
           wpos := length b + padded\<rparr>)"
proof -
  let ?k = "length js"
  let ?off = "wpos w + padded - length d - 4"
  have off: "?off = length b + (padded - 4)" using w p by simp
  let ?pre = "take (padded - 4) d"
  have kp: "?k \<le> 4" "?k \<in> {1, 2, 3}" using k js by auto
  have dl: "length d = (padded - 4) + (4 - ?k)" using js p kp by auto
  let ?v = "drop (padded - 4) d @ js"
  have d: "d = ?pre @ drop (padded - 4) d" by simp
  have vl: "length ?v = 4" using dl kp by simp
  have block: "bdata (wbuf w) = (b @ ?pre) @ ?v" using w(1) by simp
  have off': "?off = length (b @ ?pre)" using off dl by simp
  have rd: "mem_read ?off 4 (bdata (wbuf w)) = Inr ?v"
    using vl unfolding block off' mem_read_def by simp
  have tk: "take (4 - ?k) ?v = drop (padded - 4) d" using dl by simp
  have m: "le_bytes 4 ((le_word ?v :: u32) AND pad_mask ! ?k) = drop (padded - 4) d @ replicate ?k 0"
    using masked_word [OF kp(2) vl] tk by simp
  have wr: "mem_write ?off (drop (padded - 4) d @ replicate ?k 0) (bdata (wbuf w))
      = Inr ((b @ ?pre) @ drop (padded - 4) d @ replicate ?k 0)"
    using vl kp dl unfolding block off' mem_write_def by simp
  show ?thesis
    using rd m wr js p w(2) by (simp add: mask_padding_def poke_def)
qed

definition padded_bytes :: "bool \<Rightarrow> byte list \<Rightarrow> byte list" where
  "padded_bytes pad d = (if pad then d @ replicate (padded_len (length d) - length d) 0 else d)"

lemma length_padded_bytes [simp]:
  "length (padded_bytes pad d) = (if pad then padded_len (length d) else length d)"
  using padded_len_bounds(1) [of "length d"] by (simp add: padded_bytes_def)

lemma take_padded_bytes [simp]: "take (length d) (padded_bytes pad d) = d"
  by (simp add: padded_bytes_def)

lemma WriteData_append [wire]:
  assumes a: "total_alloc a" and w: "appending w" and d: "length d \<le> 2147483647"
  shows "WriteData a d w = Inr (wappend (padded_bytes (use_padding w) d) w)"
proof -
  let ?p = "if use_padding w then padded_len (length d) else length d"
  have p: "(if use_padding w then pad_size (length d) else Inr (length d)) = Inr ?p"
    using d by (simp add: pad_size_padded)
  have le: "length d \<le> ?p" using padded_len_bounds(1) by simp
  from a w obtain js where js: "length js = ?p"
    and e: "ensure_size a ?p w = Inr (w\<lparr>wbuf := (wbuf w)\<lparr>bdata := bdata (wbuf w) @ js\<rparr>\<rparr>)"
    by (rule ensure_size_appending)
  let ?b = "bdata (wbuf w)" and ?rest = "drop (length d) js"
  let ?w1 = "w\<lparr>wbuf := (wbuf w)\<lparr>bdata := ?b @ d @ ?rest\<rparr>, wpos := length ?b + length d\<rparr>"
  have pk: "poke (wpos w) d (w\<lparr>wbuf := (wbuf w)\<lparr>bdata := ?b @ js\<rparr>\<rparr>)
      = Inr (w\<lparr>wbuf := (wbuf w)\<lparr>bdata := ?b @ d @ ?rest\<rparr>\<rparr>)"
    using w le js by (simp add: poke_def appending_def mem_write_end)
  show ?thesis
  proof (cases "?p = length d")
    case True
    then show ?thesis
      using d p e pk w js
      by (cases "use_padding w") (simp_all add: WriteData_def padded_bytes_def appending_def wappend_def)
  next
    case False
    then have pad: "use_padding w" and pl: "?p = padded_len (length d)"
      and gt: "length d < padded_len (length d)"
      using le by (auto split: if_splits)
    have pos: "0 < length d" using gt by (cases d) (auto simp: padded_len_def)
    have k: "padded_len (length d) - length d \<in> {1, 2, 3}"
      using gt padded_len_bounds(2) [of "length d"] by auto
    have "mask_padding (length d) (padded_len (length d)) ?w1 =
        Inr (?w1\<lparr>wbuf := (wbuf ?w1)\<lparr>bdata := ?b @ d @ replicate (length ?rest) 0\<rparr>,
                 wpos := length ?b + padded_len (length d)\<rparr>)"
      by (rule mask_padding_append [OF k padded_len_ge_4 [OF pos] gt]) (use js pl in simp_all)
    then show ?thesis
      using d p e pk w js pl gt pad
      by (simp add: WriteData_def padded_bytes_def appending_def wappend_def Let_def)
  qed
qed

lemma WriteSizedData_append [wire]:
  assumes "total_alloc a" and "appending w" and "length d \<le> 2147483647"
  shows "WriteSizedData a d w =
    Inr (wappend (le_bytes 4 (of_nat (length d) :: u32) @ padded_bytes (use_padding w) d) w)"
  using assms by (simp add: WriteSizedData_def Write_defs wire)

section \<open>Reading from a position\<close>

text \<open>What an integer is after a write and a read: its lowest byte.\<close>

definition low_byte :: "'a::len word \<Rightarrow> 'b::len word" where
  "low_byte w = ucast (ucast w :: byte)"

lemma unat_low_byte:
  "8 \<le> LENGTH('b::len) \<Longrightarrow> unat (low_byte (w :: 'a::len word) :: 'b word) = unat w mod 256"
proof -
  assume "8 \<le> LENGTH('b)"
  then have "(2 :: nat) ^ 8 \<le> 2 ^ LENGTH('b)" by (intro power_increasing) simp_all
  then have "unat (ucast w :: byte) < 2 ^ LENGTH('b)"
    using unat_byte_less [of "ucast w"] by (simp del: unat_byte_less)
  then show ?thesis by (simp add: low_byte_def unat_ucast_mod)
qed

lemma low_byte_id:
  fixes w :: "'a::len word"
  assumes "unat w < 256"
  shows "(low_byte w :: 'a word) = w"
  using assms unat_bound [of w] by (simp add: word_unat_eq_iff low_byte_def unat_ucast_mod)

definition rest :: "reader \<Rightarrow> byte list" where
  "rest r = drop (rpos r) (rblock r)"

definition reader_ok :: "reader \<Rightarrow> bool" where
  "reader_ok r \<longleftrightarrow> rpos r \<le> length (rblock r)"

definition adv :: "nat \<Rightarrow> reader \<Rightarrow> reader" where
  "adv n r = r\<lparr>rpos := rpos r + n\<rparr>"

lemma adv_simps [simp]:
  "rest (adv n r) = drop n (rest r)"
  "rpos (adv n r) = rpos r + n"
  "rblock (adv n r) = rblock r"
  "ruse_padding (adv n r) = ruse_padding r"
  "adv m (adv n r) = adv (n + m) r"
  by (simp_all add: adv_def rest_def add.commute)

lemma reader_ok_adv [simp]: "reader_ok r \<Longrightarrow> n \<le> length (rest r) \<Longrightarrow> reader_ok (adv n r)"
  by (auto simp: reader_ok_def rest_def adv_def)

lemma ReadValue_rest:
  assumes "reader_ok r" and "0 < n"
  shows "ReadValue n r =
     (if length (rest r) < n then Inl OutOfRange else Inr (ucast (hd (rest r)), adv n r))"
proof (cases "length (rest r) < n")
  case True
  then show ?thesis using assms by (auto simp: ReadValue_def rest_def reader_ok_def)
next
  case False
  then have "rpos r < length (rblock r)" and "\<not> length (rblock r) < rpos r + n"
    using assms by (auto simp: rest_def reader_ok_def)
  then show ?thesis using False
    by (simp add: ReadValue_def adv_def rest_def hd_drop_conv_nth)
qed

lemma ReadValue_le_bytes [wire]:
  assumes "reader_ok r" and "0 < n" and "rest r = le_bytes n w @ xs"
  shows "ReadValue n r = Inr (low_byte w, adv n r)"
  using assms by (cases n) (simp_all add: ReadValue_rest low_byte_def le_bytes_Suc)

lemma ReadData_rest:
  assumes "reader_ok r" and "n \<le> 4294967292"
  shows "ReadData n r =
     (if n = 0 then Inr (empty_buffer, r)
      else let m = (if ruse_padding r then padded_len n else n) in
        if length (rest r) < m then Inl OutOfRange
        else Inr (Buffer_view (take n (rest r)), adv m r))"
  using assms
  by (auto simp: ReadData_def rest_def reader_ok_def adv_def pad_size_padded Let_def)

lemmas Read_defs = ReadUint16_def ReadUint32_def ReadUint64_def
  ReadInt16_def ReadInt32_def ReadInt64_def

lemma unat_scast_low_byte:
  "unat (scast (low_byte (w :: 'a::len word) :: u32) :: u64) = unat (ucast w :: byte)"
proof -
  have "(scast (low_byte w :: u32) :: u64) = ucast (ucast w :: byte)"
    by (rule bit_word_eqI) (auto simp: bit_simps low_byte_def min_def split: if_splits dest: bit_imp_le_length)
  moreover have "unat (ucast w :: byte) mod 2 ^ 64 = unat (ucast w :: byte)"
    using unat_byte_less [of "ucast w"] by (simp del: unat_byte_less)
  ultimately show ?thesis by (simp add: unat_ucast_mod)
qed

lemma unat_byte_of_nat: "unat (ucast (of_nat n :: u32) :: byte) = n mod 256"
  by (simp add: unat_ucast_mod unat_of_nat mod_mod_cancel)

text \<open>A sized block as \<open>WriteSizedData\<close> lays it out: the reader takes the length modulo
  256 for the length.\<close>

lemma ReadSizedData_sized:
  assumes r: "reader_ok r"
    and rest: "rest r = le_bytes 4 (of_nat (length d) :: u32) @ padded_bytes (ruse_padding r) d @ xs"
  shows "ReadSizedData r =
     (let n = length d mod 256; m = (if ruse_padding r then padded_len n else n) in
      Inr (if n = 0 then empty_buffer else Buffer_view (take n d), adv (4 + m) r))"
proof -
  let ?n = "length d mod 256"
  let ?m = "if ruse_padding r then padded_len ?n else ?n"
  have le: "?n \<le> length d" by simp
  have "padded_len ?n \<le> padded_len (length d)"
    using le by (simp add: padded_len_def div_le_mono)
  then have m: "?m \<le> length (padded_bytes (ruse_padding r) d)" by simp
  have n: "?n \<le> 4294967292" using mod_less_divisor [of 256 "length d"] by linarith
  have rd: "ReadInt32 r = Inr (low_byte (of_nat (length d) :: u32), adv 4 r)"
    using r rest by (simp add: Read_defs ReadValue_le_bytes)
  have ok: "reader_ok (adv 4 r)" using r rest by simp
  have tk: "take ?n (padded_bytes (ruse_padding r) d @ xs) = take ?n d"
    using le by (simp add: padded_bytes_def)
  have z: "?n = 0 \<Longrightarrow> ?m = 0" by (simp add: padded_len_def)
  show ?thesis
    using rd m n rest tk z
    by (simp add: ReadSizedData_def unat_scast_low_byte unat_byte_of_nat Let_def
        ReadData_rest [OF ok n] del: length_padded_bytes)
qed

section \<open>Properties\<close>

text \<open>\<open>pad_size\<close> rounds a size up to the next multiple of four with its bit mask, for
  every size up to the limit it checks, and throws above it.\<close>

theorem pad_size_rounds_up:
  "pad_size s = (if s \<le> 4294967292 then Inr (4 * ((s + 3) div 4)) else Inl RuntimeError)"
proof (cases "s \<le> 4294967292")
  case True
  then show ?thesis by (simp add: pad_size_eq)
next
  case False
  then show ?thesis by (simp add: pad_size_def)
qed

text \<open>what a reader gets of a block that \<open>WriteSizedData\<close> appended to a fresh buffer:
  the block itself when it is shorter than 256 bytes, otherwise only as many of its
  first bytes as its length is modulo 256.\<close>

theorem sized_data_round_trip:
  assumes "total_alloc a" and "length d \<le> 2147483647"
  shows "\<exists>w b r. WriteSizedData a d (BinaryWriter empty_buffer) = Inr w \<and>
     ReadSizedData (BinaryReader (writer_Finalize w) 0) = Inr (b, r) \<and>
     bdata b = take (length d mod 256) d"
proof -
  let ?w = "BinaryWriter empty_buffer"
  have w: "appending ?w" "use_padding ?w" by (simp_all add: appending_def BinaryWriter_def)
  let ?bs = "le_bytes 4 (of_nat (length d) :: u32) @ padded_bytes True d"
  let ?r = "BinaryReader (writer_Finalize (wappend ?bs ?w)) 0"
  have "WriteSizedData a d ?w = Inr (wappend ?bs ?w)"
    using assms w by (simp add: WriteSizedData_append)
  moreover have "reader_ok ?r" "rest ?r = le_bytes 4 (of_nat (length d) :: u32) @
      padded_bytes (ruse_padding ?r) d @ []"
    by (simp_all add: reader_ok_def rest_def writer_Finalize_def) (simp_all add: BinaryReader_def BinaryWriter_def)
  note ReadSizedData_sized [OF this]
  ultimately show ?thesis
    by (auto simp: Let_def Buffer_view_def simp del: wappend_simps)
qed

theorem sized_data_round_trip_witness:
  "\<exists>w b r. WriteSizedData plain_alloc [1, 2, 3] (BinaryWriter empty_buffer) = Inr w \<and>
     ReadSizedData (BinaryReader (writer_Finalize w) 0) = Inr (b, r) \<and> bdata b = [1, 2, 3]"
  using sized_data_round_trip [of plain_alloc "[1, 2, 3]"] by simp

end
