(* ===== verification/Message.thy ===== *)
theory Message
  imports Binary_IO
begin

text \<open>
  \<^verbatim>\<open>src/src/binderd/status.h\<close>, \<^verbatim>\<open>message.h\<close>, \<^verbatim>\<open>message.cpp\<close> and
  \<^verbatim>\<open>message_parser.cpp\<close>: status codes, the messages client and server exchange,
  their packed form, and the parser that cuts a received buffer into messages.
\<close>

section \<open>Status codes\<close>

text \<open>The enumeration has \<^verbatim>\<open>int32_t\<close> as its underlying type, so a cast from an integer
  may give a value that is none of the enumerators: \<open>StatusOther\<close>.\<close>

datatype status =
    OK | UnknownError | NoMemory | InvalidOperation | BadValue | BadType | NameNotFound
  | PermissionDenied | NoInit | AlreadyExists | DeadObject | FailedTransaction | BadIndex
  | NotEnoughData | WouldBlock | TimedOut | UnknownTransaction | FdsNotAllowed | UnexpectedNull
  | StatusOther u32

fun status_code :: "status \<Rightarrow> u32" where
  "status_code OK = 0"
| "status_code UnknownError = 0x80000000"
| "status_code NoMemory = - 12"
| "status_code InvalidOperation = - 38"
| "status_code BadValue = - 22"
| "status_code BadType = 0x80000000 + 1"
| "status_code NameNotFound = - 2"
| "status_code PermissionDenied = - 1"
| "status_code NoInit = - 19"
| "status_code AlreadyExists = - 17"
| "status_code DeadObject = - 32"
| "status_code FailedTransaction = 0x80000000 + 2"
| "status_code BadIndex = - 75"
| "status_code NotEnoughData = - 61"
| "status_code WouldBlock = - 11"
| "status_code TimedOut = - 110"
| "status_code UnknownTransaction = - 74"
| "status_code FdsNotAllowed = 0x80000000 + 7"
| "status_code UnexpectedNull = 0x80000000 + 8"
| "status_code (StatusOther c) = c"

definition enumerators :: "status list" where
  "enumerators =
     [OK, UnknownError, NoMemory, InvalidOperation, BadValue, BadType, NameNotFound,
      PermissionDenied, NoInit, AlreadyExists, DeadObject, FailedTransaction, BadIndex,
      NotEnoughData, WouldBlock, TimedOut, UnknownTransaction, FdsNotAllowed, UnexpectedNull]"

text \<open>\<^verbatim>\<open>static_cast<Status>(c)\<close>\<close>

definition status_of :: "u32 \<Rightarrow> status" where
  "status_of c =
     (case find (\<lambda>s. status_code s = c) enumerators of Some s \<Rightarrow> s | None \<Rightarrow> StatusOther c)"

text \<open>\<^verbatim>\<open>operator<<\<close>\<close>

fun status_string :: "status \<Rightarrow> string" where
  "status_string OK = ''ok''"
| "status_string NoMemory = ''no-memory''"
| "status_string InvalidOperation = ''invalid-operation''"
| "status_string BadValue = ''bad-value''"
| "status_string BadType = ''bad-type''"
| "status_string NameNotFound = ''name-not-found''"
| "status_string PermissionDenied = ''permission-denied''"
| "status_string NoInit = ''no-init''"
| "status_string AlreadyExists = ''already-exists''"
| "status_string DeadObject = ''dead-object''"
| "status_string FailedTransaction = ''failed-transaction''"
| "status_string BadIndex = ''bad-index''"
| "status_string NotEnoughData = ''not-enough-data''"
| "status_string WouldBlock = ''would-block''"
| "status_string TimedOut = ''timed-out''"
| "status_string UnknownTransaction = ''unknown-transaction''"
| "status_string FdsNotAllowed = ''fds-not-allowed''"
| "status_string UnexpectedNull = ''unexpected-null''"
| "status_string _ = ''unknown-error''"

section \<open>Messages\<close>

datatype msg_type =
    TUnknown | TTransaction | TTransactionReply | TAcquire | TRelease
  | TRequestDeathNotification | TClearDeathNotification | TDeadBinder
  | TSetContextMgr | TSetMonitor | TVersion | TLogEntry | TStatus
  | TOther u32

fun type_code :: "msg_type \<Rightarrow> u32" where
  "type_code TUnknown = 0"
| "type_code TTransaction = 1"
| "type_code TTransactionReply = 2"
| "type_code TAcquire = 3"
| "type_code TRelease = 4"
| "type_code TRequestDeathNotification = 5"
| "type_code TClearDeathNotification = 6"
| "type_code TDeadBinder = 7"
| "type_code TSetContextMgr = 8"
| "type_code TSetMonitor = 9"
| "type_code TVersion = 10"
| "type_code TLogEntry = 11"
| "type_code TStatus = 12"
| "type_code (TOther c) = c"

definition known_types :: "msg_type list" where
  "known_types =
     [TUnknown, TTransaction, TTransactionReply, TAcquire, TRelease,
      TRequestDeathNotification, TClearDeathNotification, TDeadBinder,
      TSetContextMgr, TSetMonitor, TVersion, TLogEntry, TStatus]"

definition type_of :: "u32 \<Rightarrow> msg_type" where
  "type_of c =
     (case find (\<lambda>t. type_code t = c) known_types of Some t \<Rightarrow> t | None \<Rightarrow> TOther c)"

text \<open>\<^verbatim>\<open>operator<<\<close>; the switch has no case for \<open>TSetMonitor\<close>.\<close>

fun type_string :: "msg_type \<Rightarrow> string" where
  "type_string TUnknown = ''unknown''"
| "type_string TTransaction = ''transaction''"
| "type_string TTransactionReply = ''transaction-reply''"
| "type_string TAcquire = ''acquire''"
| "type_string TRelease = ''release''"
| "type_string TRequestDeathNotification = ''request-death-notification''"
| "type_string TClearDeathNotification = ''clear-death-notification''"
| "type_string TDeadBinder = ''dead-binder''"
| "type_string TSetContextMgr = ''set-context-mgr''"
| "type_string TVersion = ''version''"
| "type_string TLogEntry = ''log-entry''"
| "type_string TStatus = ''status''"
| "type_string _ = []"

record message =
  mtype :: msg_type
  mcookie :: u64
  mdestination :: u64
  mdata :: buffer

definition Message_Create :: "msg_type \<Rightarrow> message" where
  "Message_Create t = \<lparr>mtype = t, mcookie = 0, mdestination = 0, mdata = empty_buffer\<rparr>"

definition SetCookie :: "u64 \<Rightarrow> message \<Rightarrow> message" where
  "SetCookie c m = m\<lparr>mcookie := c\<rparr>"

definition SetDestination :: "u64 \<Rightarrow> message \<Rightarrow> message" where
  "SetDestination d m = m\<lparr>mdestination := d\<rparr>"

definition Message_GetReader :: "message \<Rightarrow> reader" where
  "Message_GetReader m = BinaryReader (mdata m) 0"

definition Message_GetWriter :: "message \<Rightarrow> writer" where
  "Message_GetWriter m = BinaryWriter (mdata m)"

text \<open>A writer shares the message's buffer: what it writes is in the message.\<close>

definition Message_write :: "(writer \<Rightarrow> writer res) \<Rightarrow> message \<Rightarrow> message res" where
  "Message_write f m =
     bindR (f (Message_GetWriter m)) (\<lambda>w. Inr (m\<lparr>mdata := writer_Finalize w\<rparr>))"

definition Unpack :: "buffer \<Rightarrow> nat \<Rightarrow> (message \<times> nat) res" where
  "Unpack data offset =
     bindR (ReadUint32 (BinaryReader data offset)) (\<lambda>(t, reader).
     bindR (ReadUint64 reader) (\<lambda>(destination, reader).
     bindR (ReadUint64 reader) (\<lambda>(cookie, reader).
     bindR (ReadSizedData reader) (\<lambda>(d, reader).
     Inr (\<lparr>mtype = type_of t, mcookie = cookie, mdestination = destination, mdata = d\<rparr>,
          GetBytesRead reader)))))"

definition CreateFromData :: "buffer \<Rightarrow> nat \<Rightarrow> message res" where
  "CreateFromData data offset = bindR (Unpack data offset) (\<lambda>(m, n). Inr m)"

definition Pack :: "allocator \<Rightarrow> message \<Rightarrow> buffer res" where
  "Pack a m =
     bindR (CreateBufferWithSize a 0) (\<lambda>data.
     bindR (WriteUint32 a (type_code (mtype m)) (BinaryWriter data)) (\<lambda>writer.
     bindR (WriteUint64 a (mdestination m) writer) (\<lambda>writer.
     bindR (WriteUint64 a (mcookie m) writer) (\<lambda>writer.
     bindR (WriteSizedData a (bdata (mdata m)) writer) (\<lambda>writer.
     Inr (writer_Finalize writer))))))"

section \<open>The parser\<close>

record parser =
  pbuffer :: buffer
  bytes_available :: nat
  consumed :: nat

definition MessageParser :: "buffer \<Rightarrow> nat \<Rightarrow> parser" where
  "MessageParser b n = \<lparr>pbuffer = b, bytes_available = n, consumed = 0\<rparr>"

definition Parser_Next :: "parser \<Rightarrow> (message option \<times> parser) res" where
  "Parser_Next p =
     (if consumed p \<ge> bytes_available p then Inr (None, p)
      else bindR (Unpack (pbuffer p) (consumed p)) (\<lambda>(msg, used).
        if used = 0 then Inr (None, p)
        else Inr (Some msg, p\<lparr>consumed := consumed p + used\<rparr>)))"

text \<open>\<^verbatim>\<open>while (auto msg = parser.Next())\<close>: the messages a loop over the parser sees.\<close>

lemma ReadValue_pos: "ReadValue n r = Inr (v, r') \<Longrightarrow> rpos r' = rpos r + n"
  by (auto simp: ReadValue_def split: if_splits)

lemma ReadData_pos: "ReadData n r = Inr (b, r') \<Longrightarrow> rpos r \<le> rpos r'"
  by (auto simp: ReadData_def bindR_Inr_iff split: if_splits)

lemma Unpack_pos: "Unpack data offset = Inr (m, n) \<Longrightarrow> offset + 24 \<le> n"
  by (auto simp: Unpack_def bindR_Inr_iff ReadSizedData_def Read_defs GetBytesRead_def
      BinaryReader_def dest!: ReadValue_pos ReadData_pos)

lemma Parser_Next_consumes:
  assumes "Parser_Next p = Inr (Some m, p')"
  shows "consumed p < bytes_available p" and "consumed p < consumed p'"
    and "pbuffer p' = pbuffer p" and "bytes_available p' = bytes_available p"
  using assms by (auto simp: Parser_Next_def bindR_Inr_iff split: if_splits dest!: Unpack_pos)

function Parser_messages :: "parser \<Rightarrow> message list res" where
  "Parser_messages p =
     (case Parser_Next p of
        Inl e \<Rightarrow> Inl e
      | Inr (None, _) \<Rightarrow> Inr []
      | Inr (Some m, p') \<Rightarrow> bindR (Parser_messages p') (\<lambda>ms. Inr (m # ms)))"
  by pat_completeness auto
termination
proof (relation "measure (\<lambda>p. bytes_available p - consumed p)")
  fix p :: parser and r n p' m
  assume "Parser_Next p = Inr r" and "(n, p') = r" and "n = Some m"
  then have "Parser_Next p = Inr (Some m, p')" by simp
  note Parser_Next_consumes [OF this]
  then show "(p', p) \<in> measure (\<lambda>p. bytes_available p - consumed p)" by simp
qed simp

declare Parser_messages.simps [simp del]

section \<open>Lemmas on codes\<close>

lemma distinct_status_codes: "distinct (map status_code enumerators)"
  by (simp add: enumerators_def)

lemma status_of_code: "s \<in> set enumerators \<Longrightarrow> status_of (status_code s) = s"
  by (simp add: status_of_def find_code [OF distinct_status_codes])

lemma status_code_status_of: "status_code (status_of c) = c"
proof (cases "find (\<lambda>s. status_code s = c) enumerators")
  case None
  then show ?thesis by (simp add: status_of_def)
next
  case (Some s)
  then have "status_of c = s" by (simp add: status_of_def)
  moreover have "status_code s = c" using Some by (auto simp: find_Some_iff)
  ultimately show ?thesis by simp
qed

lemma distinct_type_codes: "distinct (map type_code known_types)"
  by (simp add: known_types_def)

lemma type_of_code: "t \<in> set known_types \<Longrightarrow> type_of (type_code t) = t"
  by (simp add: type_of_def find_code [OF distinct_type_codes])

lemma type_code_small: "t \<in> set known_types \<Longrightarrow> unat (type_code t) < 256"
  by (auto simp: known_types_def)

lemma type_of_low_byte_code: "t \<in> set known_types \<Longrightarrow> type_of (low_byte (type_code t)) = t"
  by (simp add: low_byte_id type_code_small type_of_code)

section \<open>Packing and unpacking\<close>

definition packed :: "message \<Rightarrow> byte list" where
  "packed m = le_bytes 4 (type_code (mtype m)) @ le_bytes 8 (mdestination m) @
     le_bytes 8 (mcookie m) @ le_bytes 4 (of_nat (length (bdata (mdata m))) :: u32) @
     padded_bytes True (bdata (mdata m))"

lemma length_packed: "length (packed m) = 24 + padded_len (length (bdata (mdata m)))"
  by (simp add: packed_def)

lemma appending_new: "appending (BinaryWriter empty_buffer)"
  by (simp add: appending_def BinaryWriter_def)

lemma Pack_eq:
  assumes "total_alloc a" and "length (bdata (mdata m)) \<le> 2147483647"
  shows "Pack a m = Inr \<lparr>bdata = packed m, immutable = False\<rparr>"
proof -
  have "use_padding (BinaryWriter empty_buffer)" by (simp add: BinaryWriter_def)
  then show ?thesis
    using assms appending_new
    by (simp add: Pack_def Write_defs wire writer_Finalize_def packed_def)
      (simp add: wappend_def BinaryWriter_def)
qed

text \<open>What the receiver of a packed message gets: every number reduced to its lowest
  byte, and the data cut to its length modulo 256.\<close>

definition truncated :: "message \<Rightarrow> message" where
  "truncated m =
     (let d = bdata (mdata m); n = length d mod 256 in
      \<lparr>mtype = type_of (low_byte (type_code (mtype m))), mcookie = low_byte (mcookie m),
       mdestination = low_byte (mdestination m),
       mdata = (if n = 0 then empty_buffer else Buffer_view (take n d))\<rparr>)"

lemma Unpack_packed:
  assumes "bdata b = pre @ packed m @ post" and "offset = length pre"
  shows "Unpack b offset =
     Inr (truncated m, offset + 24 + padded_len (length (bdata (mdata m)) mod 256))"
proof -
  let ?r = "BinaryReader b offset" and ?d = "bdata (mdata m)"
  have r: "reader_ok ?r" "rest ?r = packed m @ post" "ruse_padding ?r" "rpos ?r = offset"
    using assms by (simp_all add: reader_ok_def rest_def BinaryReader_def)
  have t: "ReadUint32 ?r = Inr (low_byte (type_code (mtype m)), adv 4 ?r)"
    using r by (simp add: Read_defs ReadValue_le_bytes packed_def)
  have d: "ReadUint64 (adv 4 ?r) = Inr (low_byte (mdestination m), adv 12 ?r)"
    using r by (simp add: Read_defs ReadValue_le_bytes packed_def)
  have c: "ReadUint64 (adv 12 ?r) = Inr (low_byte (mcookie m), adv 20 ?r)"
    using r by (simp add: Read_defs ReadValue_le_bytes packed_def)
  have ok: "reader_ok (adv 20 ?r)"
    using r by (simp add: length_packed)
  have rest: "rest (adv 20 ?r) = le_bytes 4 (of_nat (length ?d) :: u32) @
      padded_bytes (ruse_padding (adv 20 ?r)) ?d @ post"
    using r by (simp add: packed_def)
  show ?thesis
    using t d c ReadSizedData_sized [OF ok rest] r
    by (simp add: Unpack_def GetBytesRead_def truncated_def Let_def)
qed

lemma truncated_id:
  assumes "mtype m \<in> set known_types" and "unat (mcookie m) < 256" and "unat (mdestination m) < 256"
    and "length (bdata (mdata m)) < 256"
  shows "mtype (truncated m) = mtype m" and "mcookie (truncated m) = mcookie m"
    and "mdestination (truncated m) = mdestination m"
    and "bdata (mdata (truncated m)) = bdata (mdata m)"
  using assms by (auto simp: truncated_def Let_def type_of_low_byte_code low_byte_id Buffer_view_def)

section \<open>Freshly written messages\<close>

definition fresh_message :: "msg_type \<Rightarrow> u64 \<Rightarrow> u64 \<Rightarrow> byte list \<Rightarrow> message" where
  "fresh_message t c d bs =
     \<lparr>mtype = t, mcookie = c, mdestination = d, mdata = \<lparr>bdata = bs, immutable = False\<rparr>\<rparr>"

definition status_reply :: "u64 \<Rightarrow> status \<Rightarrow> message" where
  "status_reply c st = fresh_message TStatus c 0 (le_bytes 4 (status_code st))"

text \<open>The bound keeps the packed form of a message, and of its log entry, under the
  writer's limit of \<^verbatim>\<open>INT32_MAX\<close> bytes.\<close>

definition fits :: "message \<Rightarrow> bool" where
  "fits msg \<longleftrightarrow> length (bdata (mdata msg)) \<le> 2147483000"

lemma Message_write_run:
  assumes "total_alloc a" and "length d \<le> 2147483647"
  shows "Message_write (WriteSizedData a d) (fresh_message t c ds []) =
      Inr (fresh_message t c ds (le_bytes 4 (of_nat (length d) :: u32) @ padded_bytes True d))"
    and "Message_write (WriteData a d) (fresh_message t c ds []) =
      Inr (fresh_message t c ds (padded_bytes True d))"
    and "Message_write (WriteInt32 a v) (fresh_message t c ds []) =
      Inr (fresh_message t c ds (le_bytes 4 v))"
    and "Message_write (\<lambda>w. bindR (WriteUint64 a p w) (WriteUint64 a q)) (fresh_message t c ds []) =
      Inr (fresh_message t c ds (le_bytes 8 p @ le_bytes 8 q))"
  using assms appending_new
  by (simp_all add: Message_write_def Message_GetWriter_def fresh_message_def Write_defs wire
      writer_Finalize_def)
    (simp_all add: BinaryWriter_def wappend_def)

lemma Message_Create_fresh: "Message_Create t = fresh_message t 0 0 []"
  by (simp add: Message_Create_def fresh_message_def)

lemma fresh_message_set [simp]:
  "SetCookie c (fresh_message t c' d bs) = fresh_message t c d bs"
  "SetDestination d (fresh_message t c d' bs) = fresh_message t c d bs"
  "mcookie (fresh_message t c d bs) = c" "mdestination (fresh_message t c d bs) = d"
  "mtype (fresh_message t c d bs) = t" "bdata (mdata (fresh_message t c d bs)) = bs"
  by (simp_all add: SetCookie_def SetDestination_def fresh_message_def)

lemma fits_packed: "fits msg \<Longrightarrow> length (packed msg) \<le> 2147483640"
  using padded_len_bounds(2) [of "length (bdata (mdata msg))"]
  by (simp add: fits_def length_packed)

section \<open>What the parser sees\<close>

lemma Parser_Next_packed:
  assumes "bdata (pbuffer p) = pre @ packed m @ post" and "consumed p = length pre"
    and "length pre < bytes_available p" and "length (bdata (mdata m)) < 256"
  shows "Parser_Next p =
    Inr (Some (truncated m), p\<lparr>consumed := length pre + (length pre + length (packed m))\<rparr>)"
  using assms Unpack_packed [OF assms(1), of "consumed p"]
  by (simp add: Parser_Next_def length_packed)

lemma Parser_Next_end: "bytes_available p \<le> consumed p \<Longrightarrow> Parser_Next p = Inr (None, p)"
  by (simp add: Parser_Next_def)

lemma packed_not_Nil [simp]: "packed m \<noteq> []"
  using length_packed [of m] by auto

lemma Parser_one:
  assumes "bdata b = packed m" and "length (bdata (mdata m)) < 256"
  shows "Parser_messages (MessageParser b (buffer_GetSize b)) = Inr [truncated m]"
proof -
  have "Parser_Next (MessageParser b (buffer_GetSize b)) =
      Inr (Some (truncated m), (MessageParser b (buffer_GetSize b))\<lparr>consumed := length (packed m)\<rparr>)"
    using assms Parser_Next_packed [of "MessageParser b (buffer_GetSize b)" "[]" m "[]"]
    by (simp add: MessageParser_def buffer_GetSize_def)
  moreover have "Parser_messages ((MessageParser b (buffer_GetSize b))\<lparr>consumed := length (packed m)\<rparr>) = Inr []"
    using assms
    by (subst Parser_messages.simps) (simp add: Parser_Next_end MessageParser_def buffer_GetSize_def)
  ultimately show ?thesis by (subst Parser_messages.simps) simp
qed

text \<open>The parser adds the absolute end of a message to the bytes it counts as consumed,
  so from the third message on it looks in the wrong place.\<close>

lemma Parser_two:
  assumes "bdata b = packed m1 @ packed m2 @ post" and "length post \<le> length (packed m1)"
    and "length (bdata (mdata m1)) < 256" and "length (bdata (mdata m2)) < 256"
  shows "Parser_messages (MessageParser b (buffer_GetSize b)) = Inr [truncated m1, truncated m2]"
proof -
  let ?p = "MessageParser b (buffer_GetSize b)" and ?n = "length (packed m1)"
  let ?p1 = "?p\<lparr>consumed := ?n\<rparr>" and ?p2 = "?p\<lparr>consumed := ?n + (?n + length (packed m2))\<rparr>"
  have 1: "Parser_Next ?p = Inr (Some (truncated m1), ?p1)"
    using assms Parser_Next_packed [of ?p "[]" m1 "packed m2 @ post"]
    by (simp add: MessageParser_def buffer_GetSize_def)
  have 2: "Parser_Next ?p1 = Inr (Some (truncated m2), ?p2)"
    using assms Parser_Next_packed [of ?p1 "packed m1" m2 post]
    by (simp add: MessageParser_def buffer_GetSize_def)
  have "Parser_Next ?p2 = Inr (None, ?p2)"
    using assms by (simp add: Parser_Next_end MessageParser_def buffer_GetSize_def)
  then have 3: "Parser_messages ?p2 = Inr []" by (subst Parser_messages.simps) simp
  have 4: "Parser_messages ?p1 = Inr [truncated m2]"
    by (subst Parser_messages.simps) (simp add: 2 3)
  show ?thesis by (subst Parser_messages.simps) (simp add: 1 4)
qed

text \<open>No number read from a buffer exceeds a byte.\<close>

lemma ReadValue_small: "ReadValue n r = Inr (v :: 'a::len word, r') \<Longrightarrow> 8 \<le> LENGTH('a) \<Longrightarrow> unat v < 256"
proof -
  assume r: "ReadValue n r = Inr (v, r')" and l: "8 \<le> LENGTH('a)"
  then have v: "v = ucast (rblock r ! rpos r)" by (auto simp: ReadValue_def split: if_splits)
  have "unat v \<le> unat (rblock r ! rpos r)" unfolding v unat_ucast_mod by simp
  then show "unat v < 256" using unat_byte_less [of "rblock r ! rpos r"] by linarith
qed

lemma Unpack_small:
  assumes "Unpack data offset = Inr (m, n)"
  shows "unat (mcookie m) < 256" and "unat (mdestination m) < 256" and "length (bdata (mdata m)) < 256"
proof -
  obtain t d c b r1 r2 r3 r4 where r: "ReadUint32 (BinaryReader data offset) = Inr (t, r1)"
    "ReadUint64 r1 = Inr (d, r2)" "ReadUint64 r2 = Inr (c, r3)" "ReadSizedData r3 = Inr (b, r4)"
    "m = \<lparr>mtype = type_of t, mcookie = c, mdestination = d, mdata = b\<rparr>"
    using assms by (auto simp: Unpack_def bindR_Inr_iff)
  show "unat (mcookie m) < 256" "unat (mdestination m) < 256"
    using r ReadValue_small [of 8 r1 d r2] ReadValue_small [of 8 r2 c r3] by (simp_all add: Read_defs)
  obtain sz r5 where sz: "ReadInt32 r3 = Inr (sz, r5)" "ReadData (unat (scast sz :: u64)) r5 = Inr (b, r4)"
    using r(4) by (auto simp: ReadSizedData_def bindR_Inr_iff)
  have "sz = low_byte (rblock r3 ! rpos r3)"
    using sz(1) by (auto simp: Read_defs ReadValue_def low_byte_def split: if_splits)
  then have "unat (scast sz :: u64) < 256" using unat_scast_low_byte [of "rblock r3 ! rpos r3"] by simp
  moreover have "length (bdata b) \<le> unat (scast sz :: u64)"
    using sz(2) by (auto simp: ReadData_def bindR_Inr_iff Buffer_view_def split: if_splits)
  ultimately show "length (bdata (mdata m)) < 256" using r(5) by simp
qed

lemma Parser_Next_small:
  assumes "Parser_Next p = Inr (Some m, p')"
  shows "unat (mcookie m) < 256" and "unat (mdestination m) < 256" and "length (bdata (mdata m)) < 256"
  using assms by (auto simp: Parser_Next_def bindR_Inr_iff split: if_splits dest: Unpack_small)

lemma Parser_messages_small:
  "Parser_messages p = Inr ms \<Longrightarrow> m \<in> set ms \<Longrightarrow> unat (mcookie m) < 256 \<and> length (bdata (mdata m)) < 256"
proof (induction p arbitrary: ms rule: Parser_messages.induct)
  case (1 p)
  show ?case
  proof (cases "Parser_Next p")
    case (Inr nx)
    obtain n p' where nx: "nx = (n, p')" by (cases nx)
    show ?thesis
    proof (cases n)
      case (Some m')
      then obtain ms' where ms': "Parser_messages p' = Inr ms'" "ms = m' # ms'"
        using 1(2) Inr nx by (subst (asm) Parser_messages.simps) (auto simp: bindR_Inr_iff)
      then show ?thesis
        using 1(1) [OF Inr nx [symmetric] Some ms'(1)] 1(3) Parser_Next_small [of p m' p'] Inr nx Some by auto
    qed (use 1(2,3) Inr nx in \<open>subst (asm) Parser_messages.simps, auto\<close>)
  qed (use 1(2,3) in \<open>subst (asm) Parser_messages.simps, auto\<close>)
qed

section \<open>Properties\<close>

text \<open>C21: a message of a known type whose cookie, destination and length each fit in a
  byte is read back as it was packed.\<close>

theorem Message_round_trip:
  assumes "total_alloc a" and "mtype m \<in> set known_types" and "unat (mcookie m) < 256"
    and "unat (mdestination m) < 256" and "length (bdata (mdata m)) < 256"
  shows "\<exists>b m'. Pack a m = Inr b \<and> CreateFromData b 0 = Inr m' \<and> mtype m' = mtype m \<and>
     mcookie m' = mcookie m \<and> mdestination m' = mdestination m \<and>
     bdata (mdata m') = bdata (mdata m)"
  using assms truncated_id [OF assms(2-5)]
    Unpack_packed [of "\<lparr>bdata = packed m, immutable = False\<rparr>" "[]" m "[]" 0]
  by (simp add: Pack_eq CreateFromData_def)

theorem Message_round_trip_witness:
  "let m = SetCookie 7 (SetDestination 3 (Message_Create TTransaction)) in
   \<exists>b m'. Pack plain_alloc m = Inr b \<and> CreateFromData b 0 = Inr m' \<and> mtype m' = TTransaction \<and>
     mcookie m' = 7 \<and> mdestination m' = 3 \<and> bdata (mdata m') = []"
  using Message_round_trip [of plain_alloc "SetCookie 7 (SetDestination 3 (Message_Create TTransaction))"]
  by (simp add: SetCookie_def SetDestination_def Message_Create_def known_types_def)

text \<open>what is read back of any message: every number of the header is reduced to its
  lowest byte and the data to a prefix of its length modulo 256.\<close>

theorem Message_read_back:
  assumes "total_alloc a" and "length (bdata (mdata m)) \<le> 2147483647"
  shows "bindR (Pack a m) (\<lambda>b. Unpack b 0) =
     Inr (truncated m, 24 + padded_len (length (bdata (mdata m)) mod 256))"
  using assms Unpack_packed [of "\<lparr>bdata = packed m, immutable = False\<rparr>" "[]" m "[]" 0]
  by (simp add: Pack_eq)

theorem Message_read_back_witness:
  "\<exists>m' n. bindR (Pack plain_alloc (SetCookie 256 (Message_Create TStatus))) (\<lambda>b. Unpack b 0) =
     Inr (m', n) \<and> mcookie m' = 0 \<and> mtype m' = TStatus"
  using Message_read_back [of plain_alloc "SetCookie 256 (Message_Create TStatus)"]
    type_of_low_byte_code [of TStatus]
  by (simp add: SetCookie_def Message_Create_def truncated_def low_byte_def known_types_def)

text \<open>a received buffer with one message gives that message and nothing else; the
  loop over the parser ends.\<close>

theorem Parser_single_message:
  assumes "bdata b = packed m" and "length (bdata (mdata m)) < 256"
  shows "Parser_messages (MessageParser b (buffer_GetSize b)) = Inr [truncated m]"
  using assms by (rule Parser_one)

theorem Parser_single_message_witness:
  "Parser_messages (MessageParser (Buffer_view (packed (Message_Create TStatus)))
     (buffer_GetSize (Buffer_view (packed (Message_Create TStatus))))) =
   Inr [truncated (Message_Create TStatus)]"
  using Parser_single_message [of "Buffer_view (packed (Message_Create TStatus))" "Message_Create TStatus"]
  by (simp add: Buffer_view_def Message_Create_def)

text \<open>of three messages in one buffer the third is never seen when it is not longer
  than the first: the parser counts the first message twice.\<close>

theorem Parser_loses_third:
  assumes "bdata b = packed m1 @ packed m2 @ packed m3"
    and "length (packed m3) \<le> length (packed m1)"
    and "length (bdata (mdata m1)) < 256" and "length (bdata (mdata m2)) < 256"
  shows "Parser_messages (MessageParser b (buffer_GetSize b)) = Inr [truncated m1, truncated m2]"
  using assms by (rule Parser_two)

theorem Parser_loses_third_witness:
  "let m = Message_Create TStatus; b = Buffer_view (packed m @ packed m @ packed m) in
   Parser_messages (MessageParser b (buffer_GetSize b)) = Inr [truncated m, truncated m]"
  using Parser_loses_third [of "Buffer_view (packed (Message_Create TStatus) @
      packed (Message_Create TStatus) @ packed (Message_Create TStatus))"
      "Message_Create TStatus" "Message_Create TStatus" "Message_Create TStatus"]
  by (simp add: Buffer_view_def Message_Create_def)

text \<open>the enumerators of \<open>Status\<close> have pairwise different codes, so that a status sent
  as a number is recovered from it, and any 32-bit number survives the cast to
  \<open>Status\<close> and back.\<close>

theorem status_code_round_trip:
  "status_code (status_of c) = c \<and> (\<forall>st. st \<in> set enumerators \<longrightarrow> status_of (status_code st) = st)"
  by (simp add: status_code_status_of status_of_code)

theorem status_code_round_trip_witness:
  "status_of (status_code BadIndex) = BadIndex \<and> status_code (status_of 5) = 5"
  using status_code_round_trip [of 5] by (simp add: enumerators_def)

end
