(* ===== verification/Transaction_Data.thy ===== *)
theory Transaction_Data
  imports Message
begin

text \<open>
  \<^verbatim>\<open>src/src/binderd/transaction_data.cpp\<close> and the classes that implement its
  interface (\<^verbatim>\<open>writable_transaction_data.cpp\<close>,
  \<^verbatim>\<open>transaction_data_from_message.cpp\<close>, \<^verbatim>\<open>transaction_status.cpp\<close>), and the
  fields of \<^verbatim>\<open>struct flat_binder_object\<close> the parcels carry.
\<close>

unbundle bit_operations_syntax

section \<open>Object references in a parcel\<close>

definition PACK_CHARS :: "u32 \<Rightarrow> u32 \<Rightarrow> u32 \<Rightarrow> u32 \<Rightarrow> u32" where
  "PACK_CHARS c1 c2 c3 c4 = push_bit 24 c1 OR push_bit 16 c2 OR push_bit 8 c3 OR c4"

definition B_TYPE_LARGE :: u32 where
  "B_TYPE_LARGE = 0x85"

text \<open>The character codes are those of \<open>s\<close>, \<open>w\<close>, \<open>f\<close>, \<open>b\<close>, \<open>h\<close>, \<open>d\<close> and the
  asterisk.\<close>

definition BINDER_TYPE_BINDER :: u32 where
  "BINDER_TYPE_BINDER = PACK_CHARS 0x73 0x62 0x2a B_TYPE_LARGE"

definition BINDER_TYPE_WEAK_BINDER :: u32 where
  "BINDER_TYPE_WEAK_BINDER = PACK_CHARS 0x77 0x62 0x2a B_TYPE_LARGE"

definition BINDER_TYPE_HANDLE :: u32 where
  "BINDER_TYPE_HANDLE = PACK_CHARS 0x73 0x68 0x2a B_TYPE_LARGE"

definition BINDER_TYPE_WEAK_HANDLE :: u32 where
  "BINDER_TYPE_WEAK_HANDLE = PACK_CHARS 0x77 0x68 0x2a B_TYPE_LARGE"

definition BINDER_TYPE_FD :: u32 where
  "BINDER_TYPE_FD = PACK_CHARS 0x66 0x64 0x2a B_TYPE_LARGE"

lemma binder_type_values [simp]:
  "BINDER_TYPE_BINDER = 0x73622a85" "BINDER_TYPE_WEAK_BINDER = 0x77622a85"
  "BINDER_TYPE_HANDLE = 0x73682a85" "BINDER_TYPE_WEAK_HANDLE = 0x77682a85"
  "BINDER_TYPE_FD = 0x66642a85"
  by (simp_all add: BINDER_TYPE_BINDER_def BINDER_TYPE_WEAK_BINDER_def BINDER_TYPE_HANDLE_def
      BINDER_TYPE_WEAK_HANDLE_def BINDER_TYPE_FD_def PACK_CHARS_def B_TYPE_LARGE_def)

text \<open>The layout of \<^verbatim>\<open>struct flat_binder_object\<close>: 24 bytes, the pointer and the
  handle share the second quarter.\<close>

abbreviation (input) flat_size :: nat where "flat_size \<equiv> 24"

definition flat_type :: "nat \<Rightarrow> byte list \<Rightarrow> u32 res" where
  "flat_type off b = load off 4 b"

definition flat_ptr :: "nat \<Rightarrow> byte list \<Rightarrow> u64 res" where
  "flat_ptr off b = load (off + 8) 8 b"

definition flat_handle :: "nat \<Rightarrow> byte list \<Rightarrow> u32 res" where
  "flat_handle off b = load (off + 8) 4 b"

definition flat_cookie :: "nat \<Rightarrow> byte list \<Rightarrow> u64 res" where
  "flat_cookie off b = load (off + 16) 8 b"

definition set_flat_type :: "nat \<Rightarrow> u32 \<Rightarrow> byte list \<Rightarrow> byte list res" where
  "set_flat_type off v b = store off 4 v b"

definition set_flat_ptr :: "nat \<Rightarrow> u64 \<Rightarrow> byte list \<Rightarrow> byte list res" where
  "set_flat_ptr off v b = store (off + 8) 8 v b"

definition set_flat_handle :: "nat \<Rightarrow> u32 \<Rightarrow> byte list \<Rightarrow> byte list res" where
  "set_flat_handle off v b = store (off + 8) 4 v b"

definition set_flat_cookie :: "nat \<Rightarrow> u64 \<Rightarrow> byte list \<Rightarrow> byte list res" where
  "set_flat_cookie off v b = store (off + 16) 8 v b"

lemmas flat_defs = flat_type_def flat_ptr_def flat_handle_def flat_cookie_def
  set_flat_type_def set_flat_ptr_def set_flat_handle_def set_flat_cookie_def

text \<open>The four assignments with which an object reference is rewritten.\<close>

definition flat_rewrite :: "nat \<Rightarrow> u32 \<Rightarrow> u64 \<Rightarrow> u64 \<Rightarrow> u32 \<Rightarrow> byte list \<Rightarrow> byte list res" where
  "flat_rewrite p t q c h b =
     bindR (set_flat_type p t b) (\<lambda>b.
     bindR (set_flat_ptr p q b) (\<lambda>b.
     bindR (set_flat_cookie p c b) (set_flat_handle p h)))"

lemma flat_rewrite_ok:
  assumes "p + 24 \<le> length b"
  obtains b' where "flat_rewrite p t q c h b = Inr b'" and "length b' = length b"
    and "flat_type p b' = Inr t" and "flat_handle p b' = Inr h" and "flat_cookie p b' = Inr c"
    and "flat_ptr p b' = Inr (ucast h OR push_bit 32 (drop_bit 32 q))"
    and "\<And>off n. off + n \<le> p \<or> p + 24 \<le> off \<Longrightarrow> mem_read off n b' = mem_read off n b"
proof -
  obtain b1 where 1: "store p 4 t b = Inr b1" using store_ok [of p 4 b t] assms by auto
  have l1: "length b1 = length b" using 1 by (rule store_length)
  obtain b2 where 2: "store (p + 8) 8 q b1 = Inr b2" using store_ok [of "p + 8" 8 b1 q] assms l1 by auto
  have l2: "length b2 = length b" using store_length [OF 2] l1 by simp
  obtain b3 where 3: "store (p + 16) 8 c b2 = Inr b3" using store_ok [of "p + 16" 8 b2 c] assms l2 by auto
  have l3: "length b3 = length b" using store_length [OF 3] l2 by simp
  obtain b4 where 4: "store (p + 8) 4 h b3 = Inr b4" using store_ok [of "p + 8" 4 b3 h] assms l3 by auto
  note other = load_store_other [OF 4] load_store_other [OF 3] load_store_other [OF 2] load_store_other [OF 1]
  note mother = mem_read_store_other [OF 4] mem_read_store_other [OF 3] mem_read_store_other [OF 2]
    mem_read_store_other [OF 1]
  have "mem_read (p + 8) 8 b3 = Inr (le_bytes 8 q)"
    using mem_read_write_same [OF 2 [unfolded store_def]] by (simp add: mother)
  then have "mem_read (p + 8 + 4) 4 b4 = Inr (drop 4 (le_bytes 8 q))"
    using mem_read_part [of "p + 8" 8 b3 _ 4 4] by (simp add: mother)
  moreover have "mem_read (p + 8) 4 b4 = Inr (le_bytes 4 h)"
    using mem_read_write_same [OF 4 [unfolded store_def]] by simp
  ultimately have m: "mem_read (p + 8) 8 b4 = Inr (le_bytes 4 h @ drop 4 (le_bytes 8 q))"
    using mem_read_append [of "p + 8" 4 b4 _ 4] by simp
  have h: "(le_word (le_bytes 4 h) :: u64) = ucast h"
    by (rule bit_word_eqI) (auto simp: bit_le_word_le_bytes bit_simps dest: bit_imp_le_length)
  have q: "(le_word (drop 4 (le_bytes 8 q)) :: u64) = drop_bit 32 q"
    by (rule bit_word_eqI)
      (auto simp: drop_le_bytes bit_le_word_le_bytes bit_simps dest: bit_imp_le_length)
  show thesis
  proof (rule that)
    show "flat_rewrite p t q c h b = Inr b4" using 1 2 3 4 by (simp add: flat_rewrite_def flat_defs)
    show "length b4 = length b" using store_length [OF 4] l3 by simp
    show "flat_type p b4 = Inr t" using load_store_same [OF 1] by (simp add: flat_defs other)
    show "flat_handle p b4 = Inr h" using load_store_same [OF 4] by (simp add: flat_defs)
    show "flat_cookie p b4 = Inr c" using load_store_same [OF 3] by (simp add: flat_defs other)
    show "flat_ptr p b4 = Inr (ucast h OR push_bit 32 (drop_bit 32 q))"
      using m by (simp add: flat_defs load_def le_word_append h q)
    show "mem_read off n b4 = mem_read off n b" if "off + n \<le> p \<or> p + 24 \<le> off" for off n
      using that by (auto simp: mother)
  qed
qed
text \<open>An object within a larger block.\<close>

lemma store_inside:
  assumes "p + n \<le> length d" and "length pre = k"
  shows "store (k + p) n w (pre @ d @ post) = bindR (store p n w d) (\<lambda>d'. Inr (pre @ d' @ post))"
  using assms by (simp add: store_def mem_write_def)

lemma flat_rewrite_inside:
  assumes "p + 24 \<le> length d" and "length pre = k"
  shows "flat_rewrite (k + p) t q c h (pre @ d @ post) = bindR (flat_rewrite p t q c h d) (\<lambda>d'. Inr (pre @ d' @ post))"
proof -
  obtain d1 where 1: "store p 4 t d = Inr d1" using store_ok [of p 4 d t] assms(1) by auto
  obtain d2 where 2: "store (p + 8) 8 q d1 = Inr d2" using store_ok [of "p + 8" 8 d1 q] store_length [OF 1] assms(1) by auto
  obtain d3 where 3: "store (p + 16) 8 c d2 = Inr d3"
    using store_ok [of "p + 16" 8 d2 c] store_length [OF 1] store_length [OF 2] assms(1) by auto
  have l: "length d1 = length d" "length d2 = length d" "length d3 = length d"
    using store_length [OF 1] store_length [OF 2] store_length [OF 3] by simp_all
  show ?thesis
    using 1 2 3 l assms store_inside [of p 4 d pre k t post] store_inside [of "p + 8" 8 d1 pre k q post]
      store_inside [of "p + 16" 8 d2 pre k c post] store_inside [of "p + 8" 4 d3 pre k h post]
    by (simp add: flat_rewrite_def flat_defs add.assoc)
qed

section \<open>The interface\<close>

text \<open>
  One record for what the virtual functions of \<^verbatim>\<open>TransactionData\<close> return.
  \<open>td_block\<close> is the allocation that holds the data, \<open>td_base\<close> the place
  \<^verbatim>\<open>GetData\<close> points to; the offset array lies in the same block or in one of its
  own. \<open>td_readable\<close> and \<open>td_writable\<close> say that \<^verbatim>\<open>GetData\<close> and
  \<^verbatim>\<open>GetMutableData\<close> are not null.
\<close>

datatype offsets = InBlock nat | Separate "byte list"

record transaction_data =
  td_ptr :: u64
  td_cookie :: u64
  td_code :: u32
  td_one_way :: bool
  td_has_status :: bool
  td_block :: "byte list"
  td_base :: nat
  td_size :: nat
  td_readable :: bool
  td_writable :: bool
  td_offsets :: offsets
  td_count :: nat

definition GetData_bytes :: "transaction_data \<Rightarrow> byte list res" where
  "GetData_bytes td = mem_read (td_base td) (td_size td) (td_block td)"

definition GetObjectOffsets_bytes :: "transaction_data \<Rightarrow> byte list res" where
  "GetObjectOffsets_bytes td =
     (case td_offsets td of
        InBlock ob \<Rightarrow> mem_read ob (8 * td_count td) (td_block td)
      | Separate os \<Rightarrow> mem_read 0 (8 * td_count td) os)"

text \<open>\<^verbatim>\<open>*current\<close> in the loops over the offset array: the byte the pointer is at.\<close>

definition object_offset :: "transaction_data \<Rightarrow> nat \<Rightarrow> nat res" where
  "object_offset td i =
     bindR (case td_offsets td of
              InBlock ob \<Rightarrow> load (ob + 8 * i) 1 (td_block td)
            | Separate os \<Rightarrow> load (8 * i) 1 os)
       (\<lambda>b. Inr (unat (b :: byte)))"

text \<open>\<open>GetStatus\<close>: the first four bytes of the data as an \<^verbatim>\<open>int32_t\<close>.\<close>

definition GetStatus :: "transaction_data \<Rightarrow> status res" where
  "GetStatus td =
     (if td_readable td then bindR (load (td_base td) 4 (td_block td)) (\<lambda>c. Inr (status_of c))
      else Inl MemFault)"

text \<open>\<^verbatim>\<open>TransactionData::Flags\<close> and \<^verbatim>\<open>Pack\<close>\<close>

abbreviation (input) flag_OneWay :: u32 where "flag_OneWay \<equiv> 0x1"
abbreviation (input) flag_HasStatus :: u32 where "flag_HasStatus \<equiv> 0x8"
abbreviation (input) flag_AcceptFds :: u32 where "flag_AcceptFds \<equiv> 0x10"

definition td_flags :: "transaction_data \<Rightarrow> u32" where
  "td_flags td =
     (let flags = flag_AcceptFds;
          flags = (if td_one_way td then flags OR flag_OneWay else flags);
          flags = (if td_has_status td then flags OR flag_HasStatus else flags)
      in flags)"

definition TransactionData_Pack :: "allocator \<Rightarrow> transaction_data \<Rightarrow> buffer res" where
  "TransactionData_Pack a td =
     bindR (CreateBufferWithSize a 0) (\<lambda>b.
     bindR (WriteUint64 a (td_ptr td) (writer_SetPadding False (BinaryWriter b))) (\<lambda>writer.
     bindR (WriteUint64 a (td_cookie td) writer) (\<lambda>writer.
     bindR (WriteUint32 a (td_code td) writer) (\<lambda>writer.
     bindR (WriteUint32 a (td_flags td) writer) (\<lambda>writer.
     bindR (GetData_bytes td) (\<lambda>data.
     bindR (WriteSizedData a data writer) (\<lambda>writer.
     bindR (GetObjectOffsets_bytes td) (\<lambda>objects.
     bindR (WriteSizedData a objects writer) (\<lambda>writer.
     Inr (writer_Finalize writer))))))))))"

section \<open>The implementations\<close>

text \<open>\<open>WritableTransactionData\<close> with its two buffers, either of which may be absent.\<close>

definition WritableTransactionData ::
    "u64 \<Rightarrow> u64 \<Rightarrow> u32 \<Rightarrow> bool \<Rightarrow> buffer option \<Rightarrow> buffer option \<Rightarrow> transaction_data" where
  "WritableTransactionData p c code one_way data objects =
     \<lparr>td_ptr = p, td_cookie = c, td_code = code, td_one_way = one_way, td_has_status = False,
      td_block = (case data of None \<Rightarrow> [] | Some b \<Rightarrow> bdata b), td_base = 0,
      td_size = (case data of None \<Rightarrow> 0 | Some b \<Rightarrow> buffer_GetSize b),
      td_readable = (case data of None \<Rightarrow> False | Some b \<Rightarrow> bdata b \<noteq> []),
      td_writable = (case data of None \<Rightarrow> False | Some b \<Rightarrow> bdata b \<noteq> []),
      td_offsets = Separate (case objects of None \<Rightarrow> [] | Some b \<Rightarrow> bdata b),
      td_count = (case objects of None \<Rightarrow> 0 | Some b \<Rightarrow> buffer_GetSize b div 8)\<rparr>"

text \<open>\<open>TransactionDataFromMessage\<close>: the data and the offset array are views into the
  message's own buffer.\<close>

definition TransactionDataFromMessage :: "message \<Rightarrow> transaction_data res" where
  "TransactionDataFromMessage msg =
     bindR (ReadUint64 (reader_SetPadding False (Message_GetReader msg))) (\<lambda>(p, reader).
     bindR (ReadUint64 reader) (\<lambda>(cookie, reader).
     bindR (ReadUint32 reader) (\<lambda>(code, reader).
     bindR (ReadUint32 reader) (\<lambda>(flags, data_reader).
     bindR (ReadSizedData data_reader) (\<lambda>(data, objects_reader).
     bindR (ReadSizedData objects_reader) (\<lambda>(objects, _).
     Inr \<lparr>td_ptr = p, td_cookie = cookie, td_code = code,
          td_one_way = (flags AND flag_OneWay \<noteq> 0), td_has_status = (flags AND flag_HasStatus \<noteq> 0),
          td_block = bdata (mdata msg), td_base = rpos data_reader + 4,
          td_size = buffer_GetSize data,
          td_readable = (buffer_GetSize data \<noteq> 0), td_writable = (buffer_GetSize data \<noteq> 0),
          td_offsets = InBlock (rpos objects_reader + 4),
          td_count = buffer_GetSize objects div 8\<rparr>))))))"

text \<open>A \<open>WritableTransactionData\<close> whose buffers are made over the data and the offset
  array of another transaction, as \<^verbatim>\<open>ServerSession::PostTransaction\<close> does.\<close>

definition Writable_over :: "u64 \<Rightarrow> u64 \<Rightarrow> u32 \<Rightarrow> transaction_data \<Rightarrow> transaction_data" where
  "Writable_over p c code old =
     old\<lparr>td_ptr := p, td_cookie := c, td_code := code, td_one_way := False, td_has_status := False\<rparr>"

definition TransactionStatus :: "status \<Rightarrow> transaction_data" where
  "TransactionStatus s =
     \<lparr>td_ptr = 0, td_cookie = 0, td_code = 0, td_one_way = False, td_has_status = True,
      td_block = le_bytes 4 (status_code s), td_base = 0, td_size = 4,
      td_readable = True, td_writable = False, td_offsets = Separate [], td_count = 0\<rparr>"

section \<open>Packing and reading back\<close>

definition td_packed :: "u64 \<Rightarrow> u64 \<Rightarrow> u32 \<Rightarrow> u32 \<Rightarrow> byte list \<Rightarrow> byte list \<Rightarrow> byte list" where
  "td_packed p c code flags d os =
     le_bytes 8 p @ le_bytes 8 c @ le_bytes 4 code @ le_bytes 4 flags @
     le_bytes 4 (of_nat (length d) :: u32) @ d @ le_bytes 4 (of_nat (length os) :: u32) @ os"

lemma length_td_packed [simp]:
  "length (td_packed p c code flags d os) = 32 + length d + length os"
  by (simp add: td_packed_def)

lemma TransactionData_Pack_eq:
  assumes "total_alloc a" and d: "GetData_bytes td = Inr d" and os: "GetObjectOffsets_bytes td = Inr os"
    and "length d \<le> 2147483647" and "length os \<le> 2147483647"
  shows "TransactionData_Pack a td =
    Inr \<lparr>bdata = td_packed (td_ptr td) (td_cookie td) (td_code td) (td_flags td) d os,
         immutable = False\<rparr>"
proof -
  let ?w = "writer_SetPadding False (BinaryWriter empty_buffer)"
  have w: "appending ?w" "\<not> use_padding ?w"
    by (simp_all add: appending_def writer_SetPadding_def BinaryWriter_def)
  show ?thesis
    using assms w
    by (simp add: TransactionData_Pack_def Write_defs wire writer_Finalize_def td_packed_def
        padded_bytes_def)
      (simp add: wappend_def BinaryWriter_def writer_SetPadding_def)
qed

lemma td_flags_bits:
  "(low_byte (td_flags td) :: u32) AND flag_OneWay \<noteq> 0 \<longleftrightarrow> td_one_way td"
  "(low_byte (td_flags td) :: u32) AND flag_HasStatus \<noteq> 0 \<longleftrightarrow> td_has_status td"
  by (auto simp: td_flags_def Let_def low_byte_def)

text \<open>The size of a view read back by \<open>ReadSizedData\<close> is the length modulo 256.\<close>

lemma ReadSizedData_plain:
  assumes "reader_ok r" and "\<not> ruse_padding r"
    and "rest r = le_bytes 4 (of_nat (length d) :: u32) @ d @ xs" and "length d < 256"
  shows "ReadSizedData r = Inr (if d = [] then empty_buffer else Buffer_view d, adv (4 + length d) r)"
  using assms ReadSizedData_sized [of r d xs]
  by (simp add: padded_bytes_def Let_def)

lemma GetSize_view [simp]: "buffer_GetSize (if d = [] then empty_buffer else Buffer_view d) = length d"
  by (simp add: buffer_GetSize_def Buffer_view_def)

lemma TransactionDataFromMessage_packed:
  assumes data: "bdata (mdata msg) = td_packed p c code flags d os @ xs"
    and d: "length d < 256" and os: "length os < 256"
  shows "TransactionDataFromMessage msg =
    Inr \<lparr>td_ptr = low_byte p, td_cookie = low_byte c, td_code = low_byte code,
         td_one_way = ((low_byte flags :: u32) AND flag_OneWay \<noteq> 0),
         td_has_status = ((low_byte flags :: u32) AND flag_HasStatus \<noteq> 0),
         td_block = bdata (mdata msg), td_base = 28, td_size = length d,
         td_readable = (d \<noteq> []), td_writable = (d \<noteq> []),
         td_offsets = InBlock (32 + length d), td_count = length os div 8\<rparr>"
proof -
  let ?r = "reader_SetPadding False (Message_GetReader msg)"
  have r: "reader_ok ?r" "rest ?r = td_packed p c code flags d os @ xs"
      "\<not> ruse_padding ?r" "rpos ?r = 0"
    using data
    by (simp_all add: reader_ok_def rest_def reader_SetPadding_def Message_GetReader_def BinaryReader_def)
  have ok: "n \<le> 32 + length d + length os \<Longrightarrow> reader_ok (adv n ?r)" for n
    using r by simp
  have 1: "ReadUint64 ?r = Inr (low_byte p, adv 8 ?r)"
    using r by (simp add: Read_defs ReadValue_le_bytes td_packed_def)
  have 2: "ReadUint64 (adv 8 ?r) = Inr (low_byte c, adv 16 ?r)"
    using r ok [of 8] by (simp add: Read_defs ReadValue_le_bytes td_packed_def)
  have 3: "ReadUint32 (adv 16 ?r) = Inr (low_byte code, adv 20 ?r)"
    using r ok [of 16] by (simp add: Read_defs ReadValue_le_bytes td_packed_def)
  have 4: "ReadUint32 (adv 20 ?r) = Inr (low_byte flags, adv 24 ?r)"
    using r ok [of 20] by (simp add: Read_defs ReadValue_le_bytes td_packed_def)
  have 5: "ReadSizedData (adv 24 ?r) =
      Inr (if d = [] then empty_buffer else Buffer_view d, adv (28 + length d) ?r)"
    using r ok [of 24] d
    by (subst ReadSizedData_plain [of _ d "le_bytes 4 (of_nat (length os) :: u32) @ os @ xs"])
      (simp_all add: td_packed_def)
  have 6: "ReadSizedData (adv (28 + length d) ?r) =
      Inr (if os = [] then empty_buffer else Buffer_view os, adv (32 + length d + length os) ?r)"
    using r ok [of "28 + length d"] os
    by (subst ReadSizedData_plain [of _ os xs]) (simp_all add: td_packed_def)
  show ?thesis
    using 1 2 3 4 5 6 r(4) by (simp add: TransactionDataFromMessage_def)
qed

text \<open>A constructor that returns has read the data and the offset array inside the block.\<close>

lemma ReadData_within:
  assumes "ReadData n r = Inr (b, r')" and "rpos r \<le> length (rblock r)"
  shows "rpos r + buffer_GetSize b \<le> length (rblock r)" and "rpos r' \<le> length (rblock r')"
    and "rblock r' = rblock r"
  using assms
  by (auto simp: ReadData_def bindR_Inr_iff buffer_GetSize_def Buffer_view_def split: if_splits)

lemma ReadValue_within:
  assumes "ReadValue n r = Inr (v, r')"
  shows "rpos r' = rpos r + n" and "rpos r' \<le> length (rblock r')" and "rblock r' = rblock r"
  using assms by (auto simp: ReadValue_def split: if_splits)

lemma ReadSizedData_within:
  assumes "ReadSizedData r = Inr (b, r')"
  shows "rpos r + 4 + buffer_GetSize b \<le> length (rblock r)" and "rpos r' \<le> length (rblock r')"
    and "rblock r' = rblock r"
proof -
  from assms obtain n r1 where 1: "ReadInt32 r = Inr (n, r1)"
    and 2: "ReadData (unat (scast n :: u64)) r1 = Inr (b, r')"
    by (auto simp: ReadSizedData_def bindR_Inr_iff)
  note v = ReadValue_within [OF 1 [unfolded Read_defs]]
  note w = ReadData_within [OF 2 v(2)]
  from v w show "rpos r + 4 + buffer_GetSize b \<le> length (rblock r)" "rpos r' \<le> length (rblock r')"
    "rblock r' = rblock r" by simp_all
qed

lemma TransactionDataFromMessage_within:
  assumes "TransactionDataFromMessage msg = Inr td"
  shows "td_block td = bdata (mdata msg)"
    and "td_base td + td_size td \<le> length (td_block td)"
    and "\<exists>ob. td_offsets td = InBlock ob \<and> ob + 8 * td_count td \<le> length (td_block td)"
proof -
  from assms obtain p c code flags data objects r1 r2 r3 r4 r5 r6 where
    reads: "ReadUint64 (reader_SetPadding False (Message_GetReader msg)) = Inr (p, r1)"
      "ReadUint64 r1 = Inr (c, r2)" "ReadUint32 r2 = Inr (code, r3)" "ReadUint32 r3 = Inr (flags, r4)"
    and d: "ReadSizedData r4 = Inr (data, r5)" and os: "ReadSizedData r5 = Inr (objects, r6)"
    and td: "td_block td = bdata (mdata msg)" "td_base td = rpos r4 + 4"
      "td_size td = buffer_GetSize data" "td_offsets td = InBlock (rpos r5 + 4)"
      "td_count td = buffer_GetSize objects div 8"
    by (auto simp: TransactionDataFromMessage_def bindR_Inr_iff)
  have r4: "rblock r4 = bdata (mdata msg)"
    using reads [unfolded Read_defs, THEN ReadValue_within(3)]
    by (simp add: reader_SetPadding_def Message_GetReader_def BinaryReader_def)
  show "td_block td = bdata (mdata msg)" by (fact td)
  show "td_base td + td_size td \<le> length (td_block td)"
    using ReadSizedData_within(1) [OF d] r4 td by simp
  have "8 * td_count td \<le> buffer_GetSize objects" using td by simp
  then have "rpos r5 + 4 + 8 * td_count td \<le> length (td_block td)"
    using ReadSizedData_within(1) [OF os] ReadSizedData_within(3) [OF d] r4 td by simp
  then show "\<exists>ob. td_offsets td = InBlock ob \<and> ob + 8 * td_count td \<le> length (td_block td)"
    using td by blast
qed

section \<open>Properties\<close>

lemma GetObjectOffsets_length: "GetObjectOffsets_bytes td = Inr os \<Longrightarrow> length os = 8 * td_count td"
  by (auto simp: GetObjectOffsets_bytes_def dest!: mem_read_length split: offsets.splits)

lemma TransactionData_read_back:
  assumes a: "total_alloc a" and d: "GetData_bytes td = Inr d" "length d < 256"
    and os: "GetObjectOffsets_bytes td = Inr os" "length os < 256"
  shows "\<exists>b td'. TransactionData_Pack a td = Inr b \<and>
     TransactionDataFromMessage (m\<lparr>mdata := b\<rparr>) = Inr td' \<and>
     GetData_bytes td' = Inr d \<and> GetObjectOffsets_bytes td' = Inr os \<and>
     td_one_way td' = td_one_way td \<and> td_has_status td' = td_has_status td \<and>
     td_ptr td' = low_byte (td_ptr td) \<and> td_cookie td' = low_byte (td_cookie td) \<and>
     td_code td' = low_byte (td_code td)"
proof -
  let ?p = "td_packed (td_ptr td) (td_cookie td) (td_code td) (td_flags td) d os"
  let ?b = "\<lparr>bdata = ?p, immutable = False\<rparr>"
  have pack: "TransactionData_Pack a td = Inr ?b"
    using a d os by (subst TransactionData_Pack_eq) simp_all
  obtain td' where td': "TransactionDataFromMessage (m\<lparr>mdata := ?b\<rparr>) = Inr td'"
    "td_block td' = ?p" "td_base td' = 28" "td_size td' = length d"
    "td_offsets td' = InBlock (32 + length d)" "td_count td' = length os div 8"
    "td_one_way td' = td_one_way td" "td_has_status td' = td_has_status td"
    "td_ptr td' = low_byte (td_ptr td)" "td_cookie td' = low_byte (td_cookie td)"
    "td_code td' = low_byte (td_code td)"
    using TransactionDataFromMessage_packed [of "m\<lparr>mdata := ?b\<rparr>" _ _ _ _ d os "[]"] d os
      td_flags_bits [of td] by auto
  have "8 * (length os div 8) = length os" using GetObjectOffsets_length [OF os(1)] by simp
  then have "GetObjectOffsets_bytes td' = Inr os"
    using td' by (simp add: GetObjectOffsets_bytes_def mem_read_def td_packed_def)
  moreover have "GetData_bytes td' = Inr d"
    using td' by (simp add: GetData_bytes_def mem_read_def td_packed_def)
  ultimately show ?thesis using pack td' by blast
qed

text \<open>C22: a transaction whose data and offset array are shorter than 256 bytes, and whose pointer, cookie and
  code fit in a byte, is read back from the message it was packed into. The reader takes one byte for every number, so the
  bounds are needed.\<close>

theorem TransactionData_round_trip:
  assumes "total_alloc a" and "GetData_bytes td = Inr d" and "length d < 256"
    and "GetObjectOffsets_bytes td = Inr os" and "length os < 256"
    and "unat (td_ptr td) < 256" and "unat (td_cookie td) < 256" and "unat (td_code td) < 256"
  shows "\<exists>b td'. TransactionData_Pack a td = Inr b \<and>
     TransactionDataFromMessage (m\<lparr>mdata := b\<rparr>) = Inr td' \<and>
     GetData_bytes td' = Inr d \<and> GetObjectOffsets_bytes td' = Inr os \<and>
     td_one_way td' = td_one_way td \<and> td_has_status td' = td_has_status td \<and>
     td_ptr td' = td_ptr td \<and> td_cookie td' = td_cookie td \<and> td_code td' = td_code td"
  using TransactionData_read_back [OF assms(1-5), of m] assms(6-8) by (simp add: low_byte_id)

theorem TransactionData_round_trip_witness:
  "\<exists>b td'. TransactionData_Pack plain_alloc (WritableTransactionData 0 0 2 True (Some (Buffer_view [1, 2, 3])) None) = Inr b \<and>
     TransactionDataFromMessage ((Message_Create TTransaction)\<lparr>mdata := b\<rparr>) = Inr td' \<and>
     GetData_bytes td' = Inr [1, 2, 3] \<and> td_one_way td' \<and> td_code td' = 2"
proof -
  let ?td = "WritableTransactionData 0 0 2 True (Some (Buffer_view [1, 2, 3])) None"
  have "GetData_bytes ?td = Inr [1, 2, 3]" "GetObjectOffsets_bytes ?td = Inr []"
    "td_one_way ?td" "td_code ?td = 2" "unat (td_ptr ?td) < 256" "unat (td_cookie ?td) < 256" "unat (td_code ?td) < 256"
    by (simp_all add: GetData_bytes_def GetObjectOffsets_bytes_def WritableTransactionData_def
        mem_read_def Buffer_view_def buffer_GetSize_def low_byte_def)
  then show ?thesis
    using TransactionData_round_trip [of plain_alloc ?td "[1, 2, 3]" "[]" "Message_Create TTransaction"]
    by (simp del: One_nat_def) metis
qed

end
