(* ===== verification/Object_Translator.thy ===== *)
theory Object_Translator
  imports Transaction_Data
begin

text \<open>
  \<^verbatim>\<open>src/src/binderd/object_translator.cpp\<close>: a client never tells the server the
  address of one of its objects. On the way out the cookie of every local object in
  a transaction is replaced by an id from a table, on the way in the id is replaced
  by the address again.
\<close>

record translator =
  tr_objects :: "(u64, u64) um"
  next_object_id :: u64

datatype direction = In | Out

definition ObjectTranslator :: translator where
  "ObjectTranslator = \<lparr>tr_objects = [], next_object_id = 1\<rparr>"

definition Translator_Invalid :: u64 where
  "Translator_Invalid = 0"

definition TranslateCookie :: "u64 \<Rightarrow> translator \<Rightarrow> u64" where
  "TranslateCookie cookie t =
     (case um_find cookie (tr_objects t) of None \<Rightarrow> 0 | Some ob \<Rightarrow> ob)"

definition TranslateAddress :: "u64 \<Rightarrow> translator \<Rightarrow> u64" where
  "TranslateAddress object t =
     (case find (\<lambda>(i, ob). ob = object) (tr_objects t) of
        Some (i, ob) \<Rightarrow> i
      | None \<Rightarrow> Translator_Invalid)"

definition TranslateOrAddObject :: "u64 \<Rightarrow> translator \<Rightarrow> u64 \<times> translator" where
  "TranslateOrAddObject object t =
     (let i = TranslateAddress object t in
      if i \<noteq> Translator_Invalid then (i, t)
      else (next_object_id t,
            t\<lparr>next_object_id := next_object_id t + 1,
              tr_objects := um_insert (next_object_id t) object (tr_objects t)\<rparr>))"

text \<open>\<^verbatim>\<open>ProcessBinderObject\<close> for the object at place \<open>p\<close> of a block.\<close>

definition ProcessBinderObject ::
    "nat \<Rightarrow> direction \<Rightarrow> byte list \<Rightarrow> (translator, status \<times> byte list) comp" where
  "ProcessBinderObject p d b =
     (case d of
        In \<Rightarrow>
          bindS (liftS (flat_cookie p b)) (\<lambda>c.
          bindS (getS tr_objects) (\<lambda>obs.
          case um_find c obs of
            None \<Rightarrow> retS (BadValue, b)
          | Some ob \<Rightarrow> bindS (liftS (set_flat_cookie p ob b)) (\<lambda>b. retS (OK, b))))
      | Out \<Rightarrow>
          bindS (liftS (flat_cookie p b)) (\<lambda>c.
          bindS (\<lambda>t. let (i, t) = TranslateOrAddObject c t in (Inr i, t)) (\<lambda>i.
          bindS (liftS (set_flat_cookie p i b)) (\<lambda>b. retS (OK, b)))))"

text \<open>One pass of the loop of \<^verbatim>\<open>ProcessTransaction\<close>, and the loop.\<close>

definition ProcessFlatObject ::
    "nat \<Rightarrow> direction \<Rightarrow> byte list \<Rightarrow> (translator, status \<times> byte list) comp" where
  "ProcessFlatObject p d b =
     bindS (liftS (flat_type p b)) (\<lambda>t.
     if t = BINDER_TYPE_BINDER then ProcessBinderObject p d b
     else if t = BINDER_TYPE_HANDLE then retS (OK, b)
     else if t = BINDER_TYPE_WEAK_BINDER \<or> t = BINDER_TYPE_WEAK_HANDLE then retS (OK, b)
     else if t = BINDER_TYPE_FD then retS (OK, b)
     else retS (InvalidOperation, b))"

primrec ProcessLoop ::
    "direction \<Rightarrow> nat \<Rightarrow> nat \<Rightarrow> transaction_data \<Rightarrow> (translator, status \<times> transaction_data) comp" where
  "ProcessLoop d 0 i td = retS (OK, td)"
| "ProcessLoop d (Suc n) i td =
     bindS (liftS (object_offset td i)) (\<lambda>offset.
     if \<not> td_writable td then throwS MemFault
     else bindS (ProcessFlatObject (td_base td + offset) d (td_block td)) (\<lambda>(st, b).
       if st \<noteq> OK then retS (st, td\<lparr>td_block := b\<rparr>)
       else ProcessLoop d n (Suc i) (td\<lparr>td_block := b\<rparr>)))"

definition ProcessTransaction ::
    "direction \<Rightarrow> transaction_data \<Rightarrow> (translator, status \<times> transaction_data) comp" where
  "ProcessTransaction d td =
     (if td_count td = 0 then retS (OK, td) else ProcessLoop d (td_count td) 0 td)"

section \<open>The table\<close>

text \<open>Ids are nonzero and below the counter; no two ids stand for one object.\<close>

definition translator_ok :: "translator \<Rightarrow> bool" where
  "translator_ok t \<longleftrightarrow> next_object_id t \<noteq> 0 \<and> um_ok (tr_objects t) \<and>
     distinct (map snd (tr_objects t)) \<and>
     (\<forall>(i, ob)\<in>set (tr_objects t). i \<noteq> 0 \<and> i < next_object_id t)"

definition has_room :: "translator \<Rightarrow> bool" where
  "has_room t \<longleftrightarrow> next_object_id t \<noteq> - 1"

lemma translator_ok_new: "translator_ok ObjectTranslator"
  by (simp add: translator_ok_def ObjectTranslator_def)

lemma um_find_iff: "um_ok m \<Longrightarrow> um_find k m = Some v \<longleftrightarrow> (k, v) \<in> set m"
  by (auto dest: um_find_in_set intro: um_ok_find)

lemma TranslateAddress_found:
  assumes ok: "translator_ok t" and i: "um_find i (tr_objects t) = Some ob"
  shows "TranslateAddress ob t = i"
proof -
  have mem: "(i, ob) \<in> set (tr_objects t)" using i by (rule um_find_in_set)
  then obtain p where p: "find (\<lambda>(i, ob'). ob' = ob) (tr_objects t) = Some p"
    by (cases "find (\<lambda>(i, ob'). ob' = ob) (tr_objects t)") (auto simp: find_None_iff)
  then obtain j where j: "p = (j, ob)" "(j, ob) \<in> set (tr_objects t)"
    by (cases p) (auto simp: find_Some_iff, metis nth_mem)
  have "inj_on snd (set (tr_objects t))" using ok by (simp add: translator_ok_def distinct_map)
  then have "(j, ob) = (i, ob)" using inj_onD [of snd _ "(j, ob)" "(i, ob)"] mem j(2) by simp
  then show ?thesis using p j by (simp add: TranslateAddress_def)
qed

lemma TranslateAddress_absent:
  assumes "translator_ok t"
  shows "TranslateAddress ob t = 0 \<longleftrightarrow> ob \<notin> snd ` set (tr_objects t)"
proof
  assume z: "TranslateAddress ob t = 0"
  show "ob \<notin> snd ` set (tr_objects t)"
  proof
    assume "ob \<in> snd ` set (tr_objects t)"
    then obtain i where i: "(i, ob) \<in> set (tr_objects t)" by auto
    then have "TranslateAddress ob t = i"
      using assms by (intro TranslateAddress_found) (simp_all add: translator_ok_def um_ok_find)
    then show False using z i assms by (auto simp: translator_ok_def)
  qed
next
  assume "ob \<notin> snd ` set (tr_objects t)"
  then have "find (\<lambda>(i, ob'). ob' = ob) (tr_objects t) = None" by (force simp: find_None_iff)
  then show "TranslateAddress ob t = 0" by (simp add: TranslateAddress_def Translator_Invalid_def)
qed

lemma TranslateOrAddObject_cases:
  assumes "translator_ok t" and "TranslateOrAddObject ob t = (i, t')"
  obtains (known) "um_find i (tr_objects t) = Some ob" and "t' = t"
  | (fresh) "ob \<notin> snd ` set (tr_objects t)" and "i = next_object_id t"
    and "t' = t\<lparr>next_object_id := i + 1, tr_objects := tr_objects t @ [(i, ob)]\<rparr>"
proof (cases "ob \<in> snd ` set (tr_objects t)")
  case True
  then obtain j where j: "(j, ob) \<in> set (tr_objects t)" by auto
  then have f: "um_find j (tr_objects t) = Some ob" using assms(1) by (simp add: translator_ok_def um_ok_find)
  have "j \<noteq> 0" using j assms(1) by (auto simp: translator_ok_def)
  then have "TranslateOrAddObject ob t = (j, t)"
    using TranslateAddress_found [OF assms(1) f]
    by (simp add: TranslateOrAddObject_def Translator_Invalid_def)
  then show thesis using assms(2) f by (intro known) simp_all
next
  case False
  then have z: "TranslateAddress ob t = 0" using assms(1) by (simp add: TranslateAddress_absent)
  have "um_find (next_object_id t) (tr_objects t) = None"
    using assms(1) by (auto simp: translator_ok_def um_find_def map_of_eq_None_iff)
  then show thesis
    using assms(2) z False
    by (intro fresh) (auto simp: TranslateOrAddObject_def Translator_Invalid_def um_insert_def)
qed

lemma translator_ok_TranslateOrAdd:
  assumes "translator_ok t" and "has_room t" and "TranslateOrAddObject ob t = (i, t')"
  shows "translator_ok t'"
  using assms(1,3)
proof (cases rule: TranslateOrAddObject_cases)
  case known
  then show ?thesis using assms(1) by simp
next
  case fresh
  have lt: "v \<le> next_object_id t \<Longrightarrow> v < next_object_id t + 1" for v
    using assms(2) by (simp add: has_room_def word_less_Suc)
  have "next_object_id t + 1 \<noteq> 0" using lt [of "next_object_id t"] by auto
  then show ?thesis
    using fresh assms(1) lt by (fastforce simp: translator_ok_def um_ok_def)
qed

lemma TranslateCookie_added:
  assumes "translator_ok t" and "TranslateOrAddObject ob t = (i, t')"
  shows "um_find i (tr_objects t') = Some ob"
  using assms
proof (cases rule: TranslateOrAddObject_cases)
  case fresh
  have "um_find i (tr_objects t) = None"
    using fresh(2) assms(1) by (auto simp: translator_ok_def um_find_def map_of_eq_None_iff)
  then show ?thesis using fresh(3) by (simp add: um_find_def map_add_def)
qed simp

lemma TranslateCookie_kept:
  assumes "translator_ok t" and "TranslateOrAddObject ob t = (i, t')" and "um_find j (tr_objects t) = Some v"
  shows "um_find j (tr_objects t') = Some v"
  using assms(1,2)
proof (cases rule: TranslateOrAddObject_cases)
  case fresh
  then show ?thesis
    using assms(1,3) by (auto simp: um_find_def map_add_def translator_ok_def split: option.splits)
qed (use assms(3) in simp)

section \<open>Hiding addresses\<close>

locale address_hiding =
  fixes hide :: "u64 \<Rightarrow> 't \<Rightarrow> u64 \<times> 't"
    and reveal :: "u64 \<Rightarrow> 't \<Rightarrow> u64 option"
    and ok :: "'t \<Rightarrow> bool"
    and room :: "'t \<Rightarrow> bool"
  assumes reveal_hide: "ok t \<Longrightarrow> hide a t = (i, t') \<Longrightarrow> reveal i t' = Some a"
    and reveal_kept: "ok t \<Longrightarrow> hide a t = (i, t') \<Longrightarrow> reveal j t = Some v \<Longrightarrow> reveal j t' = Some v"
    and hide_known: "ok t \<Longrightarrow> reveal i t = Some a \<Longrightarrow> hide a t = (i, t)"
    and ok_hide: "ok t \<Longrightarrow> room t \<Longrightarrow> hide a t = (i, t') \<Longrightarrow> ok t'"
begin

lemma hide_again: "ok t \<Longrightarrow> room t \<Longrightarrow> hide a t = (i, t') \<Longrightarrow> hide a t' = (i, t')"
  by (blast intro: hide_known reveal_hide ok_hide)

lemma hide_distinct:
  assumes "ok t" and "room t" and "hide a t = (i, t1)" and "hide b t1 = (j, t2)"
  shows "i = j \<longleftrightarrow> a = b"
proof -
  have ok1: "ok t1" using assms(1-3) by (rule ok_hide)
  have ra: "reveal i t2 = Some a"
    using reveal_kept [OF ok1 assms(4)] reveal_hide [OF assms(1,3)] by blast
  have rb: "reveal j t2 = Some b" using ok1 assms(4) by (rule reveal_hide)
  show ?thesis using ra rb hide_again [OF assms(1-3)] assms(4) by auto
qed

end

interpretation ot: address_hiding TranslateOrAddObject "\<lambda>i t. um_find i (tr_objects t)" translator_ok has_room
proof
  fix t i a assume ok: "translator_ok t" and r: "um_find i (tr_objects t) = Some a"
  have "i \<noteq> 0" using ok um_find_in_set [OF r] by (auto simp: translator_ok_def)
  then show "TranslateOrAddObject a t = (i, t)"
    using TranslateAddress_found [OF ok r] by (simp add: TranslateOrAddObject_def Translator_Invalid_def)
qed (fact TranslateCookie_added TranslateCookie_kept translator_ok_TranslateOrAdd)+

section \<open>Out and in again\<close>

primrec process_places ::
    "direction \<Rightarrow> nat list \<Rightarrow> byte list \<Rightarrow> (translator, status \<times> byte list) comp" where
  "process_places d [] b = retS (OK, b)"
| "process_places d (p # ps) b =
     bindS (ProcessFlatObject p d b) (\<lambda>(st, b). if st \<noteq> OK then retS (st, b) else process_places d ps b)"

definition known_type :: "u32 \<Rightarrow> bool" where
  "known_type t \<longleftrightarrow> t \<in> {BINDER_TYPE_BINDER, BINDER_TYPE_HANDLE, BINDER_TYPE_WEAK_BINDER,
     BINDER_TYPE_WEAK_HANDLE, BINDER_TYPE_FD}"

definition object_at :: "byte list \<Rightarrow> nat \<Rightarrow> bool" where
  "object_at b p \<longleftrightarrow> p + 24 \<le> length b \<and> (\<exists>t. flat_type p b = Inr t \<and> known_type t)"

definition apart :: "nat \<Rightarrow> nat \<Rightarrow> bool" where
  "apart p q \<longleftrightarrow> p + 24 \<le> q \<or> q + 24 \<le> p"

definition extends :: "translator \<Rightarrow> translator \<Rightarrow> bool" where
  "extends t t' \<longleftrightarrow> (\<forall>i v. um_find i (tr_objects t) = Some v \<longrightarrow> um_find i (tr_objects t') = Some v)"

lemma extends_refl [simp]: "extends t t"
  and extends_trans: "extends t t1 \<Longrightarrow> extends t1 t2 \<Longrightarrow> extends t t2"
  by (auto simp: extends_def)

definition room_for :: "nat \<Rightarrow> translator \<Rightarrow> bool" where
  "room_for n t \<longleftrightarrow> unat (next_object_id t) + n < 2 ^ 64"

lemma room_for_has_room: "room_for (Suc n) t \<Longrightarrow> has_room t"
  by (auto simp: room_for_def has_room_def unsigned_minus_1_eq_mask mask_eq_exp_minus_1)

lemma room_for_TranslateOrAdd:
  assumes "translator_ok t" and "room_for (Suc n) t" and "TranslateOrAddObject ob t = (i, t')"
  shows "room_for n t'"
  using assms(1,3)
proof (cases rule: TranslateOrAddObject_cases)
  case fresh
  then show ?thesis using assms(2) by (simp add: room_for_def unat_word_ariths)
qed (use assms(2) in \<open>simp add: room_for_def\<close>)

text \<open>One object: what the way out does, and how the way in undoes it.\<close>

lemma ProcessFlat_out:
  assumes "flat_type p b = Inr BINDER_TYPE_BINDER" and "p + 24 \<le> length b"
    and "flat_cookie p b = Inr c" and "TranslateOrAddObject c t = (i, t1)"
  shows "\<exists>b1. store (p + 16) 8 i b = Inr b1 \<and> ProcessFlatObject p Out b t = (Inr (OK, b1), t1)"
proof -
  obtain b1 where "store (p + 16) 8 i b = Inr b1" using store_ok [of "p + 16" 8 b i] assms(2) by auto
  then show ?thesis
    using assms by (simp add: ProcessFlatObject_def ProcessBinderObject_def run_simps set_flat_cookie_def)
qed

lemma ProcessFlat_in:
  assumes "flat_type p b = Inr BINDER_TYPE_BINDER" and "flat_cookie p b = Inr i"
    and "um_find i (tr_objects t) = Some c" and "store (p + 16) 8 c b = Inr b1"
  shows "ProcessFlatObject p In b t = (Inr (OK, b1), t)"
  using assms by (simp add: ProcessFlatObject_def ProcessBinderObject_def run_simps set_flat_cookie_def)

lemma ProcessFlat_other:
  assumes "flat_type p b = Inr ty" and "known_type ty" and "ty \<noteq> BINDER_TYPE_BINDER"
  shows "ProcessFlatObject p d b t = (Inr (OK, b), t)"
  using assms by (auto simp: ProcessFlatObject_def run_simps known_type_def)

lemma flat_store_apart:
  assumes "store (q + 16) 8 v b = Inr b1" and "apart p q"
  shows "flat_type p b1 = flat_type p b" and "flat_cookie p b1 = flat_cookie p b"
  using assms by (auto simp: flat_defs apart_def intro!: load_store_other)

lemma ProcessFlat_in_inv:
  assumes "flat_type p b = Inr BINDER_TYPE_BINDER" and "ProcessFlatObject p In b t = (Inr (OK, b2), t2)"
  shows "\<exists>i w. flat_cookie p b = Inr i \<and> um_find i (tr_objects t) = Some w \<and>
    store (p + 16) 8 w b = Inr b2 \<and> t2 = t"
proof -
  have run: "ProcessBinderObject p In b t = (Inr (OK, b2), t2)"
    using assms by (simp add: ProcessFlatObject_def run_simps)
  obtain i where i: "flat_cookie p b = Inr i"
    using run by (cases "flat_cookie p b") (simp_all add: ProcessBinderObject_def run_simps)
  obtain w where w: "um_find i (tr_objects t) = Some w"
    using run i by (cases "um_find i (tr_objects t)") (simp_all add: ProcessBinderObject_def run_simps)
  show ?thesis
    using run i w
    by (cases "store (p + 16) 8 w b") (simp_all add: ProcessBinderObject_def run_simps set_flat_cookie_def)
qed

lemma ProcessFlat_in_commute:
  assumes "ProcessFlatObject p In b t = (Inr (OK, b2), t2)" and "store (q + 16) 8 (v :: u64) b = Inr b1"
    and "apart p q"
  shows "\<exists>c. store (q + 16) 8 v b2 = Inr c \<and> ProcessFlatObject p In b1 t = (Inr (OK, c), t2)"
proof -
  note fl = flat_store_apart [OF assms(2,3)]
  obtain ty where ty: "flat_type p b = Inr ty"
    using assms(1) by (cases "flat_type p b") (auto simp: ProcessFlatObject_def bindS_def liftS_def)
  show ?thesis
  proof (cases "ty = BINDER_TYPE_BINDER")
    case False
    then show ?thesis
      using assms(1,2) ty fl(1) by (auto simp: ProcessFlatObject_def run_simps split: if_splits)
  next
    case True
    then obtain i w where i: "flat_cookie p b = Inr i" "um_find i (tr_objects t) = Some w"
      "store (p + 16) 8 w b = Inr b2" "t2 = t"
      using assms(1) ProcessFlat_in_inv [of p b] ty by blast
    have eq: "store (q + 16) 8 v b2 = store (p + 16) 8 w b1"
      by (rule store_commute [OF i(3) assms(2)]) (use assms(3) in \<open>auto simp: apart_def\<close>)
    have "length b1 = length b" using assms(2) by (rule store_length)
    moreover have "p + 16 + 8 \<le> length b" using i(3) by (auto simp: store_def mem_write_def split: if_splits)
    ultimately obtain c where c: "store (p + 16) 8 w b1 = Inr c"
      using store_ok [of "p + 16" 8 b1 w] by auto
    have "ProcessFlatObject p In b1 t = (Inr (OK, c), t)"
      by (rule ProcessFlat_in [OF _ _ i(2) c]) (use fl ty True i(1) in simp_all)
    then show ?thesis using eq c i(4) by simp
  qed
qed

lemma process_in_commute:
  assumes "process_places In ps b t = (Inr (OK, c), t')" and "store (q + 16) 8 (v :: u64) b = Inr b1"
    and "\<forall>p\<in>set ps. apart p q"
  shows "\<exists>c1. store (q + 16) 8 v c = Inr c1 \<and> process_places In ps b1 t = (Inr (OK, c1), t')"
  using assms
proof (induction ps arbitrary: b b1 t)
  case Nil
  then show ?case by (simp add: run_simps)
next
  case (Cons p ps)
  from Cons.prems(1) obtain b2 t2 where p: "ProcessFlatObject p In b t = (Inr (OK, b2), t2)"
    "process_places In ps b2 t2 = (Inr (OK, c), t')"
    by (auto simp: bindS_def retS_def split: prod.splits sum.splits if_splits)
  then obtain c2 where c2: "store (q + 16) 8 v b2 = Inr c2" "ProcessFlatObject p In b1 t = (Inr (OK, c2), t2)"
    using ProcessFlat_in_commute [OF p(1) Cons.prems(2)] Cons.prems(3) by auto
  then show ?case
    using Cons.IH [OF p(2) c2(1)] Cons.prems(3) by (auto simp: run_simps)
qed

lemma object_at_store:
  assumes "store (q + 16) 8 v b = Inr b1" and "apart p q"
  shows "object_at b1 p = object_at b p"
  using flat_store_apart(1) [OF assms] store_length [OF assms(1)] by (simp add: object_at_def)

lemma out_then_in:
  assumes "translator_ok t" and "room_for (length ps) t"
    and "\<forall>p\<in>set ps. object_at b p" and "sorted_wrt apart ps"
  shows "\<exists>b' t'. process_places Out ps b t = (Inr (OK, b'), t') \<and> translator_ok t' \<and> extends t t' \<and>
    (\<forall>q. (\<forall>p\<in>set ps. apart q p) \<longrightarrow> flat_type q b' = flat_type q b \<and> flat_cookie q b' = flat_cookie q b) \<and>
    length b' = length b \<and>
    (\<forall>t''. extends t' t'' \<longrightarrow> process_places In ps b' t'' = (Inr (OK, b), t''))"
  using assms
proof (induction ps arbitrary: b t)
  case Nil
  then show ?case by (simp add: run_simps)
next
  case (Cons p ps)
  obtain ty where ty: "flat_type p b = Inr ty" "known_type ty" and len: "p + 24 \<le> length b"
    using Cons.prems(3) by (auto simp: object_at_def)
  have ap: "\<forall>q\<in>set ps. apart p q" using Cons.prems(4) by simp
  have sym: "apart q q' = apart q' q" for q q' by (auto simp: apart_def)
  show ?case
  proof (cases "ty = BINDER_TYPE_BINDER")
    case False
    have step: "ProcessFlatObject p d b' t = (Inr (OK, b'), t)" if "flat_type p b' = Inr ty" for d b' t
      using that ty(2) False by (rule ProcessFlat_other)
    have "translator_ok t" "room_for (length ps) t" "\<forall>p\<in>set ps. object_at b p" "sorted_wrt apart ps"
      using Cons.prems by (auto simp: room_for_def)
    then obtain b' t' where IH: "process_places Out ps b t = (Inr (OK, b'), t')" "translator_ok t'"
      "extends t t'" "\<forall>q. (\<forall>p\<in>set ps. apart q p) \<longrightarrow> flat_type q b' = flat_type q b \<and> flat_cookie q b' = flat_cookie q b"
      "length b' = length b"
      "\<forall>t''. extends t' t'' \<longrightarrow> process_places In ps b' t'' = (Inr (OK, b), t'')"
      using Cons.IH by blast
    have "flat_type p b' = Inr ty" using IH(4) ap ty(1) by simp
    then show ?thesis using IH step [OF ty(1)] step by (auto simp: run_simps)
  next
    case True
    obtain c where c: "flat_cookie p b = Inr c"
      using load_ok [of "p + 16" 8 b] len unfolding flat_defs by auto
    obtain i t1 where i: "TranslateOrAddObject c t = (i, t1)" by (cases "TranslateOrAddObject c t")
    obtain b1 where b1: "store (p + 16) 8 i b = Inr b1" "ProcessFlatObject p Out b t = (Inr (OK, b1), t1)"
      using ProcessFlat_out [OF _ len c i] ty(1) True by auto
    have pre: "translator_ok t1" "room_for (length ps) t1" "sorted_wrt apart ps" "\<forall>q\<in>set ps. object_at b1 q"
      using Cons.prems room_for_has_room translator_ok_TranslateOrAdd [OF _ _ i] room_for_TranslateOrAdd [OF _ _ i]
        object_at_store [OF b1(1)] ap sym by auto
    then obtain b' t' where IH: "process_places Out ps b1 t1 = (Inr (OK, b'), t')" "translator_ok t'"
      "extends t1 t'" "\<forall>q. (\<forall>p\<in>set ps. apart q p) \<longrightarrow> flat_type q b' = flat_type q b1 \<and> flat_cookie q b' = flat_cookie q b1"
      "length b' = length b1"
      "\<forall>t''. extends t' t'' \<longrightarrow> process_places In ps b' t'' = (Inr (OK, b1), t'')"
      using Cons.IH by blast
    have lb: "length b1 = length b" using b1(1) by (rule store_length)
    have t1: "um_find i (tr_objects t1) = Some c" and ext: "extends t t1"
      using TranslateCookie_added [OF Cons.prems(1) i] TranslateCookie_kept [OF Cons.prems(1) i]
      by (auto simp: extends_def)
    have fl: "flat_type p b' = Inr BINDER_TYPE_BINDER" "flat_cookie p b' = Inr i"
      using IH(4) ap ty(1) True load_store_same [OF b1(1)]
      by (simp_all add: flat_type_def flat_cookie_def load_store_other [OF b1(1)])
    have rev: "process_places In (p # ps) b' u = (Inr (OK, b), u)" if e: "extends t' u" for u
    proof -
      have f: "um_find i (tr_objects u) = Some c" using t1 IH(3) e by (simp add: extends_def)
      obtain b2 where b2: "store (p + 16) 8 c b' = Inr b2" using store_ok [of "p + 16" 8 b' c] len lb IH(5) by auto
      have "process_places In ps b' u = (Inr (OK, b1), u)" using IH(6) e by blast
      then obtain c1 where c1: "store (p + 16) 8 c b1 = Inr c1" "process_places In ps b2 u = (Inr (OK, c1), u)"
        using process_in_commute [OF _ b2] ap sym by blast
      have "store (p + 16) 8 c b1 = Inr b"
        by (rule store_restore [OF _ b1(1)]) (use c in \<open>simp_all add: flat_defs\<close>)
      then have "c1 = b" using c1(1) by simp
      then show ?thesis using ProcessFlat_in [OF fl f b2] c1(2) by (simp add: run_simps)
    qed
    have frame: "flat_type q b' = flat_type q b \<and> flat_cookie q b' = flat_cookie q b"
      if "\<forall>r\<in>set (p # ps). apart q r" for q
      using that IH(4) flat_store_apart [OF b1(1), of q] by simp
    show ?thesis
      using b1(2) IH(1,2,5) lb rev frame extends_trans [OF ext IH(3)] by (auto simp: run_simps)
  qed
qed

lemma ProcessLoop_places:
  assumes "td_offsets td = Separate os" and "td_writable td"
    and "\<And>k. k < length offs \<Longrightarrow> object_offset td (i + k) = Inr (offs ! k)"
    and "process_places d (map ((+) (td_base td)) offs) (td_block td) t = (Inr (st, b), t')"
  shows "ProcessLoop d (length offs) i td t = (Inr (st, td\<lparr>td_block := b\<rparr>), t')"
  using assms
proof (induction offs arbitrary: i td t)
  case Nil
  then show ?case by (simp add: run_simps)
next
  case (Cons off offs)
  have o0: "object_offset td i = Inr off" using Cons.prems(3) [of 0] by simp
  have os: "object_offset (td\<lparr>td_block := b1\<rparr>) (Suc i + k) = Inr (offs ! k)" if "k < length offs" for b1 k
    using Cons.prems(3) [of "Suc k"] Cons.prems(1) that by (simp add: object_offset_def)
  obtain r t1 where r: "ProcessFlatObject (td_base td + off) d (td_block td) t = (r, t1)"
    by (cases "ProcessFlatObject (td_base td + off) d (td_block td) t")
  with Cons.prems(4) obtain st1 b1 where r1: "r = Inr (st1, b1)"
    by (cases r) (auto simp: bindS_def)
  show ?case
  proof (cases "st1 = OK")
    case True
    then have "process_places d (map ((+) (td_base td)) offs) b1 t1 = (Inr (st, b), t')"
      using Cons.prems(4) r r1 by (simp add: run_simps)
    then show ?thesis
      using Cons.IH [of "td\<lparr>td_block := b1\<rparr>" "Suc i" t1] Cons.prems(1,2) o0 os r r1 True
      by (simp add: run_simps)
  next
    case False
    then show ?thesis using Cons.prems(2,4) o0 r r1 by (auto simp: run_simps)
  qed
qed

section \<open>Properties\<close>

text \<open>C28: translating the objects of a transaction for the way out and then for the way in
  gives back the transaction as it was, for any number of object references of known
  types that lie apart from each other inside the data.\<close>

theorem ProcessTransaction_round_trip:
  assumes "td_offsets td = Separate os" and "td_writable td" and "td_count td = length offs"
    and "\<And>k. k < length offs \<Longrightarrow> object_offset td k = Inr (offs ! k)"
    and "\<forall>off\<in>set offs. object_at (td_block td) (td_base td + off)"
    and "sorted_wrt apart offs"
    and "translator_ok t" and "room_for (length offs) t"
  shows "\<exists>td' t'. ProcessTransaction Out td t = (Inr (OK, td'), t') \<and>
    ProcessTransaction In td' t' = (Inr (OK, td), t')"
proof (cases "offs = []")
  case True
  then show ?thesis using assms(3) by (simp add: ProcessTransaction_def run_simps)
next
  case False
  let ?ps = "map ((+) (td_base td)) offs"
  have "sorted_wrt apart ?ps"
    using assms(6) unfolding sorted_wrt_map
    by (rule sorted_wrt_mono_rel [rotated]) (auto simp: apart_def)
  then obtain b' t' where o: "process_places Out ?ps (td_block td) t = (Inr (OK, b'), t')"
    "\<forall>t''. extends t' t'' \<longrightarrow> process_places In ?ps b' t'' = (Inr (OK, td_block td), t'')"
    using out_then_in [OF assms(7), of ?ps "td_block td"] assms(5,8) by auto
  let ?td = "td\<lparr>td_block := b'\<rparr>"
  have off: "object_offset ?td (0 + k) = Inr (offs ! k)" "object_offset td (0 + k) = Inr (offs ! k)"
    if "k < length offs" for k
    using assms(1,4) that by (simp_all add: object_offset_def)
  have out: "ProcessLoop Out (length offs) 0 td t = (Inr (OK, ?td), t')"
    by (rule ProcessLoop_places [OF assms(1,2) off(2) o(1)])
  have "process_places In (map ((+) (td_base ?td)) offs) (td_block ?td) t' = (Inr (OK, td_block td), t')"
    using o(2) by simp
  then have "ProcessLoop In (length offs) 0 ?td t' = (Inr (OK, ?td\<lparr>td_block := td_block td\<rparr>), t')"
    using assms(1,2) off(1) by (intro ProcessLoop_places [where os = os]) simp_all
  then show ?thesis
    using out False assms(3) by (simp add: ProcessTransaction_def)
qed

text \<open>A transaction with one local object, for the example.\<close>

definition one_object_td :: transaction_data where
  "one_object_td = WritableTransactionData 0 0 1 False
     (Some (Buffer_view (le_bytes 4 BINDER_TYPE_BINDER @ replicate 12 0 @ le_bytes 8 (0xDEADBEEF :: u64))))
     (Some (Buffer_view (le_bytes 8 (0 :: u64))))"

theorem ProcessTransaction_round_trip_witness:
  "\<exists>td' t'. ProcessTransaction Out one_object_td ObjectTranslator = (Inr (OK, td'), t') \<and>
    ProcessTransaction In td' t' = (Inr (OK, one_object_td), t')"
proof (rule ProcessTransaction_round_trip [where os = "le_bytes 8 (0 :: u64)" and offs = "[0]"])
  show "translator_ok ObjectTranslator" by (rule translator_ok_new)
  show "room_for (length [0]) ObjectTranslator" by (simp add: room_for_def ObjectTranslator_def)
  show "object_offset one_object_td k = Inr ([0] ! k)" if "k < length [0 :: nat]" for k
    using that by (simp add: one_object_td_def WritableTransactionData_def object_offset_def Buffer_view_def
        load_def mem_read_def take_le_bytes le_bytes_Suc)
  have "load 0 4 (le_bytes 4 BINDER_TYPE_BINDER @ replicate 12 0 @ le_bytes 8 (0xDEADBEEF :: u64)) =
      Inr BINDER_TYPE_BINDER"
    by (simp add: load_def mem_read_def le_word_le_bytes)
  then show "\<forall>off\<in>set [0]. object_at (td_block one_object_td) (td_base one_object_td + off)"
    by (simp add: one_object_td_def WritableTransactionData_def Buffer_view_def object_at_def
        flat_type_def known_type_def)
qed (simp_all add: one_object_td_def WritableTransactionData_def Buffer_view_def buffer_GetSize_def)

text \<open>the ids that stand for objects towards the server are faithful: an id leads back
  to the address it stands for, asking again for the same object gives the same id,
  and different objects get different ids.\<close>

theorem TranslateOrAddObject_faithful:
  assumes "translator_ok t" and "has_room t" and "TranslateOrAddObject a t = (i, t1)"
    and "TranslateOrAddObject b t1 = (j, t2)"
  shows "i \<noteq> 0 \<and> TranslateCookie i t2 = a \<and> TranslateCookie j t2 = b \<and> (i = j \<longleftrightarrow> a = b) \<and>
    TranslateOrAddObject a t1 = (i, t1)"
proof -
  have ok1: "translator_ok t1" using assms(1-3) by (rule ot.ok_hide)
  have r: "um_find i (tr_objects t1) = Some a" by (rule ot.reveal_hide [OF assms(1,3)])
  then have "um_find i (tr_objects t2) = Some a" by (rule ot.reveal_kept [OF ok1 assms(4)])
  moreover have "um_find j (tr_objects t2) = Some b" by (rule ot.reveal_hide [OF ok1 assms(4)])
  moreover have "i \<noteq> 0" using ok1 um_find_in_set [OF r] by (auto simp: translator_ok_def)
  ultimately show ?thesis
    using ot.hide_distinct [OF assms] ot.hide_again [OF assms(1-3)] by (simp add: TranslateCookie_def)
qed

theorem TranslateOrAddObject_faithful_witness:
  "let (i, t1) = TranslateOrAddObject 0xAAAA ObjectTranslator; (j, t2) = TranslateOrAddObject 0xBBBB t1 in
   i \<noteq> j \<and> TranslateCookie i t2 = 0xAAAA"
  using TranslateOrAddObject_faithful [of ObjectTranslator "0xAAAA" "fst (TranslateOrAddObject 0xAAAA ObjectTranslator)"
      "snd (TranslateOrAddObject 0xAAAA ObjectTranslator)" "0xBBBB"
      "fst (TranslateOrAddObject 0xBBBB (snd (TranslateOrAddObject 0xAAAA ObjectTranslator)))"
      "snd (TranslateOrAddObject 0xBBBB (snd (TranslateOrAddObject 0xAAAA ObjectTranslator)))"]
  by (simp add: translator_ok_new split_beta) (simp add: has_room_def ObjectTranslator_def)

end
