(* ===== verification/Object_Pool.thy ===== *)
theory Object_Pool
  imports Binder_Prelude
begin

text \<open>
  \<^verbatim>\<open>src/src/binderd/object_pool.cpp\<close> and \<^verbatim>\<open>common/ref_counted.h\<close>: the objects a
  client provides, with the number of references others hold to them. An object is
  named by its address, which is also the key it is stored under.
\<close>

section \<open>The pool\<close>

record reference =
  ref_count :: u32
  ref_obj :: u64

text \<open>The calls a pool makes on its objects, in order.\<close>

datatype pool_call = OnReferenceAcquired u64 | OnReferenceReleased u64

record pool =
  pool_refs :: "(u64, reference) um"
  pool_calls :: "pool_call list"

type_synonym 'a pool_comp = "(pool, 'a) comp"

definition ObjectPool :: pool where
  "ObjectPool = \<lparr>pool_refs = [], pool_calls = []\<rparr>"

text \<open>\<open>Pool_New obj\<close>: \<open>obj\<close> is the address \<^verbatim>\<open>operator new\<close> gave.\<close>

definition Pool_New :: "u64 \<Rightarrow> u64 pool_comp" where
  "Pool_New obj =
     bindS (modS (\<lambda>p. p\<lparr>pool_refs := um_insert obj \<lparr>ref_count = 0, ref_obj = obj\<rparr> (pool_refs p)\<rparr>))
       (\<lambda>_. retS obj)"

definition pool_call :: "pool_call \<Rightarrow> unit pool_comp" where
  "pool_call c = modS (\<lambda>p. p\<lparr>pool_calls := pool_calls p @ [c]\<rparr>)"

definition Pool_AddRef :: "u64 \<Rightarrow> unit pool_comp" where
  "Pool_AddRef cookie =
     bindS (getS pool_refs) (\<lambda>refs.
     case um_find cookie refs of
       None \<Rightarrow> throwS RuntimeError
     | Some ref \<Rightarrow>
         seqS (modS (\<lambda>p. p\<lparr>pool_refs :=
                 um_store cookie (ref\<lparr>ref_count := ref_count ref + 1\<rparr>) (pool_refs p)\<rparr>))
        (pool_call (OnReferenceAcquired (ref_obj ref))))"

text \<open>After the entry is erased, \<^verbatim>\<open>ref\<close> refers to memory that is gone.\<close>

definition Pool_Release :: "u64 \<Rightarrow> unit pool_comp" where
  "Pool_Release cookie =
     bindS (getS pool_refs) (\<lambda>refs.
     case um_find cookie refs of
       None \<Rightarrow> throwS RuntimeError
     | Some ref \<Rightarrow>
         let ref = ref\<lparr>ref_count := ref_count ref - 1\<rparr> in
         seqS (modS (\<lambda>p. p\<lparr>pool_refs := um_store cookie ref (pool_refs p)\<rparr>))
        (if ref_count ref = 0
         then seqS (modS (\<lambda>p. p\<lparr>pool_refs := um_erase cookie (pool_refs p)\<rparr>)) (throwS MemFault)
         else pool_call (OnReferenceReleased (ref_obj ref))))"

definition Pool_AdoptObject :: "u64 \<Rightarrow> unit pool_comp" where
  "Pool_AdoptObject obj =
     bindS (getS pool_refs) (\<lambda>refs.
     if um_find obj refs \<noteq> None then throwS RuntimeError
     else modS (\<lambda>p. p\<lparr>pool_refs := um_insert obj \<lparr>ref_count = 0, ref_obj = obj\<rparr> (pool_refs p)\<rparr>))"

definition Pool_GetObject :: "u64 \<Rightarrow> pool \<Rightarrow> u64 option" where
  "Pool_GetObject cookie p = map_option ref_obj (um_find cookie (pool_refs p))"

definition GetReferencesCount :: "pool \<Rightarrow> nat" where
  "GetReferencesCount p = length (pool_refs p)"

definition Pool_Contains :: "u64 \<Rightarrow> pool \<Rightarrow> bool" where
  "Pool_Contains cookie p \<longleftrightarrow> um_find cookie (pool_refs p) \<noteq> None"

text \<open>Every entry is stored under the address of its object.\<close>

definition pool_ok :: "pool \<Rightarrow> bool" where
  "pool_ok p \<longleftrightarrow> um_ok (pool_refs p) \<and> (\<forall>(k, ref)\<in>set (pool_refs p). ref_obj ref = k)"

definition pool_count :: "u64 \<Rightarrow> pool \<Rightarrow> u32 option" where
  "pool_count cookie p = map_option ref_count (um_find cookie (pool_refs p))"

lemma pool_ok_alt:
  "pool_ok p \<longleftrightarrow> um_ok (pool_refs p) \<and> (\<forall>k ref. um_find k (pool_refs p) = Some ref \<longrightarrow> ref_obj ref = k)"
  unfolding pool_ok_def by (auto dest: um_find_in_set um_ok_find)

lemma pool_ok_new: "pool_ok ObjectPool"
  by (simp add: pool_ok_def ObjectPool_def)

lemmas pool_defs = Pool_New_def Pool_AddRef_def Pool_Release_def Pool_AdoptObject_def pool_call_def
  pool_count_def Pool_GetObject_def Pool_Contains_def

lemma keeps_pool_New: "keepsS pool_ok (Pool_New obj)"
  unfolding Pool_New_def
  by (intro keepsS_bind keepsS_mod keepsS_ret) (auto simp: pool_ok_alt um_find_simps split: if_splits)

lemma keeps_pool_call: "keepsS pool_ok (pool_call c)"
  unfolding pool_call_def by (rule keepsS_mod) (simp add: pool_ok_def)

lemma keeps_pool_Adopt: "keepsS pool_ok (Pool_AdoptObject obj)"
  unfolding Pool_AdoptObject_def
  by (intro keepsS_bind keepsS_get)
    (auto intro!: keepsS_mod simp: pool_ok_alt um_find_simps split: if_splits)

lemma AddRef_run:
  assumes "um_find k (pool_refs p) = Some ref"
  shows "Pool_AddRef k p = (Inr (), p\<lparr>pool_refs := um_store k (ref\<lparr>ref_count := ref_count ref + 1\<rparr>) (pool_refs p),
    pool_calls := pool_calls p @ [OnReferenceAcquired (ref_obj ref)]\<rparr>)"
  using assms by (simp add: Pool_AddRef_def pool_call_def run_simps)

lemma Release_run:
  assumes "um_find k (pool_refs p) = Some ref" and "ref_count ref \<noteq> 1"
  shows "Pool_Release k p = (Inr (), p\<lparr>pool_refs := um_store k (ref\<lparr>ref_count := ref_count ref - 1\<rparr>) (pool_refs p),
    pool_calls := pool_calls p @ [OnReferenceReleased (ref_obj ref)]\<rparr>)"
  using assms by (simp add: Pool_Release_def pool_call_def run_simps)

lemma pool_ok_store:
  "pool_ok p \<Longrightarrow> um_find k (pool_refs p) = Some ref \<Longrightarrow> ref_obj ref' = ref_obj ref \<Longrightarrow>
     pool_ok (p\<lparr>pool_refs := um_store k ref' (pool_refs p), pool_calls := cs\<rparr>)"
  by (auto simp: pool_ok_alt um_find_simps split: if_splits)

section \<open>Counting\<close>

primrec repeatS :: "nat \<Rightarrow> ('s, unit) comp \<Rightarrow> ('s, unit) comp" where
  "repeatS 0 m = retS ()"
| "repeatS (Suc n) m = seqS m (repeatS n m)"

lemma AddRef_many:
  assumes "pool_ok p" and "pool_count k p = Some c"
  shows "\<exists>p'. repeatS n (Pool_AddRef k) p = (Inr (), p') \<and> pool_ok p' \<and> pool_count k p' = Some (c + of_nat n) \<and>
    Pool_GetObject k p' = Some k \<and> GetReferencesCount p' = GetReferencesCount p"
  using assms
proof (induction n arbitrary: p c)
  case 0
  then show ?case
    by (auto simp: run_simps pool_count_def Pool_GetObject_def pool_ok_alt)
next
  case (Suc n)
  obtain ref where ref: "um_find k (pool_refs p) = Some ref" "ref_count ref = c"
    using Suc.prems(2) by (auto simp: pool_count_def)
  let ?p = "p\<lparr>pool_refs := um_store k (ref\<lparr>ref_count := ref_count ref + 1\<rparr>) (pool_refs p),
    pool_calls := pool_calls p @ [OnReferenceAcquired (ref_obj ref)]\<rparr>"
  have "pool_ok ?p" by (rule pool_ok_store [OF Suc.prems(1) ref(1)]) simp
  moreover have "pool_count k ?p = Some (c + 1)" using ref by (simp add: pool_count_def um_find_simps)
  moreover have "GetReferencesCount ?p = GetReferencesCount p" by (simp add: GetReferencesCount_def um_store_def)
  ultimately show ?case
    using Suc.IH [of ?p "c + 1"] AddRef_run [OF ref(1)] by (simp add: run_simps add.assoc)
qed

lemma Release_many:
  assumes "pool_ok p" and "pool_count k p = Some c" and "n < unat c"
  shows "\<exists>p'. repeatS n (Pool_Release k) p = (Inr (), p') \<and> pool_ok p' \<and> pool_count k p' = Some (c - of_nat n) \<and>
    Pool_GetObject k p' = Some k"
  using assms
proof (induction n arbitrary: p c)
  case 0
  then show ?case by (auto simp: run_simps pool_count_def Pool_GetObject_def pool_ok_alt)
next
  case (Suc n)
  obtain ref where ref: "um_find k (pool_refs p) = Some ref" "ref_count ref = c"
    using Suc.prems(2) by (auto simp: pool_count_def)
  let ?p = "p\<lparr>pool_refs := um_store k (ref\<lparr>ref_count := ref_count ref - 1\<rparr>) (pool_refs p),
    pool_calls := pool_calls p @ [OnReferenceReleased (ref_obj ref)]\<rparr>"
  have ne: "c \<noteq> 0" "ref_count ref \<noteq> 1" using Suc.prems(3) ref(2) by auto
  have "unat (c - 1) = unat c - 1" using ne(1) by (simp add: unat_sub word_le_nat_alt unat_gt_0 Suc_leI)
  then have "n < unat (c - 1)" using Suc.prems(3) by simp
  moreover have "pool_ok ?p" by (rule pool_ok_store [OF Suc.prems(1) ref(1)]) simp
  moreover have "pool_count k ?p = Some (c - 1)" using ref by (simp add: pool_count_def um_find_simps)
  ultimately show ?case
    using Suc.IH [of ?p "c - 1"] Release_run [OF ref(1) ne(2)] by (simp add: run_simps diff_diff_eq)
qed

section \<open>Intrusive reference counts\<close>

text \<open>\<^verbatim>\<open>RefCounted\<close>; \<open>rc_deleted\<close> says that \<^verbatim>\<open>delete this\<close> was called, after which any use
  of the object is a fault.\<close>

record ref_counted =
  rc_count :: u32
  rc_deleted :: bool

definition RefCounted :: ref_counted where
  "RefCounted = \<lparr>rc_count = 0, rc_deleted = False\<rparr>"

definition rc_AddRef :: "(ref_counted, unit) comp" where
  "rc_AddRef =
     bindS (getS rc_deleted) (\<lambda>gone.
     if gone then throwS MemFault else modS (\<lambda>r. r\<lparr>rc_count := rc_count r + 1\<rparr>))"

definition rc_Release :: "(ref_counted, unit) comp" where
  "rc_Release =
     bindS (getS rc_deleted) (\<lambda>gone.
     if gone then throwS MemFault
     else seqS (modS (\<lambda>r. if rc_count r > 0 then r\<lparr>rc_count := rc_count r - 1\<rparr> else r))
               (modS (\<lambda>r. if rc_count r = 0 then r\<lparr>rc_deleted := True\<rparr> else r)))"

lemma rc_AddRef_run:
  "rc_AddRef \<lparr>rc_count = c, rc_deleted = False\<rparr> = (Inr (), \<lparr>rc_count = c + 1, rc_deleted = False\<rparr>)"
  by (simp add: rc_AddRef_def bindS_def getS_def modS_def)

lemma rc_Release_run:
  "c \<noteq> 0 \<Longrightarrow> rc_Release \<lparr>rc_count = c, rc_deleted = False\<rparr> =
     (Inr (), \<lparr>rc_count = c - 1, rc_deleted = (c = 1)\<rparr>)"
  "rc_Release \<lparr>rc_count = c, rc_deleted = True\<rparr> = (Inl MemFault, \<lparr>rc_count = c, rc_deleted = True\<rparr>)"
  by (simp_all add: rc_Release_def bindS_def seqS_def getS_def modS_def throwS_def word_gt_0)

lemma rc_AddRef_many:
  "repeatS n rc_AddRef \<lparr>rc_count = c, rc_deleted = False\<rparr> =
     (Inr (), \<lparr>rc_count = c + of_nat n, rc_deleted = False\<rparr>)"
  by (induction n arbitrary: c) (simp_all add: rc_AddRef_run run_simps add.assoc)

lemma rc_Release_many:
  "n < unat c \<Longrightarrow> repeatS n rc_Release \<lparr>rc_count = c, rc_deleted = False\<rparr> =
     (Inr (), \<lparr>rc_count = c - of_nat n, rc_deleted = False\<rparr>)"
proof (induction n arbitrary: c)
  case (Suc n)
  have c: "c \<noteq> 0" "c \<noteq> 1" using Suc.prems by auto
  have "unat (c - 1) = unat c - 1" using c(1) by (simp add: unat_sub word_le_nat_alt unat_gt_0 Suc_leI)
  then show ?case
    using Suc c by (simp add: rc_Release_run run_simps diff_diff_eq)
qed (simp add: run_simps)

section \<open>Properties\<close>

text \<open>an object that a pool adopts is found under its address as long as fewer
  references were released than acquired, and its count is the difference.\<close>

theorem pool_counts_references:
  assumes "pool_ok p" and "\<not> Pool_Contains k p" and "m < n" and "n < 2 ^ 32"
  shows "\<exists>p'. seqS (Pool_AdoptObject k) (seqS (repeatS n (Pool_AddRef k)) (repeatS m (Pool_Release k))) p = (Inr (), p') \<and>
    pool_count k p' = Some (of_nat (n - m)) \<and> Pool_GetObject k p' = Some k \<and> pool_ok p'"
proof -
  let ?p = "p\<lparr>pool_refs := um_insert k \<lparr>ref_count = 0, ref_obj = k\<rparr> (pool_refs p)\<rparr>"
  have adopt: "Pool_AdoptObject k p = (Inr (), ?p)"
    using assms(2) by (simp add: Pool_AdoptObject_def Pool_Contains_def run_simps)
  have "pool_ok ?p" using assms(1) by (auto simp: pool_ok_alt um_find_simps split: if_splits)
  moreover have "pool_count k ?p = Some 0"
    using assms(2) by (simp add: pool_count_def Pool_Contains_def um_find_simps)
  ultimately obtain p1 where p1: "repeatS n (Pool_AddRef k) ?p = (Inr (), p1)" "pool_ok p1"
    "pool_count k p1 = Some (of_nat n)"
    using AddRef_many [of ?p k 0 n] by auto
  have "unat (of_nat n :: u32) = n" using assms(4) by (simp add: unat_of_nat)
  then obtain p2 where "repeatS m (Pool_Release k) p1 = (Inr (), p2)" "pool_ok p2"
    "pool_count k p2 = Some (of_nat n - of_nat m)" "Pool_GetObject k p2 = Some k"
    using Release_many [OF p1(2,3), of m] assms(3) by auto
  then show ?thesis using adopt p1(1) assms(3) by (simp add: run_simps of_nat_diff)
qed

theorem pool_counts_references_witness:
  "\<exists>p'. seqS (Pool_AdoptObject 0x1000) (seqS (repeatS 3 (Pool_AddRef 0x1000)) (repeatS 1 (Pool_Release 0x1000))) ObjectPool =
     (Inr (), p') \<and> pool_count 0x1000 p' = Some 2"
  using pool_counts_references [OF pool_ok_new, of "0x1000" 1 3]
  by (simp add: Pool_Contains_def ObjectPool_def) blast

text \<open>releasing the last reference erases the entry and then uses it: the call is made
  through a reference into the erased entry. Releasing an object nobody holds a
  reference to makes the count wrap around instead.\<close>

theorem last_release_uses_erased_entry:
  "(pool_count k p = Some 1 \<longrightarrow>
      (\<exists>p'. Pool_Release k p = (Inl MemFault, p') \<and> \<not> Pool_Contains k p')) \<and>
   (pool_count k p = Some 0 \<longrightarrow>
      (\<exists>p'. Pool_Release k p = (Inr (), p') \<and> pool_count k p' = Some (2 ^ 32 - 1)))"
proof (intro conjI impI)
  assume "pool_count k p = Some 1"
  then obtain ref where "um_find k (pool_refs p) = Some ref" "ref_count ref = 1"
    by (auto simp: pool_count_def)
  then show "\<exists>p'. Pool_Release k p = (Inl MemFault, p') \<and> \<not> Pool_Contains k p'"
    by (simp add: Pool_Release_def run_simps Pool_Contains_def um_find_simps)
next
  assume "pool_count k p = Some 0"
  then obtain ref where "um_find k (pool_refs p) = Some ref" "ref_count ref = 0"
    by (auto simp: pool_count_def)
  then show "\<exists>p'. Pool_Release k p = (Inr (), p') \<and> pool_count k p' = Some (2 ^ 32 - 1)"
    using Release_run [of k p ref] by (simp add: pool_count_def um_find_simps)
qed

theorem last_release_uses_erased_entry_witness:
  "\<exists>p'. Pool_Release 7 \<lparr>pool_refs = [(7, \<lparr>ref_count = 1, ref_obj = 7\<rparr>)], pool_calls = []\<rparr> = (Inl MemFault, p') \<and>
     \<not> Pool_Contains 7 p'"
  using last_release_uses_erased_entry [of 7 "\<lparr>pool_refs = [(7, \<lparr>ref_count = 1, ref_obj = 7\<rparr>)], pool_calls = []\<rparr>"]
  by (simp add: pool_count_def um_find_def)

text \<open>an object with an intrusive count lives through its references: after \<open>n\<close>
  acquisitions it is deleted by the \<open>n\<close>-th release and not before, and a further
  release is a fault.\<close>

theorem RefCounted_deleted_by_last_release:
  assumes "0 < n" and "n < 2 ^ 32" and "m < n"
  shows "seqS (repeatS n rc_AddRef) (repeatS m rc_Release) RefCounted =
      (Inr (), \<lparr>rc_count = of_nat (n - m), rc_deleted = False\<rparr>) \<and>
    (m + 1 = n \<longrightarrow> rc_Release \<lparr>rc_count = of_nat (n - m), rc_deleted = False\<rparr> =
      (Inr (), \<lparr>rc_count = 0, rc_deleted = True\<rparr>)) \<and>
    rc_Release \<lparr>rc_count = 0, rc_deleted = True\<rparr> = (Inl MemFault, \<lparr>rc_count = 0, rc_deleted = True\<rparr>)"
proof -
  have "unat (of_nat n :: u32) = n" using assms(2) by (simp add: unat_of_nat)
  then have "repeatS m rc_Release \<lparr>rc_count = of_nat n, rc_deleted = False\<rparr> =
      (Inr (), \<lparr>rc_count = of_nat n - of_nat m, rc_deleted = False\<rparr>)"
    using rc_Release_many [of m "of_nat n"] assms(3) by simp
  moreover have "m + 1 = n \<Longrightarrow> n - m = 1" by simp
  ultimately show ?thesis
    using rc_AddRef_many [of n 0] assms(3)
    by (auto simp: RefCounted_def run_simps of_nat_diff rc_Release_run)
qed

theorem RefCounted_deleted_by_last_release_witness:
  "seqS (repeatS 2 rc_AddRef) (repeatS 1 rc_Release) RefCounted =
     (Inr (), \<lparr>rc_count = 1, rc_deleted = False\<rparr>) \<and>
   rc_Release \<lparr>rc_count = 1, rc_deleted = False\<rparr> = (Inr (), \<lparr>rc_count = 0, rc_deleted = True\<rparr>)"
  using RefCounted_deleted_by_last_release [of 2 1] by simp

end
