(* ===== verification/Client.thy ===== *)
theory Client
  imports Object_Translator Object_Pool
begin

text \<open>
  \<^verbatim>\<open>src/src/binderd/client_impl.cpp\<close>, \<^verbatim>\<open>remote_object.cpp\<close> and
  \<^verbatim>\<open>local_object.cpp\<close>: the client's end of a connection, the calls that are waiting for
  their answers, and the objects it provides or holds references to.

  A thread that waits for an answer is woken by the frames that arrive meanwhile:
  \<open>incoming\<close> lists the frames the server will send, and waiting works them off in order;
  when there are none left the thread is \<open>Blocked\<close>. What an object of the application
  does with a transaction (\<^verbatim>\<open>TransactionHandler::OnTransact\<close>) is a parameter.
\<close>

section \<open>State\<close>

record pending_call =
  pc_promise :: nat
  pc_type :: msg_type
  pc_one_way :: bool

record dead_recipient =
  dr_id :: u32
  dr_proxy :: u64
  dr_handles :: "u64 list"

record remote_object =
  ro_handle :: u64
  ro_has_release :: bool
  obituaries_sent :: bool
  obituaries :: "nat list"

text \<open>\<open>WrappedObject\<close> is the class of the Android libraries that makes an object of theirs, at the
  address it holds, an object of the client.\<close>

datatype obj = LocalObject | RemoteObject remote_object | WrappedObject u64

datatype strand_task = TaskFinishCall u64 | TaskContextMessage message

text \<open>\<open>died\<close> lists the calls of \<^verbatim>\<open>DeathRecipient::OnObjectDied\<close>, \<open>log_seen\<close> those of
  \<^verbatim>\<open>LogMessageHandler::OnLogMessage\<close>; \<open>promises\<close> holds the values that were set.\<close>

record client =
  c_alloc :: allocator
  c_connected :: bool
  c_running :: bool
  c_should_exit :: bool
  c_reading :: bool
  c_closed :: bool
  c_outbox :: "byte list list"
  incoming :: "buffer list"
  next_cookie :: u64
  pending_calls :: "(u64, pending_call) um"
  next_promise :: nat
  promises :: "nat \<Rightarrow> message option"
  strand :: "strand_task list"
  in_messages :: "message list"
  context_obj :: "u64 option"
  has_log_handler :: bool
  log_seen :: "message list"
  c_pool :: pool
  c_translator :: translator
  dead_recipients :: "dead_recipient list"
  c_objects :: "u64 \<Rightarrow> obj option"
  next_addr :: u64
  died :: "(nat \<times> u64) list"

type_synonym 'a cl = "(client, 'a) comp"

type_synonym handler = "u64 \<Rightarrow> transaction_data \<Rightarrow> (status \<times> transaction_data option) cl"

definition ClientImpl :: "allocator \<Rightarrow> client" where
  "ClientImpl a =
     \<lparr>c_alloc = a, c_connected = False, c_running = False, c_should_exit = False, c_reading = False,
      c_closed = False, c_outbox = [], incoming = [], next_cookie = 0, pending_calls = [],
      next_promise = 0, promises = Map.empty, strand = [], in_messages = [], context_obj = None,
      has_log_handler = False, log_seen = [], c_pool = ObjectPool, c_translator = ObjectTranslator,
      dead_recipients = [], c_objects = Map.empty, next_addr = 0x1000, died = []\<rparr>"

definition on_translator :: "(translator, 'a) comp \<Rightarrow> 'a cl" where
  "on_translator m = (\<lambda>c. let (r, t) = m (c_translator c) in (r, c\<lparr>c_translator := t\<rparr>))"

definition on_pool :: "(pool, 'a) comp \<Rightarrow> 'a cl" where
  "on_pool m = (\<lambda>c. let (r, p) = m (c_pool c) in (r, c\<lparr>c_pool := p\<rparr>))"

definition client_send :: "message \<Rightarrow> unit cl" where
  "client_send msg =
     bindS (getS c_alloc) (\<lambda>a.
     bindS (liftS (Pack a msg)) (\<lambda>b.
     modS (\<lambda>c. c\<lparr>c_outbox := c_outbox c @ [bdata b]\<rparr>)))"

section \<open>Connecting and reading\<close>

definition Client_ReadNextMessage :: "unit cl" where
  "Client_ReadNextMessage = modS (\<lambda>c. c\<lparr>c_reading := True\<rparr>)"

text \<open>\<open>Client_Connect ok\<close>: \<open>ok\<close> is what \<^verbatim>\<open>messenger_->Connect\<close> returns. The constructor sets
  \<^verbatim>\<open>running_\<close> afterwards in both cases.\<close>

definition Client_Connect :: "bool \<Rightarrow> unit cl" where
  "Client_Connect ok =
     (if \<not> ok then retS ()
      else seqS (modS (\<lambda>c. c\<lparr>c_connected := True\<rparr>)) Client_ReadNextMessage)"

definition ClientImpl_connect :: "bool \<Rightarrow> unit cl" where
  "ClientImpl_connect ok = seqS (Client_Connect ok) (modS (\<lambda>c. c\<lparr>c_running := True\<rparr>))"

definition Client_Terminate :: "unit cl" where
  "Client_Terminate = modS (\<lambda>c. c\<lparr>c_should_exit := True, c_closed := True\<rparr>)"

definition set_promise :: "nat \<Rightarrow> message \<Rightarrow> unit cl" where
  "set_promise p msg =
     bindS (getS (\<lambda>c. promises c p)) (\<lambda>v.
     case v of
       Some _ \<Rightarrow> throwS RuntimeError
     | None \<Rightarrow> modS (\<lambda>c. c\<lparr>promises := (promises c)(p \<mapsto> msg)\<rparr>))"

text \<open>\<^verbatim>\<open>static_cast<Status>(reader.ReadInt32())\<close>\<close>

definition ReadStatus :: "message \<Rightarrow> status res" where
  "ReadStatus msg = bindR (ReadInt32 (Message_GetReader msg)) (\<lambda>(c, _). Inr (status_of c))"

definition post :: "strand_task \<Rightarrow> unit cl" where
  "post t = modS (\<lambda>c. c\<lparr>strand := strand c @ [t]\<rparr>)"

text \<open>The body of the loop of \<^verbatim>\<open>OnNewMessage\<close>.\<close>

definition dispatch :: "message \<Rightarrow> unit cl" where
  "dispatch msg =
     (if mtype msg = TLogEntry then
        bindS (getS has_log_handler) (\<lambda>lh.
        if lh then
          bindS (liftS (bindR (ReadSizedData (Message_GetReader msg)) (\<lambda>(b, _). CreateFromData b 0))) (\<lambda>real_msg.
          modS (\<lambda>c. c\<lparr>log_seen := log_seen c @ [real_msg]\<rparr>))
        else retS ())
      else
        bindS (getS pending_calls) (\<lambda>calls.
        case um_find (mcookie msg) calls of
          Some call \<Rightarrow>
            bindS (if mtype msg = TStatus \<and> pc_type call = TTransaction \<and> \<not> pc_one_way call
                   then bindS (liftS (ReadStatus msg)) (\<lambda>st. retS (st = OK))
                   else retS False) (\<lambda>delivered.
            if delivered then retS ()
            else seqS (set_promise (pc_promise call) msg) (post (TaskFinishCall (mcookie msg))))
        | None \<Rightarrow>
            bindS (getS context_obj) (\<lambda>co.
            if mtype msg = TTransaction \<and> co \<noteq> None then post (TaskContextMessage msg)
            else modS (\<lambda>c. c\<lparr>in_messages := in_messages c @ [msg]\<rparr>))))"

function dispatch_all :: "parser \<Rightarrow> unit cl" where
  "dispatch_all p =
     (case Parser_Next p of
        Inl e \<Rightarrow> throwS e
      | Inr (None, _) \<Rightarrow> retS ()
      | Inr (Some msg, p') \<Rightarrow> seqS (dispatch msg) (dispatch_all p'))"
  by pat_completeness auto
termination
proof (relation "measure (\<lambda>p. bytes_available p - consumed p)")
  fix p :: parser and r n p' m
  assume "Parser_Next p = Inr r" and "(n, p') = r" and "n = Some m"
  then have "Parser_Next p = Inr (Some m, p')" by simp
  note Parser_Next_consumes [OF this]
  then show "(p', p) \<in> measure (\<lambda>p. bytes_available p - consumed p)" by simp
qed simp

declare dispatch_all.simps [simp del]

definition OnNewMessage :: "buffer option \<Rightarrow> unit cl" where
  "OnNewMessage frame =
     seqS (modS (\<lambda>c. c\<lparr>c_reading := False\<rparr>))
    (case frame of
       None \<Rightarrow> Client_Terminate
     | Some b \<Rightarrow> seqS (dispatch_all (MessageParser b (buffer_GetSize b))) Client_ReadNextMessage)"

section \<open>Calls\<close>

definition Client_SendStatus :: "message \<Rightarrow> status \<Rightarrow> unit cl" where
  "Client_SendStatus msg st =
     bindS (getS c_alloc) (\<lambda>a.
     bindS (liftS (Message_write (WriteInt32 a (status_code st))
                    (SetCookie (mcookie msg) (Message_Create TStatus)))) client_send)"

definition FinishCall :: "u64 \<Rightarrow> unit cl" where
  "FinishCall cookie = modS (\<lambda>c. c\<lparr>pending_calls := um_erase cookie (pending_calls c)\<rparr>)"

definition NewCookie :: "u64 cl" where
  "NewCookie = (\<lambda>c. (Inr (next_cookie c), c\<lparr>next_cookie := next_cookie c + 1\<rparr>))"

text \<open>The result is the promise and the message with its new cookie.\<close>

definition StartCall :: "message \<Rightarrow> bool \<Rightarrow> (nat \<times> message) cl" where
  "StartCall msg one_way =
     bindS NewCookie (\<lambda>cookie.
     let msg = SetCookie cookie msg in
     bindS (getS pending_calls) (\<lambda>calls.
     if um_find cookie calls \<noteq> None then throwS RuntimeError
     else
       bindS (getS next_promise) (\<lambda>p.
       seqS (modS (\<lambda>c. c\<lparr>next_promise := p + 1, pending_calls :=
               um_insert cookie \<lparr>pc_promise = p, pc_type = mtype msg, pc_one_way = one_way\<rparr> (pending_calls c)\<rparr>))
       (retS (p, msg)))))"

definition QueueMessage :: "message \<Rightarrow> unit cl" where
  "QueueMessage msg =
     bindS (getS (\<lambda>c. (c_should_exit c, c_running c))) (\<lambda>(ex, run).
     if ex \<or> \<not> run then throwS RuntimeError else client_send msg)"

definition DequeueMessage :: "message option cl" where
  "DequeueMessage =
     bindS (getS (\<lambda>c. (in_messages c, c_should_exit c))) (\<lambda>(q, ex).
     if ex then retS None
     else case q of
        [] \<Rightarrow> throwS Blocked
      | m # q' \<Rightarrow> seqS (modS (\<lambda>c. c\<lparr>in_messages := q'\<rparr>)) (retS (Some m)))"

text \<open>\<^verbatim>\<open>ft.wait(); ft.get()\<close>: the frames that arrive are worked off until the promise has a
  value. A frame is only taken while a read is outstanding.\<close>

primrec await_frames :: "nat \<Rightarrow> buffer list \<Rightarrow> message cl" where
  "await_frames p [] =
     bindS (getS (\<lambda>c. promises c p)) (\<lambda>v.
     case v of
       Some m \<Rightarrow> seqS (modS (\<lambda>c. c\<lparr>incoming := []\<rparr>)) (retS m)
     | None \<Rightarrow> throwS Blocked)"
| "await_frames p (f # fs) =
     bindS (getS (\<lambda>c. (promises c p, c_reading c))) (\<lambda>(v, rd).
     case v of
       Some m \<Rightarrow> seqS (modS (\<lambda>c. c\<lparr>incoming := f # fs\<rparr>)) (retS m)
     | None \<Rightarrow>
         if \<not> rd then throwS Blocked
         else seqS (tryS (OnNewMessage (Some f))
                      (\<lambda>e. case e of OutOfRange \<Rightarrow> Some (retS ()) | RuntimeError \<Rightarrow> Some (retS ()) | _ \<Rightarrow> None))
              (await_frames p fs))"

definition await :: "nat \<Rightarrow> message cl" where
  "await p = bindS (getS incoming) (await_frames p)"

text \<open>\<^verbatim>\<open>Transact(const MessagePtr&, bool)\<close>; \<open>None\<close> is \<^verbatim>\<open>nullptr\<close>.\<close>

definition Transact_message :: "message \<Rightarrow> bool \<Rightarrow> message option cl" where
  "Transact_message msg one_way =
     bindS (getS c_connected) (\<lambda>con.
     if \<not> con then retS None
     else
       bindS (StartCall msg one_way) (\<lambda>(p, msg).
       seqS (QueueMessage msg)
      (bindS (await p) (\<lambda>m. retS (Some m)))))"

text \<open>\<^verbatim>\<open>Transact(int32_t, ...)\<close>: the result is the status and, where it was set, the reply.
  The handle passes through an \<^verbatim>\<open>int32_t\<close>. A null request, or a null place for the reply
  of a two-way call, is answered with \<open>BadValue\<close> at once.\<close>

definition Transact ::
    "u64 \<Rightarrow> transaction_data option \<Rightarrow> bool \<Rightarrow> (status \<times> transaction_data option) cl" where
  "Transact handle request wants_reply =
     (case request of
        None \<Rightarrow> retS (BadValue, None)
      | Some request \<Rightarrow>
          if \<not> td_one_way request \<and> \<not> wants_reply then retS (BadValue, None)
          else
            bindS NewCookie (\<lambda>cookie.
            let msg = SetCookie cookie (SetDestination (scast (ucast handle :: u32)) (Message_Create TTransaction)) in
            bindS (on_translator (ProcessTransaction Out request)) (\<lambda>(_, request).
            bindS (getS c_alloc) (\<lambda>a.
            bindS (liftS (bindR (TransactionData_Pack a request) (\<lambda>b.
                          Message_write (WriteData a (bdata b)) msg))) (\<lambda>msg.
            bindS (Transact_message msg (td_one_way request)) (\<lambda>rmsg.
            case rmsg of
              None \<Rightarrow> retS (FailedTransaction, None)
            | Some rmsg \<Rightarrow>
                if td_one_way request \<and> mtype rmsg = TStatus
                then bindS (liftS (ReadStatus rmsg)) (\<lambda>st. retS (st, None))
                else if mtype rmsg \<noteq> TTransactionReply then retS (BadValue, None)
                else
                  bindS (liftS (TransactionDataFromMessage rmsg)) (\<lambda>reply_data.
                  if td_has_status reply_data
                  then bindS (liftS (GetStatus reply_data)) (\<lambda>st. retS (st, None))
                  else
                    bindS (on_translator (ProcessTransaction In reply_data)) (\<lambda>(_, reply_data).
                    retS (OK, Some reply_data)))))))))"

text \<open>The calls that send a message and take the status from the answer: \<open>failed\<close> is what
  they return without an answer.\<close>

definition status_call :: "message \<Rightarrow> status \<Rightarrow> status cl" where
  "status_call msg failed =
     bindS (Transact_message msg False) (\<lambda>reply.
     case reply of
       None \<Rightarrow> retS failed
     | Some reply \<Rightarrow> liftS (ReadStatus reply))"

definition AddReference :: "u64 \<Rightarrow> status cl" where
  "AddReference handle =
     bindS (getS c_alloc) (\<lambda>a.
     bindS (liftS (Message_write (WriteUint64 a handle) (Message_Create TAcquire))) (\<lambda>msg.
     status_call msg FailedTransaction))"

definition ReleaseReference :: "u64 \<Rightarrow> status cl" where
  "ReleaseReference handle =
     bindS (getS c_alloc) (\<lambda>a.
     bindS (liftS (Message_write (WriteUint64 a handle) (Message_Create TRelease))) (\<lambda>msg.
     status_call msg FailedTransaction))"

definition BecomeContextManager :: "status cl" where
  "BecomeContextManager = status_call (Message_Create TSetContextMgr) UnknownError"

definition BecomeMonitor :: "status cl" where
  "BecomeMonitor = status_call (Message_Create TSetMonitor) UnknownError"

definition SetContextObject :: "u64 option \<Rightarrow> unit cl" where
  "SetContextObject ob = modS (\<lambda>c. c\<lparr>context_obj := ob\<rparr>)"

definition SetLogMessageHandler :: "bool \<Rightarrow> unit cl" where
  "SetLogMessageHandler h = modS (\<lambda>c. c\<lparr>has_log_handler := h\<rparr>)"

section \<open>Death notifications\<close>

text \<open>\<^verbatim>\<open>DeadRecipient::id\<close> is an \<^verbatim>\<open>int\<close>; it is compared with a \<^verbatim>\<open>uint64_t\<close> after
  conversion to that type.\<close>

definition same_id :: "u64 \<Rightarrow> dead_recipient \<Rightarrow> bool" where
  "same_id i d \<longleftrightarrow> scast (dr_id d) = i"

primrec find_recipient :: "u64 \<Rightarrow> dead_recipient list \<Rightarrow> nat option" where
  "find_recipient i [] = None"
| "find_recipient i (d # ds) = (if same_id i d then Some 0 else map_option Suc (find_recipient i ds))"

definition add_recipient :: "u64 \<Rightarrow> u64 \<Rightarrow> u64 \<Rightarrow> dead_recipient list \<Rightarrow> dead_recipient list" where
  "add_recipient i proxy handle ds =
     (case find_recipient i ds of
        None \<Rightarrow> ds @ [\<lparr>dr_id = ucast i, dr_proxy = proxy, dr_handles = [handle]\<rparr>]
      | Some k \<Rightarrow> ds[k := (ds ! k)\<lparr>dr_handles := dr_handles (ds ! k) @ [handle]\<rparr>])"

definition drop_index :: "nat \<Rightarrow> 'a list \<Rightarrow> 'a list" where
  "drop_index k xs = take k xs @ drop (Suc k) xs"

definition drop_handle :: "nat \<Rightarrow> u64 \<Rightarrow> dead_recipient list \<Rightarrow> dead_recipient list" where
  "drop_handle k handle ds =
     (let d = (ds ! k)\<lparr>dr_handles := remove1 handle (dr_handles (ds ! k))\<rparr> in
      if dr_handles d = [] then drop_index k ds else ds[k := d])"

definition death_message :: "allocator \<Rightarrow> msg_type \<Rightarrow> u64 \<Rightarrow> u64 \<Rightarrow> message res" where
  "death_message a t handle i =
     Message_write (\<lambda>w. bindR (WriteUint64 a handle w) (WriteUint64 a i)) (Message_Create t)"

definition RequestDeathNotification :: "u64 \<Rightarrow> u64 \<Rightarrow> status cl" where
  "RequestDeathNotification handle proxy =
     bindS (on_translator (\<lambda>t. let (i, t) = TranslateOrAddObject proxy t in (Inr i, t))) (\<lambda>i.
     seqS (modS (\<lambda>c. c\<lparr>dead_recipients := add_recipient i proxy handle (dead_recipients c)\<rparr>))
    (bindS (getS c_alloc) (\<lambda>a.
     bindS (liftS (death_message a TRequestDeathNotification handle i)) (\<lambda>msg.
     status_call msg UnknownError))))"

definition ClearDeathNotification :: "u64 \<Rightarrow> u64 \<Rightarrow> status cl" where
  "ClearDeathNotification handle proxy =
     bindS (getS (\<lambda>c. TranslateAddress proxy (c_translator c))) (\<lambda>i.
     if i = Translator_Invalid then retS DeadObject
     else
       bindS (getS dead_recipients) (\<lambda>ds.
       case find_recipient i ds of
         None \<Rightarrow> retS DeadObject
       | Some k \<Rightarrow>
           seqS (modS (\<lambda>c. c\<lparr>dead_recipients := drop_handle k handle (dead_recipients c)\<rparr>))
          (bindS (getS c_alloc) (\<lambda>a.
           bindS (liftS (death_message a TClearDeathNotification handle i)) (\<lambda>msg.
           status_call msg UnknownError)))))"

section \<open>Objects\<close>

text \<open>\<^verbatim>\<open>GetReleaseReferenceClosure\<close>: \<open>alive\<close> says that the client still exists when the
  closure is called.\<close>

definition ReleaseReferenceClosure :: "bool \<Rightarrow> u64 \<Rightarrow> status cl" where
  "ReleaseReferenceClosure alive handle = (if alive then ReleaseReference handle else retS DeadObject)"

definition new_object :: "obj \<Rightarrow> u64 cl" where
  "new_object ob = (\<lambda>c. (Inr (next_addr c),
     c\<lparr>c_objects := (c_objects c)(next_addr c \<mapsto> ob), next_addr := next_addr c + 0x100\<rparr>))"

text \<open>The constructor ignores the status of the reference it asks for.\<close>

definition RemoteObject_Create :: "bool \<Rightarrow> u64 \<Rightarrow> u64 cl" where
  "RemoteObject_Create has_client handle =
     (let ro = \<lparr>ro_handle = handle, ro_has_release = has_client, obituaries_sent = False, obituaries = []\<rparr> in
      if \<not> has_client then new_object (RemoteObject ro)
      else bindS (AddReference handle) (\<lambda>_. new_object (RemoteObject ro)))"

text \<open>An exception that leaves a destructor ends the process.\<close>

definition RemoteObject_destroy :: "bool \<Rightarrow> remote_object \<Rightarrow> unit cl" where
  "RemoteObject_destroy alive ro =
     (if ro_has_release ro
      then tryS (bindS (ReleaseReferenceClosure alive (ro_handle ro)) (\<lambda>_. retS ()))
             (\<lambda>e. if e \<in> {OutOfRange, RuntimeError} then Some (throwS Aborted) else None)
      else retS ())"

definition get_remote :: "u64 \<Rightarrow> remote_object cl" where
  "get_remote ob = (\<lambda>c. case c_objects c ob of Some (RemoteObject ro) \<Rightarrow> (Inr ro, c) | _ \<Rightarrow> (Inl MemFault, c))"

definition put_remote :: "u64 \<Rightarrow> remote_object \<Rightarrow> unit cl" where
  "put_remote ob ro = modS (\<lambda>c. c\<lparr>c_objects := (c_objects c)(ob \<mapsto> RemoteObject ro)\<rparr>)"

definition LinkToDeath_remote :: "u64 \<Rightarrow> nat \<Rightarrow> status cl" where
  "LinkToDeath_remote ob recipient =
     bindS (get_remote ob) (\<lambda>ro.
     if obituaries_sent ro then retS DeadObject
     else
       bindS (RequestDeathNotification (ro_handle ro) ob) (\<lambda>st.
       if st \<noteq> OK then retS st
       else
         bindS (get_remote ob) (\<lambda>ro.
         seqS (put_remote ob (ro\<lparr>obituaries := obituaries ro @ [recipient]\<rparr>)) (retS OK))))"

definition UnlinkToDeath_remote :: "u64 \<Rightarrow> nat \<Rightarrow> status cl" where
  "UnlinkToDeath_remote ob recipient =
     bindS (get_remote ob) (\<lambda>ro.
     if obituaries_sent ro then retS DeadObject
     else if recipient \<notin> set (obituaries ro) then retS NameNotFound
     else
       bindS (ClearDeathNotification (ro_handle ro) ob) (\<lambda>st.
       if st \<noteq> OK then retS st
       else
         bindS (get_remote ob) (\<lambda>ro.
         seqS (put_remote ob (ro\<lparr>obituaries := remove1 recipient (obituaries ro)\<rparr>)) (retS OK))))"

definition LinkToDeath :: "u64 \<Rightarrow> nat \<Rightarrow> status cl" where
  "LinkToDeath ob recipient =
     bindS (getS (\<lambda>c. c_objects c ob)) (\<lambda>o'.
     case o' of
       Some (RemoteObject _) \<Rightarrow> LinkToDeath_remote ob recipient
     | Some LocalObject \<Rightarrow> retS InvalidOperation
     | Some (WrappedObject _) \<Rightarrow> retS InvalidOperation
     | None \<Rightarrow> throwS MemFault)"

definition UnlinkToDeath :: "u64 \<Rightarrow> nat \<Rightarrow> status cl" where
  "UnlinkToDeath ob recipient =
     bindS (getS (\<lambda>c. c_objects c ob)) (\<lambda>o'.
     case o' of
       Some (RemoteObject _) \<Rightarrow> UnlinkToDeath_remote ob recipient
     | Some LocalObject \<Rightarrow> retS InvalidOperation
     | Some (WrappedObject _) \<Rightarrow> retS InvalidOperation
     | None \<Rightarrow> throwS MemFault)"

definition SendObituary :: "u64 \<Rightarrow> unit cl" where
  "SendObituary ob =
     bindS (get_remote ob) (\<lambda>ro.
     if obituaries_sent ro then retS ()
     else seqS (modS (\<lambda>c. c\<lparr>died := died c @ map (\<lambda>r. (r, ob)) (obituaries ro)\<rparr>))
               (put_remote ob (ro\<lparr>obituaries_sent := True\<rparr>)))"

text \<open>The codes of \<^verbatim>\<open>constants.h\<close> that every local object refuses.\<close>

definition kPingTransactionCode :: u32 where "kPingTransactionCode = PACK_CHARS 0x5f 0x50 0x4e 0x47"
definition kDumpTransactionCode :: u32 where "kDumpTransactionCode = PACK_CHARS 0x5f 0x44 0x4d 0x50"
definition kShellCommandTransactionCode :: u32 where "kShellCommandTransactionCode = PACK_CHARS 0x5f 0x43 0x4d 0x44"
definition kInterfaceTransactionCode :: u32 where "kInterfaceTransactionCode = PACK_CHARS 0x5f 0x4e 0x54 0x46"
definition kSysPropsTransactionCode :: u32 where "kSysPropsTransactionCode = PACK_CHARS 0x5f 0x53 0x50 0x52"

definition LocalObject_Transact :: "handler \<Rightarrow> handler" where
  "LocalObject_Transact h ob request =
     (if td_code request = kInterfaceTransactionCode \<or> td_code request = kDumpTransactionCode \<or>
         td_code request = kShellCommandTransactionCode \<or> td_code request = kSysPropsTransactionCode
      then retS (UnknownTransaction, None)
      else h ob request)"

definition Object_Transact :: "handler \<Rightarrow> handler" where
  "Object_Transact h ob request =
     bindS (getS (\<lambda>c. c_objects c ob)) (\<lambda>o'.
     case o' of
       Some LocalObject \<Rightarrow> LocalObject_Transact h ob request
     | Some (RemoteObject ro) \<Rightarrow> Transact (ro_handle ro) (Some request) True
     | Some (WrappedObject _) \<Rightarrow> h ob request
     | None \<Rightarrow> throwS MemFault)"

section \<open>Serving transactions\<close>

definition reply_message :: "allocator \<Rightarrow> message \<Rightarrow> transaction_data \<Rightarrow> message res" where
  "reply_message a msg td =
     bindR (TransactionData_Pack a td) (\<lambda>b.
     Message_write (WriteData a (bdata b)) (SetCookie (mcookie msg) (Message_Create TTransactionReply)))"

definition HandleContextObjectMessage :: "handler \<Rightarrow> message \<Rightarrow> unit cl" where
  "HandleContextObjectMessage h msg =
     (if mtype msg \<noteq> TTransaction then retS ()
      else
        bindS (liftS (TransactionDataFromMessage msg)) (\<lambda>request.
        bindS (getS context_obj) (\<lambda>co.
        case co of
          None \<Rightarrow> throwS MemFault
        | Some ob \<Rightarrow>
            bindS (Object_Transact h ob request) (\<lambda>(st, reply).
            bindS (getS c_alloc) (\<lambda>a.
            bindS (if st \<noteq> OK then liftS (reply_message a msg (TransactionStatus st))
                   else case reply of
                       None \<Rightarrow> throwS MemFault
                     | Some r \<Rightarrow> liftS (reply_message a msg r)) client_send)))))"

definition transaction_object :: "transaction_data \<Rightarrow> u64 option cl" where
  "transaction_object request =
     (\<lambda>c. let cookie = TranslateCookie (td_cookie request) (c_translator c) in
          (Inr (if cookie \<noteq> 0 then Pool_GetObject cookie (c_pool c) else context_obj c), c))"

definition OnClientTransaction :: "handler \<Rightarrow> message \<Rightarrow> unit cl" where
  "OnClientTransaction h msg =
     bindS (liftS (TransactionDataFromMessage msg)) (\<lambda>request.
     bindS (on_translator (ProcessTransaction In request)) (\<lambda>(_, request).
     bindS (transaction_object request) (\<lambda>ob.
     case ob of
       None \<Rightarrow> Client_SendStatus msg UnknownTransaction
     | Some ob \<Rightarrow>
         bindS (Object_Transact h ob request) (\<lambda>(st, reply).
         bindS (if st \<noteq> OK then retS (TransactionStatus st)
                else case reply of
                    Some r \<Rightarrow> bindS (on_translator (ProcessTransaction Out r)) (\<lambda>(_, r). retS r)
                  | None \<Rightarrow> retS (TransactionStatus OK)) (\<lambda>td.
         bindS (getS c_alloc) (\<lambda>a.
         bindS (liftS (reply_message a msg td)) QueueMessage))))))"

definition OnDeadBinder :: "message \<Rightarrow> unit cl" where
  "OnDeadBinder msg =
     bindS (liftS (ReadUint64 (Message_GetReader msg))) (\<lambda>(handle, reader).
     bindS (liftS (ReadUint64 reader)) (\<lambda>(i, _).
     bindS (getS (\<lambda>c. (dead_recipients c, c_objects c))) (\<lambda>(ds, obs).
     case find_recipient i ds of
       None \<Rightarrow> Client_SendStatus msg DeadObject
     | Some k \<Rightarrow>
         (case obs (dr_proxy (ds ! k)) of
            Some (RemoteObject _) \<Rightarrow>
              seqS (SendObituary (dr_proxy (ds ! k)))
             (seqS (modS (\<lambda>c. c\<lparr>dead_recipients := drop_index k (dead_recipients c)\<rparr>))
              (Client_SendStatus msg OK))
          | _ \<Rightarrow> Client_SendStatus msg DeadObject))))"

definition ProcessAndExecuteCommand :: "handler \<Rightarrow> bool cl" where
  "ProcessAndExecuteCommand h =
     bindS DequeueMessage (\<lambda>msg.
     case msg of
       None \<Rightarrow> retS False
     | Some msg \<Rightarrow>
         seqS (case mtype msg of
                 TTransaction \<Rightarrow> OnClientTransaction h msg
               | TDeadBinder \<Rightarrow> OnDeadBinder msg
               | _ \<Rightarrow> retS ())
        (retS True))"

text \<open>The tasks posted to the strand run one at a time, in order.\<close>

definition run_strand :: "handler \<Rightarrow> unit cl" where
  "run_strand h =
     bindS (getS strand) (\<lambda>ts.
     case ts of
       [] \<Rightarrow> retS ()
     | t # ts' \<Rightarrow>
         seqS (modS (\<lambda>c. c\<lparr>strand := ts'\<rparr>))
        (case t of
           TaskFinishCall cookie \<Rightarrow> FinishCall cookie
         | TaskContextMessage msg \<Rightarrow> HandleContextObjectMessage h msg))"

section \<open>Reading statuses\<close>

lemma ReadStatus_bytes:
  assumes "bdata (mdata m) = le_bytes 4 (w :: u32) @ xs"
  shows "ReadStatus m = Inr (status_of (low_byte w))"
proof -
  have "reader_ok (Message_GetReader m)" "rest (Message_GetReader m) = le_bytes 4 w @ xs"
    using assms by (simp_all add: Message_GetReader_def reader_ok_def rest_def BinaryReader_def)
  then have "ReadInt32 (Message_GetReader m) = Inr (low_byte w, adv 4 (Message_GetReader m))"
    by (simp add: Read_defs ReadValue_le_bytes)
  then show ?thesis by (simp add: ReadStatus_def)
qed

lemma truncated_status:
  assumes "unat k < 256"
  shows "mtype (truncated (status_reply k st)) = TStatus" "mcookie (truncated (status_reply k st)) = k"
    "bdata (mdata (truncated (status_reply k st))) = le_bytes 4 (status_code st)"
  using truncated_id [of "status_reply k st"] assms by (simp_all add: status_reply_def known_types_def)

section \<open>Receiving frames\<close>

lemma dispatch_one:
  assumes "bdata b = packed m" and "length (bdata (mdata m)) < 256"
  shows "dispatch_all (MessageParser b (buffer_GetSize b)) = seqS (dispatch (truncated m)) (retS ())"
proof -
  let ?p = "MessageParser b (buffer_GetSize b)"
  have "Parser_Next ?p = Inr (Some (truncated m), ?p\<lparr>consumed := length (packed m)\<rparr>)"
    using assms Parser_Next_packed [of ?p "[]" m "[]"]
    by (simp add: MessageParser_def buffer_GetSize_def)
  moreover have "Parser_Next (?p\<lparr>consumed := length (packed m)\<rparr>) =
      Inr (None, ?p\<lparr>consumed := length (packed m)\<rparr>)"
    using assms by (simp add: Parser_Next_end MessageParser_def buffer_GetSize_def)
  then have "dispatch_all (?p\<lparr>consumed := length (packed m)\<rparr>) = retS ()"
    by (subst dispatch_all.simps) simp
  ultimately show ?thesis by (subst dispatch_all.simps) simp
qed

lemma OnNewMessage_frame:
  assumes "bdata b = packed m" and "length (bdata (mdata m)) < 256"
    and "dispatch (truncated m) (c\<lparr>c_reading := False\<rparr>) = (Inr (), c')"
  shows "OnNewMessage (Some b) c = (Inr (), c'\<lparr>c_reading := True\<rparr>)"
  using assms by (simp add: OnNewMessage_def dispatch_one Client_ReadNextMessage_def run_simps)

lemma bindS_if_run:
  "bindS (if P then m else k) f s = (if P then bindS m f s else bindS k f s)"
  by simp

text \<open>The acknowledgement of a two-way transaction leaves the call waiting; its reply
  completes it.\<close>

lemma dispatch_ack:
  assumes "mtype msg = TStatus" and "um_find (mcookie msg) (pending_calls c) = Some call"
    and "pc_type call = TTransaction" and "\<not> pc_one_way call" and "ReadStatus msg = Inr OK"
  shows "dispatch msg c = (Inr (), c)"
  using assms by (simp add: dispatch_def bindS_def getS_def liftS_def retS_def)

lemma dispatch_reply:
  assumes "mtype msg \<noteq> TLogEntry" and "um_find (mcookie msg) (pending_calls c) = Some call"
    and "mtype msg = TStatus \<and> pc_type call = TTransaction \<and> \<not> pc_one_way call \<longrightarrow>
      (\<exists>st. ReadStatus msg = Inr st \<and> st \<noteq> OK)"
    and "promises c (pc_promise call) = None"
  shows "dispatch msg c = (Inr (), c\<lparr>promises := (promises c)(pc_promise call \<mapsto> msg),
    strand := strand c @ [TaskFinishCall (mcookie msg)]\<rparr>)"
  using assms
  by (auto simp: dispatch_def set_promise_def post_def bindS_def seqS_def getS_def liftS_def retS_def modS_def)

lemma dispatch_unrelated:
  assumes "mtype msg \<noteq> TLogEntry" and "um_find (mcookie msg) (pending_calls c) = None"
  shows "dispatch msg c = (Inr (),
    if mtype msg = TTransaction \<and> context_obj c \<noteq> None
    then c\<lparr>strand := strand c @ [TaskContextMessage msg]\<rparr>
    else c\<lparr>in_messages := in_messages c @ [msg]\<rparr>)"
  using assms by (simp add: dispatch_def post_def bindS_def getS_def modS_def)

section \<open>A whole call\<close>

lemma client_send_run:
  assumes "total_alloc (c_alloc c)" and "fits msg"
  shows "client_send msg c = (Inr (), c\<lparr>c_outbox := c_outbox c @ [packed msg]\<rparr>)"
  using assms Pack_eq [of "c_alloc c" msg] by (simp add: client_send_def run_simps fits_def)

definition calling :: "nat \<Rightarrow> message \<Rightarrow> bool \<Rightarrow> client \<Rightarrow> client" where
  "calling p msg one_way c =
     c\<lparr>next_cookie := next_cookie c + 1, next_promise := next_promise c + 1,
       pending_calls := um_insert (next_cookie c)
         \<lparr>pc_promise = p, pc_type = mtype msg, pc_one_way = one_way\<rparr> (pending_calls c),
       c_outbox := c_outbox c @ [packed (SetCookie (next_cookie c) msg)]\<rparr>"

lemma Transact_message_run:
  assumes "c_connected c" and "c_running c" and "\<not> c_should_exit c" and "total_alloc (c_alloc c)"
    and "fits msg" and "um_find (next_cookie c) (pending_calls c) = None"
  shows "Transact_message msg one_way c =
    bindS (await (next_promise c)) (\<lambda>m. retS (Some m)) (calling (next_promise c) msg one_way c)"
proof -
  have f: "fits (SetCookie k msg)" "mtype (SetCookie k msg) = mtype msg" for k
    using assms(5) by (simp_all add: fits_def SetCookie_def)
  have start: "StartCall msg one_way c = (Inr (next_promise c, SetCookie (next_cookie c) msg),
     c\<lparr>next_cookie := next_cookie c + 1, next_promise := next_promise c + 1,
       pending_calls := um_insert (next_cookie c)
         \<lparr>pc_promise = next_promise c, pc_type = mtype msg, pc_one_way = one_way\<rparr> (pending_calls c)\<rparr>)"
    using assms(6) f by (simp add: StartCall_def NewCookie_def run_simps Let_def)
  show ?thesis
    using assms f start
    by (simp add: Transact_message_def bindS_def getS_def seqS_def QueueMessage_def client_send_run calling_def)
qed

lemma await_done: "promises c p = Some m \<Longrightarrow> await_frames p fs c = (Inr m, c\<lparr>incoming := fs\<rparr>)"
  by (cases fs) (simp_all add: bindS_def seqS_def getS_def modS_def retS_def)

lemma await_step:
  "promises c p = None \<Longrightarrow> c_reading c \<Longrightarrow> OnNewMessage (Some f) c = (Inr (), c') \<Longrightarrow>
     await_frames p (f # fs) c = await_frames p fs c'"
  by (simp add: bindS_def seqS_def getS_def tryS_def)

lemma await_nothing: "promises c p = None \<Longrightarrow> await_frames p [] c = (Inl Blocked, c)"
  by (simp add: bindS_def getS_def throwS_def)

text \<open>A client that is connected and can start a call.\<close>

definition ready :: "client \<Rightarrow> bool" where
  "ready c \<longleftrightarrow> c_connected c \<and> c_running c \<and> \<not> c_should_exit c \<and> c_reading c \<and> total_alloc (c_alloc c) \<and>
     um_find (next_cookie c) (pending_calls c) = None \<and> promises c (next_promise c) = None"

lemma calling_simps [simp]:
  "promises (calling p msg ow c) = promises c" "c_reading (calling p msg ow c) = c_reading c"
  "incoming (calling p msg ow c) = incoming c" "strand (calling p msg ow c) = strand c"
  by (simp_all add: calling_def)

lemma calling_pending:
  "um_find (next_cookie c) (pending_calls c) = None \<Longrightarrow>
   um_find (next_cookie c) (pending_calls (calling p msg ow c)) =
     Some \<lparr>pc_promise = p, pc_type = mtype msg, pc_one_way = ow\<rparr>"
  by (simp add: calling_def um_find_simps)

lemma await_status_ok:
  assumes "promises c p = None" and "c_reading c" and "unat k < 256"
    and "um_find k (pending_calls c) = Some call" and "pc_type call = TTransaction" and "\<not> pc_one_way call"
    and "bdata f = packed (status_reply k st)" and "status_of (low_byte (status_code st)) = OK"
  shows "await_frames p (f # fs) c = await_frames p fs c"
proof -
  let ?m = "truncated (status_reply k st)"
  have "dispatch ?m (c\<lparr>c_reading := False\<rparr>) = (Inr (), c\<lparr>c_reading := False\<rparr>)"
    using truncated_status [OF assms(3), of st] assms(4-6,8) ReadStatus_bytes [of ?m "status_code st" "[]"]
    by (intro dispatch_ack [where call = call]) simp_all
  then have "OnNewMessage (Some f) c = (Inr (), c\<lparr>c_reading := False\<rparr>\<lparr>c_reading := True\<rparr>)"
    using assms(7) by (intro OnNewMessage_frame) (simp_all add: status_reply_def)
  moreover have "c\<lparr>c_reading := False\<rparr>\<lparr>c_reading := True\<rparr> = c" using assms(2) by simp
  ultimately show ?thesis using await_step [OF assms(1,2)] by simp
qed

lemma await_reply:
  assumes "promises c p = None" and "c_reading c" and "unat (mcookie reply) < 256"
    and "um_find (mcookie reply) (pending_calls c) = Some call" and "pc_promise call = p"
    and "mtype reply \<in> set known_types" and "mtype reply \<noteq> TLogEntry" and "mtype reply \<noteq> TStatus"
    and "unat (mdestination reply) < 256" and "length (bdata (mdata reply)) < 256"
    and "bdata f = packed reply"
  shows "await_frames p (f # fs) c =
    (Inr (truncated reply), c\<lparr>promises := (promises c)(p \<mapsto> truncated reply),
       strand := strand c @ [TaskFinishCall (mcookie reply)], incoming := fs\<rparr>)"
proof -
  note tr = truncated_id [OF assms(6,3,9,10)]
  let ?c = "c\<lparr>promises := (promises c)(p \<mapsto> truncated reply), strand := strand c @ [TaskFinishCall (mcookie reply)]\<rparr>"
  have "dispatch (truncated reply) (c\<lparr>c_reading := False\<rparr>) = (Inr (), ?c\<lparr>c_reading := False\<rparr>)"
    using dispatch_reply [of "truncated reply" "c\<lparr>c_reading := False\<rparr>" call] assms tr by simp
  then have "OnNewMessage (Some f) c = (Inr (), ?c\<lparr>c_reading := False\<rparr>\<lparr>c_reading := True\<rparr>)"
    using assms(10,11) by (intro OnNewMessage_frame) simp_all
  moreover have "?c\<lparr>c_reading := False\<rparr>\<lparr>c_reading := True\<rparr> = ?c" using assms(2) by simp
  ultimately show ?thesis
    using await_step [OF assms(1,2)] await_done [of ?c p "truncated reply" fs] by simp
qed

lemma two_way_call:
  assumes "ready c" and "unat (next_cookie c) < 256" and "fits msg" and "mtype msg = TTransaction"
    and "incoming c = ack # answer # later" and "bdata ack = packed (status_reply (next_cookie c) OK)"
    and "bdata answer = packed reply" and "mcookie reply = next_cookie c" and "mtype reply = TTransactionReply"
    and "unat (mdestination reply) < 256" and "length (bdata (mdata reply)) < 256"
  shows "\<exists>c'. Transact_message msg False c = (Inr (Some (truncated reply)), c') \<and>
    c_outbox c' = c_outbox c @ [packed (SetCookie (next_cookie c) msg)] \<and> incoming c' = later \<and>
    strand c' = strand c @ [TaskFinishCall (next_cookie c)]"
proof -
  let ?p = "next_promise c" and ?k = "next_cookie c"
  let ?c = "calling ?p msg False c"
  have r: "promises ?c ?p = None" "c_reading ?c"
    "um_find ?k (pending_calls ?c) = Some \<lparr>pc_promise = ?p, pc_type = TTransaction, pc_one_way = False\<rparr>"
    using assms(1,4) by (simp_all add: ready_def calling_pending)
  have run: "Transact_message msg False c = bindS (await ?p) (\<lambda>m. retS (Some m)) ?c"
    using assms(1,3) by (intro Transact_message_run) (simp_all add: ready_def)
  have ok: "status_of (low_byte (status_code OK) :: u32) = OK"
    by (simp add: low_byte_def status_of_def enumerators_def)
  have "await_frames ?p (ack # answer # later) ?c = await_frames ?p (answer # later) ?c"
    by (rule await_status_ok [OF r(1,2) assms(2) r(3) _ _ assms(6) ok]) simp_all
  also have "\<dots> = (Inr (truncated reply), ?c\<lparr>promises := (promises ?c)(?p \<mapsto> truncated reply),
      strand := strand ?c @ [TaskFinishCall ?k], incoming := later\<rparr>)"
    using await_reply [OF r(1,2), of reply] assms r(3) by (simp add: known_types_def)
  finally show ?thesis
    using run assms(5) by (simp add: await_def run_simps) (simp add: calling_def)
qed

section \<open>Properties\<close>

text \<open>A connected client to which the server sends \<open>frames\<close>, for the examples.\<close>

definition connected_client :: "buffer list \<Rightarrow> client" where
  "connected_client frames =
     (ClientImpl plain_alloc)\<lparr>c_connected := True, c_running := True, c_reading := True, incoming := frames\<rparr>"

lemma connected_client_simps [simp]:
  "ready (connected_client fs)" "next_cookie (connected_client fs) = 0" "incoming (connected_client fs) = fs"
  "c_outbox (connected_client fs) = []" "strand (connected_client fs) = []"
  by (simp_all add: connected_client_def ClientImpl_def ready_def)

text \<open>of the statuses only \<open>OK\<close> is recognised by the code that reads one from an answer,
  since it looks at the lowest byte of the number: every error is read as something
  else, and \<open>UnknownError\<close> as \<open>OK\<close>.\<close>

theorem status_is_misread:
  "(\<forall>st. st \<in> set enumerators \<longrightarrow> (ReadStatus (status_reply k st) = Inr st \<longleftrightarrow> st = OK)) \<and>
   ReadStatus (status_reply k UnknownError) = Inr OK"
proof -
  have "ReadStatus (status_reply k st) = Inr (status_of (low_byte (status_code st)))" for st
    by (rule ReadStatus_bytes [where xs = "[]"]) (simp add: status_reply_def)
  moreover have "status_of (low_byte (status_code st)) = st \<longleftrightarrow> st = OK" if "st \<in> set enumerators" for st
  proof
    assume "status_of (low_byte (status_code st)) = st"
    then have "status_code st = low_byte (status_code st)" by (metis status_code_status_of)
    then have "unat (status_code st) < 256"
      using unat_low_byte [where 'b = 32, of "status_code st"] by simp
    then show "st = OK" using that by (auto simp: enumerators_def unsigned_minus_1_eq_mask mask_eq_exp_minus_1)
  qed (simp add: low_byte_def status_of_def enumerators_def)
  moreover have "status_of (low_byte (status_code UnknownError)) = OK"
    by (simp add: low_byte_def status_of_def enumerators_def)
  ultimately show ?thesis by simp
qed

theorem status_is_misread_witness:
  "ReadStatus (status_reply 1 NameNotFound) \<noteq> Inr NameNotFound"
  using status_is_misread [of 1] by (simp add: enumerators_def)

text \<open>C31: when the server answers a two-way transaction with \<open>UnknownError\<close>, the client takes
  that for the acknowledgement and goes on waiting for a reply that will not come.\<close>

theorem unknown_error_blocks_caller:
  assumes "ready c" and "unat (next_cookie c) < 256" and "fits msg" and "mtype msg = TTransaction"
    and "incoming c = [f]" and "bdata f = packed (status_reply (next_cookie c) UnknownError)"
  shows "\<exists>c'. Transact_message msg False c = (Inl Blocked, c')"
proof -
  let ?p = "next_promise c" and ?k = "next_cookie c"
  let ?c = "calling ?p msg False c"
  have r: "promises ?c ?p = None" "c_reading ?c"
    "um_find ?k (pending_calls ?c) = Some \<lparr>pc_promise = ?p, pc_type = TTransaction, pc_one_way = False\<rparr>"
    using assms(1,4) by (simp_all add: ready_def calling_pending)
  have run: "Transact_message msg False c = bindS (await ?p) (\<lambda>m. retS (Some m)) ?c"
    using assms(1,3) by (intro Transact_message_run) (simp_all add: ready_def)
  have ok: "status_of (low_byte (status_code UnknownError) :: u32) = OK"
    by (simp add: low_byte_def status_of_def enumerators_def)
  have "await_frames ?p [f] ?c = await_frames ?p [] ?c"
    by (rule await_status_ok [OF r(1,2) assms(2) r(3) _ _ assms(6) ok]) simp_all
  then have "await_frames ?p [f] ?c = (Inl Blocked, ?c)" using await_nothing [OF r(1)] by simp
  then show ?thesis using run assms(5) by (simp add: await_def run_simps)
qed

theorem unknown_error_blocks_caller_witness:
  "\<exists>c'. Transact_message (Message_Create TTransaction) False
     (connected_client [Buffer_view (packed (status_reply 0 UnknownError))]) = (Inl Blocked, c')"
  by (rule unknown_error_blocks_caller [where f = "Buffer_view (packed (status_reply 0 UnknownError))"])
    (simp_all add: fits_def Message_Create_def Buffer_view_def)

text \<open>an answer of the server completes a call at most once: a second message with the
  cookie of a call that has its value but was not yet removed makes the handler
  throw, and the value of the promise stays.\<close>

theorem promise_set_once:
  assumes "um_find (mcookie msg) (pending_calls c) = Some call" and "promises c (pc_promise call) = Some v"
    and "mtype msg \<noteq> TLogEntry" and "mtype msg \<noteq> TStatus"
  shows "dispatch msg c = (Inl RuntimeError, c)"
  using assms by (simp add: dispatch_def set_promise_def bindS_def seqS_def getS_def retS_def throwS_def)

theorem promise_set_once_witness:
  "\<exists>c. promises c 0 = Some (Message_Create TTransactionReply) \<and>
     dispatch (Message_Create TTransactionReply) c = (Inl RuntimeError, c)"
proof -
  let ?m = "Message_Create TTransactionReply"
  let ?c = "(ClientImpl plain_alloc)\<lparr>promises := [0 \<mapsto> ?m],
    pending_calls := [(0, \<lparr>pc_promise = 0, pc_type = TTransaction, pc_one_way = False\<rparr>)]\<rparr>"
  have "um_find (mcookie ?m) (pending_calls ?c) =
      Some \<lparr>pc_promise = 0, pc_type = TTransaction, pc_one_way = False\<rparr>"
    by (simp add: um_find_def Message_Create_def)
  then have "dispatch ?m ?c = (Inl RuntimeError, ?c)"
    by (rule promise_set_once [where v = ?m]) (simp_all add: Message_Create_def)
  then show ?thesis by (intro exI [of _ ?c]) simp
qed

section \<open>What a call leaves alone\<close>

text \<open>A property of the client that does not depend on the state of its connection and of its
  calls is kept by every call to the server, whatever arrives meanwhile.\<close>

locale call_frame =
  fixes P :: "client \<Rightarrow> bool"
  assumes connection:
      "P c \<Longrightarrow> P (c\<lparr>c_reading := b\<rparr>)" "P c \<Longrightarrow> P (c\<lparr>c_outbox := out\<rparr>)" "P c \<Longrightarrow> P (c\<lparr>incoming := fs\<rparr>)"
      "P c \<Longrightarrow> P (c\<lparr>c_should_exit := b, c_closed := b'\<rparr>)"
    and calls:
      "P c \<Longrightarrow> P (c\<lparr>next_cookie := k\<rparr>)" "P c \<Longrightarrow> P (c\<lparr>next_promise := n, pending_calls := pcs\<rparr>)"
      "P c \<Longrightarrow> P (c\<lparr>promises := ps\<rparr>)"
    and queues:
      "P c \<Longrightarrow> P (c\<lparr>strand := st\<rparr>)" "P c \<Longrightarrow> P (c\<lparr>in_messages := ms\<rparr>)" "P c \<Longrightarrow> P (c\<lparr>log_seen := ls\<rparr>)"
begin

lemma frame_Client_ReadNextMessage: "keepsS P Client_ReadNextMessage"
  unfolding Client_ReadNextMessage_def by (intro keepsS_mod connection)

lemma frame_set_promise: "keepsS P (set_promise p msg)"
  unfolding set_promise_def
  by (intro keepsS_bind keepsS_get) (auto intro!: keepsS_mod calls split: option.split)

lemma frame_post: "keepsS P (post t)"
  unfolding post_def by (intro keepsS_mod queues)

lemma frame_dispatch: "keepsS P (dispatch msg)"
  unfolding dispatch_def
  by (auto intro!: keepsS_bind keepsS_seq frame_set_promise frame_post keepsS_mod queues split: option.split)

lemma frame_dispatch_all: "keepsS P (dispatch_all p)"
proof (induction p rule: dispatch_all.induct)
  case (1 p)
  then show ?case
    by (subst dispatch_all.simps) (auto intro!: keepsS_seq frame_dispatch split: sum.split prod.split option.split)
qed

lemma frame_OnNewMessage: "keepsS P (OnNewMessage f)"
  unfolding OnNewMessage_def Client_Terminate_def
  by (auto intro!: keepsS_seq keepsS_mod connection frame_dispatch_all frame_Client_ReadNextMessage split: option.split)

lemma frame_await_frames: "keepsS P (await_frames p fs)"
proof (induction fs)
  case Nil
  then show ?case by (auto intro!: keepsS_bind keepsS_seq keepsS_mod connection split: option.split)
next
  case (Cons f fs)
  then show ?case
    by (auto intro!: keepsS_bind keepsS_seq keepsS_mod connection validS_try frame_OnNewMessage
        split: option.split exn.splits)
qed

lemma frame_await: "keepsS P (await p)"
  unfolding await_def by (intro keepsS_bind keepsS_get frame_await_frames)

lemma frame_client_send: "keepsS P (client_send msg)"
  unfolding client_send_def by (intro keepsS_bind keepsS_get keepsS_lift keepsS_mod connection)

lemma frame_NewCookie: "keepsS P NewCookie"
  by (auto simp: NewCookie_def validS_def intro: calls)

lemma frame_StartCall: "keepsS P (StartCall msg one_way)"
  unfolding StartCall_def Let_def
  by (auto intro!: keepsS_bind keepsS_seq keepsS_mod frame_NewCookie calls)

lemma frame_Transact_message: "keepsS P (Transact_message msg one_way)"
  unfolding Transact_message_def QueueMessage_def
  by (auto intro!: keepsS_bind keepsS_seq frame_StartCall frame_client_send frame_await split: prod.split)

lemma frame_status_call: "keepsS P (status_call msg st)"
  unfolding status_call_def
  by (auto intro!: keepsS_bind frame_Transact_message split: option.split)

lemma frame_AddReference: "keepsS P (AddReference handle)"
  unfolding AddReference_def by (intro keepsS_bind keepsS_get keepsS_lift frame_status_call)

end

text \<open>A frame that also does not depend on the death notifications the client has asked for.\<close>

locale death_frame = call_frame +
  assumes deaths: "P c \<Longrightarrow> P (c\<lparr>c_translator := t\<rparr>)" "P c \<Longrightarrow> P (c\<lparr>dead_recipients := ds\<rparr>)"
begin

lemma frame_RequestDeathNotification: "keepsS P (RequestDeathNotification handle proxy)"
proof -
  have "keepsS P (on_translator m)" for m :: "(translator, 'a) comp"
    by (auto simp: on_translator_def validS_def split: prod.splits sum.splits intro: deaths)
  then show ?thesis
    unfolding RequestDeathNotification_def
    by (auto intro!: keepsS_bind keepsS_seq keepsS_mod frame_status_call deaths)
qed

end

interpretation objects_frame: death_frame "\<lambda>c. c_alloc c = a \<and> c_pool c = p \<and> c_objects c = obs" for a p obs
  by unfold_locales simp_all

text \<open>Asking to be told of an object's death leaves the objects as they are, but for the list of
  those to be told.\<close>

lemma LinkToDeath_keeps:
  assumes run: "LinkToDeath ob h c = (Inr st, c')"
  shows "c_alloc c' = c_alloc c" and "c_pool c' = c_pool c"
    and "c_objects c x = Some LocalObject \<Longrightarrow> c_objects c' x = Some LocalObject"
    and "c_objects c x = Some (RemoteObject ro) \<Longrightarrow>
      \<exists>obs. c_objects c' x = Some (RemoteObject (ro\<lparr>obituaries := obs\<rparr>))"
proof -
  have "(c_alloc c' = c_alloc c \<and> c_pool c' = c_pool c \<and> c_objects c' = c_objects c) \<or>
     (\<exists>ro obs. c_objects c ob = Some (RemoteObject ro) \<and> c_alloc c' = c_alloc c \<and> c_pool c' = c_pool c \<and>
       c_objects c' = (c_objects c)(ob \<mapsto> RemoteObject (ro\<lparr>obituaries := obs\<rparr>)))"
  proof (cases "c_objects c ob")
    case None
    then show ?thesis using run by (simp add: LinkToDeath_def bindS_def getS_def throwS_def)
  next
    case (Some object)
    show ?thesis
    proof (cases object)
      case LocalObject
      then show ?thesis using run Some by (simp add: LinkToDeath_def bindS_def getS_def retS_def)
    next
      case (WrappedObject a)
      then show ?thesis using run Some by (simp add: LinkToDeath_def bindS_def getS_def retS_def)
    next
      case (RemoteObject ro)
      note rem = Some RemoteObject
      show ?thesis
      proof (cases "obituaries_sent ro")
        case True
        then show ?thesis using run rem
          by (simp add: LinkToDeath_def LinkToDeath_remote_def get_remote_def bindS_def getS_def retS_def)
      next
        case False
        obtain r c1 where q: "RequestDeathNotification (ro_handle ro) ob c = (r, c1)"
          by (cases "RequestDeathNotification (ro_handle ro) ob c")
        have ro: "r \<noteq> Inl e" for e using run rem False q
          by (auto simp: LinkToDeath_def LinkToDeath_remote_def get_remote_def bindS_def getS_def)
        have k: "c_alloc c1 = c_alloc c \<and> c_pool c1 = c_pool c \<and> c_objects c1 = c_objects c"
          by (rule keepsS_D [OF objects_frame.frame_RequestDeathNotification [of "c_alloc c" "c_pool c" "c_objects c"] _ q])
            (simp_all add: ro)
        show ?thesis using run rem False q k ro
          by (cases r) (auto simp: LinkToDeath_def LinkToDeath_remote_def get_remote_def put_remote_def
              bindS_def seqS_def getS_def modS_def retS_def split: if_splits)
      qed
    qed
  qed
  moreover have self: "\<exists>obs. ro = ro\<lparr>obituaries := obs\<rparr>" for ro :: remote_object
    by (rule exI [of _ "obituaries ro"]) simp
  ultimately show "c_alloc c' = c_alloc c" and "c_pool c' = c_pool c"
    and "c_objects c x = Some LocalObject \<Longrightarrow> c_objects c' x = Some LocalObject"
    and "c_objects c x = Some (RemoteObject ro) \<Longrightarrow>
      \<exists>obs. c_objects c' x = Some (RemoteObject (ro\<lparr>obituaries := obs\<rparr>))"
    by (auto, blast)
qed

section \<open>Calls use up answers\<close>

text \<open>Promises are numbered in the order they are made, and none that is still to be made has a
  value.\<close>

definition calls_ok :: "client \<Rightarrow> bool" where
  "calls_ok c \<longleftrightarrow> (\<forall>(k, call) \<in> set (pending_calls c). pc_promise call < next_promise c) \<and>
     (\<forall>p \<ge> next_promise c. promises c p = None)"

text \<open>\<open>with_frames n\<close>: in addition \<open>n\<close> frames are on their way.\<close>

definition with_frames :: "nat \<Rightarrow> client \<Rightarrow> bool" where
  "with_frames n c \<longleftrightarrow> calls_ok c \<and> length (incoming c) = n"

lemma calls_ok_new: "calls_ok (ClientImpl a)"
  by (simp add: calls_ok_def ClientImpl_def)

lemma with_frames_simps [simp]:
  "with_frames n (c\<lparr>c_reading := b\<rparr>) = with_frames n c" "with_frames n (c\<lparr>c_outbox := out\<rparr>) = with_frames n c"
  "with_frames n (c\<lparr>c_should_exit := b, c_closed := b'\<rparr>) = with_frames n c"
  "with_frames n (c\<lparr>next_cookie := k\<rparr>) = with_frames n c" "with_frames n (c\<lparr>strand := st\<rparr>) = with_frames n c"
  "with_frames n (c\<lparr>in_messages := ms\<rparr>) = with_frames n c" "with_frames n (c\<lparr>log_seen := ls\<rparr>) = with_frames n c"
  "with_frames n (c\<lparr>c_translator := t\<rparr>) = with_frames n c"
  by (simp_all add: with_frames_def calls_ok_def)

lemma set_promise_frames:
  "validS (\<lambda>c. with_frames n c \<and> p < next_promise c) (set_promise p msg) (\<lambda>_. with_frames n) (with_frames n)"
  by (auto simp: validS_def set_promise_def bindS_def getS_def modS_def throwS_def with_frames_def calls_ok_def
      split: option.splits)

lemma dispatch_frames: "keepsS (with_frames n) (dispatch msg)"
proof (rule validS_I)
  fix c x c' assume c: "with_frames n c" and run: "dispatch msg c = (Inr x, c')"
  have pend: "pc_promise call < next_promise c" if "um_find k (pending_calls c) = Some call" for k call
    using c um_find_in_set [OF that] by (auto simp: with_frames_def calls_ok_def)
  show "with_frames n c'"
    using c run
    by (auto simp: dispatch_def set_promise_def post_def bindS_def seqS_def getS_def modS_def liftS_def retS_def throwS_def
        with_frames_def calls_ok_def split: if_splits option.splits sum.splits dest!: pend)
next
  fix c e c' assume c: "with_frames n c" and run: "dispatch msg c = (Inl e, c')"
  show "with_frames n c'"
    using c run
    by (auto simp: dispatch_def set_promise_def post_def bindS_def seqS_def getS_def modS_def liftS_def retS_def throwS_def
        with_frames_def calls_ok_def split: if_splits option.splits sum.splits)
qed

lemma dispatch_all_frames: "keepsS (with_frames n) (dispatch_all p)"
proof (induction p rule: dispatch_all.induct)
  case (1 p)
  then show ?case
    by (subst dispatch_all.simps) (auto intro!: keepsS_seq dispatch_frames split: sum.split prod.split option.split)
qed

lemma OnNewMessage_frames: "keepsS (with_frames n) (OnNewMessage f)"
  unfolding OnNewMessage_def Client_Terminate_def Client_ReadNextMessage_def
  by (auto intro!: keepsS_seq keepsS_mod dispatch_all_frames split: option.split)

lemma await_frames_left:
  "validS (\<lambda>c. calls_ok c) (await_frames p fs) (\<lambda>_ c. calls_ok c \<and> length (incoming c) \<le> length fs) (\<lambda>_. True)"
proof (induction fs)
  case Nil
  show ?case
    by (auto simp: validS_def bindS_def seqS_def getS_def modS_def retS_def throwS_def calls_ok_def split: option.splits)
next
  case (Cons f fs)
  show ?case
  proof (rule validS_I)
    fix c m c' assume c: "calls_ok c" and run: "await_frames p (f # fs) c = (Inr m, c')"
    show "calls_ok c' \<and> length (incoming c') \<le> length (f # fs)"
    proof (cases "promises c p")
      case (Some v)
      then show ?thesis using run c by (auto simp: await_done calls_ok_def simp del: await_frames.simps)
    next
      case None
      obtain r c1 where o: "OnNewMessage (Some f) c = (r, c1)" by (cases "OnNewMessage (Some f) c")
      have k: "r \<noteq> Inl MemFault \<Longrightarrow> calls_ok c1"
        using keepsS_D [OF OnNewMessage_frames [of "length (incoming c)"] _ o] c by (auto simp: with_frames_def)
      have "c_reading c \<and> r \<noteq> Inl MemFault \<and> await_frames p fs c1 = (Inr m, c')"
        using run None o
        by (auto simp: bindS_def seqS_def getS_def tryS_def throwS_def retS_def split: if_splits sum.splits exn.splits)
      with k validS_value [OF Cons, of c1 m c'] show ?thesis by auto
    qed
  qed simp
qed

lemma await_uses_frame:
  assumes c: "calls_ok c" and p: "promises c p = None" and run: "await p c = (Inr m, c')"
  shows "calls_ok c' \<and> length (incoming c') < length (incoming c)"
proof -
  have r: "await_frames p (incoming c) c = (Inr m, c')"
    using run by (simp add: await_def bindS_def getS_def)
  then obtain f fs where fs: "incoming c = f # fs"
    using p by (cases "incoming c") (auto simp: await_nothing simp del: await_frames.simps)
  obtain r1 c1 where o: "OnNewMessage (Some f) c = (r1, c1)" by (cases "OnNewMessage (Some f) c")
  have k: "r1 \<noteq> Inl MemFault \<Longrightarrow> calls_ok c1"
    using keepsS_D [OF OnNewMessage_frames [of "length (incoming c)"] _ o] c by (auto simp: with_frames_def)
  have "r1 \<noteq> Inl MemFault \<and> await_frames p fs c1 = (Inr m, c')"
    using r p o fs
    by (auto simp: bindS_def seqS_def getS_def tryS_def throwS_def retS_def split: if_splits sum.splits exn.splits)
  with k validS_value [OF await_frames_left, of c1 p fs m c'] fs show ?thesis by auto
qed

lemma StartCall_frames:
  "validS (with_frames n) (StartCall msg ow) (\<lambda>(p, _) c. with_frames n c \<and> promises c p = None) (\<lambda>_. True)"
  by (auto simp: validS_def StartCall_def NewCookie_def Let_def bindS_def seqS_def getS_def modS_def retS_def throwS_def
      with_frames_def calls_ok_def um_insert_def split: if_splits)

lemma QueueMessage_frames:
  "validS (\<lambda>c. with_frames n c \<and> promises c p = None) (QueueMessage msg)
     (\<lambda>_ c. with_frames n c \<and> promises c p = None) (\<lambda>_. True)"
  by (auto simp: validS_def QueueMessage_def client_send_def bindS_def getS_def modS_def liftS_def throwS_def
      split: sum.splits if_splits)

lemma Transact_message_frames:
  "validS (with_frames n) (Transact_message msg ow)
     (\<lambda>r c. calls_ok c \<and> (if r = None then length (incoming c) = n else length (incoming c) < n)) (\<lambda>_. True)"
  unfolding Transact_message_def
proof (rule validS_bind [where R = "\<lambda>_. with_frames n"])
  fix con
  have a: "validS (\<lambda>c. with_frames n c \<and> promises c p = None) (await p)
      (\<lambda>m c. calls_ok c \<and> length (incoming c) < n) (\<lambda>_. True)" for p
    using await_uses_frame by (auto intro!: validS_I simp: with_frames_def)
  have t: "validS (with_frames n) (bindS (StartCall msg ow)
      (\<lambda>(p, msg). seqS (QueueMessage msg) (bindS (await p) (\<lambda>m. retS (Some m)))))
      (\<lambda>r c. calls_ok c \<and> (if r = None then length (incoming c) = n else length (incoming c) < n)) (\<lambda>_. True)"
  proof (rule validS_bind [OF StartCall_frames])
    fix x :: "nat \<times> message"
    have "validS (\<lambda>c. with_frames n c \<and> promises c p = None) (seqS (QueueMessage m) (bindS (await p) (\<lambda>m. retS (Some m))))
        (\<lambda>r c. calls_ok c \<and> (if r = None then length (incoming c) = n else length (incoming c) < n)) (\<lambda>_. True)" for p m
      by (rule validS_seq [OF QueueMessage_frames validS_bind [OF a]]) (simp add: validS_def retS_def)
    then show "validS (case x of (p, _) \<Rightarrow> \<lambda>c. with_frames n c \<and> promises c p = None)
        (case x of (p, msg) \<Rightarrow> seqS (QueueMessage msg) (bindS (await p) (\<lambda>m. retS (Some m))))
        (\<lambda>r c. calls_ok c \<and> (if r = None then length (incoming c) = n else length (incoming c) < n)) (\<lambda>_. True)"
      by (cases x) simp
  qed
  show "validS (with_frames n) (if \<not> con then retS None else bindS (StartCall msg ow)
      (\<lambda>(p, msg). seqS (QueueMessage msg) (bindS (await p) (\<lambda>m. retS (Some m)))))
      (\<lambda>r c. calls_ok c \<and> (if r = None then length (incoming c) = n else length (incoming c) < n)) (\<lambda>_. True)"
    using t by (auto simp: validS_def retS_def with_frames_def)
qed (simp add: validS_def getS_def)

end
