(* ===== verification/Utils.thy ===== *)
theory Utils
  imports Binder_Prelude
begin

text \<open>
  \<^verbatim>\<open>src/src/binderd/common/utils.cpp\<close>: string helpers, the loops around \<^verbatim>\<open>write\<close>, the
  environment, and the conversions between UTF-8 and UTF-16. What the operating
  system answers is an argument of the functions that ask it.
\<close>

section \<open>Strings\<close>

definition collect_arguments :: "nat \<Rightarrow> string list \<Rightarrow> string list" where
  "collect_arguments argc argv = map (\<lambda>i. argv ! i) [1..<argc]"

definition string_starts_with :: "string \<Rightarrow> string \<Rightarrow> bool" where
  "string_starts_with text prefix \<longleftrightarrow> take (length prefix) text = prefix"

text \<open>\<^verbatim>\<open>boost::algorithm::split\<close> with \<^verbatim>\<open>token_compress_on\<close>: a run of separators ends one
  token and starts the next.\<close>

function string_split :: "string \<Rightarrow> char \<Rightarrow> string list" where
  "string_split text sep =
     (let token = takeWhile (\<lambda>c. c \<noteq> sep) text; rest = dropWhile (\<lambda>c. c \<noteq> sep) text in
      if rest = [] then [token] else token # string_split (dropWhile (\<lambda>c. c = sep) rest) sep)"
  by pat_completeness auto
termination
proof (relation "measure (\<lambda>(text, sep). length text)")
  fix s sep token rest
  assume rest: "rest = dropWhile (\<lambda>c. c \<noteq> (sep :: char)) s" and ne: "rest \<noteq> []"
  then have "hd rest = sep" using hd_dropWhile [of "\<lambda>c. c \<noteq> sep" s] by simp
  then have "length (dropWhile (\<lambda>c. c = sep) rest) < length rest"
    using ne by (cases rest) (auto simp: less_Suc_eq_le length_dropWhile_le)
  also have "\<dots> \<le> length s" unfolding rest by (rule length_dropWhile_le)
  finally show "((dropWhile (\<lambda>c. c = sep) rest, sep), s, sep) \<in> measure (\<lambda>(text, sep). length text)"
    by simp
qed simp

declare string_split.simps [simp del]

text \<open>Indexing a string at its length gives the terminating zero; \<^verbatim>\<open>length() - 2\<close> wraps for a
  single quote, and \<^verbatim>\<open>substr\<close> then takes what there is.\<close>

definition strip_surrounding_quotes :: "string \<Rightarrow> string" where
  "strip_surrounding_quotes text =
     (if text \<noteq> [] \<and> hd text = CHR 0x22 \<and> last text = CHR 0x22
      then (if length text = 1 then drop 1 text else take (length text - 2) (drop 1 text))
      else text)"

section \<open>The hex dump\<close>

definition hex_digit :: "nat \<Rightarrow> char" where
  "hex_digit d = (if d < 10 then char_of (48 + d) else char_of (87 + d))"

fun hex :: "nat \<Rightarrow> string" where
  "hex n = (if n < 16 then [hex_digit n] else hex (n div 16) @ [hex_digit (n mod 16)])"

declare hex.simps [simp del]

text \<open>\<^verbatim>\<open>%02x\<close>\<close>

definition hex2 :: "nat \<Rightarrow> string" where
  "hex2 n = (let h = hex n in replicate (2 - length h) CHR ''0'' @ h)"

definition printable :: "byte \<Rightarrow> char" where
  "printable b = (if unat b < 0x20 \<or> unat b > 0x7e then CHR ''.'' else char_of (unat b))"

text \<open>One pass of the loop at index \<open>i\<close>, with the text printed so far and the column of
  characters of the current row.\<close>

definition hex_dump_step :: "nat \<Rightarrow> byte \<Rightarrow> string \<times> string \<Rightarrow> string \<times> string" where
  "hex_dump_step i b s =
     (let (out, buff) = s;
          out = (if i mod 16 = 0
                 then (if i \<noteq> 0 then out @ ''  '' @ buff @ ''\<newline>'' else out) @ hex2 i @ ''   ''
                 else out);
          buff = (if i mod 16 = 0 then [] else buff)
      in (out @ '' '' @ hex2 (unat b), buff @ [printable b]))"

primrec hex_dump_loop :: "byte list \<Rightarrow> nat \<Rightarrow> string \<times> string \<Rightarrow> string \<times> string" where
  "hex_dump_loop [] i s = s"
| "hex_dump_loop (b # bs) i s = hex_dump_loop bs (Suc i) (hex_dump_step i b s)"

definition hex_dump :: "byte list \<Rightarrow> string" where
  "hex_dump data =
     (if length data = 0 then ''NULL'' @ ''\<newline>''
      else
        let (out, buff) = hex_dump_loop data 0 ([], []);
            fill = (16 - length data mod 16) mod 16
        in out @ concat (replicate fill ''   '') @ ''  '' @ buff @ ''\<newline>'')"

section \<open>Files and the environment\<close>

text \<open>\<open>regular\<close> is the content of the file, or \<open>None\<close> when it is not a regular file;
  \<^verbatim>\<open>file >> content\<close> takes the first word.\<close>

definition is_space :: "char \<Rightarrow> bool" where
  "is_space c \<longleftrightarrow> c \<in> {CHR 0x20, CHR 0x09, CHR 0x0a, CHR 0x0b, CHR 0x0c, CHR 0x0d}"

definition read_file_if_exists_or_throw :: "string option \<Rightarrow> string res" where
  "read_file_if_exists_or_throw regular =
     (case regular of
        None \<Rightarrow> Inl RuntimeError
      | Some content \<Rightarrow> Inr (takeWhile (\<lambda>c. \<not> is_space c) (dropWhile is_space content)))"

text \<open>An answer of \<^verbatim>\<open>write\<close> is \<open>Inr n\<close> for \<open>n\<close> bytes written or \<open>Inl e\<close> for an error. The
  result is what the function returns and what it wrote; \<open>None\<close> while a further answer is
  awaited.\<close>

datatype errno = EINTR | ENOSPC | EOTHER

primrec write_to_fd :: "byte list \<Rightarrow> (errno + nat) list \<Rightarrow> (int \<times> byte list) option" where
  "write_to_fd content [] = (if content = [] then Some (0, []) else None)"
| "write_to_fd content (a # as) =
     (if content = [] then Some (0, [])
      else case a of
          Inl EINTR \<Rightarrow> write_to_fd content as
        | Inl _ \<Rightarrow> Some (- 1, [])
        | Inr n \<Rightarrow>
            if n = 0 then Some (- 1, [])
            else map_option (\<lambda>(r, w). (r, take n content @ w)) (write_to_fd (drop n content) as))"

definition write_file_at :: "int \<Rightarrow> byte list option \<Rightarrow> (errno + nat) list \<Rightarrow> (int \<times> byte list) option" where
  "write_file_at fd content answers =
     (if fd = - 1 then Some (- 1, [])
      else case content of None \<Rightarrow> Some (0, []) | Some c \<Rightarrow> write_to_fd c answers)"

type_synonym environment = "string \<Rightarrow> string option"

definition get_env_value :: "environment \<Rightarrow> string \<Rightarrow> string \<Rightarrow> string" where
  "get_env_value env name default_value =
     (case env name of None \<Rightarrow> default_value | Some v \<Rightarrow> v)"

definition is_env_set :: "environment \<Rightarrow> string \<Rightarrow> bool" where
  "is_env_set env name \<longleftrightarrow> env name \<noteq> None"

text \<open>The value is kept in a static variable: the state is what the first call found.\<close>

definition prefix_dir_from_env ::
    "environment \<Rightarrow> string \<Rightarrow> string \<Rightarrow> string option \<Rightarrow> string \<times> string option" where
  "prefix_dir_from_env env path env_var snap_data_path =
     (let value = (case snap_data_path of None \<Rightarrow> get_env_value env env_var [] | Some v \<Rightarrow> v) in
      (if value \<noteq> [] then value @ path else path, Some value))"

text \<open>\<open>mtab\<close>: the \<^verbatim>\<open>mnt_fsname\<close> of the entries of \<^verbatim>\<open>/etc/mtab\<close>, or \<open>None\<close> when it cannot be
  opened.\<close>

definition is_mounted :: "string option list option \<Rightarrow> string \<Rightarrow> bool" where
  "is_mounted mtab path =
     (case mtab of
        None \<Rightarrow> False
      | Some parts \<Rightarrow> fold (\<lambda>part m. if part \<noteq> None \<and> part = Some path then True else m) parts False)"

section \<open>UTF-8 and UTF-16\<close>

text \<open>\<^verbatim>\<open>std::wstring_convert<std::codecvt_utf8_utf16<char16_t>, char16_t>\<close>; an ill-formed
  argument makes it throw.\<close>

definition scalar :: "nat \<Rightarrow> bool" where
  "scalar c \<longleftrightarrow> c < 0x110000 \<and> \<not> (0xd800 \<le> c \<and> c < 0xe000)"

definition utf8_encode :: "nat \<Rightarrow> byte list" where
  "utf8_encode c =
     (if c < 0x80 then [of_nat c]
      else if c < 0x800 then [of_nat (0xc0 + c div 64), of_nat (0x80 + c mod 64)]
      else if c < 0x10000 then
        [of_nat (0xe0 + c div 4096), of_nat (0x80 + c div 64 mod 64), of_nat (0x80 + c mod 64)]
      else
        [of_nat (0xf0 + c div 262144), of_nat (0x80 + c div 4096 mod 64),
         of_nat (0x80 + c div 64 mod 64), of_nat (0x80 + c mod 64)])"

definition utf16_encode :: "nat \<Rightarrow> u16 list" where
  "utf16_encode c =
     (if c < 0x10000 then [of_nat c]
      else [of_nat (0xd800 + (c - 0x10000) div 1024), of_nat (0xdc00 + (c - 0x10000) mod 1024)])"

definition continues :: "byte \<Rightarrow> bool" where
  "continues b \<longleftrightarrow> 0x80 \<le> unat b \<and> unat b < 0xc0"

fun utf8_decode :: "byte list \<Rightarrow> nat list res" where
  "utf8_decode [] = Inr []"
| "utf8_decode (b # bs) =
     (let n = unat b in
      if n < 0x80 then bindR (utf8_decode bs) (\<lambda>cs. Inr (n # cs))
      else if 0xc2 \<le> n \<and> n < 0xe0 then
        (case bs of
           b1 # bs1 \<Rightarrow>
             if continues b1
             then bindR (utf8_decode bs1) (\<lambda>cs. Inr (((n - 0xc0) * 64 + (unat b1 - 0x80)) # cs))
             else Inl RuntimeError
         | _ \<Rightarrow> Inl RuntimeError)
      else if 0xe0 \<le> n \<and> n < 0xf0 then
        (case bs of
           b1 # b2 # bs2 \<Rightarrow>
             (let c = (n - 0xe0) * 4096 + (unat b1 - 0x80) * 64 + (unat b2 - 0x80) in
              if continues b1 \<and> continues b2 \<and> 0x800 \<le> c \<and> scalar c
              then bindR (utf8_decode bs2) (\<lambda>cs. Inr (c # cs))
              else Inl RuntimeError)
         | _ \<Rightarrow> Inl RuntimeError)
      else if 0xf0 \<le> n \<and> n < 0xf5 then
        (case bs of
           b1 # b2 # b3 # bs3 \<Rightarrow>
             (let c = (n - 0xf0) * 262144 + (unat b1 - 0x80) * 4096 + (unat b2 - 0x80) * 64 + (unat b3 - 0x80) in
              if continues b1 \<and> continues b2 \<and> continues b3 \<and> 0x10000 \<le> c \<and> scalar c
              then bindR (utf8_decode bs3) (\<lambda>cs. Inr (c # cs))
              else Inl RuntimeError)
         | _ \<Rightarrow> Inl RuntimeError)
      else Inl RuntimeError)"

fun utf16_decode :: "u16 list \<Rightarrow> nat list res" where
  "utf16_decode [] = Inr []"
| "utf16_decode (w # ws) =
     (let n = unat w in
      if n < 0xd800 \<or> 0xe000 \<le> n then bindR (utf16_decode ws) (\<lambda>cs. Inr (n # cs))
      else if n < 0xdc00 then
        (case ws of
           w1 # ws1 \<Rightarrow>
             if 0xdc00 \<le> unat w1 \<and> unat w1 < 0xe000
             then bindR (utf16_decode ws1)
               (\<lambda>cs. Inr ((0x10000 + (n - 0xd800) * 1024 + (unat w1 - 0xdc00)) # cs))
             else Inl RuntimeError
         | _ \<Rightarrow> Inl RuntimeError)
      else Inl RuntimeError)"

definition to_string8 :: "u16 list \<Rightarrow> byte list res" where
  "to_string8 str = bindR (utf16_decode str) (\<lambda>cs. Inr (concat (map utf8_encode cs)))"

definition to_string16 :: "byte list \<Rightarrow> u16 list res" where
  "to_string16 str = bindR (utf8_decode str) (\<lambda>cs. Inr (concat (map utf16_encode cs)))"

section \<open>Splitting\<close>

lemma string_split_no_sep: "t \<in> set (string_split s sep) \<Longrightarrow> sep \<notin> set t"
proof (induction s sep rule: string_split.induct)
  case (1 s sep)
  have "sep \<notin> set (takeWhile (\<lambda>c. c \<noteq> sep) s)" by (auto dest: set_takeWhileD)
  then show ?case using 1 by (auto simp: string_split.simps [of s sep] Let_def split: if_splits)
qed

lemma filter_split: "filter (\<lambda>c. c \<noteq> sep) s = concat (string_split s sep)"
proof (induction s sep rule: string_split.induct)
  case (1 s sep)
  let ?t = "takeWhile (\<lambda>c. c \<noteq> sep) s" and ?r = "dropWhile (\<lambda>c. c \<noteq> sep) s"
  have t: "filter (\<lambda>c. c \<noteq> sep) ?t = ?t" by (auto simp: filter_id_conv dest: set_takeWhileD)
  have r: "filter (\<lambda>c. c \<noteq> sep) (dropWhile (\<lambda>c. c = sep) xs) = filter (\<lambda>c. c \<noteq> sep) xs" for xs
    by (induction xs) auto
  have "filter (\<lambda>c. c \<noteq> sep) s = filter (\<lambda>c. c \<noteq> sep) (?t @ ?r)"
    by (simp only: takeWhile_dropWhile_id)
  also have "\<dots> = ?t @ filter (\<lambda>c. c \<noteq> sep) (dropWhile (\<lambda>c. c = sep) ?r)"
    by (simp only: filter_append t r)
  finally have s: "filter (\<lambda>c. c \<noteq> sep) s = ?t @ filter (\<lambda>c. c \<noteq> sep) (dropWhile (\<lambda>c. c = sep) ?r)" .
  show ?case
  proof (cases "?r = []")
    case True
    then show ?thesis unfolding s by (simp add: string_split.simps [of s sep] Let_def del: dropWhile_eq_Nil_conv)
  next
    case False
    then show ?thesis unfolding s 1 [OF refl refl False]
      by (simp add: string_split.simps [of s sep] Let_def del: dropWhile_eq_Nil_conv)
  qed
qed

section \<open>Writing to a descriptor\<close>

lemma write_to_fd_result:
  assumes "write_to_fd content answers = Some (r, w)"
  shows "(r = 0 \<and> w = content) \<or> (r = - 1 \<and> length w < length content \<and> w = take (length w) content)"
  using assms
proof (induction answers arbitrary: content w)
  case Nil
  then show ?case by (auto split: if_splits)
next
  case (Cons a answers)
  show ?case
  proof (cases "content = []")
    case True
    then show ?thesis using Cons.prems by simp
  next
    case ne: False
    show ?thesis
    proof (cases a)
      case (Inl e)
      then show ?thesis using Cons ne by (cases e) auto
    next
      case (Inr n)
      show ?thesis
      proof (cases "n = 0")
        case True
        then show ?thesis using Cons.prems Inr ne by simp
      next
        case False
        then obtain v where v: "write_to_fd (drop n content) answers = Some (r, v)" "w = take n content @ v"
          using Cons.prems Inr ne by (auto simp: case_prod_beta)
        show ?thesis using Cons.IH [OF v(1)]
        proof
          assume "r = 0 \<and> v = drop n content"
          then show ?thesis using v(2) by simp
        next
          assume h: "r = - 1 \<and> length v < length (drop n content) \<and> v = take (length v) (drop n content)"
          then have "n < length content" by auto
          moreover from this have "take (length w) content = take n content @ take (length v) (drop n content)"
            using v(2) by (simp add: take_add min.absorb2)
          ultimately show ?thesis using h v(2) by auto
        qed
      qed
    qed
  qed
qed


section \<open>Round trips of the conversions\<close>

lemma scalar_bound: "scalar c \<Longrightarrow> c < 0x110000"
  by (simp add: scalar_def)

lemma byte_of_nat: "n < 256 \<Longrightarrow> unat (of_nat n :: byte) = n"
  by (simp add: unat_of_nat)

lemma u16_of_nat: "n < 65536 \<Longrightarrow> unat (of_nat n :: u16) = n"
  by (simp add: unat_of_nat)

lemma continues_low: "continues (of_nat (0x80 + n mod 64))" "unat (of_nat (0x80 + n mod 64) :: byte) = 0x80 + n mod 64"
proof -
  have "n mod 64 < 64" by simp
  then show u: "unat (of_nat (0x80 + n mod 64) :: byte) = 0x80 + n mod 64" by (intro byte_of_nat) linarith
  show "continues (of_nat (0x80 + n mod 64))"
    unfolding continues_def u using \<open>n mod 64 < 64\<close> by simp
qed

lemma split_64:
  fixes c :: nat
  shows "c div 64 * 64 + c mod 64 = c"
    and "c div 4096 * 4096 + c div 64 mod 64 * 64 + c mod 64 = c"
    and "c div 262144 * 262144 + c div 4096 mod 64 * 4096 + c div 64 mod 64 * 64 + c mod 64 = c"
proof -
  have a: "c div 4096 = c div 64 div 64" "c div 262144 = c div 64 div 64 div 64"
    by (simp_all add: div_mult2_eq [symmetric])
  have b: "n = n div 64 * 64 + n mod 64" for n :: nat by simp
  show "c div 64 * 64 + c mod 64 = c" by simp
  show "c div 4096 * 4096 + c div 64 mod 64 * 64 + c mod 64 = c"
    unfolding a using b [of c] b [of "c div 64"] by linarith
  obtain x y z where xyz: "z = y div 64" "y = x div 64" "x = c div 64" by blast
  with b [of c] b [of x] b [of y] xyz
  have "z * 262144 + y mod 64 * 4096 + x mod 64 * 64 + c mod 64 = c" by linarith
  then show "c div 262144 * 262144 + c div 4096 mod 64 * 4096 + c div 64 mod 64 * 64 + c mod 64 = c"
    unfolding a xyz .
qed

lemma utf8_decode_encode:
  assumes "scalar c"
  shows "utf8_decode (utf8_encode c @ bs) = bindR (utf8_decode bs) (\<lambda>cs. Inr (c # cs))"
proof -
  consider (1) "c < 0x80" | (2) "0x80 \<le> c" "c < 0x800" | (3) "0x800 \<le> c" "c < 0x10000"
    | (4) "0x10000 \<le> c" "c < 0x110000"
    using assms by (fastforce simp: scalar_def)
  then show ?thesis
  proof cases
    case 1
    then show ?thesis by (simp add: utf8_encode_def byte_of_nat)
  next
    case 2
    define h where "h = c div 64"
    have h: "2 \<le> h" "h < 32" using 2 unfolding h_def by linarith+
    then have u: "unat (of_nat (0xc0 + h) :: byte) = 0xc0 + h" by (intro byte_of_nat) linarith
    have e: "utf8_encode c = [of_nat (0xc0 + h), of_nat (0x80 + c mod 64)]"
      using 2 by (simp add: utf8_encode_def h_def)
    show ?thesis unfolding e append_Cons append_Nil utf8_decode.simps Let_def u
      using h split_64(1) [of c] by (simp add: h_def [symmetric] continues_low del: of_nat_add of_nat_mod)
  next
    case 3
    define h where "h = c div 4096"
    have h: "h < 16" using 3 unfolding h_def by linarith
    then have u: "unat (of_nat (0xe0 + h) :: byte) = 0xe0 + h" by (intro byte_of_nat) linarith
    have e: "utf8_encode c = [of_nat (0xe0 + h), of_nat (0x80 + c div 64 mod 64), of_nat (0x80 + c mod 64)]"
      using 3 by (simp add: utf8_encode_def h_def)
    show ?thesis unfolding e append_Cons append_Nil utf8_decode.simps Let_def u
      using h 3 assms split_64(2) [of c]
      by (simp add: h_def [symmetric] continues_low del: of_nat_add of_nat_mod)
  next
    case 4
    define h where "h = c div 262144"
    have h: "h < 5" using 4 unfolding h_def by linarith
    then have u: "unat (of_nat (0xf0 + h) :: byte) = 0xf0 + h" by (intro byte_of_nat) linarith
    have e: "utf8_encode c = [of_nat (0xf0 + h), of_nat (0x80 + c div 4096 mod 64),
        of_nat (0x80 + c div 64 mod 64), of_nat (0x80 + c mod 64)]"
      using 4 by (simp add: utf8_encode_def h_def)
    show ?thesis unfolding e append_Cons append_Nil utf8_decode.simps Let_def u
      using h 4 assms split_64(3) [of c]
      by (simp add: h_def [symmetric] continues_low del: of_nat_add of_nat_mod)
  qed
qed

lemma utf16_decode_encode:
  assumes "scalar c"
  shows "utf16_decode (utf16_encode c @ ws) = bindR (utf16_decode ws) (\<lambda>cs. Inr (c # cs))"
proof (cases "c < 0x10000")
  case True
  then have "unat (of_nat c :: u16) = c" by (intro u16_of_nat) simp
  then show ?thesis using True assms by (auto simp: utf16_encode_def scalar_def)
next
  case False
  define d where "d = c - 0x10000"
  have c: "c = 0x10000 + d" and d: "d < 0x100000" using False assms by (auto simp: d_def scalar_def)
  have "d div 1024 < 1024" using d by linarith
  moreover have "d mod 1024 < 1024" by simp
  ultimately have u: "unat (of_nat (0xd800 + d div 1024) :: u16) = 0xd800 + d div 1024"
    and v: "unat (of_nat (0xdc00 + d mod 1024) :: u16) = 0xdc00 + d mod 1024"
    by (intro u16_of_nat, linarith)+
  have e: "utf16_encode c = [of_nat (0xd800 + d div 1024), of_nat (0xdc00 + d mod 1024)]"
    using False by (simp add: utf16_encode_def d_def)
  show ?thesis unfolding e append_Cons append_Nil utf16_decode.simps Let_def u
    using \<open>d div 1024 < 1024\<close> v by (simp add: c add.commute del: of_nat_add of_nat_mod)
qed

lemma utf8_decode_all: "\<forall>c \<in> set cs. scalar c \<Longrightarrow> utf8_decode (concat (map utf8_encode cs)) = Inr cs"
  by (induction cs) (auto simp: utf8_decode_encode)

lemma utf16_decode_all: "\<forall>c \<in> set cs. scalar c \<Longrightarrow> utf16_decode (concat (map utf16_encode cs)) = Inr cs"
  by (induction cs) (auto simp: utf16_decode_encode)

text \<open>For every sequence of Unicode scalar values the two conversions are inverse to each
  other: the UTF-16 form becomes the UTF-8 form and back.\<close>

theorem string_conversions_round_trip:
  assumes "\<forall>c \<in> set cs. scalar c"
  shows "to_string8 (concat (map utf16_encode cs)) = Inr (concat (map utf8_encode cs)) \<and>
    to_string16 (concat (map utf8_encode cs)) = Inr (concat (map utf16_encode cs))"
  using assms by (simp add: to_string8_def to_string16_def utf8_decode_all utf16_decode_all)

theorem string_conversions_round_trip_witness:
  "to_string8 [0x41, 0xe9, 0xd83d, 0xde00] = Inr [0x41, 0xc3, 0xa9, 0xf0, 0x9f, 0x98, 0x80] \<and>
   to_string16 [0x41, 0xc3, 0xa9, 0xf0, 0x9f, 0x98, 0x80] = Inr [0x41, 0xe9, 0xd83d, 0xde00]"
  using string_conversions_round_trip [of "[0x41, 0xe9, 0x1f600]"]
  by (simp add: scalar_def utf8_encode_def utf16_encode_def)

text \<open>\<^verbatim>\<open>write_to_fd\<close> returns 0 exactly when everything is written; when it returns -1 what
  was written is a proper prefix. Interrupted calls do not count.\<close>

theorem write_to_fd_all_or_error:
  assumes "write_to_fd content answers = Some (r, w)"
  shows "r = 0 \<longleftrightarrow> w = content" "r \<noteq> 0 \<longrightarrow> r = - 1 \<and> length w < length content \<and> w = take (length w) content"
  using write_to_fd_result [OF assms] by auto

theorem write_to_fd_all_or_error_witness:
  "write_to_fd [1, 2, 3] [Inl EINTR, Inr 2, Inl EOTHER] = Some (- 1, [1, 2]) \<and> [1, 2] \<noteq> [1, 2, 3 :: byte] \<and>
   [1, 2] = take 2 [1, 2, 3 :: byte]"
  using write_to_fd_all_or_error [of "[1, 2, 3]" "[Inl EINTR, Inr 2, Inl EOTHER]" "- 1" "[1, 2]"] by simp

end
