(* ===== verification/Parcel.thy ===== *)
theory Parcel
  imports Client Utils
begin

text \<open>
  \<^verbatim>\<open>src/src/binderd/parcel_transaction_data_writer.cpp\<close> and
  \<^verbatim>\<open>parcel_transaction_data_reader.cpp\<close>: the data of a transaction as a sequence of
  numbers, strings and objects. A \<^verbatim>\<open>std::string\<close> is its list of bytes; an object is
  named by its address in the client (0 would be the null pointer, here \<open>None\<close>).
\<close>

unbundle bit_operations_syntax

section \<open>The writer\<close>

record parcel_writer =
  pw_code :: u32
  pw_data :: writer
  pw_objects :: writer
  pw_local_objects :: "u64 list"

definition ParcelTransactionDataWriter :: "allocator \<Rightarrow> parcel_writer res" where
  "ParcelTransactionDataWriter a =
     bindR (CreateBufferWithSize a 0) (\<lambda>data.
     bindR (CreateBufferWithSize a 0) (\<lambda>objects.
     Inr \<lparr>pw_code = 0, pw_data = BinaryWriter data, pw_objects = BinaryWriter objects,
          pw_local_objects = []\<rparr>))"

definition Parcel_SetCode :: "u32 \<Rightarrow> parcel_writer \<Rightarrow> parcel_writer" where
  "Parcel_SetCode code w = w\<lparr>pw_code := code\<rparr>"

definition on_data :: "(writer \<Rightarrow> writer res) \<Rightarrow> parcel_writer \<Rightarrow> parcel_writer res" where
  "on_data f w = bindR (f (pw_data w)) (\<lambda>d. Inr (w\<lparr>pw_data := d\<rparr>))"

definition Parcel_WriteInt32 :: "allocator \<Rightarrow> u32 \<Rightarrow> parcel_writer \<Rightarrow> parcel_writer res" where
  "Parcel_WriteInt32 a v = on_data (WriteInt32 a v)"

definition kStrictModePenaltyGather :: u32 where
  "kStrictModePenaltyGather = push_bit 16 0x40"

definition WriteInterfaceToken :: "allocator \<Rightarrow> byte list \<Rightarrow> u32 \<Rightarrow> parcel_writer \<Rightarrow> parcel_writer res" where
  "WriteInterfaceToken a name strict_mode_policy w =
     bindR (on_data (WriteInt32 a (kStrictModePenaltyGather OR strict_mode_policy)) w) (\<lambda>w.
     bindR (to_string16 name) (\<lambda>s. on_data (WriteString16 a s) w))"

definition Parcel_WriteString16 :: "allocator \<Rightarrow> u16 list \<Rightarrow> parcel_writer \<Rightarrow> parcel_writer res" where
  "Parcel_WriteString16 a str = on_data (WriteString16 a str)"

text \<open>The overload for a \<^verbatim>\<open>std::string\<close>.\<close>

definition Parcel_WriteString8 :: "allocator \<Rightarrow> byte list \<Rightarrow> parcel_writer \<Rightarrow> parcel_writer res" where
  "Parcel_WriteString8 a str w = bindR (to_string16 str) (\<lambda>s. Parcel_WriteString16 a s w)"

text \<open>The bytes of a \<^verbatim>\<open>flat_binder_object\<close>: \<open>p\<close> is the union of the pointer and the handle.\<close>

definition flat_object :: "u32 \<Rightarrow> u32 \<Rightarrow> u64 \<Rightarrow> u64 \<Rightarrow> byte list" where
  "flat_object t flags p cookie = le_bytes 4 t @ le_bytes 4 flags @ le_bytes 8 p @ le_bytes 8 cookie"

definition FLAT_BINDER_FLAG_ACCEPTS_FDS :: u32 where
  "FLAT_BINDER_FLAG_ACCEPTS_FDS = 0x100"

definition flat_of_object :: "u64 \<Rightarrow> obj \<Rightarrow> byte list" where
  "flat_of_object ob object =
     (let flags = 0x7f OR FLAT_BINDER_FLAG_ACCEPTS_FDS in
      case object of
        LocalObject \<Rightarrow> flat_object BINDER_TYPE_BINDER flags 0 ob
      | WrappedObject _ \<Rightarrow> flat_object BINDER_TYPE_BINDER flags 0 ob
      | RemoteObject ro \<Rightarrow> flat_object BINDER_TYPE_HANDLE flags (ucast (ucast (ro_handle ro) :: u32)) 0)"

text \<open>\<open>None\<close> for the client or the object is the null pointer, which is dereferenced.\<close>

definition WriteObject :: "bool \<Rightarrow> u64 option \<Rightarrow> parcel_writer \<Rightarrow> parcel_writer cl" where
  "WriteObject has_client object w =
     (if \<not> has_client then throwS MemFault
      else case object of
        None \<Rightarrow> throwS MemFault
      | Some ob \<Rightarrow>
          bindS (getS (\<lambda>c. c_objects c ob)) (\<lambda>o'.
          case o' of
            None \<Rightarrow> throwS MemFault
          | Some object \<Rightarrow>
              seqS (case object of
                      RemoteObject _ \<Rightarrow> retS ()
                    | _ \<Rightarrow>
                        bindS (getS (\<lambda>c. Pool_Contains ob (c_pool c))) (\<lambda>known.
                        if known then retS () else on_pool (Pool_AdoptObject ob)))
             (bindS (getS c_alloc) (\<lambda>a.
              liftS (bindR (WriteUint64 a (of_nat (GetBytesWritten (pw_data w))) (pw_objects w)) (\<lambda>os.
                     bindR (WriteData a (flat_of_object ob object) (pw_data w)) (\<lambda>d.
                     Inr (w\<lparr>pw_objects := os, pw_data := d, pw_local_objects := pw_local_objects w @ [ob]\<rparr>))))))))"

definition Parcel_Finalize :: "parcel_writer \<Rightarrow> transaction_data" where
  "Parcel_Finalize w =
     WritableTransactionData 0 0 (pw_code w) False (Some (wbuf (pw_data w))) (Some (wbuf (pw_objects w)))"

section \<open>The reader\<close>

text \<open>\<open>pr_null\<close>: \<^verbatim>\<open>GetMutableData\<close> of the transaction gave a null pointer; a read that is
  within the size then touches invalid memory.\<close>

record parcel_reader =
  pr_null :: bool
  pr_reader :: reader

definition ParcelTransactionDataReader :: "transaction_data \<Rightarrow> parcel_reader res" where
  "ParcelTransactionDataReader td =
     (if td_writable td
      then bindR (GetData_bytes td) (\<lambda>d. Inr \<lparr>pr_null = False, pr_reader = BinaryReader (Buffer_view d) 0\<rparr>)
      else Inr \<lparr>pr_null = True, pr_reader = BinaryReader (Buffer_view (replicate (td_size td) 0)) 0\<rparr>)"

definition read_parcel :: "(reader \<Rightarrow> ('a \<times> reader) res) \<Rightarrow> parcel_reader \<Rightarrow> ('a \<times> parcel_reader) res" where
  "read_parcel f r =
     bindR (f (pr_reader r)) (\<lambda>(v, d).
     if pr_null r then Inl MemFault else Inr (v, r\<lparr>pr_reader := d\<rparr>))"

definition Parcel_ReadInt32 :: "parcel_reader \<Rightarrow> (u32 \<times> parcel_reader) res" where
  "Parcel_ReadInt32 = read_parcel ReadInt32"

definition Parcel_ReadString16 :: "allocator \<Rightarrow> parcel_reader \<Rightarrow> (u16 list \<times> parcel_reader) res" where
  "Parcel_ReadString16 a = read_parcel (ReadString16 a)"

definition EnforceInterface :: "allocator \<Rightarrow> byte list \<Rightarrow> parcel_reader \<Rightarrow> (bool \<times> parcel_reader) res" where
  "EnforceInterface a name r =
     bindR (Parcel_ReadInt32 r) (\<lambda>(_, r).
     bindR (Parcel_ReadString16 a r) (\<lambda>(s, r).
     bindR (to_string8 s) (\<lambda>provided_name. Inr (provided_name = name, r))))"

text \<open>The result \<open>None\<close> is the null pointer.\<close>

definition ReadObject :: "bool \<Rightarrow> parcel_reader \<Rightarrow> (u64 option \<times> parcel_reader) cl" where
  "ReadObject has_client r =
     bindS (liftS (read_parcel (ReadData flat_size) r)) (\<lambda>(buffer, r).
     bindS (liftS (flat_type 0 (bdata buffer))) (\<lambda>t.
     if t = BINDER_TYPE_HANDLE then
       bindS (liftS (flat_handle 0 (bdata buffer))) (\<lambda>h.
       bindS (RemoteObject_Create has_client (ucast h)) (\<lambda>ob. retS (Some ob, r)))
     else if t = BINDER_TYPE_BINDER then
       (if \<not> has_client then bindS (new_object LocalObject) (\<lambda>ob. retS (Some ob, r))
        else
          bindS (liftS (flat_cookie 0 (bdata buffer))) (\<lambda>cookie.
          bindS (getS (\<lambda>c. Pool_GetObject cookie (c_pool c))) (\<lambda>ob. retS (ob, r))))
     else retS (None, r)))"

section \<open>Strings\<close>

lemma length_u16_bytes [simp]: "length (u16_bytes s) = 2 * length s"
  by (induction s) (simp_all add: u16_bytes_def)

lemma u16_of_bytes_bytes [simp]: "u16_of_bytes (u16_bytes s) = s"
proof (induction s)
  case (Cons w s)
  have "length (le_bytes 2 w) = Suc (Suc 0)" by simp
  then obtain x y where b: "le_bytes 2 w = [x, y]" by (auto simp: length_Suc_conv simp del: length_le_bytes)
  have "(le_word (le_bytes 2 w) :: u16) = w" by (rule le_word_le_bytes) simp
  then have "u16_of_bytes (le_bytes 2 w @ u16_bytes s) = w # u16_of_bytes (u16_bytes s)"
    unfolding b by (simp del: le_word.simps)
  then show ?case using Cons by (simp add: u16_bytes_def)
qed (simp add: u16_bytes_def)

text \<open>How a string lies in a parcel.\<close>

definition string16_bytes :: "u16 list \<Rightarrow> byte list" where
  "string16_bytes s = le_bytes 4 (of_nat (length s) :: u32) @
     (if s = [] then [] else padded_bytes True (u16_bytes (s @ [0])))"

lemma WriteString16_append:
  assumes "total_alloc a" and "appending w" and "use_padding w" and "length s < 1073741823"
  shows "WriteString16 a s w = Inr (wappend (string16_bytes s) w)"
  using assms by (simp add: WriteString16_def Write_defs wire string16_bytes_def)

lemma length_string16_bytes:
  "length (string16_bytes s) = 4 + (if s = [] then 0 else padded_len (2 * length s + 2))"
  by (simp add: string16_bytes_def)

lemma ReadString16_string16:
  assumes a: "total_alloc a" and r: "reader_ok r" "ruse_padding r"
    and rest: "rest r = string16_bytes s @ xs" and s: "s \<noteq> []" "length s < 256"
  shows "ReadString16 a r = Inr (s, adv (length (string16_bytes s)) r)"
proof -
  let ?n = "of_nat (length s) :: u32"
  define k where k: "k = 2 * length s + 2"
  have rv: "ReadInt32 r = Inr (low_byte ?n, adv 4 r)"
    unfolding Read_defs by (rule ReadValue_le_bytes [OF r(1)]) (simp_all add: rest string16_bytes_def)
  have ls: "length (string16_bytes s) = 4 + padded_len k" using s by (simp add: length_string16_bytes k)
  have n: "unat (low_byte ?n :: u32) = length s"
    using s by (simp add: unat_low_byte unat_of_nat)
  have pk: "pad_size k = Inr (padded_len k)" using s by (intro pad_size_padded) (simp add: k)
  have k1: "(length s + 1) * 2 = k" by (simp add: k)
  have rest4: "drop (rpos r + 4) (rblock r) = padded_bytes True (u16_bytes (s @ [0])) @ xs"
  proof -
    have "rest (adv 4 r) = padded_bytes True (u16_bytes (s @ [0])) @ xs"
      using s by (simp add: rest string16_bytes_def)
    then show ?thesis by (simp only: rest_def adv_simps)
  qed
  have len: "rpos r + 4 + padded_len k \<le> length (rblock r)"
    using arg_cong [OF rest4, of length] padded_len_ge_4 [of k] by (simp add: k)
  have tk: "take k (drop (rpos r + 4) (rblock r)) = u16_bytes (s @ [0])"
    using take_padded_bytes [of "u16_bytes (s @ [0])" True] by (simp add: rest4 padded_len_bounds k)
  have cb: "CreateBufferWithSize a k = Inr \<lparr>bdata = replicate k 0, immutable = False\<rparr>"
    using a by (simp add: CreateBufferWithSize_def Buffer_sized_def buffer_allocate_def k)
  have mw: "mem_write 0 (u16_bytes (s @ [0])) (replicate k 0) = Inr (u16_bytes (s @ [0]))"
    by (simp add: mem_write_def k)
  show ?thesis
    unfolding ReadString16_def rv bindR.simps prod.case Let_def n k1
    using r(2) len s by (simp add: pk cb tk mw ls adv_def add.assoc [symmetric])
qed

section \<open>What a parcel holds\<close>

definition holds :: "parcel_writer \<Rightarrow> byte list \<Rightarrow> byte list \<Rightarrow> bool" where
  "holds w d os \<longleftrightarrow> appending (pw_data w) \<and> use_padding (pw_data w) \<and> bdata (wbuf (pw_data w)) = d \<and>
     appending (pw_objects w) \<and> bdata (wbuf (pw_objects w)) = os"

lemma holds_new:
  obtains w where "ParcelTransactionDataWriter a = Inr w" and "holds w [] []"
  by (simp add: ParcelTransactionDataWriter_def holds_def BinaryWriter_def appending_def)

lemma holds_SetCode [simp]: "holds (Parcel_SetCode c w) d os \<longleftrightarrow> holds w d os"
  by (simp add: Parcel_SetCode_def holds_def)

lemma on_data_holds:
  assumes "holds w d os" and "f (pw_data w) = Inr (wappend xs (pw_data w))"
  obtains w' where "on_data f w = Inr w'" and "holds w' (d @ xs) os" and "pw_code w' = pw_code w"
  using assms by (simp add: on_data_def holds_def)

lemma WriteInt32_holds:
  assumes "total_alloc a" and "holds w d os"
  obtains w' where "Parcel_WriteInt32 a v w = Inr w'" and "holds w' (d @ le_bytes 4 v) os"
    and "pw_code w' = pw_code w"
proof -
  have "WriteInt32 a v (pw_data w) = Inr (wappend (le_bytes 4 v) (pw_data w))"
    using assms by (simp add: Write_defs wire holds_def)
  from on_data_holds [where f = "WriteInt32 a v", OF assms(2) this] show thesis
    using that by (auto simp: Parcel_WriteInt32_def)
qed

lemma WriteString16_holds:
  assumes "total_alloc a" and "holds w d os" and "length s < 1073741823"
  obtains w' where "on_data (WriteString16 a s) w = Inr w'" and "holds w' (d @ string16_bytes s) os"
    and "pw_code w' = pw_code w"
proof -
  have "WriteString16 a s (pw_data w) = Inr (wappend (string16_bytes s) (pw_data w))"
    using assms by (simp add: WriteString16_append holds_def)
  from on_data_holds [where f = "WriteString16 a s", OF assms(2) this] show thesis using that by auto
qed

definition token_bytes :: "u32 \<Rightarrow> u16 list \<Rightarrow> byte list" where
  "token_bytes policy s = le_bytes 4 (kStrictModePenaltyGather OR policy) @ string16_bytes s"

lemma WriteInterfaceToken_holds:
  assumes a: "total_alloc a" and w: "holds w d os" and s: "to_string16 name = Inr s" "length s < 1073741823"
  obtains w' where "WriteInterfaceToken a name policy w = Inr w'"
    and "holds w' (d @ token_bytes policy s) os" and "pw_code w' = pw_code w"
proof -
  obtain w1 where 1: "on_data (WriteInt32 a (kStrictModePenaltyGather OR policy)) w = Inr w1"
      "holds w1 (d @ le_bytes 4 (kStrictModePenaltyGather OR policy)) os" "pw_code w1 = pw_code w"
    using WriteInt32_holds [OF a w] unfolding Parcel_WriteInt32_def by metis
  obtain w2 where 2: "on_data (WriteString16 a s) w1 = Inr w2" "pw_code w2 = pw_code w1"
      "holds w2 ((d @ le_bytes 4 (kStrictModePenaltyGather OR policy)) @ string16_bytes s) os"
    using WriteString16_holds [OF a 1(2) s(2)] by metis
  show thesis
    by (rule that [of w2]) (use 1 2 s in \<open>simp_all add: WriteInterfaceToken_def token_bytes_def\<close>)
qed

lemma Finalize_holds:
  assumes "holds w d os"
  shows "td_code (Parcel_Finalize w) = pw_code w" and "td_writable (Parcel_Finalize w) \<longleftrightarrow> d \<noteq> []"
    and "GetData_bytes (Parcel_Finalize w) = Inr d" and "td_size (Parcel_Finalize w) = length d"
    and "td_offsets (Parcel_Finalize w) = Separate os" and "td_count (Parcel_Finalize w) = length os div 8"
    and "\<not> td_one_way (Parcel_Finalize w)" and "\<not> td_has_status (Parcel_Finalize w)"
  using assms
  by (simp_all add: Parcel_Finalize_def WritableTransactionData_def holds_def GetData_bytes_def mem_read_def
      buffer_GetSize_def)

section \<open>What a parcel still has to read\<close>

definition ahead :: "parcel_reader \<Rightarrow> byte list \<Rightarrow> bool" where
  "ahead r xs \<longleftrightarrow> \<not> pr_null r \<and> reader_ok (pr_reader r) \<and> ruse_padding (pr_reader r) \<and> rest (pr_reader r) = xs"

lemma ahead_new:
  assumes "td_writable td" and "GetData_bytes td = Inr d"
  obtains r where "ParcelTransactionDataReader td = Inr r" and "ahead r d"
  using assms
  by (simp add: ParcelTransactionDataReader_def ahead_def BinaryReader_def reader_ok_def rest_def Buffer_view_def)

lemma read_parcel_ahead:
  assumes "ahead r (ys @ xs)" and "f (pr_reader r) = Inr (v, adv (length ys) (pr_reader r))"
  obtains r' where "read_parcel f r = Inr (v, r')" and "ahead r' xs"
  using assms by (simp add: read_parcel_def ahead_def)

lemma ReadInt32_ahead:
  assumes "ahead r (le_bytes 4 (v :: u32) @ xs)"
  obtains r' where "Parcel_ReadInt32 r = Inr (low_byte v, r')" and "ahead r' xs"
  using assms _ unfolding Parcel_ReadInt32_def
proof (rule read_parcel_ahead)
  show "ReadInt32 (pr_reader r) = Inr (low_byte v, adv (length (le_bytes 4 v)) (pr_reader r))"
    using assms by (simp add: Read_defs ahead_def ReadValue_le_bytes)
qed (simp_all add: that)

lemma ReadString16_ahead:
  assumes "total_alloc a" and "ahead r (string16_bytes s @ xs)" and "s \<noteq> []" "length s < 256"
  obtains r' where "Parcel_ReadString16 a r = Inr (s, r')" and "ahead r' xs"
  using assms(2) _ unfolding Parcel_ReadString16_def
proof (rule read_parcel_ahead)
  show "ReadString16 a (pr_reader r) = Inr (s, adv (length (string16_bytes s)) (pr_reader r))"
    by (rule ReadString16_string16) (use assms in \<open>simp_all add: ahead_def\<close>)
qed (simp_all add: that)

lemma EnforceInterface_ahead:
  assumes a: "total_alloc a" and r: "ahead r (token_bytes policy s @ xs)"
    and s: "s \<noteq> []" "length s < 256" and n: "to_string8 s = Inr provided"
  obtains r' where "EnforceInterface a name r = Inr (provided = name, r')" and "ahead r' xs"
proof -
  obtain r1 where 1: "Parcel_ReadInt32 r = Inr (low_byte (kStrictModePenaltyGather OR policy), r1)"
      "ahead r1 (string16_bytes s @ xs)"
    using ReadInt32_ahead [of r "kStrictModePenaltyGather OR policy"] r unfolding token_bytes_def by auto
  obtain r2 where 2: "Parcel_ReadString16 a r1 = Inr (s, r2)" "ahead r2 xs"
    using ReadString16_ahead [OF a 1(2) s] by metis
  show thesis by (rule that [of r2]) (use 1 2 n in \<open>simp_all add: EnforceInterface_def\<close>)
qed

lemma length_flat_object [simp]: "length (flat_object t f p c) = 24"
  by (simp add: flat_object_def)

lemma padded_24 [simp]: "padded_len 24 = 24"
  by (simp add: padded_len_def)

lemma ReadFlat_ahead:
  assumes "ahead r (flat_object t f p c @ xs)"
  obtains r' where "read_parcel (ReadData 24) r = Inr (Buffer_view (flat_object t f p c), r')" and "ahead r' xs"
  using assms _
proof (rule read_parcel_ahead)
  show "ReadData 24 (pr_reader r) =
      Inr (Buffer_view (flat_object t f p c), adv (length (flat_object t f p c)) (pr_reader r))"
    using assms by (simp add: ahead_def ReadData_rest)
qed (simp_all add: that)

lemma flat_object_fields:
  "flat_type 0 (flat_object t f p c) = Inr t"
  "flat_handle 0 (flat_object t f p c) = Inr (ucast p)"
  "flat_cookie 0 (flat_object t f p c) = Inr c"
proof -
  have h: "(le_word (take 4 (le_bytes 8 p)) :: u32) = ucast p"
    by (rule bit_word_eqI) (auto simp: take_le_bytes bit_le_word_le_bytes bit_simps)
  show "flat_type 0 (flat_object t f p c) = Inr t" "flat_handle 0 (flat_object t f p c) = Inr (ucast p)"
    "flat_cookie 0 (flat_object t f p c) = Inr c"
    by (simp_all add: flat_defs load_def mem_read_def flat_object_def le_word_le_bytes h)
qed

section \<open>Parcels are read as they were written\<close>

text \<open>The text of a parcel string: scalar values whose UTF-16 form is not empty and has fewer
  than 256 units.\<close>

definition short_text :: "nat list \<Rightarrow> bool" where
  "short_text cs \<longleftrightarrow> (\<forall>c\<in>set cs. scalar c) \<and> cs \<noteq> [] \<and> length (concat (map utf16_encode cs)) < 256"

abbreviation text8 :: "nat list \<Rightarrow> byte list" where "text8 cs \<equiv> concat (map utf8_encode cs)"
abbreviation text16 :: "nat list \<Rightarrow> u16 list" where "text16 cs \<equiv> concat (map utf16_encode cs)"

lemma short_text_conv:
  assumes "short_text cs"
  shows "to_string16 (text8 cs) = Inr (text16 cs)" and "to_string8 (text16 cs) = Inr (text8 cs)"
    and "text16 cs \<noteq> []" and "length (text16 cs) < 256" and "length (text16 cs) < 1073741823"
proof -
  from assms have s: "\<forall>c\<in>set cs. scalar c" "cs \<noteq> []" and l: "length (text16 cs) < 256"
    by (simp_all add: short_text_def)
  show "to_string16 (text8 cs) = Inr (text16 cs)" "to_string8 (text16 cs) = Inr (text8 cs)"
    using s(1) by (simp_all add: to_string8_def to_string16_def utf8_decode_all utf16_decode_all)
  show "text16 cs \<noteq> []" using s(2) by (cases cs) (auto simp: utf16_encode_def)
  show "length (text16 cs) < 256" by (rule l)
  then show "length (text16 cs) < 1073741823" by linarith
qed

lemma WriteString8_holds:
  assumes "total_alloc a" and "holds w d os" and "short_text cs"
  obtains w' where "Parcel_WriteString8 a (text8 cs) w = Inr w'" and "holds w' (d @ string16_bytes (text16 cs)) os"
    and "pw_code w' = pw_code w"
  using WriteString16_holds [OF assms(1,2) short_text_conv(5) [OF assms(3)]] that
  by (auto simp: Parcel_WriteString8_def Parcel_WriteString16_def short_text_conv [OF assms(3)])

text \<open>C27: A parcel with an interface token, a string and a number below 256 is read back as it was written:
  the interface check compares the two names, the string and the number come back unchanged. The names are not empty and
  have fewer than 256 units of UTF-16; lengths and numbers are read from one byte.\<close>

theorem parcel_round_trip:
  assumes a: "total_alloc a" and i: "short_text ics" and s: "short_text cs" and v: "unat v < 256"
  shows "bindR (bindR (ParcelTransactionDataWriter a) (\<lambda>w.
          bindR (WriteInterfaceToken a (text8 ics) policy w) (\<lambda>w.
          bindR (Parcel_WriteString8 a (text8 cs) w) (\<lambda>w.
          bindR (Parcel_WriteInt32 a v w) (\<lambda>w. Inr (Parcel_Finalize w))))))
     (\<lambda>td. bindR (ParcelTransactionDataReader td) (\<lambda>r.
          bindR (EnforceInterface a expected r) (\<lambda>(ok, r).
          bindR (Parcel_ReadString16 a r) (\<lambda>(s, r).
          bindR (to_string8 s) (\<lambda>s.
          bindR (Parcel_ReadInt32 r) (\<lambda>(v, _). Inr (ok, s, v)))))))
     = Inr (text8 ics = expected, text8 cs, v)"
proof -
  note i' = short_text_conv [OF i] and s' = short_text_conv [OF s]
  obtain w where w: "ParcelTransactionDataWriter a = Inr w" "holds w [] []" by (rule holds_new)
  obtain w1 where 1: "WriteInterfaceToken a (text8 ics) policy w = Inr w1"
      "holds w1 ([] @ token_bytes policy (text16 ics)) []"
    using WriteInterfaceToken_holds [OF a w(2) i'(1) i'(5)] by metis
  obtain w2 where 2: "Parcel_WriteString8 a (text8 cs) w1 = Inr w2"
      "holds w2 (([] @ token_bytes policy (text16 ics)) @ string16_bytes (text16 cs)) []"
    using WriteString8_holds [OF a 1(2) s] by metis
  obtain w3 where 3: "Parcel_WriteInt32 a v w2 = Inr w3"
      "holds w3 ((([] @ token_bytes policy (text16 ics)) @ string16_bytes (text16 cs)) @ le_bytes 4 v) []"
    using WriteInt32_holds [OF a 2(2)] by metis
  let ?td = "Parcel_Finalize w3"
  have td: "td_writable ?td" "GetData_bytes ?td =
      Inr (token_bytes policy (text16 ics) @ string16_bytes (text16 cs) @ le_bytes 4 v @ [])"
    using Finalize_holds [OF 3(2)] by (simp_all add: token_bytes_def le_bytes_def)
  obtain r where r: "ParcelTransactionDataReader ?td = Inr r"
      "ahead r (token_bytes policy (text16 ics) @ string16_bytes (text16 cs) @ le_bytes 4 v @ [])"
    using ahead_new [OF td] by metis
  obtain r1 where r1: "EnforceInterface a expected r = Inr (text8 ics = expected, r1)"
      "ahead r1 (string16_bytes (text16 cs) @ le_bytes 4 v @ [])"
    using EnforceInterface_ahead [OF a r(2) i'(3,4,2)] by metis
  obtain r2 where r2: "Parcel_ReadString16 a r1 = Inr (text16 cs, r2)" "ahead r2 (le_bytes 4 v @ [])"
    using ReadString16_ahead [OF a r1(2) s'(3,4)] by metis
  obtain r3 where r3: "Parcel_ReadInt32 r2 = Inr (low_byte v, r3)"
    using ReadInt32_ahead [OF r2(2)] by metis
  show ?thesis using v by (simp add: w 1 2 3 r r1 r2 r3 s' low_byte_id)
qed

theorem parcel_round_trip_witness:
  "bindR (bindR (ParcelTransactionDataWriter plain_alloc) (\<lambda>w.
     bindR (WriteInterfaceToken plain_alloc [0x69] 0 w) (\<lambda>w.
     bindR (Parcel_WriteString8 plain_alloc [0x61, 0x62] w) (\<lambda>w.
     bindR (Parcel_WriteInt32 plain_alloc 5 w) (\<lambda>w. Inr (Parcel_Finalize w))))))
   (\<lambda>td. bindR (ParcelTransactionDataReader td) (\<lambda>r.
     bindR (EnforceInterface plain_alloc [0x69] r) (\<lambda>(ok, r).
     bindR (Parcel_ReadString16 plain_alloc r) (\<lambda>(s, r).
     bindR (to_string8 s) (\<lambda>s.
     bindR (Parcel_ReadInt32 r) (\<lambda>(v, _). Inr (ok, s, v)))))))
   = Inr (True, [0x61, 0x62], 5)"
  using parcel_round_trip [of plain_alloc "[0x69]" "[0x61, 0x62]" 5 0 "[0x69]"]
  by (simp add: short_text_def scalar_def utf8_encode_def utf16_encode_def low_byte_def)

section \<open>Objects in a parcel\<close>

lemma WriteObject_local:
  assumes a: "total_alloc (c_alloc c)" and w: "holds w d os" and ob: "c_objects c ob = Some LocalObject"
  obtains w' c' where "WriteObject True (Some ob) w c = (Inr w', c')"
    and "holds w' (d @ flat_object BINDER_TYPE_BINDER 0x17f 0 ob) (os @ le_bytes 8 (of_nat (length d) :: u64))"
    and "pw_code w' = pw_code w" and "Pool_Contains ob (c_pool c')"
    and "pool_ok (c_pool c) \<Longrightarrow> Pool_GetObject ob (c_pool c') = Some ob"
    and "c' = c\<lparr>c_pool := c_pool c'\<rparr>"
proof -
  let ?f = "flat_object BINDER_TYPE_BINDER 0x17f 0 ob"
  let ?w = "w\<lparr>pw_objects := wappend (le_bytes 8 (of_nat (length d) :: u64)) (pw_objects w),
      pw_data := wappend ?f (pw_data w), pw_local_objects := pw_local_objects w @ [ob]\<rparr>"
  let ?p = "if Pool_Contains ob (c_pool c) then c_pool c else
      (c_pool c)\<lparr>pool_refs := um_insert ob \<lparr>ref_count = 0, ref_obj = ob\<rparr> (pool_refs (c_pool c))\<rparr>"
  have f: "flat_of_object ob LocalObject = ?f"
    by (simp add: flat_of_object_def FLAT_BINDER_FLAG_ACCEPTS_FDS_def)
  have wd: "WriteUint64 (c_alloc c) (of_nat (GetBytesWritten (pw_data w))) (pw_objects w) =
      Inr (wappend (le_bytes 8 (of_nat (length d) :: u64)) (pw_objects w))"
    "WriteData (c_alloc c) ?f (pw_data w) = Inr (wappend ?f (pw_data w))"
    using a w by (simp_all add: Write_defs wire holds_def GetBytesWritten_def appending_def padded_bytes_def)
  have run: "WriteObject True (Some ob) w c = (Inr ?w, c\<lparr>c_pool := ?p\<rparr>)"
    using ob by (simp add: WriteObject_def run_simps bindS_def seqS_def getS_def f wd on_pool_def
        Pool_AdoptObject_def Pool_Contains_def del: binder_type_values)
  have pool: "Pool_Contains ob ?p" "pool_ok (c_pool c) \<Longrightarrow> Pool_GetObject ob ?p = Some ob"
    by (auto simp: Pool_Contains_def Pool_GetObject_def um_find_insert pool_ok_alt)
  show thesis by (rule that [OF run]) (use w pool in \<open>simp_all add: holds_def\<close>)
qed

lemma WriteObject_remote:
  assumes a: "total_alloc (c_alloc c)" and w: "holds w d os" and ob: "c_objects c ob = Some (RemoteObject ro)"
  obtains w' where "WriteObject True (Some ob) w c = (Inr w', c)"
    and "holds w' (d @ flat_object BINDER_TYPE_HANDLE 0x17f (ucast (ucast (ro_handle ro) :: u32)) 0)
          (os @ le_bytes 8 (of_nat (length d) :: u64))"
    and "pw_code w' = pw_code w"
proof -
  let ?f = "flat_object BINDER_TYPE_HANDLE 0x17f (ucast (ucast (ro_handle ro) :: u32)) 0"
  let ?w = "w\<lparr>pw_objects := wappend (le_bytes 8 (of_nat (length d) :: u64)) (pw_objects w),
      pw_data := wappend ?f (pw_data w), pw_local_objects := pw_local_objects w @ [ob]\<rparr>"
  have f: "flat_of_object ob (RemoteObject ro) = ?f"
    by (simp add: flat_of_object_def FLAT_BINDER_FLAG_ACCEPTS_FDS_def)
  have wd: "WriteUint64 (c_alloc c) (of_nat (GetBytesWritten (pw_data w))) (pw_objects w) =
      Inr (wappend (le_bytes 8 (of_nat (length d) :: u64)) (pw_objects w))"
    "WriteData (c_alloc c) ?f (pw_data w) = Inr (wappend ?f (pw_data w))"
    using a w by (simp_all add: Write_defs wire holds_def GetBytesWritten_def appending_def padded_bytes_def)
  have run: "WriteObject True (Some ob) w c = (Inr ?w, c)"
    using ob by (simp add: WriteObject_def run_simps bindS_def seqS_def getS_def f wd del: binder_type_values)
  show thesis by (rule that [OF run]) (use w in \<open>simp_all add: holds_def\<close>)
qed

lemma ReadObject_handle:
  assumes r: "ahead r (flat_object BINDER_TYPE_HANDLE f p k @ xs)"
    and create: "RemoteObject_Create has_client (ucast (ucast p :: u32)) c = (Inr ob, c')"
  obtains r' where "ReadObject has_client r c = (Inr (Some ob, r'), c')" and "ahead r' xs"
proof -
  obtain r' where r': "read_parcel (ReadData 24) r = Inr (Buffer_view (flat_object BINDER_TYPE_HANDLE f p k), r')"
      "ahead r' xs"
    using ReadFlat_ahead [OF r] by metis
  show thesis
    by (rule that [of r']) (use r' create in
        \<open>simp_all add: ReadObject_def run_simps bindS_def Buffer_view_def flat_object_fields del: binder_type_values\<close>)
qed

lemma ReadObject_local:
  assumes r: "ahead r (flat_object BINDER_TYPE_BINDER f p k @ xs)"
  obtains r' where "ReadObject True r c = (Inr (Pool_GetObject k (c_pool c), r'), c)" and "ahead r' xs"
proof -
  have ne: "BINDER_TYPE_BINDER \<noteq> BINDER_TYPE_HANDLE" by simp
  obtain r' where r': "read_parcel (ReadData 24) r = Inr (Buffer_view (flat_object BINDER_TYPE_BINDER f p k), r')"
      "ahead r' xs"
    using ReadFlat_ahead [OF r] by metis
  show thesis
    by (rule that [of r']) (use r' ne in
        \<open>simp_all add: ReadObject_def run_simps bindS_def Buffer_view_def flat_object_fields del: binder_type_values\<close>)
qed

end
