(* ===== verification/Service_Manager.thy ===== *)
theory Service_Manager
  imports Parcel
begin

text \<open>
  \<^verbatim>\<open>src/src/binderd/service_manager_base.h\<close>, \<^verbatim>\<open>service_manager_service.cpp\<close> and
  \<^verbatim>\<open>service_manager_proxy.cpp\<close>: the directory of services that the context manager keeps,
  and the side of it that other processes use. The list of the service table stands for the
  iteration order of the \<^verbatim>\<open>std::unordered_map\<close>.
\<close>

section \<open>Constants\<close>

definition bytes_of :: "string \<Rightarrow> byte list" where
  "bytes_of s = map (\<lambda>c. of_nat (of_char c)) s"

definition kInterfaceName :: "byte list" where
  "kInterfaceName = bytes_of ''android.os.IServiceManager''"

definition kContextManagerHandle :: u64 where "kContextManagerHandle = 0"
definition kFirstTransactionCode :: u32 where "kFirstTransactionCode = 0x1"
definition kLastTransactionCode :: u32 where "kLastTransactionCode = 0xffffff"
definition GetServiceTransaction :: u32 where "GetServiceTransaction = kFirstTransactionCode"
definition CheckServiceTransaction :: u32 where "CheckServiceTransaction = GetServiceTransaction + 1"
definition AddServiceTransaction :: u32 where "AddServiceTransaction = CheckServiceTransaction + 1"
definition ListServicesTransaction :: u32 where "ListServicesTransaction = AddServiceTransaction + 1"
definition AllowIsolated :: nat where "AllowIsolated = 1"

lemmas sm_codes = kFirstTransactionCode_def GetServiceTransaction_def CheckServiceTransaction_def
  AddServiceTransaction_def ListServicesTransaction_def

section \<open>The service\<close>

record service_manager =
  sm_client :: client
  services :: "(byte list, u64) um"
  death_handler :: nat

type_synonym 'a sm = "(service_manager, 'a) comp"

definition on_client :: "'a cl \<Rightarrow> 'a sm" where
  "on_client m = (\<lambda>s. let (r, c) = m (sm_client s) in (r, s\<lparr>sm_client := c\<rparr>))"

definition ServiceManagerService :: "client \<Rightarrow> nat \<Rightarrow> service_manager" where
  "ServiceManagerService c handler = \<lparr>sm_client = c, services = [], death_handler = handler\<rparr>"

text \<open>\<open>has_client\<close>: the client passed along is not null; a remote object uses it.\<close>

definition link_service :: "bool \<Rightarrow> u64 \<Rightarrow> unit sm" where
  "link_service has_client ob =
     bindS (getS death_handler) (\<lambda>h.
     bindS (getS (\<lambda>s. c_objects (sm_client s) ob)) (\<lambda>o'.
     if \<not> has_client \<and> (case o' of Some (RemoteObject _) \<Rightarrow> True | None \<Rightarrow> True | _ \<Rightarrow> False) then throwS MemFault
     else bindS (on_client (LinkToDeath ob h)) (\<lambda>_. retS ())))"

definition Service_AddService :: "bool \<Rightarrow> byte list \<Rightarrow> u64 option \<Rightarrow> status sm" where
  "Service_AddService has_client name object =
     bindS (getS services) (\<lambda>sv.
     case object of
       None \<Rightarrow> retS BadValue
     | Some ob \<Rightarrow>
         if um_find name sv \<noteq> None then retS BadValue
         else
           seqS (modS (\<lambda>s. s\<lparr>services := um_insert name ob (services s)\<rparr>))
          (seqS (link_service has_client ob) (retS OK)))"

text \<open>The result is the status and what was stored through \<^verbatim>\<open>object\<close>.\<close>

definition Service_GetService :: "byte list \<Rightarrow> (status \<times> u64 option) sm" where
  "Service_GetService name =
     bindS (getS (\<lambda>s. um_find name (services s))) (\<lambda>iter.
     case iter of None \<Rightarrow> retS (BadValue, None) | Some ob \<Rightarrow> retS (OK, Some ob))"

definition Service_ListServices :: "byte list list \<Rightarrow> (status \<times> byte list list) sm" where
  "Service_ListServices acc = bindS (getS services) (\<lambda>sv. retS (OK, acc @ map fst sv))"

text \<open>The end of the life of a pointer to a remote object: when neither the directory nor a death notification holds
  the object, it is destroyed, which gives its reference back to the server. Pointers end their life also when an
  exception leaves their scope.\<close>

definition let_go :: "bool \<Rightarrow> u64 option \<Rightarrow> unit sm" where
  "let_go has_client object =
     (case object of
        None \<Rightarrow> retS ()
      | Some ob \<Rightarrow>
          bindS (getS (\<lambda>s. (c_objects (sm_client s) ob,
            ob \<in> snd ` set (services s) \<or> ob \<in> dr_proxy ` set (dead_recipients (sm_client s))))) (\<lambda>(o', held).
          case o' of
            Some (RemoteObject ro) \<Rightarrow>
              if held then retS ()
              else on_client (seqS (RemoteObject_destroy has_client ro)
                (modS (\<lambda>c. c\<lparr>c_objects := (c_objects c)(ob := None)\<rparr>)))
          | _ \<Rightarrow> retS ()))"

definition at_exit :: "unit sm \<Rightarrow> 'a sm \<Rightarrow> 'a sm" where
  "at_exit destructor m =
     bindS (tryS m (\<lambda>e. if e \<in> {OutOfRange, RuntimeError} then Some (seqS destructor (throwS e)) else None)) (\<lambda>x.
     seqS destructor (retS x))"

definition OnAddService :: "bool \<Rightarrow> transaction_data \<Rightarrow> (status \<times> transaction_data option) sm" where
  "OnAddService has_client request =
     bindS (getS (\<lambda>s. c_alloc (sm_client s))) (\<lambda>a.
     bindS (liftS (ParcelTransactionDataReader request)) (\<lambda>reader.
     bindS (liftS (EnforceInterface a kInterfaceName reader)) (\<lambda>(_, reader).
     bindS (liftS (Parcel_ReadString16 a reader)) (\<lambda>(s16, reader).
     bindS (liftS (to_string8 s16)) (\<lambda>name.
     bindS (on_client (ReadObject has_client reader)) (\<lambda>(ob, reader).
     at_exit (let_go has_client ob)
       (bindS (liftS (Parcel_ReadInt32 reader)) (\<lambda>_.
        bindS (Service_AddService has_client name ob) (\<lambda>st.
        if st \<noteq> OK then retS (st, None)
        else
          bindS (liftS (bindR (ParcelTransactionDataWriter a) (Parcel_WriteInt32 a (status_code OK)))) (\<lambda>writer.
          retS (OK, Some (Parcel_Finalize writer))))))))))))"

definition OnGetService :: "bool \<Rightarrow> transaction_data \<Rightarrow> (status \<times> transaction_data option) sm" where
  "OnGetService has_client request =
     bindS (getS (\<lambda>s. c_alloc (sm_client s))) (\<lambda>a.
     bindS (liftS (ParcelTransactionDataReader request)) (\<lambda>reader.
     bindS (liftS (EnforceInterface a kInterfaceName reader)) (\<lambda>(_, reader).
     bindS (liftS (Parcel_ReadString16 a reader)) (\<lambda>(s16, reader).
     bindS (liftS (to_string8 s16)) (\<lambda>name.
     bindS (Service_GetService name) (\<lambda>(st, ob).
     if st \<noteq> OK then retS (st, None)
     else if ob = None then retS (DeadObject, None)
     else
       bindS (liftS (ParcelTransactionDataWriter a)) (\<lambda>writer.
       bindS (on_client (WriteObject has_client ob writer)) (\<lambda>writer.
       retS (OK, Some (Parcel_Finalize writer))))))))))"

definition OnListServices :: "transaction_data \<Rightarrow> (status \<times> transaction_data option) sm" where
  "OnListServices request =
     bindS (getS (\<lambda>s. c_alloc (sm_client s))) (\<lambda>a.
     bindS (Service_ListServices []) (\<lambda>(st, sv).
     if st \<noteq> OK then retS (st, None)
     else
       bindS (liftS (ParcelTransactionDataReader request)) (\<lambda>reader.
       bindS (liftS (EnforceInterface a kInterfaceName reader)) (\<lambda>(_, reader).
       bindS (liftS (Parcel_ReadInt32 reader)) (\<lambda>(n, _).
       if sint n < 0 \<or> sint n \<ge> int (length sv) then retS (BadValue, None)
       else
         bindS (liftS (bindR (ParcelTransactionDataWriter a) (Parcel_WriteString8 a (sv ! unat n)))) (\<lambda>writer.
         retS (OK, Some (Parcel_Finalize writer))))))))"

definition Service_OnTransact :: "bool \<Rightarrow> transaction_data \<Rightarrow> (status \<times> transaction_data option) sm" where
  "Service_OnTransact has_client request =
     (if td_code request = AddServiceTransaction then OnAddService has_client request
      else if td_code request = CheckServiceTransaction \<or> td_code request = GetServiceTransaction
      then OnGetService has_client request
      else if td_code request = ListServicesTransaction then OnListServices request
      else retS (UnknownTransaction, None))"

text \<open>The first entry that holds the object is erased.\<close>

definition erase_object :: "u64 \<Rightarrow> (byte list, u64) um \<Rightarrow> (byte list, u64) um" where
  "erase_object who sv = takeWhile (\<lambda>(_, ob). ob \<noteq> who) sv @ drop 1 (dropWhile (\<lambda>(_, ob). ob \<noteq> who) sv)"

definition Service_OnObjectDied :: "u64 \<Rightarrow> unit sm" where
  "Service_OnObjectDied who = modS (\<lambda>s. s\<lparr>services := erase_object who (services s)\<rparr>)"

section \<open>The proxy\<close>

definition service_request :: "allocator \<Rightarrow> u32 \<Rightarrow> parcel_writer res" where
  "service_request a code =
     bindR (ParcelTransactionDataWriter a) (\<lambda>w. WriteInterfaceToken a kInterfaceName 0 (Parcel_SetCode code w))"

definition named_request :: "allocator \<Rightarrow> u32 \<Rightarrow> byte list \<Rightarrow> parcel_writer res" where
  "named_request a code name =
     bindR (service_request a code) (\<lambda>w.
     bindR (to_string16 name) (\<lambda>s. Parcel_WriteString16 a s w))"

definition Proxy_AddService :: "bool \<Rightarrow> byte list \<Rightarrow> u64 option \<Rightarrow> u32 \<Rightarrow> status cl" where
  "Proxy_AddService has_client name object options =
     (if \<not> has_client then retS BadValue
      else
        bindS (getS c_alloc) (\<lambda>a.
        bindS (liftS (named_request a AddServiceTransaction name)) (\<lambda>w.
        bindS (WriteObject has_client object w) (\<lambda>w.
        bindS (liftS (Parcel_WriteInt32 a (if bit options 0 then 1 else 0) w)) (\<lambda>w.
        bindS (Transact kContextManagerHandle (Some (Parcel_Finalize w)) True) (\<lambda>(st, _).
        if st \<noteq> OK then retS st else retS OK))))))"

definition Proxy_GetService :: "bool \<Rightarrow> byte list \<Rightarrow> (status \<times> u64 option option) cl" where
  "Proxy_GetService has_client name =
     (if \<not> has_client then retS (BadValue, None)
      else
        bindS (getS c_alloc) (\<lambda>a.
        bindS (liftS (named_request a GetServiceTransaction name)) (\<lambda>w.
        bindS (Transact kContextManagerHandle (Some (Parcel_Finalize w)) True) (\<lambda>(st, reply).
        if st \<noteq> OK then retS (st, None)
        else case reply of
            None \<Rightarrow> retS (BadValue, None)
          | Some reply \<Rightarrow>
              bindS (liftS (ParcelTransactionDataReader reply)) (\<lambda>reader.
              bindS (ReadObject has_client reader) (\<lambda>(ob, _).
              retS (OK, Some ob)))))))"

text \<open>One pass of the loop: the request for entry \<open>n\<close>.\<close>

definition list_request :: "u32 \<Rightarrow> byte list list \<Rightarrow> (status \<times> byte list list) cl" where
  "list_request n acc =
     bindS (getS c_alloc) (\<lambda>a.
     bindS (liftS (bindR (service_request a ListServicesTransaction) (Parcel_WriteInt32 a n))) (\<lambda>w.
     bindS (Transact kContextManagerHandle (Some (Parcel_Finalize w)) True) (\<lambda>(st, reply).
     case reply of
       None \<Rightarrow> retS (st, acc)
     | Some reply \<Rightarrow>
         bindS (liftS (ParcelTransactionDataReader reply)) (\<lambda>reader.
         bindS (liftS (Parcel_ReadString16 a reader)) (\<lambda>(s16, _).
         bindS (liftS (to_string8 s16)) (\<lambda>name. retS (st, acc @ [name])))))))"

text \<open>The loop runs until a status other than \<open>OK\<close> comes back. Every pass that goes on has
  taken an answer from \<open>incoming\<close>, so its length plus one is fuel enough (see
  \<open>ListServices_fuel\<close> below).\<close>

primrec list_loop :: "nat \<Rightarrow> u32 \<Rightarrow> byte list list \<Rightarrow> (status \<times> byte list list) cl" where
  "list_loop 0 n acc = throwS Blocked"
| "list_loop (Suc fuel) n acc =
     bindS (list_request n acc) (\<lambda>(st, acc).
     if st = OK then list_loop fuel (n + 1) acc else retS (st, acc))"

definition Proxy_ListServices :: "bool \<Rightarrow> byte list list \<Rightarrow> (status \<times> byte list list) cl" where
  "Proxy_ListServices has_client sv =
     (if \<not> has_client then retS (BadValue, sv)
      else
        bindS (getS (\<lambda>c. Suc (length (incoming c)))) (\<lambda>fuel.
        bindS (list_loop fuel 0 []) (\<lambda>(st, sv).
        if st \<noteq> BadValue then retS (st, sv) else retS (OK, sv))))"

lemma Transact_frames:
  "validS (with_frames n) (Transact handle request wants_reply)
     (\<lambda>(st, _) c. calls_ok c \<and> (st = OK \<longrightarrow> length (incoming c) < n)) (\<lambda>_. True)"
proof (cases "request = None \<or> \<not> td_one_way (the request) \<and> \<not> wants_reply")
  case True
  then show ?thesis by (cases request) (auto simp: Transact_def validS_def retS_def with_frames_def)
next
  case False
  then obtain rq where rq: "request = Some rq" "td_one_way rq \<or> wants_reply" by auto
  define Q where "Q = (\<lambda>(st, _ :: transaction_data option) c. calls_ok c \<and> (st = OK \<longrightarrow> length (incoming c) < n))"
  define R where "R = (\<lambda>r c. calls_ok c \<and> (if r = (None :: message option) then length (incoming c) = n else length (incoming c) < n))"
  have calls: "calls_ok (c\<lparr>c_translator := t\<rparr>) = calls_ok c" for c t by (simp add: calls_ok_def)
  have tr: "keepsS (with_frames n) (on_translator (ProcessTransaction d td))" for d td
    by (auto simp: on_translator_def validS_def split: prod.splits sum.splits)
  have nc: "keepsS (with_frames n) NewCookie" by (simp add: NewCookie_def validS_def)
  have trans: "validS (with_frames n) (Transact_message m ow) R (\<lambda>_. True)" for m ow
    unfolding R_def by (rule Transact_message_frames)
  have fin: "validS (R r) (case r of
              None \<Rightarrow> retS (FailedTransaction, None)
            | Some rmsg \<Rightarrow>
                if ow \<and> mtype rmsg = TStatus
                then bindS (liftS (ReadStatus rmsg)) (\<lambda>st. retS (st, None))
                else if mtype rmsg \<noteq> TTransactionReply then retS (BadValue, None)
                else
                  bindS (liftS (TransactionDataFromMessage rmsg)) (\<lambda>reply_data.
                  if td_has_status reply_data
                  then bindS (liftS (GetStatus reply_data)) (\<lambda>st. retS (st, None))
                  else
                    bindS (on_translator (ProcessTransaction In reply_data)) (\<lambda>(_, reply_data).
                    retS (OK, Some reply_data)))) Q (\<lambda>_. True)" for r ow
    by (auto simp: R_def Q_def validS_def bindS_def liftS_def retS_def on_translator_def calls
        split: option.splits sum.splits prod.splits if_splits)
  have wk: "keepsS (with_frames n) m \<Longrightarrow> validS (with_frames n) m (\<lambda>_. with_frames n) (\<lambda>_. True)" for m :: "'x cl"
    by (erule validS_conseq) simp_all
  show ?thesis unfolding Q_def [symmetric] Transact_def rq(1) option.case Let_def
    using rq(2)
    by (auto intro!: validS_bind [OF wk [OF nc]] validS_bind [OF wk [OF tr]] validS_bind [OF wk [OF keepsS_get]]
        validS_bind [OF wk [OF keepsS_lift]] validS_bind [OF trans] fin split: prod.split)
qed


section \<open>The loop of the proxy ends\<close>

lemma list_request_uses_frame:
  assumes c: "calls_ok c" and run: "list_request n acc c = (Inr (OK, acc'), c')"
  shows "calls_ok c'" and "length (incoming c') < length (incoming c)"
proof -
  obtain w where w: "bindR (service_request (c_alloc c) ListServicesTransaction) (Parcel_WriteInt32 (c_alloc c) n) = Inr w"
    using run by (auto simp: list_request_def bindS_def getS_def liftS_def split: sum.splits)
  obtain r c1 where t: "Transact kContextManagerHandle (Some (Parcel_Finalize w)) True c = (r, c1)"
    by (cases "Transact kContextManagerHandle (Some (Parcel_Finalize w)) True c")
  obtain reply where r: "r = Inr (OK, reply)" and c1: "c1 = c'"
    using run w t
    by (auto simp: list_request_def bindS_def getS_def liftS_def retS_def split: sum.splits option.splits prod.splits)
  have "with_frames (length (incoming c)) c" using c by (simp add: with_frames_def)
  from validS_value [OF Transact_frames this t [unfolded r c1]]
  show "calls_ok c'" and "length (incoming c') < length (incoming c)" by simp_all
qed

lemma list_loop_more:
  "calls_ok c \<Longrightarrow> length (incoming c) < fuel \<Longrightarrow> list_loop (Suc fuel) n acc c = list_loop fuel n acc c"
proof (induction fuel arbitrary: n acc c)
  case (Suc fuel)
  obtain r c1 where r: "list_request n acc c = (r, c1)" by (cases "list_request n acc c")
  show ?case
  proof (cases "\<exists>acc'. r = Inr (OK, acc')")
    case True
    then obtain acc' where o: "r = Inr (OK, acc')" by auto
    have "list_loop (Suc fuel) (n + 1) acc' c1 = list_loop fuel (n + 1) acc' c1"
      using list_request_uses_frame [OF Suc.prems(1) r [unfolded o]] Suc.prems(2) by (intro Suc.IH) simp_all
    then show ?thesis using r o by (subst (1 2) list_loop.simps) (simp add: bindS_def del: list_loop.simps)
  next
    case False
    then show ?thesis using r by (cases r) (auto simp: bindS_def)
  qed
qed simp

text \<open>The loop of \<^verbatim>\<open>ServiceManagerProxy::ListServices\<close> ends: every further pass has used up an
  answer of the server, so the bound the model takes is never what stops it. With any larger
  bound the result is the same.\<close>

theorem ListServices_fuel:
  assumes "calls_ok c"
  shows "list_loop (Suc (length (incoming c)) + k) n acc c = list_loop (Suc (length (incoming c))) n acc c"
proof (induction k)
  case (Suc k)
  have "list_loop (Suc (Suc (length (incoming c)) + k)) n acc c = list_loop (Suc (length (incoming c)) + k) n acc c"
    using assms by (intro list_loop_more) simp_all
  then show ?case using Suc by simp
qed simp

theorem ListServices_fuel_witness:
  "list_loop (Suc (length (incoming (ClientImpl plain_alloc))) + 7) 0 [] (ClientImpl plain_alloc) =
   list_loop (Suc (length (incoming (ClientImpl plain_alloc)))) 0 [] (ClientImpl plain_alloc)"
  by (rule ListServices_fuel [OF calls_ok_new])

section \<open>Requests\<close>

definition interface_text :: "nat list" where
  "interface_text = map of_char ''android.os.IServiceManager''"

lemma interface_text [simp]: "short_text interface_text" "text8 interface_text = kInterfaceName"
  by (simp_all add: interface_text_def short_text_def scalar_def utf16_encode_def utf8_encode_def
      kInterfaceName_def bytes_of_def)

text \<open>The data of a request for the service named \<open>cs\<close>, with what follows the name.\<close>

definition request_bytes :: "nat list \<Rightarrow> byte list \<Rightarrow> byte list" where
  "request_bytes cs xs = token_bytes 0 (text16 interface_text) @ string16_bytes (text16 cs) @ xs"

lemma named_request_holds:
  assumes a: "total_alloc a" and s: "short_text cs"
  obtains w where "named_request a code (text8 cs) = Inr w" and "holds w (request_bytes cs []) []" and "pw_code w = code"
proof -
  note i' = short_text_conv [OF interface_text(1)] and s' = short_text_conv [OF s]
  obtain w where w: "ParcelTransactionDataWriter a = Inr w" "holds w [] []" by (rule holds_new)
  obtain w1 where 1: "WriteInterfaceToken a kInterfaceName 0 (Parcel_SetCode code w) = Inr w1"
      "holds w1 ([] @ token_bytes 0 (text16 interface_text)) []" "pw_code w1 = pw_code (Parcel_SetCode code w)"
    using WriteInterfaceToken_holds [OF a _ i'(1,5), of "Parcel_SetCode code w" "[]" "[]"] w(2)
    unfolding interface_text(2) by auto
  obtain w2 where 2: "on_data (WriteString16 a (text16 cs)) w1 = Inr w2" "pw_code w2 = pw_code w1"
      "holds w2 (([] @ token_bytes 0 (text16 interface_text)) @ string16_bytes (text16 cs)) []"
    using WriteString16_holds [OF a 1(2) s'(5)] by metis
  show thesis
    by (rule that [of w2]) (use w 1 2 s' in
        \<open>simp_all add: named_request_def service_request_def Parcel_WriteString16_def request_bytes_def Parcel_SetCode_def\<close>)
qed

lemma read_name:
  assumes a: "total_alloc a" and s: "short_text cs" and td: "td_writable td" "GetData_bytes td = Inr (request_bytes cs xs)"
  obtains r r1 r2 where "ParcelTransactionDataReader td = Inr r"
    and "EnforceInterface a kInterfaceName r = Inr (True, r1)"
    and "Parcel_ReadString16 a r1 = Inr (text16 cs, r2)" and "to_string8 (text16 cs) = Inr (text8 cs)" and "ahead r2 xs"
proof -
  note i' = short_text_conv [OF interface_text(1)] and s' = short_text_conv [OF s]
  obtain r where r: "ParcelTransactionDataReader td = Inr r" "ahead r (request_bytes cs xs)"
    using ahead_new [OF td] by metis
  obtain r1 where r1: "EnforceInterface a kInterfaceName r = Inr (kInterfaceName = kInterfaceName, r1)"
      "ahead r1 (string16_bytes (text16 cs) @ xs)"
    using EnforceInterface_ahead [OF a r(2) [unfolded request_bytes_def] i'(3,4,2), of kInterfaceName]
    unfolding interface_text(2) by metis
  obtain r2 where r2: "Parcel_ReadString16 a r1 = Inr (text16 cs, r2)" "ahead r2 xs"
    using ReadString16_ahead [OF a r1(2) s'(3,4)] by metis
  show thesis by (rule that [of r r1 r2]) (use r r1 r2 s' in simp_all)
qed

section \<open>What the service answers\<close>

lemma RemoteObject_Create_result:
  assumes "RemoteObject_Create True h c = (Inr ob, c')"
  shows "c_objects c' ob = Some (RemoteObject \<lparr>ro_handle = h, ro_has_release = True, obituaries_sent = False, obituaries = []\<rparr>)"
    and "c_alloc c' = c_alloc c" and "c_pool c' = c_pool c"
proof -
  obtain st c1 where a: "AddReference h c = (Inr st, c1)"
    using assms by (auto simp: RemoteObject_Create_def bindS_def split: prod.splits sum.splits)
  have k: "c_alloc c1 = c_alloc c \<and> c_pool c1 = c_pool c \<and> c_objects c1 = c_objects c"
    by (rule keepsS_D [OF objects_frame.frame_AddReference [of "c_alloc c" "c_pool c" "c_objects c"] _ a]) simp_all
  show "c_objects c' ob = Some (RemoteObject \<lparr>ro_handle = h, ro_has_release = True, obituaries_sent = False, obituaries = []\<rparr>)"
    and "c_alloc c' = c_alloc c" and "c_pool c' = c_pool c"
    using assms a k by (auto simp: RemoteObject_Create_def new_object_def bindS_def)
qed

lemma status_parcel:
  assumes "total_alloc a"
  obtains w where "bindR (ParcelTransactionDataWriter a) (Parcel_WriteInt32 a v) = Inr w"
    and "holds w (le_bytes 4 v) []" and "pw_code w = 0"
proof -
  obtain w where w: "ParcelTransactionDataWriter a = Inr w" "holds w [] []" by (rule holds_new)
  then have "pw_code w = 0" by (auto simp: ParcelTransactionDataWriter_def)
  with w WriteInt32_holds [OF assms w(2), of v] that show thesis by force
qed

lemma let_go_kept: "ob \<in> snd ` set (services s) \<Longrightarrow> let_go has_client (Some ob) s = (Inr (), s)"
  by (auto simp: let_go_def bindS_def getS_def retS_def split: option.splits obj.splits)

lemma OnAddService_writes:
  assumes a: "total_alloc (c_alloc (sm_client s))" and n: "short_text cs"
    and td: "td_writable td"
      "GetData_bytes td = Inr (request_bytes cs (flat_object BINDER_TYPE_HANDLE f (ucast h) k @ le_bytes 4 (v :: u32) @ xs))"
    and create: "RemoteObject_Create True (ucast (h :: u32)) (sm_client s) = (Inr ob, c1)"
    and link: "LinkToDeath ob (death_handler s) c1 = (Inr st, c2)"
    and new: "um_find (text8 cs) (services s) = None"
  obtains w where "OnAddService True td s = (Inr (OK, Some (Parcel_Finalize w)),
      s\<lparr>sm_client := c2, services := um_insert (text8 cs) ob (services s)\<rparr>)"
    and "holds w (le_bytes 4 (status_code OK)) []"
proof -
  obtain r r1 r2 where r: "ParcelTransactionDataReader td = Inr r"
      "EnforceInterface (c_alloc (sm_client s)) kInterfaceName r = Inr (True, r1)"
      "Parcel_ReadString16 (c_alloc (sm_client s)) r1 = Inr (text16 cs, r2)"
      "to_string8 (text16 cs) = Inr (text8 cs)"
      "ahead r2 (flat_object BINDER_TYPE_HANDLE f (ucast h) k @ le_bytes 4 v @ xs)"
    using read_name [OF a n td] by metis
  have h: "(ucast (ucast (ucast h :: u64) :: u32) :: u64) = ucast h"
    by (rule bit_word_eqI) (auto simp: bit_simps dest: bit_imp_le_length)
  obtain r3 where r3: "ReadObject True r2 (sm_client s) = (Inr (Some ob, r3), c1)" "ahead r3 (le_bytes 4 v @ xs)"
    using ReadObject_handle [OF r(5), of True "sm_client s" ob c1] create h by metis
  obtain r4 where r4: "Parcel_ReadInt32 r3 = Inr (low_byte v, r4)"
    using ReadInt32_ahead [OF r3(2)] by metis
  obtain w where w: "bindR (ParcelTransactionDataWriter (c_alloc (sm_client s)))
        (Parcel_WriteInt32 (c_alloc (sm_client s)) (status_code OK)) = Inr w" "holds w (le_bytes 4 (status_code OK)) []"
    using status_parcel [OF a, of "status_code OK"] by metis
  have "OnAddService True td s = (Inr (OK, Some (Parcel_Finalize w)),
      s\<lparr>sm_client := c2, services := um_insert (text8 cs) ob (services s)\<rparr>)"
    using r r3 r4 w(1) link new
    by (simp add: OnAddService_def Service_AddService_def link_service_def on_client_def let_go_kept at_exit_def tryS_def
        bindS_def seqS_def getS_def modS_def liftS_def retS_def um_insert_def)
  then show thesis using that w(2) by blast
qed

lemma OnGetService_writes:
  assumes a: "total_alloc (c_alloc (sm_client s))" and n: "short_text cs"
    and td: "td_writable td" "GetData_bytes td = Inr (request_bytes cs xs)"
    and known: "um_find (text8 cs) (services s) = Some ob"
    and ob: "c_objects (sm_client s) ob = Some (RemoteObject ro)"
  obtains w where "OnGetService True td s = (Inr (OK, Some (Parcel_Finalize w)), s)"
    and "holds w (flat_object BINDER_TYPE_HANDLE 0x17f (ucast (ucast (ro_handle ro) :: u32)) 0) (le_bytes 8 (0 :: u64))"
proof -
  obtain r r1 r2 where r: "ParcelTransactionDataReader td = Inr r"
      "EnforceInterface (c_alloc (sm_client s)) kInterfaceName r = Inr (True, r1)"
      "Parcel_ReadString16 (c_alloc (sm_client s)) r1 = Inr (text16 cs, r2)"
      "to_string8 (text16 cs) = Inr (text8 cs)"
    using read_name [OF a n td] by metis
  obtain w where w: "ParcelTransactionDataWriter (c_alloc (sm_client s)) = Inr w" "holds w [] []" by (rule holds_new)
  obtain w' where w': "WriteObject True (Some ob) w (sm_client s) = (Inr w', sm_client s)"
      "holds w' ([] @ flat_object BINDER_TYPE_HANDLE 0x17f (ucast (ucast (ro_handle ro) :: u32)) 0)
        ([] @ le_bytes 8 (of_nat (length ([] :: byte list)) :: u64))"
    using WriteObject_remote [OF a w(2) ob] by metis
  have "OnGetService True td s = (Inr (OK, Some (Parcel_Finalize w')), s)"
    using r w(1) w'(1) known
    by (simp add: OnGetService_def Service_GetService_def on_client_def bindS_def getS_def liftS_def retS_def)
  then show thesis using that w'(2) by simp
qed

lemma OnGetService_unknown:
  assumes a: "total_alloc (c_alloc (sm_client s))" and n: "short_text cs"
    and td: "td_writable td" "GetData_bytes td = Inr (request_bytes cs xs)"
    and unknown: "um_find (text8 cs) (services s) = None"
  shows "OnGetService True td s = (Inr (BadValue, None), s)"
proof -
  obtain r r1 r2 where r: "ParcelTransactionDataReader td = Inr r"
      "EnforceInterface (c_alloc (sm_client s)) kInterfaceName r = Inr (True, r1)"
      "Parcel_ReadString16 (c_alloc (sm_client s)) r1 = Inr (text16 cs, r2)"
      "to_string8 (text16 cs) = Inr (text8 cs)"
    using read_name [OF a n td] by metis
  then show ?thesis using unknown
    by (simp add: OnGetService_def Service_GetService_def bindS_def getS_def liftS_def retS_def)
qed


lemma erase_object_new: "ob \<notin> snd ` set sv \<Longrightarrow> um_find name sv = None \<Longrightarrow> erase_object ob (um_insert name ob sv) = sv"
proof -
  assume "ob \<notin> snd ` set sv" and n: "um_find name sv = None"
  then have "\<forall>x \<in> set sv. (case x of (_, ob') \<Rightarrow> ob' \<noteq> ob)" by force
  then show ?thesis using n by (simp add: erase_object_def um_insert_def takeWhile_append2 dropWhile_append2)
qed

text \<open>C25: The life of a service. A request to add a service whose name is not taken, with a handle to
  the object, is answered with OK; a request for the name is then answered with the same
  handle, and the table is unchanged by it. When the object dies its entry goes and the name
  is unknown again.\<close>

theorem service_life:
  assumes a: "total_alloc (c_alloc (sm_client s))" and n: "short_text cs"
    and add: "td_code add = AddServiceTransaction" "td_writable add"
      "GetData_bytes add = Inr (request_bytes cs (flat_object BINDER_TYPE_HANDLE f (ucast h) k @ le_bytes 4 (v :: u32)))"
    and get: "td_code get \<in> {GetServiceTransaction, CheckServiceTransaction}" "td_writable get"
      "GetData_bytes get = Inr (request_bytes cs [])"
    and create: "RemoteObject_Create True (ucast (h :: u32)) (sm_client s) = (Inr ob, c1)"
    and link: "LinkToDeath ob (death_handler s) c1 = (Inr st, c2)"
    and new: "um_find (text8 cs) (services s) = None" "ob \<notin> snd ` set (services s)"
  shows "\<exists>reply1 reply2 s'.
     Service_OnTransact True add s = (Inr (OK, Some reply1), s') \<and>
     services s' = services s @ [(text8 cs, ob)] \<and>
     GetData_bytes reply1 = Inr (le_bytes 4 (status_code OK)) \<and>
     Service_OnTransact True get s' = (Inr (OK, Some reply2), s') \<and>
     GetData_bytes reply2 = Inr (flat_object BINDER_TYPE_HANDLE 0x17f (ucast h) 0) \<and>
     (\<exists>s''. Service_OnObjectDied ob s' = (Inr (), s'') \<and> services s'' = services s \<and>
        Service_OnTransact True get s'' = (Inr (BadValue, None), s''))"
proof -
  let ?s = "s\<lparr>sm_client := c2, services := um_insert (text8 cs) ob (services s)\<rparr>"
  note ro = RemoteObject_Create_result [OF create] and kept = LinkToDeath_keeps [OF link]
  obtain obs where ob: "c_objects c2 ob = Some (RemoteObject \<lparr>ro_handle = ucast h, ro_has_release = True,
      obituaries_sent = False, obituaries = obs\<rparr>)"
    using kept(4) [OF ro(1)] by auto
  have a2: "total_alloc (c_alloc c2)" using a ro(2) kept(1) by simp
  obtain w1 where "OnAddService True add s = (Inr (OK, Some (Parcel_Finalize w1)), ?s)" "holds w1 (le_bytes 4 (status_code OK)) []"
    using OnAddService_writes [OF a n add(2), of f h k v "[]"] add(3) create link new(1) unfolding append_Nil2 by metis
  then obtain reply1 where 1: "OnAddService True add s = (Inr (OK, Some reply1), ?s)"
      "GetData_bytes reply1 = Inr (le_bytes 4 (status_code OK))"
    using Finalize_holds(3) by blast
  have h: "(ucast (ucast (ucast h :: u64) :: u32) :: u64) = ucast h"
    by (rule bit_word_eqI) (auto simp: bit_simps dest: bit_imp_le_length)
  have known: "um_find (text8 cs) (services ?s) = Some ob" using new(1) by (simp add: um_find_simps)
  obtain reply2 where 2: "OnGetService True get ?s = (Inr (OK, Some reply2), ?s)"
      "GetData_bytes reply2 = Inr (flat_object BINDER_TYPE_HANDLE 0x17f (ucast h) 0)"
  proof -
    have "total_alloc (c_alloc (sm_client ?s))" "c_objects (sm_client ?s) ob = Some (RemoteObject
        \<lparr>ro_handle = ucast h, ro_has_release = True, obituaries_sent = False, obituaries = obs\<rparr>)"
      using a2 ob by simp_all
    from OnGetService_writes [OF this(1) n get(2,3) known this(2)] obtain w2 where
      "OnGetService True get ?s = (Inr (OK, Some (Parcel_Finalize w2)), ?s)"
      "holds w2 (flat_object BINDER_TYPE_HANDLE 0x17f (ucast h) 0) (le_bytes 8 (0 :: u64))"
      unfolding remote_object.simps h by metis
    then show thesis using that Finalize_holds(3) by blast
  qed
  let ?t = "?s\<lparr>services := services s\<rparr>"
  have 3: "Service_OnObjectDied ob ?s = (Inr (), ?t)"
    using new by (simp add: Service_OnObjectDied_def modS_def erase_object_new)
  have 4: "OnGetService True get ?t = (Inr (BadValue, None), ?t)"
    by (rule OnGetService_unknown [OF _ n get(2,3)]) (use a2 new in simp_all)
  have codes: "td_code get \<noteq> AddServiceTransaction" "td_code get = CheckServiceTransaction \<or> td_code get = GetServiceTransaction"
    using get(1) by (auto simp: sm_codes)
  have "services ?s = services s @ [(text8 cs, ob)]" "services ?t = services s"
    using new(1) by (simp_all add: um_insert_def)
  then show ?thesis using 1 2 3 4 codes add(1) unfolding Service_OnTransact_def by auto
qed

text \<open>A client that is not connected: its calls are refused at once.\<close>

lemma status_call_unconnected: "\<not> c_connected c \<Longrightarrow> status_call msg st c = (Inr st, c)"
  by (simp add: status_call_def Transact_message_def bindS_def getS_def retS_def)

lemma AddReference_unconnected:
  assumes "\<not> c_connected c" and "total_alloc (c_alloc c)"
  shows "AddReference h c = (Inr FailedTransaction, c)"
  using assms
  by (simp add: AddReference_def Message_Create_def Message_write_def Message_GetWriter_def Write_defs wire
      appending_def BinaryWriter_def bindS_def getS_def liftS_def status_call_unconnected)

lemma RequestDeathNotification_unconnected:
  assumes "\<not> c_connected c" and "total_alloc (c_alloc c)"
  obtains c' where "RequestDeathNotification h ob c = (Inr UnknownError, c')"
  using assms
  by (simp add: RequestDeathNotification_def death_message_def on_translator_def Message_Create_def Message_write_def
      Message_GetWriter_def Write_defs wire appending_def BinaryWriter_def bindS_def seqS_def getS_def modS_def liftS_def
      status_call_unconnected case_prod_beta)

definition example_add :: transaction_data where
  "example_add = WritableTransactionData 0 0 AddServiceTransaction False
     (Some (Buffer_view (request_bytes [0x61] (flat_object BINDER_TYPE_HANDLE 0x17f (ucast (7 :: u32)) 0 @ le_bytes 4 (0 :: u32))))) None"

definition example_get :: transaction_data where
  "example_get = WritableTransactionData 0 0 GetServiceTransaction False (Some (Buffer_view (request_bytes [0x61] []))) None"

lemma GetData_writable:
  "d \<noteq> [] \<Longrightarrow> GetData_bytes (WritableTransactionData p c code ow (Some (Buffer_view d)) os) = Inr d"
  "d \<noteq> [] \<Longrightarrow> td_writable (WritableTransactionData p c code ow (Some (Buffer_view d)) os)"
  "td_code (WritableTransactionData p c code ow b os) = code"
  by (simp_all add: WritableTransactionData_def GetData_bytes_def mem_read_def Buffer_view_def buffer_GetSize_def)

lemma request_bytes_ne: "request_bytes cs xs \<noteq> []"
  by (simp add: request_bytes_def token_bytes_def le_bytes_def)

lemma example_reference:
  obtains ob c1 c2 where "RemoteObject_Create True (ucast (7 :: u32)) (ClientImpl plain_alloc) = (Inr ob, c1)"
    and "LinkToDeath ob (death_handler (ServiceManagerService (ClientImpl plain_alloc) 1)) c1 = (Inr UnknownError, c2)"
proof -
  let ?c = "ClientImpl plain_alloc" and ?s = "ServiceManagerService (ClientImpl plain_alloc) 1"
  have con: "\<not> c_connected ?c" "c_alloc ?c = plain_alloc" by (simp_all add: ClientImpl_def)
  define ob where "ob = next_addr ?c"
  define ro where "ro = RemoteObject \<lparr>ro_handle = 7, ro_has_release = True, obituaries_sent = False, obituaries = []\<rparr>"
  define c1 where "c1 = ?c\<lparr>c_objects := (c_objects ?c)(ob \<mapsto> ro), next_addr := ob + 0x100\<rparr>"
  have create: "RemoteObject_Create True (ucast (7 :: u32)) ?c = (Inr ob, c1)"
    using con by (simp add: RemoteObject_Create_def AddReference_unconnected new_object_def bindS_def c1_def ob_def ro_def)
  have c1: "\<not> c_connected c1" "total_alloc (c_alloc c1)" "c_objects c1 ob = Some ro"
    using con by (simp_all add: c1_def)
  obtain c2 where "RequestDeathNotification 7 ob c1 = (Inr UnknownError, c2)"
    using RequestDeathNotification_unconnected [OF c1(1,2)] .
  then have "LinkToDeath ob (death_handler ?s) c1 = (Inr UnknownError, c2)"
    using c1(3) by (simp add: ro_def LinkToDeath_def LinkToDeath_remote_def get_remote_def bindS_def getS_def retS_def)
  with create show thesis by (rule that)
qed

theorem service_life_witness:
  "\<exists>reply1 reply2 s' ob.
     Service_OnTransact True example_add (ServiceManagerService (ClientImpl plain_alloc) 1) = (Inr (OK, Some reply1), s') \<and>
     services s' = [([0x61], ob)] \<and>
     Service_OnTransact True example_get s' = (Inr (OK, Some reply2), s') \<and>
     GetData_bytes reply2 = Inr (flat_object BINDER_TYPE_HANDLE 0x17f 7 0)"
proof -
  let ?c = "ClientImpl plain_alloc" and ?s = "ServiceManagerService (ClientImpl plain_alloc) 1"
  obtain ob c1 c2 where r: "RemoteObject_Create True (ucast (7 :: u32)) ?c = (Inr ob, c1)"
      "LinkToDeath ob (death_handler ?s) c1 = (Inr UnknownError, c2)"
    by (rule example_reference)
  have "short_text [0x61]" by (simp add: short_text_def scalar_def utf16_encode_def)
  from service_life [where s = ?s and cs = "[0x61]" and add = example_add and f = "0x17f" and h = 7 and k = 0 and v = 0
      and get = example_get, OF _ this _ _ _ _ _ _ _ r(2)]
  obtain reply1 reply2 s' where
      "Service_OnTransact True example_add ?s = (Inr (OK, Some reply1), s')"
      "services s' = services ?s @ [(text8 [0x61], ob)]"
      "Service_OnTransact True example_get s' = (Inr (OK, Some reply2), s')"
      "GetData_bytes reply2 = Inr (flat_object BINDER_TYPE_HANDLE 0x17f (ucast (7 :: u32)) 0)"
    using r(1)
    by (auto simp: ClientImpl_def ServiceManagerService_def example_add_def example_get_def GetData_writable request_bytes_ne
        simp del: binder_type_values)
  then show ?thesis by (intro exI) (auto simp: ServiceManagerService_def utf8_encode_def simp del: binder_type_values)
qed

section \<open>The directory of services\<close>

text \<open>What the service promises: a partial map from names to objects.\<close>

definition directory :: "service_manager \<Rightarrow> byte list \<Rightarrow> u64 option" where
  "directory s name = um_find name (services s)"

lemma on_client_services: "on_client m s = (r, s') \<Longrightarrow> services s' = services s"
  by (auto simp: on_client_def split: prod.splits)

lemma link_service_services: "link_service hc ob s = (r, s') \<Longrightarrow> services s' = services s"
  by (auto simp: link_service_def bindS_def getS_def throwS_def retS_def dest: on_client_services
      split: if_splits prod.splits sum.splits)

lemma AddService_refines:
  "directory (snd (Service_AddService hc name object s)) =
     (case object of None \<Rightarrow> directory s
      | Some ob \<Rightarrow> if directory s name = None then (directory s)(name \<mapsto> ob) else directory s)"
proof (cases object)
  case None
  then show ?thesis by (simp add: Service_AddService_def bindS_def getS_def retS_def)
next
  case (Some ob)
  show ?thesis
  proof (cases "directory s name")
    case None
    let ?s = "s\<lparr>services := um_insert name ob (services s)\<rparr>"
    obtain r s' where l: "link_service hc ob ?s = (r, s')" by (cases "link_service hc ob ?s")
    have "directory s' = (directory s)(name \<mapsto> ob)"
      using link_service_services [OF l] None by (auto simp: directory_def um_find_simps fun_eq_iff)
    then show ?thesis using Some None l
      by (cases r) (auto simp: Service_AddService_def directory_def bindS_def seqS_def getS_def modS_def retS_def)
  qed (use Some in \<open>simp add: Service_AddService_def directory_def bindS_def getS_def retS_def\<close>)
qed

lemma erase_object_find:
  assumes ok: "um_ok sv" and k: "um_find k sv = Some who"
  shows "\<exists>n. um_find n sv = Some who \<and> (\<forall>m. um_find m (erase_object who sv) = (if m = n then None else um_find m sv))"
proof -
  have "dropWhile (\<lambda>(_, ob). ob \<noteq> who) sv \<noteq> []" using um_find_in_set [OF k] by auto
  then obtain n ob qs where d: "dropWhile (\<lambda>(_, ob). ob \<noteq> who) sv = (n, ob) # qs" by (metis list.exhaust surj_pair)
  have ob: "ob = who" using hd_dropWhile [of "\<lambda>(_, ob). ob \<noteq> who" sv] d by auto
  define ps where "ps = takeWhile (\<lambda>(_, ob). ob \<noteq> who) sv"
  have sv: "sv = ps @ (n, who) # qs"
    using takeWhile_dropWhile_id [of "\<lambda>(_, ob). ob \<noteq> who" sv] d ob by (simp add: ps_def)
  have e: "erase_object who sv = ps @ qs" by (simp add: erase_object_def d ps_def)
  have n: "n \<notin> fst ` set ps" "n \<notin> fst ` set qs" using ok unfolding sv um_ok_def by auto
  have pn: "map_of ps n = None" "map_of qs n = None" using n by (simp_all add: map_of_eq_None_iff)
  show ?thesis
  proof (intro exI conjI allI)
    show "um_find n sv = Some who" using pn by (simp add: um_find_def sv map_add_def)
    show "um_find m (erase_object who sv) = (if m = n then None else um_find m sv)" for m
      using pn unfolding e by (auto simp: um_find_def sv map_add_def split: option.split)
  qed
qed

lemma erase_object_none: "(\<forall>k. um_find k sv \<noteq> Some who) \<Longrightarrow> um_ok sv \<Longrightarrow> erase_object who sv = sv"
proof -
  assume "\<forall>k. um_find k sv \<noteq> Some who" and "um_ok sv"
  then have "\<forall>x \<in> set sv. (case x of (_, ob) \<Rightarrow> ob \<noteq> who)" by (force dest: um_ok_find)
  then have "takeWhile (\<lambda>(_, ob). ob \<noteq> who) sv = sv" "dropWhile (\<lambda>(_, ob). ob \<noteq> who) sv = []"
    by (simp_all only: takeWhile_eq_all_conv dropWhile_eq_Nil_conv)
  then show ?thesis by (simp add: erase_object_def del: dropWhile_eq_Nil_conv)
qed

lemma erase_object_ok: "um_ok sv \<Longrightarrow> um_ok (erase_object who sv)"
proof -
  assume "um_ok sv"
  then have "um_ok (takeWhile (\<lambda>(_, ob). ob \<noteq> who) sv @ dropWhile (\<lambda>(_, ob). ob \<noteq> who) sv)" by simp
  then show ?thesis unfolding um_ok_def erase_object_def
    by (cases "dropWhile (\<lambda>(_, ob). ob \<noteq> who) sv") (auto simp del: dropWhile_eq_Nil_conv takeWhile_dropWhile_id)
qed

text \<open>C26: The service table implements a partial map from names to objects: adding a service
  updates the map at a name that is free and otherwise changes nothing, asking for a service
  is looking the name up, the list of services is the domain without repetitions, and the
  death of an object removes one of the names it had.\<close>

theorem service_directory_refines:
  assumes ok: "um_ok (services s)"
  shows "directory (snd (Service_AddService hc name object s)) =
       (case object of None \<Rightarrow> directory s
        | Some ob \<Rightarrow> if directory s name = None then (directory s)(name \<mapsto> ob) else directory s) \<and>
     Service_GetService name s = (Inr (if directory s name = None then BadValue else OK, directory s name), s) \<and>
     (\<exists>names. Service_ListServices [] s = (Inr (OK, names), s) \<and> distinct names \<and> set names = dom (directory s)) \<and>
     (if who \<in> ran (directory s)
      then \<exists>n. directory s n = Some who \<and> directory (snd (Service_OnObjectDied who s)) = (directory s)(n := None)
      else snd (Service_OnObjectDied who s) = s) \<and>
     um_ok (services (snd (Service_OnObjectDied who s)))"
proof (intro conjI)
  show "Service_GetService name s = (Inr (if directory s name = None then BadValue else OK, directory s name), s)"
    by (simp add: Service_GetService_def directory_def bindS_def getS_def retS_def split: option.split)
  show "\<exists>names. Service_ListServices [] s = (Inr (OK, names), s) \<and> distinct names \<and> set names = dom (directory s)"
    using ok by (intro exI [of _ "map fst (services s)"])
      (auto simp: Service_ListServices_def directory_def bindS_def getS_def retS_def um_ok_def um_find_def dom_def
        dest: map_of_SomeD, metis fst_conv image_eqI map_of_eq_None_iff not_None_eq)
  show "if who \<in> ran (directory s)
      then \<exists>n. directory s n = Some who \<and> directory (snd (Service_OnObjectDied who s)) = (directory s)(n := None)
      else snd (Service_OnObjectDied who s) = s"
  proof (cases "who \<in> ran (directory s)")
    case True
    then obtain k where k: "um_find k (services s) = Some who" by (auto simp: ran_def directory_def)
    show ?thesis using erase_object_find [OF ok k] True
      by (auto simp: Service_OnObjectDied_def modS_def directory_def fun_eq_iff)
  next
    case False
    then have "erase_object who (services s) = services s"
      by (intro erase_object_none ok) (auto simp: ran_def directory_def)
    then show ?thesis using False by (simp add: Service_OnObjectDied_def modS_def)
  qed
  show "um_ok (services (snd (Service_OnObjectDied who s)))"
    using erase_object_ok [OF ok] by (simp add: Service_OnObjectDied_def modS_def)
qed (rule AddService_refines)

theorem service_directory_refines_witness:
  "directory (snd (Service_AddService True [0x61] (Some 5) (ServiceManagerService (ClientImpl plain_alloc) 1))) [0x61] = Some 5"
  using service_directory_refines [of "ServiceManagerService (ClientImpl plain_alloc) 1" True "[0x61]" "Some 5" 0]
  by (simp add: ServiceManagerService_def directory_def)

end
