(* ===== verification/Registry.thy ===== *)
theory Registry
  imports Message
begin

text \<open>
  \<^verbatim>\<open>src/src/binderd/registry.cpp\<close>: the server-wide table of object handles, of the
  sessions that hold references to them, and of the two special sessions (context
  manager and monitor). \<^verbatim>\<open>Registry::RemoveHandle\<close> also notifies sessions and is
  defined with them, in theory \<open>Server_Session\<close>.
\<close>

text \<open>A session is named by the identity of its object.\<close>

type_synonym sid = nat

abbreviation (input) kContextManagerHandle :: u64 where "kContextManagerHandle \<equiv> 0"

record registry =
  context_mgr :: "sid option"
  monitor :: "sid option"
  next_object_handle :: u64
  handles :: "(u64, sid) um"
  references :: "(u64, sid list) um"

definition Registry_Create :: registry where
  "Registry_Create =
     \<lparr>context_mgr = None, monitor = None, next_object_handle = 1, handles = [], references = []\<rparr>"

definition SetContextManager :: "sid option \<Rightarrow> registry \<Rightarrow> registry" where
  "SetContextManager session r = r\<lparr>context_mgr := session\<rparr>"

definition SetMonitor :: "sid option \<Rightarrow> registry \<Rightarrow> registry" where
  "SetMonitor session r = r\<lparr>monitor := session\<rparr>"

definition FindSessionByHandle :: "u64 \<Rightarrow> registry \<Rightarrow> sid option" where
  "FindSessionByHandle handle r =
     (if handle = kContextManagerHandle then context_mgr r else um_find handle (handles r))"

definition NewObjectHandle :: "sid \<Rightarrow> registry \<Rightarrow> u64 \<times> registry" where
  "NewObjectHandle session r =
     (let handle = next_object_handle r in
      (handle, r\<lparr>next_object_handle := handle + 1, handles := um_insert handle session (handles r)\<rparr>))"

definition IsHandleKnown :: "u64 \<Rightarrow> registry \<Rightarrow> bool" where
  "IsHandleKnown handle r \<longleftrightarrow> um_find handle (handles r) \<noteq> None"

definition IsHandleReferenced :: "u64 \<Rightarrow> registry \<Rightarrow> bool" where
  "IsHandleReferenced handle r \<longleftrightarrow>
     (case um_find handle (references r) of None \<Rightarrow> False | Some l \<Rightarrow> length l > 0)"

definition AddReferenceForHandle :: "sid \<Rightarrow> u64 \<Rightarrow> registry \<Rightarrow> status \<times> registry" where
  "AddReferenceForHandle session handle r =
     (if \<not> IsHandleKnown handle r then (DeadObject, r)
      else case um_find handle (references r) of
          None \<Rightarrow> (OK, r\<lparr>references := um_insert handle [session] (references r)\<rparr>)
        | Some l \<Rightarrow> (OK, r\<lparr>references := um_store handle (l @ [session]) (references r)\<rparr>))"

definition RemoveReferenceForHandle :: "sid \<Rightarrow> u64 \<Rightarrow> registry \<Rightarrow> status \<times> registry" where
  "RemoveReferenceForHandle session handle r =
     (if \<not> IsHandleKnown handle r then (DeadObject, r)
      else case um_find handle (references r) of
          None \<Rightarrow> (BadValue, r)
        | Some l \<Rightarrow>
            if session \<in> set l
            then (OK, r\<lparr>references := um_store handle (remove1 session l) (references r)\<rparr>)
            else (BadValue, r))"

text \<open>The two erasures of \<^verbatim>\<open>RemoveHandle\<close>.\<close>

definition forget_references :: "u64 \<Rightarrow> registry \<Rightarrow> registry" where
  "forget_references handle r = r\<lparr>references := um_erase handle (references r)\<rparr>"

definition forget_handle :: "u64 \<Rightarrow> registry \<Rightarrow> registry" where
  "forget_handle handle r = r\<lparr>handles := um_erase handle (handles r)\<rparr>"

section \<open>The state of the registry\<close>

text \<open>References exist only for known handles, and every handle was given out.\<close>

definition registry_ok :: "registry \<Rightarrow> bool" where
  "registry_ok r \<longleftrightarrow> um_ok (handles r) \<and> um_ok (references r) \<and>
     (\<forall>h. um_find h (references r) \<noteq> None \<longrightarrow> um_find h (handles r) \<noteq> None)"

definition given_out :: "registry \<Rightarrow> bool" where
  "given_out r \<longleftrightarrow> next_object_handle r \<noteq> 0 \<and>
     (\<forall>h. um_find h (handles r) \<noteq> None \<longrightarrow> h \<noteq> 0 \<and> h < next_object_handle r)"

lemmas registry_defs = SetContextManager_def SetMonitor_def FindSessionByHandle_def
  NewObjectHandle_def IsHandleKnown_def AddReferenceForHandle_def RemoveReferenceForHandle_def
  forget_references_def forget_handle_def Let_def

lemma registry_ok_Create: "registry_ok Registry_Create" and given_out_Create: "given_out Registry_Create"
  by (simp_all add: registry_ok_def given_out_def Registry_Create_def)

lemma registry_ok_set [simp]:
  "registry_ok (SetContextManager x r) = registry_ok r" "registry_ok (SetMonitor x r) = registry_ok r"
  by (simp_all add: registry_ok_def registry_defs)

lemma registry_ok_New: "registry_ok r \<Longrightarrow> registry_ok (snd (NewObjectHandle x r))"
  by (auto simp: registry_ok_def registry_defs um_find_simps)

lemma registry_ok_AddReference: "registry_ok r \<Longrightarrow> registry_ok (snd (AddReferenceForHandle x h r))"
  by (auto simp: registry_ok_def registry_defs um_find_simps split: option.splits)

lemma registry_ok_RemoveReference: "registry_ok r \<Longrightarrow> registry_ok (snd (RemoveReferenceForHandle x h r))"
  by (auto simp: registry_ok_def registry_defs um_find_simps split: option.splits)

lemma registry_ok_forget: "registry_ok r \<Longrightarrow> registry_ok (forget_handle h (forget_references h r))"
  by (auto simp: registry_ok_def registry_defs um_find_simps)

lemma NewObjectHandle_fresh:
  assumes "given_out r" and "NewObjectHandle x r = (h, r')"
  shows "um_find h (handles r) = None" and "h \<noteq> 0" and "FindSessionByHandle h r' = Some x"
    and "\<And>h'. h' \<noteq> h \<Longrightarrow> FindSessionByHandle h' r' = FindSessionByHandle h' r"
  using assms
  by (auto simp: given_out_def registry_defs um_find_simps, (metis option.simps(3) less_irrefl)+)

lemma given_out_New:
  assumes "given_out r" and "next_object_handle r \<noteq> - 1"
  shows "given_out (snd (NewObjectHandle x r))"
  using assms word_less_Suc [OF assms(2)] word_plus_1_nonzero [OF assms(2)]
  by (auto simp: given_out_def registry_defs um_find_simps)

text \<open>Counting a session's references: acquiring adds one, releasing takes one away.\<close>

definition ref_count :: "sid \<Rightarrow> u64 \<Rightarrow> registry \<Rightarrow> nat" where
  "ref_count x h r = (case um_find h (references r) of None \<Rightarrow> 0 | Some l \<Rightarrow> count_list l x)"

lemma count_list_remove1: "count_list (remove1 x l) y = (if x = y then count_list l y - 1 else count_list l y)"
  by (induction l) auto

lemma ref_count_Add:
  assumes "IsHandleKnown h r"
  shows "fst (AddReferenceForHandle x h r) = OK"
    and "ref_count y k (snd (AddReferenceForHandle x h r)) =
      (if y = x \<and> k = h then Suc (ref_count y k r) else ref_count y k r)"
  using assms
  by (auto simp: AddReferenceForHandle_def ref_count_def um_find_simps split: option.splits)

lemma ref_count_Remove:
  assumes "IsHandleKnown h r"
  shows "fst (RemoveReferenceForHandle x h r) = (if ref_count x h r > 0 then OK else BadValue)"
    and "ref_count y k (snd (RemoveReferenceForHandle x h r)) =
      (if y = x \<and> k = h then ref_count y k r - 1 else ref_count y k r)"
  using assms
  by (auto simp: RemoveReferenceForHandle_def ref_count_def um_find_simps count_list_remove1
      count_list_0_iff split: option.splits)

text \<open>The handle table as the sessions see it: a fresh handle leads to the session that
  asked for it, and forgetting a handle makes it unknown.\<close>

locale handle_table =
  fixes new :: "sid \<Rightarrow> 'r \<Rightarrow> u64 \<times> 'r"
    and owner :: "u64 \<Rightarrow> 'r \<Rightarrow> sid option"
    and forget :: "u64 \<Rightarrow> 'r \<Rightarrow> 'r"
    and ok :: "'r \<Rightarrow> bool"
  assumes owner_new: "ok r \<Longrightarrow> new x r = (h, r') \<Longrightarrow> owner h r' = Some x"
    and owner_new_fresh: "ok r \<Longrightarrow> new x r = (h, r') \<Longrightarrow> owner h r = None"
    and owner_new_other: "ok r \<Longrightarrow> new x r = (h, r') \<Longrightarrow> h' \<noteq> h \<Longrightarrow> owner h' r' = owner h' r"
    and owner_forget: "owner h' (forget h r) = (if h' = h then None else owner h' r)"
begin

lemma new_distinct:
  assumes "ok r" and "new x r = (h, r')" and "ok r'" and "new y r' = (k, r'')"
  shows "h \<noteq> k" and "owner h r'' = Some x" and "owner k r'' = Some y"
proof -
  show "h \<noteq> k"
    using owner_new [OF assms(1,2)] owner_new_fresh [OF assms(3,4)] by auto
  then show "owner h r'' = Some x"
    using owner_new_other [OF assms(3,4)] owner_new [OF assms(1,2)] by simp
  show "owner k r'' = Some y" by (rule owner_new [OF assms(3,4)])
qed

lemma forget_new:
  "ok r \<Longrightarrow> new x r = (h, r') \<Longrightarrow> owner k (forget h r') = owner k r"
  using owner_new_fresh [of r x h r'] owner_new_other [of r x h r' k]
  by (simp add: owner_forget)

end

interpretation rt: handle_table NewObjectHandle "\<lambda>h r. um_find h (handles r)" forget_handle given_out
  by unfold_locales (auto simp: given_out_def registry_defs um_find_simps)

section \<open>Properties\<close>

text \<open>C23: the handles given to two objects, one after the other, differ from each other,
  from the context manager's handle and from every handle in use, and each leads to
  the session that asked for it (as long as the 64-bit counter has not run through).\<close>

theorem NewObjectHandle_unique:
  assumes "given_out r" and "next_object_handle r \<noteq> - 1"
    and "NewObjectHandle x r = (h, r1)" and "NewObjectHandle y r1 = (k, r2)"
  shows "h \<noteq> k \<and> h \<noteq> 0 \<and> k \<noteq> 0 \<and> \<not> IsHandleKnown h r \<and> \<not> IsHandleKnown k r1 \<and>
    FindSessionByHandle h r2 = Some x \<and> FindSessionByHandle k r2 = Some y"
proof -
  have ok: "given_out r1" using given_out_New [OF assms(1,2), of x] assms(3) by simp
  note rt.new_distinct [OF assms(1,3) ok assms(4)]
  then show ?thesis
    using NewObjectHandle_fresh [OF assms(1,3)] NewObjectHandle_fresh [OF ok assms(4)]
    by (auto simp: FindSessionByHandle_def IsHandleKnown_def)
qed

theorem NewObjectHandle_unique_witness:
  "let (h, r1) = NewObjectHandle 3 Registry_Create; (k, r2) = NewObjectHandle 4 r1 in
   h \<noteq> k \<and> FindSessionByHandle h r2 = Some 3 \<and> FindSessionByHandle k r2 = Some 4"
proof -
  let ?r = "snd (NewObjectHandle 3 Registry_Create)"
  have "next_object_handle Registry_Create \<noteq> - 1" by (simp add: Registry_Create_def)
  then show ?thesis
    using NewObjectHandle_unique [of Registry_Create 3 "fst (NewObjectHandle 3 Registry_Create)" ?r 4
        "fst (NewObjectHandle 4 ?r)" "snd (NewObjectHandle 4 ?r)"]
    by (simp add: given_out_Create split_beta)
qed

text \<open>acquiring and releasing keep a count per session and handle: an acquire adds one,
  a release takes one away and fails with \<open>BadValue\<close> when there is none, neither
  touches any other count, and both report \<open>DeadObject\<close> and do nothing for an unknown
  handle.\<close>

theorem references_are_counted:
  "AddReferenceForHandle x h r = (st1, r1) \<Longrightarrow> RemoveReferenceForHandle x h r = (st2, r2) \<Longrightarrow>
   (if IsHandleKnown h r
    then st1 = OK \<and> ref_count x h r1 = ref_count x h r + 1 \<and>
      st2 = (if ref_count x h r > 0 then OK else BadValue) \<and> ref_count x h r2 = ref_count x h r - 1 \<and>
      ((y, k) \<noteq> (x, h) \<longrightarrow> ref_count y k r1 = ref_count y k r \<and> ref_count y k r2 = ref_count y k r)
    else st1 = DeadObject \<and> st2 = DeadObject \<and> r1 = r \<and> r2 = r)"
proof (cases "IsHandleKnown h r")
  case True
  assume "AddReferenceForHandle x h r = (st1, r1)" and "RemoveReferenceForHandle x h r = (st2, r2)"
  with True show ?thesis
    using ref_count_Add [OF True, where x = x] ref_count_Remove [OF True, where x = x] by auto
next
  case False
  assume "AddReferenceForHandle x h r = (st1, r1)" and "RemoveReferenceForHandle x h r = (st2, r2)"
  with False show ?thesis by (simp add: AddReferenceForHandle_def RemoveReferenceForHandle_def)
qed

theorem references_are_counted_witness:
  "let r = snd (NewObjectHandle 3 Registry_Create) in
   fst (AddReferenceForHandle 5 1 r) = OK \<and> fst (RemoveReferenceForHandle 5 1 r) = BadValue"
  using references_are_counted [of 5 1 "snd (NewObjectHandle 3 Registry_Create)"
      "fst (AddReferenceForHandle 5 1 (snd (NewObjectHandle 3 Registry_Create)))"
      "snd (AddReferenceForHandle 5 1 (snd (NewObjectHandle 3 Registry_Create)))"
      "fst (RemoveReferenceForHandle 5 1 (snd (NewObjectHandle 3 Registry_Create)))"
      "snd (RemoveReferenceForHandle 5 1 (snd (NewObjectHandle 3 Registry_Create)))" 5 1]
  by (simp add: NewObjectHandle_def Registry_Create_def IsHandleKnown_def um_insert_def um_find_def
      ref_count_def)

end
