(* ===== verification/Server_Session.thy ===== *)
theory Server_Session
  imports Registry Transaction_Data
begin

text \<open>
  \<^verbatim>\<open>src/src/binderd/server_session.cpp\<close>, \<^verbatim>\<open>sessions.h\<close> and the notifying part of
  \<^verbatim>\<open>registry.cpp\<close>: one session per connected client, the handlers of its messages,
  and the routing of transactions and replies between sessions. A handler runs to
  its end before the next one starts (\<^verbatim>\<open>binderd server\<close> runs its event loop in one
  thread).
\<close>

section \<open>State\<close>

text \<open>\<^verbatim>\<open>ServerSession::TransactionRecord\<close> and \<^verbatim>\<open>ServerSession::BinderObject\<close>\<close>

record transaction_record =
  tr_caller :: sid
  tr_reply_cookie :: u64
  tr_message :: message

record binder_object =
  bo_ptr :: u64
  bo_cookie :: u64

text \<open>\<open>outbox\<close> lists the buffers handed to \<^verbatim>\<open>messenger_->WriteData\<close>; \<open>reading\<close> says
  that a call of \<^verbatim>\<open>ReadMessageAsync\<close> is waiting for the next frame; \<open>closed\<close> that
  \<^verbatim>\<open>messenger_->Close\<close> was called.\<close>

record session =
  session_id :: u32
  next_transaction_cookie :: u64
  pending_transactions :: "(u64, transaction_record) um"
  objects :: "(u64, binder_object) um"
  death_notifications :: "(u64, u64) um"
  outbox :: "byte list list"
  reading :: bool
  closed :: bool

text \<open>The server: the shared registry, the session objects (\<open>next_sid\<close> names the next
  one to be created), the table \<^verbatim>\<open>Sessions\<close> of the connected ones and the counter of
  session ids.\<close>

record server =
  alloc :: allocator
  reg :: registry
  sess :: "sid \<Rightarrow> session option"
  next_sid :: sid
  table :: "(u32, sid) um"
  next_session_id :: u32

type_synonym 'a srv = "(server, 'a) comp"

definition get_session :: "sid \<Rightarrow> session srv" where
  "get_session x = (\<lambda>s. case sess s x of None \<Rightarrow> (Inl MemFault, s) | Some y \<Rightarrow> (Inr y, s))"

definition upd_sess :: "sid \<Rightarrow> (session \<Rightarrow> session) \<Rightarrow> server \<Rightarrow> server" where
  "upd_sess x f s = s\<lparr>sess := (sess s)(x := map_option f (sess s x))\<rparr>"

definition upd_session :: "sid \<Rightarrow> (session \<Rightarrow> session) \<Rightarrow> unit srv" where
  "upd_session x f = modS (upd_sess x f)"

definition upd_registry :: "(registry \<Rightarrow> 'a \<times> registry) \<Rightarrow> 'a srv" where
  "upd_registry f = (\<lambda>s. let (v, r) = f (reg s) in (Inr v, s\<lparr>reg := r\<rparr>))"

definition messenger_WriteData :: "sid \<Rightarrow> byte list \<Rightarrow> unit srv" where
  "messenger_WriteData x b = upd_session x (\<lambda>y. y\<lparr>outbox := outbox y @ [b]\<rparr>)"

section \<open>Sending\<close>

definition SendMessage :: "sid \<Rightarrow> message \<Rightarrow> unit srv" where
  "SendMessage x msg =
     bindS (getS alloc) (\<lambda>a.
     bindS (liftS (Pack a msg)) (\<lambda>b.
     messenger_WriteData x (bdata b)))"

definition logged_message :: "allocator \<Rightarrow> message \<Rightarrow> message res" where
  "logged_message a msg =
     bindR (Pack a msg) (\<lambda>b.
     Message_write (WriteSizedData a (bdata b)) (Message_Create TLogEntry))"

definition ForwardToMonitor :: "message \<Rightarrow> unit srv" where
  "ForwardToMonitor msg =
     bindS (getS (\<lambda>s. monitor (reg s))) (\<lambda>m.
     case m of
       None \<Rightarrow> retS ()
     | Some y \<Rightarrow>
         bindS (getS alloc) (\<lambda>a.
         bindS (liftS (logged_message a msg)) (\<lambda>logged.
         SendMessage y logged)))"

definition WriteMessage :: "sid \<Rightarrow> message \<Rightarrow> unit srv" where
  "WriteMessage x msg = seqS (SendMessage x msg) (ForwardToMonitor msg)"

definition status_message :: "allocator \<Rightarrow> u64 \<Rightarrow> status \<Rightarrow> message res" where
  "status_message a cookie st =
     Message_write (WriteInt32 a (status_code st)) (SetCookie cookie (Message_Create TStatus))"

definition SendStatus :: "sid \<Rightarrow> message \<Rightarrow> status \<Rightarrow> unit srv" where
  "SendStatus x msg st =
     bindS (getS alloc) (\<lambda>a.
     bindS (liftS (status_message a (mcookie msg) st)) (\<lambda>reply.
     WriteMessage x reply))"

section \<open>Translating the objects of a transaction\<close>

text \<open>One pass of the loop body for the object at place \<open>p\<close> of the block.\<close>

definition TranslateObject :: "sid \<Rightarrow> nat \<Rightarrow> transaction_data \<Rightarrow> (status \<times> transaction_data) srv" where
  "TranslateObject x p tr =
     bindS (liftS (flat_type p (td_block tr))) (\<lambda>t.
     if t = BINDER_TYPE_BINDER then
       bindS (upd_registry (NewObjectHandle x)) (\<lambda>handle.
       bindS (liftS (flat_ptr p (td_block tr))) (\<lambda>ptr.
       bindS (liftS (flat_cookie p (td_block tr))) (\<lambda>cookie.
       seqS (upd_session x (\<lambda>y. y\<lparr>objects :=
               um_insert handle \<lparr>bo_ptr = ptr, bo_cookie = cookie\<rparr> (objects y)\<rparr>))
      (bindS (liftS (flat_rewrite p BINDER_TYPE_HANDLE 0 0 (ucast handle) (td_block tr))) (\<lambda>b.
       retS (OK, tr\<lparr>td_block := b\<rparr>))))))
     else if t = BINDER_TYPE_HANDLE then
       bindS (liftS (flat_handle p (td_block tr))) (\<lambda>h.
       bindS (get_session x) (\<lambda>y.
       case um_find (ucast h) (objects y) of
         None \<Rightarrow> retS (OK, tr)
       | Some ob \<Rightarrow>
           bindS (liftS (flat_rewrite p BINDER_TYPE_WEAK_BINDER (bo_ptr ob) (bo_cookie ob) 0
                    (td_block tr))) (\<lambda>b.
           retS (OK, tr\<lparr>td_block := b\<rparr>))))
     else if t = BINDER_TYPE_WEAK_BINDER \<or> t = BINDER_TYPE_WEAK_HANDLE then retS (OK, tr)
     else if t = BINDER_TYPE_FD then retS (OK, tr)
     else retS (InvalidOperation, tr))"

text \<open>\<open>TranslateLoop x n i\<close>: \<open>n\<close> offsets are left, \<open>current\<close> is at offset \<open>i\<close>.\<close>

primrec TranslateLoop :: "sid \<Rightarrow> nat \<Rightarrow> nat \<Rightarrow> transaction_data \<Rightarrow> (status \<times> transaction_data) srv" where
  "TranslateLoop x 0 i tr = retS (OK, tr)"
| "TranslateLoop x (Suc n) i tr =
     bindS (liftS (object_offset tr i)) (\<lambda>offset.
     if \<not> td_writable tr then throwS MemFault
     else bindS (TranslateObject x (td_base tr + offset) tr) (\<lambda>(st, tr).
       if st \<noteq> OK then retS (st, tr) else TranslateLoop x n (Suc i) tr))"

definition TranslateObjects :: "sid \<Rightarrow> transaction_data \<Rightarrow> (status \<times> transaction_data) srv" where
  "TranslateObjects x tr =
     (if td_count tr = 0 then retS (OK, tr) else TranslateLoop x (td_count tr) 0 tr)"

section \<open>Transactions and replies\<close>

text \<open>The data of a transaction that was read from a message is that message's buffer:
  what a translation writes is seen by everyone who holds the message.\<close>

definition with_block :: "message \<Rightarrow> transaction_data \<Rightarrow> message" where
  "with_block msg tr = msg\<lparr>mdata := (mdata msg)\<lparr>bdata := td_block tr\<rparr>\<rparr>"

definition PostTransaction :: "sid \<Rightarrow> transaction_record \<Rightarrow> status srv" where
  "PostTransaction x rec =
     bindS (get_session x) (\<lambda>y.
     let tr_cookie = next_transaction_cookie y; old_msg = tr_message rec;
         new_msg = SetDestination (mdestination old_msg)
                     (SetCookie tr_cookie (Message_Create TTransaction)) in
     seqS (upd_session x (\<lambda>y. y\<lparr>next_transaction_cookie := tr_cookie + 1\<rparr>))
    (case (case um_find (mdestination old_msg) (objects y) of
             Some ob \<Rightarrow> Some (bo_ptr ob, bo_cookie ob)
           | None \<Rightarrow> if mdestination old_msg = 0 then Some (0, 0) else None) of
       None \<Rightarrow> retS InvalidOperation
     | Some (p, c) \<Rightarrow>
         bindS (liftS (TransactionDataFromMessage old_msg)) (\<lambda>old_tr.
         bindS (TranslateObjects x (Writable_over p c (td_code old_tr) old_tr)) (\<lambda>(st, new_tr).
         if st \<noteq> OK then retS st
         else
           bindS (getS alloc) (\<lambda>a.
           bindS (liftS (bindR (TransactionData_Pack a new_tr) (\<lambda>b.
                         Message_write (WriteData a (bdata b)) new_msg))) (\<lambda>new_msg.
           seqS (upd_session x (\<lambda>y. y\<lparr>pending_transactions :=
                   um_insert tr_cookie (rec\<lparr>tr_message := with_block old_msg new_tr\<rparr>)
                     (pending_transactions y)\<rparr>))
          (seqS (WriteMessage x new_msg)
           (retS OK))))))))"

definition OnTransaction :: "sid \<Rightarrow> message \<Rightarrow> unit srv" where
  "OnTransaction x msg =
     tryS
       (bindS (liftS (TransactionDataFromMessage msg)) (\<lambda>data.
        bindS (TranslateObjects x data) (\<lambda>(_, data).
        let msg = with_block msg data in
        bindS (getS (\<lambda>s. FindSessionByHandle (mdestination msg) (reg s))) (\<lambda>target.
        case target of
          None \<Rightarrow> SendStatus x msg NameNotFound
        | Some t \<Rightarrow>
            bindS (PostTransaction t
                     \<lparr>tr_caller = x, tr_reply_cookie = mcookie msg, tr_message = msg\<rparr>) (\<lambda>st.
            SendStatus x msg st)))))
       (\<lambda>e. case e of
          OutOfRange \<Rightarrow> Some (SendStatus x msg BadValue)
        | RuntimeError \<Rightarrow> Some (SendStatus x msg UnknownError)
        | _ \<Rightarrow> None)"

definition OnReply :: "sid \<Rightarrow> message \<Rightarrow> unit srv" where
  "OnReply x msg =
     bindS (get_session x) (\<lambda>y.
     case um_find (mcookie msg) (pending_transactions y) of
       None \<Rightarrow> retS ()
     | Some rec \<Rightarrow>
         seqS (upd_session x (\<lambda>y. y\<lparr>pending_transactions :=
                 um_erase (mcookie msg) (pending_transactions y)\<rparr>))
        (WriteMessage (tr_caller rec) (SetCookie (tr_reply_cookie rec) msg)))"

section \<open>The other handlers\<close>

definition OnSetContextManager :: "sid \<Rightarrow> message \<Rightarrow> unit srv" where
  "OnSetContextManager x msg =
     seqS (ForwardToMonitor msg)
    (bindS (getS (\<lambda>s. context_mgr (reg s))) (\<lambda>m.
     if m = None
     then seqS (upd_registry (\<lambda>r. ((), SetContextManager (Some x) r))) (SendStatus x msg OK)
     else SendStatus x msg AlreadyExists))"

definition OnSetMonitor :: "sid \<Rightarrow> message \<Rightarrow> unit srv" where
  "OnSetMonitor x msg =
     bindS (getS (\<lambda>s. monitor (reg s))) (\<lambda>m.
     if m = None
     then seqS (upd_registry (\<lambda>r. ((), SetMonitor (Some x) r))) (SendStatus x msg OK)
     else SendStatus x msg AlreadyExists)"

definition OnReference :: "sid \<Rightarrow> message \<Rightarrow> unit srv" where
  "OnReference x msg =
     bindS (liftS (ReadUint64 (Message_GetReader msg))) (\<lambda>(handle, _).
     bindS (case mtype msg of
              TAcquire \<Rightarrow> upd_registry (AddReferenceForHandle x handle)
            | TRelease \<Rightarrow> upd_registry (RemoveReferenceForHandle x handle)
            | _ \<Rightarrow> retS DeadObject) (\<lambda>st.
     SendStatus x msg st))"

definition OnDeathNotification :: "sid \<Rightarrow> message \<Rightarrow> unit srv" where
  "OnDeathNotification x msg =
     bindS (liftS (ReadUint64 (Message_GetReader msg))) (\<lambda>(handle, reader).
     bindS (liftS (ReadUint64 reader)) (\<lambda>(object_id, _).
     bindS (get_session x) (\<lambda>y.
     bindS (case mtype msg of
              TRequestDeathNotification \<Rightarrow>
                if um_find handle (death_notifications y) \<noteq> None then retS AlreadyExists
                else seqS (upd_session x (\<lambda>y. y\<lparr>death_notifications :=
                             um_insert handle object_id (death_notifications y)\<rparr>)) (retS OK)
            | TClearDeathNotification \<Rightarrow>
                if um_find handle (death_notifications y) = None then retS BadValue
                else seqS (upd_session x (\<lambda>y. y\<lparr>death_notifications :=
                             um_erase handle (death_notifications y)\<rparr>)) (retS OK)
            | _ \<Rightarrow> retS InvalidOperation) (\<lambda>st.
     SendStatus x msg st))))"

definition ProcessMessage :: "sid \<Rightarrow> message \<Rightarrow> unit srv" where
  "ProcessMessage x msg =
     (case mtype msg of
        TSetContextMgr \<Rightarrow> OnSetContextManager x msg
      | TSetMonitor \<Rightarrow> OnSetMonitor x msg
      | TTransaction \<Rightarrow> OnTransaction x msg
      | TStatus \<Rightarrow> OnReply x msg
      | TTransactionReply \<Rightarrow> OnReply x msg
      | TAcquire \<Rightarrow> OnReference x msg
      | TRelease \<Rightarrow> OnReference x msg
      | TRequestDeathNotification \<Rightarrow> OnDeathNotification x msg
      | TClearDeathNotification \<Rightarrow> OnDeathNotification x msg
      | _ \<Rightarrow> SendStatus x msg InvalidOperation)"

section \<open>Death of objects, end of a session\<close>

definition dead_message :: "allocator \<Rightarrow> u64 \<Rightarrow> u64 \<Rightarrow> message res" where
  "dead_message a handle object_id =
     Message_write (\<lambda>w. bindR (WriteUint64 a handle w) (WriteUint64 a object_id))
       (Message_Create TDeadBinder)"

definition SendDeathNotification :: "u64 \<Rightarrow> sid \<Rightarrow> unit srv" where
  "SendDeathNotification handle x =
     bindS (get_session x) (\<lambda>y.
     case um_find handle (death_notifications y) of
       None \<Rightarrow> retS ()
     | Some object_id \<Rightarrow>
         bindS (getS alloc) (\<lambda>a.
         bindS (liftS (dead_message a handle object_id)) (\<lambda>msg.
         WriteMessage x msg)))"

definition RemoveHandle :: "u64 \<Rightarrow> unit srv" where
  "RemoveHandle handle =
     bindS (getS reg) (\<lambda>r.
     if um_find handle (handles r) = None then retS ()
     else
       seqS (case um_find handle (references r) of
               None \<Rightarrow> retS ()
             | Some l \<Rightarrow> seqS (forS l (SendDeathNotification handle))
                              (upd_registry (\<lambda>r. ((), forget_references handle r))))
      (upd_registry (\<lambda>r. ((), forget_handle handle r))))"

text \<open>\<^verbatim>\<open>sessions.h\<close>: the table of the open sessions.\<close>

definition Sessions_Add :: "u32 \<Rightarrow> sid \<Rightarrow> (u32, sid) um \<Rightarrow> (u32, sid) um" where
  [simp]: "Sessions_Add i x sessions = um_insert i x sessions"

definition Sessions_Remove :: "u32 \<Rightarrow> (u32, sid) um \<Rightarrow> (u32, sid) um" where
  [simp]: "Sessions_Remove i sessions = um_erase i sessions"

definition Sessions_Clear :: "(u32, sid) um \<Rightarrow> (u32, sid) um" where
  "Sessions_Clear sessions = []"

definition Sessions_GetSize :: "(u32, sid) um \<Rightarrow> nat" where
  "Sessions_GetSize sessions = length sessions"

definition Terminate :: "sid \<Rightarrow> unit srv" where
  "Terminate x =
     bindS (get_session x) (\<lambda>y.
     seqS (forS (map fst (objects y)) RemoveHandle)
    (seqS (upd_registry (\<lambda>r. ((), if context_mgr r = Some x then SetContextManager None r else r)))
    (seqS (upd_registry (\<lambda>r. ((), if monitor r = Some x then SetMonitor None r else r)))
    (seqS (upd_session x (\<lambda>y. y\<lparr>closed := True\<rparr>))
     (modS (\<lambda>s. s\<lparr>table := Sessions_Remove (session_id y) (table s)\<rparr>))))))"

section \<open>Reading\<close>

definition ReadNextMessage :: "sid \<Rightarrow> unit srv" where
  "ReadNextMessage x = upd_session x (\<lambda>y. y\<lparr>reading := True\<rparr>)"

text \<open>The loop over the parser in the read handler.\<close>

function process_messages :: "sid \<Rightarrow> parser \<Rightarrow> unit srv" where
  "process_messages x p =
     (case Parser_Next p of
        Inl e \<Rightarrow> throwS e
      | Inr (None, _) \<Rightarrow> retS ()
      | Inr (Some msg, p') \<Rightarrow> seqS (ProcessMessage x msg) (process_messages x p'))"
  by pat_completeness auto
termination
proof (relation "measure (\<lambda>(x, p). bytes_available p - consumed p)")
  fix p :: parser and x :: sid and r n p' m
  assume "Parser_Next p = Inr r" and "(n, p') = r" and "n = Some m"
  then have "Parser_Next p = Inr (Some m, p')" by simp
  note Parser_Next_consumes [OF this]
  then show "((x, p'), (x, p)) \<in> measure (\<lambda>(x, p). bytes_available p - consumed p)" by simp
qed simp

declare process_messages.simps [simp del]

text \<open>\<open>OnRead x None\<close> is the handler called with an error, \<open>OnRead x (Some b)\<close> with a
  frame. An exception that leaves it is logged by \<^verbatim>\<open>ServerImpl::Run\<close>, which goes on
  with the next event.\<close>

definition OnRead :: "sid \<Rightarrow> buffer option \<Rightarrow> unit srv" where
  "OnRead x frame =
     seqS (upd_session x (\<lambda>y. y\<lparr>reading := False\<rparr>))
    (case frame of
       None \<Rightarrow> Terminate x
     | Some b \<Rightarrow> seqS (process_messages x (MessageParser b (buffer_GetSize b))) (ReadNextMessage x))"

section \<open>The server\<close>

definition new_session :: "u32 \<Rightarrow> session" where
  "new_session i =
     \<lparr>session_id = i, next_transaction_cookie = 0, pending_transactions = [], objects = [],
      death_notifications = [], outbox = [], reading = False, closed = False\<rparr>"

text \<open>\<^verbatim>\<open>ServerImpl::StartAccept\<close>: create a session, add it to the table, start reading.\<close>

definition Accept :: "server \<Rightarrow> server" where
  "Accept s =
     (let x = next_sid s; i = next_session_id s in
      upd_sess x (\<lambda>y. y\<lparr>reading := True\<rparr>)
        (s\<lparr>sess := (sess s)(x := Some (new_session i)), next_sid := x + 1,
           next_session_id := i + 1, table := Sessions_Add i x (table s)\<rparr>))"

definition Server_Create :: "allocator \<Rightarrow> server" where
  "Server_Create a =
     \<lparr>alloc = a, reg = Registry_Create, sess = Map.empty, next_sid = 0, table = [],
      next_session_id = 0\<rparr>"

text \<open>The steps of the server: a connection is accepted, or the read handler of a session
  that waits for a frame runs. Where it touches memory it may not, the process is
  gone and there is no next state.\<close>

inductive server_step :: "server \<Rightarrow> server \<Rightarrow> bool" where
  accept: "server_step s (Accept s)"
| receive: "sess s x = Some y \<Longrightarrow> reading y \<Longrightarrow> OnRead x frame s = (r, s') \<Longrightarrow> r \<noteq> Inl MemFault
            \<Longrightarrow> server_step s s'"

inductive server_reachable :: "allocator \<Rightarrow> server \<Rightarrow> bool" for a where
  init: "server_reachable a (Server_Create a)"
| step: "server_reachable a s \<Longrightarrow> server_step s s' \<Longrightarrow> server_reachable a s'"

end
