(* ===== verification/Server_Invariant.thy ===== *)
theory Server_Invariant
  imports Server_Session
begin

text \<open>
  The invariant of the server's state: the registry and the object maps of the
  sessions agree, and every session that is referred to exists. Every handler
  keeps it, so it holds in every reachable state.
\<close>

definition server_ok :: "server \<Rightarrow> bool" where
  "server_ok s \<longleftrightarrow>
     registry_ok (reg s) \<and>
     (\<forall>x. sess s x \<noteq> None \<longleftrightarrow> x < next_sid s) \<and>
     (\<forall>h x. um_find h (handles (reg s)) = Some x \<longrightarrow>
        (\<exists>y. sess s x = Some y \<and> um_find h (objects y) \<noteq> None)) \<and>
     (\<forall>x. context_mgr (reg s) = Some x \<longrightarrow> x < next_sid s) \<and>
     (\<forall>x. monitor (reg s) = Some x \<longrightarrow> x < next_sid s) \<and>
     (\<forall>h l x. um_find h (references (reg s)) = Some l \<longrightarrow> x \<in> set l \<longrightarrow> x < next_sid s) \<and>
     (\<forall>x y c tr. sess s x = Some y \<longrightarrow> um_find c (pending_transactions y) = Some tr \<longrightarrow>
        tr_caller tr < next_sid s)"

definition ok_for :: "sid set \<Rightarrow> server \<Rightarrow> bool" where
  "ok_for X s \<longleftrightarrow> server_ok s \<and> (\<forall>x\<in>X. x < next_sid s)"

lemma server_ok_Create: "server_ok (Server_Create a)"
  by (simp add: server_ok_def Server_Create_def registry_ok_Create)
    (simp add: Registry_Create_def)

text \<open>The parts of the invariant, as rules.\<close>

lemma server_ok_handle:
  assumes "server_ok s" and "um_find h (handles (reg s)) = Some x"
  obtains y where "sess s x = Some y" and "um_find h (objects y) \<noteq> None"
  using assms unfolding server_ok_def by blast

lemma server_ok_exists: "server_ok s \<Longrightarrow> sess s x \<noteq> None \<longleftrightarrow> x < next_sid s"
  by (simp add: server_ok_def)

lemma server_ok_caller:
  "server_ok s \<Longrightarrow> sess s x = Some y \<Longrightarrow> um_find c (pending_transactions y) = Some tr \<Longrightarrow>
     tr_caller tr < next_sid s"
  unfolding server_ok_def by blast

section \<open>Updates that keep the invariant\<close>

lemma upd_sess_simps [simp]:
  "reg (upd_sess x f s) = reg s" "next_sid (upd_sess x f s) = next_sid s"
  "alloc (upd_sess x f s) = alloc s" "table (upd_sess x f s) = table s"
  "next_session_id (upd_sess x f s) = next_session_id s"
  "sess (upd_sess x f s) z = (if z = x then map_option f (sess s x) else sess s z)"
  by (simp_all add: upd_sess_def)

lemma server_ok_upd_sess:
  assumes "server_ok s"
    and "\<And>y h. sess s x = Some y \<Longrightarrow> um_find h (objects y) \<noteq> None \<Longrightarrow> um_find h (objects (f y)) \<noteq> None"
    and "\<And>y c tr. sess s x = Some y \<Longrightarrow> um_find c (pending_transactions (f y)) = Some tr \<Longrightarrow>
           um_find c (pending_transactions y) = Some tr \<or> tr_caller tr < next_sid s"
  shows "server_ok (upd_sess x f s)"
proof -
  have "\<exists>y'. sess (upd_sess x f s) z = Some y' \<and> um_find h (objects y') \<noteq> None"
    if own: "um_find h (handles (reg s)) = Some z" for h z
  proof -
    obtain y where "sess s z = Some y" "um_find h (objects y) \<noteq> None"
      using assms(1) own unfolding server_ok_def by blast
    then show ?thesis using assms(2) by (cases "z = x") auto
  qed
  moreover have "tr_caller tr < next_sid s"
    if pend: "sess (upd_sess x f s) z = Some y'" "um_find c (pending_transactions y') = Some tr" for z y' c tr
  proof (cases "z = x")
    case True
    with pend obtain y where "sess s x = Some y" "y' = f y" by auto
    with pend(2) assms(1,3) show ?thesis unfolding server_ok_def by blast
  next
    case False
    with pend assms(1) show ?thesis unfolding server_ok_def by auto
  qed
  ultimately show ?thesis
    using assms(1) unfolding server_ok_def by (simp del: not_None_eq)
qed

text \<open>Updates of the fields the invariant does not speak of.\<close>

lemma keeps_upd_session:
  assumes "\<And>y. objects (f y) = objects y" and "\<And>y. pending_transactions (f y) = pending_transactions y"
  shows "keepsS (ok_for X) (upd_session x f)"
  unfolding upd_session_def
  by (rule keepsS_mod) (auto simp: ok_for_def assms intro: server_ok_upd_sess)

lemma get_session_valid:
  "validS (ok_for X) (get_session x) (\<lambda>y s. ok_for (insert x X) s \<and> sess s x = Some y) (ok_for X)"
proof (rule validS_I)
  fix s y s' assume ok: "ok_for X s" and g: "get_session x s = (Inr y, s')"
  then have "s' = s" "sess s x = Some y" by (auto simp: get_session_def split: option.splits)
  moreover from this ok have "x < next_sid s"
    unfolding ok_for_def server_ok_def by (metis option.distinct(1))
  ultimately show "ok_for (insert x X) s' \<and> sess s' x = Some y" using ok by (auto simp: ok_for_def)
next
  fix s e s' assume "get_session x s = (Inl e, s')" and "e \<noteq> MemFault"
  then show "ok_for X s'" by (auto simp: get_session_def split: option.splits)
qed

lemma keeps_get_session: "keepsS (ok_for X) (get_session x)"
  by (rule validS_conseq [OF get_session_valid]) (auto simp: ok_for_def)

lemma ok_for_mono: "ok_for Y s \<Longrightarrow> X \<subseteq> Y \<Longrightarrow> ok_for X s"
  by (auto simp: ok_for_def)

lemma keeps_bind_session:
  assumes "\<And>y. keepsS (ok_for (insert x X)) (f y)"
  shows "keepsS (ok_for X) (bindS (get_session x) f)"
proof (rule validS_bind [where R = "\<lambda>y. ok_for (insert x X)"])
  show "validS (ok_for X) (get_session x) (\<lambda>y. ok_for (insert x X)) (ok_for X)"
    by (rule validS_conseq [OF get_session_valid]) auto
  show "validS (ok_for (insert x X)) (f y) (\<lambda>_. ok_for X) (ok_for X)" for y
    by (rule validS_conseq [OF assms]) (auto intro: ok_for_mono)
qed

lemma keeps_upd_registry:
  assumes "\<And>s. ok_for X s \<Longrightarrow> ok_for X (s\<lparr>reg := snd (f (reg s))\<rparr>)"
  shows "keepsS (ok_for X) (upd_registry f)"
  by (rule validS_I) (use assms in \<open>auto simp: upd_registry_def Let_def split: prod.splits\<close>, (metis snd_conv)+)

lemmas ok_defs = ok_for_def server_ok_def

section \<open>Sending keeps the invariant\<close>

lemma keeps_WriteData: "keepsS (ok_for X) (messenger_WriteData x b)"
  unfolding messenger_WriteData_def by (rule keeps_upd_session) simp_all

lemma keeps_SendMessage: "keepsS (ok_for X) (SendMessage x msg)"
  unfolding SendMessage_def by (intro keepsS_bind keepsS_get keepsS_lift keeps_WriteData)

lemma keeps_ForwardToMonitor: "keepsS (ok_for X) (ForwardToMonitor msg)"
  unfolding ForwardToMonitor_def
  by (intro keepsS_bind keepsS_get) (auto split: option.splits intro!: keepsS_bind keeps_SendMessage)

lemma keeps_WriteMessage: "keepsS (ok_for X) (WriteMessage x msg)"
  unfolding WriteMessage_def by (intro keepsS_seq keeps_SendMessage keeps_ForwardToMonitor)

lemma keeps_SendStatus: "keepsS (ok_for X) (SendStatus x msg st)"
  unfolding SendStatus_def by (intro keepsS_bind keepsS_get keepsS_lift keeps_WriteMessage)

section \<open>Translating keeps the invariant\<close>

text \<open>Giving out a handle and recording its object, taken together.\<close>

lemma server_ok_new_object:
  assumes ok: "server_ok s" and x: "x < next_sid s" and n: "NewObjectHandle x (reg s) = (h, r)"
  shows "server_ok (upd_sess x (\<lambda>y. y\<lparr>objects := um_insert h ob (objects y)\<rparr>) (s\<lparr>reg := r\<rparr>))"
    (is "server_ok ?s")
proof -
  let ?f = "\<lambda>y. y\<lparr>objects := um_insert h ob (objects y)\<rparr>"
  let ?t = "upd_sess x ?f s"
  have t: "server_ok ?t"
    by (rule server_ok_upd_sess [OF ok]) (auto simp: um_find_simps)
  have r: "r = (reg s)\<lparr>next_object_handle := h + 1, handles := um_insert h x (handles (reg s))\<rparr>"
    using n by (auto simp: NewObjectHandle_def Let_def)
  have s: "?s = ?t\<lparr>reg := r\<rparr>" by (simp add: upd_sess_def)
  have "registry_ok r" using registry_ok_New [of "reg s" x] ok n by (simp add: server_ok_def)
  moreover obtain y where y: "sess s x = Some y" using ok x unfolding server_ok_def by blast
  then have "\<exists>y'. sess ?t z = Some y' \<and> um_find k (objects y') \<noteq> None"
    if "um_find k (handles r) = Some z" for k z
  proof (cases "k = h \<and> um_find h (handles (reg s)) = None")
    case True
    with that r have "z = x" by (simp add: um_find_simps)
    then show ?thesis using y True by (auto simp: um_find_simps)
  next
    case False
    with that r have "um_find k (handles (reg s)) = Some z"
      by (auto simp: um_find_simps split: if_splits)
    then show ?thesis using t unfolding server_ok_def by auto
  qed
  ultimately show ?thesis using t r unfolding s server_ok_def by simp
qed

lemma keeps_TranslateObject:
  assumes "x \<in> X"
  shows "keepsS (ok_for X) (TranslateObject x p tr)"
proof -
  have new: "keepsS (ok_for X)
      (bindS (upd_registry (NewObjectHandle x)) (\<lambda>handle.
       bindS (liftS (flat_ptr p (td_block tr))) (\<lambda>ptr.
       bindS (liftS (flat_cookie p (td_block tr))) (\<lambda>cookie.
       seqS (upd_session x (\<lambda>y. y\<lparr>objects :=
               um_insert handle \<lparr>bo_ptr = ptr, bo_cookie = cookie\<rparr> (objects y)\<rparr>)) (k handle)))))"
    if k: "\<And>handle. keepsS (ok_for X) (k handle)" for k :: "u64 \<Rightarrow> ('c) srv"
  proof (rule validS_bind [where R = "\<lambda>h s. \<exists>s0. ok_for X s0 \<and>
      s = s0\<lparr>reg := snd (NewObjectHandle x (reg s0))\<rparr> \<and> h = fst (NewObjectHandle x (reg s0))"])
    show "validS (ok_for X) (upd_registry (NewObjectHandle x)) (\<lambda>h s. \<exists>s0. ok_for X s0 \<and>
        s = s0\<lparr>reg := snd (NewObjectHandle x (reg s0))\<rparr> \<and> h = fst (NewObjectHandle x (reg s0))) (ok_for X)"
      by (rule validS_I) (auto simp: upd_registry_def Let_def split: prod.splits)
  next
    fix h
    let ?R = "\<lambda>s. \<exists>s0. ok_for X s0 \<and> s = s0\<lparr>reg := snd (NewObjectHandle x (reg s0))\<rparr> \<and>
      h = fst (NewObjectHandle x (reg s0))"
    have ld: "validS ?R (liftS (load i n b :: 'd::len word res)) (\<lambda>_. ?R) (ok_for X)" for i n b
      by (rule validS_pre [OF validS_lift]) (auto simp: load_def mem_read_def)
    have up: "validS ?R (upd_session x (\<lambda>y. y\<lparr>objects := um_insert h ob (objects y)\<rparr>)) (\<lambda>_. ok_for X) (ok_for X)"
      for ob
      unfolding upd_session_def
    proof (rule validS_pre [OF validS_mod])
      fix s assume "?R s"
      then obtain s0 r where s0: "ok_for X s0" "NewObjectHandle x (reg s0) = (h, r)" "s = s0\<lparr>reg := r\<rparr>"
        by (metis prod.collapse)
      then show "ok_for X (upd_sess x (\<lambda>y. y\<lparr>objects := um_insert h ob (objects y)\<rparr>) s)"
        using server_ok_new_object assms by (auto simp: ok_for_def)
    qed
    show "validS ?R (bindS (liftS (flat_ptr p (td_block tr))) (\<lambda>ptr.
       bindS (liftS (flat_cookie p (td_block tr))) (\<lambda>cookie.
       seqS (upd_session x (\<lambda>y. y\<lparr>objects :=
               um_insert h \<lparr>bo_ptr = ptr, bo_cookie = cookie\<rparr> (objects y)\<rparr>)) (k h)))) (\<lambda>_. ok_for X) (ok_for X)"
      unfolding flat_defs by (intro validS_bind [OF ld] validS_seq [OF up] k)
  qed
  show ?thesis
    unfolding TranslateObject_def
    by (intro keepsS_bind keepsS_lift)
      (auto split: option.splits intro!: new keepsS_bind keeps_get_session)
qed

lemma keeps_TranslateLoop: "x \<in> X \<Longrightarrow> keepsS (ok_for X) (TranslateLoop x n i tr)"
  by (induction n arbitrary: i tr)
    (auto intro!: keepsS_bind keeps_TranslateObject split: prod.splits)

lemma keeps_TranslateObjects: "x \<in> X \<Longrightarrow> keepsS (ok_for X) (TranslateObjects x tr)"
  by (simp add: TranslateObjects_def keeps_TranslateLoop)

section \<open>The handlers keep the invariant\<close>

lemma keeps_add_pending:
  assumes "tr_caller tr \<in> X"
  shows "keepsS (ok_for X) (upd_session x (\<lambda>y. y\<lparr>pending_transactions :=
           um_insert c tr (pending_transactions y)\<rparr>))"
  unfolding upd_session_def
  by (rule keepsS_mod)
    (use assms in \<open>auto simp: ok_for_def um_find_simps split: if_splits intro!: server_ok_upd_sess\<close>)

lemma keeps_erase_pending:
  "keepsS (ok_for X) (upd_session x (\<lambda>y. y\<lparr>pending_transactions :=
     um_erase c (pending_transactions y)\<rparr>))"
  unfolding upd_session_def
  by (rule keepsS_mod)
    (auto simp: ok_for_def um_find_simps split: if_splits intro!: server_ok_upd_sess)

lemma keeps_PostTransaction:
  assumes "tr_caller tr \<in> X"
  shows "keepsS (ok_for X) (PostTransaction x tr)"
  unfolding PostTransaction_def Let_def
  by (intro keeps_bind_session keepsS_seq keeps_upd_session)
    (use assms in \<open>auto split: option.splits prod.splits intro!: keepsS_bind keepsS_seq
      keeps_TranslateObjects keeps_add_pending keeps_WriteMessage\<close>)

lemma keeps_OnTransaction:
  assumes "x \<in> X"
  shows "keepsS (ok_for X) (OnTransaction x msg)"
  unfolding OnTransaction_def Let_def
  by (rule validS_try)
    (use assms in \<open>auto split: option.splits prod.splits exn.splits
      intro!: keepsS_bind keeps_TranslateObjects keeps_PostTransaction keeps_SendStatus\<close>)

lemma keeps_OnReply: "keepsS (ok_for X) (OnReply x msg)"
  unfolding OnReply_def
  by (intro keepsS_bind keeps_get_session)
    (auto split: option.splits intro!: keepsS_seq keeps_erase_pending keeps_WriteMessage)

lemma keeps_SetContextManager:
  assumes "\<And>y. z = Some y \<Longrightarrow> y \<in> X"
  shows "keepsS (ok_for X) (upd_registry (\<lambda>r. ((), SetContextManager z r)))"
  by (rule keeps_upd_registry) (use assms in \<open>auto simp: ok_defs SetContextManager_def registry_ok_def\<close>)

lemma keeps_SetMonitor:
  assumes "\<And>y. z = Some y \<Longrightarrow> y \<in> X"
  shows "keepsS (ok_for X) (upd_registry (\<lambda>r. ((), SetMonitor z r)))"
  by (rule keeps_upd_registry) (use assms in \<open>auto simp: ok_defs SetMonitor_def registry_ok_def\<close>)

lemma keeps_OnSetContextManager: "x \<in> X \<Longrightarrow> keepsS (ok_for X) (OnSetContextManager x msg)"
  unfolding OnSetContextManager_def
  by (intro keepsS_bind keepsS_seq keepsS_get keeps_ForwardToMonitor)
    (auto intro!: keepsS_seq keeps_SetContextManager keeps_SendStatus)

lemma keeps_OnSetMonitor: "x \<in> X \<Longrightarrow> keepsS (ok_for X) (OnSetMonitor x msg)"
  unfolding OnSetMonitor_def
  by (intro keepsS_bind keepsS_get) (auto intro!: keepsS_seq keeps_SetMonitor keeps_SendStatus)

lemma keeps_AddReference:
  assumes "x \<in> X"
  shows "keepsS (ok_for X) (upd_registry (AddReferenceForHandle x h))"
proof (rule keeps_upd_registry)
  fix s assume s: "ok_for X s"
  then have "registry_ok (snd (AddReferenceForHandle x h (reg s)))"
    by (simp add: ok_defs registry_ok_AddReference)
  with s assms show "ok_for X (s\<lparr>reg := snd (AddReferenceForHandle x h (reg s))\<rparr>)"
    by (auto simp: ok_defs AddReferenceForHandle_def um_find_simps split: option.splits if_splits)
qed

lemma keeps_RemoveReference: "keepsS (ok_for X) (upd_registry (RemoveReferenceForHandle x h))"
proof (rule keeps_upd_registry)
  fix s assume s: "ok_for X s"
  then have "registry_ok (snd (RemoveReferenceForHandle x h (reg s)))"
    by (simp add: ok_defs registry_ok_RemoveReference)
  with s show "ok_for X (s\<lparr>reg := snd (RemoveReferenceForHandle x h (reg s))\<rparr>)"
    by (auto simp: ok_defs RemoveReferenceForHandle_def um_find_simps
        split: option.splits if_splits dest!: in_set_takeD set_remove1_subset [THEN subsetD])
qed

lemma keeps_OnReference: "x \<in> X \<Longrightarrow> keepsS (ok_for X) (OnReference x msg)"
  unfolding OnReference_def
  by (intro keepsS_bind keepsS_lift)
    (auto split: prod.splits msg_type.splits
      intro!: keepsS_bind keeps_AddReference keeps_RemoveReference keeps_SendStatus)

lemma keeps_OnDeathNotification: "keepsS (ok_for X) (OnDeathNotification x msg)"
  unfolding OnDeathNotification_def
  by (intro keepsS_bind keepsS_lift)
    (auto split: prod.splits msg_type.splits
      intro!: keepsS_bind keepsS_seq keeps_get_session keeps_upd_session keeps_SendStatus)

lemma keeps_ProcessMessage: "x \<in> X \<Longrightarrow> keepsS (ok_for X) (ProcessMessage x msg)"
  unfolding ProcessMessage_def
  by (auto split: msg_type.splits
      intro: keeps_OnSetContextManager keeps_OnSetMonitor keeps_OnTransaction keeps_OnReply
        keeps_OnReference keeps_OnDeathNotification keeps_SendStatus)

lemma keeps_process_messages: "x \<in> X \<Longrightarrow> keepsS (ok_for X) (process_messages x p)"
proof (induction x p rule: process_messages.induct)
  case (1 x p)
  then show ?case
    by (subst process_messages.simps)
      (auto split: sum.splits option.splits prod.splits intro!: keepsS_seq keeps_ProcessMessage)
qed

lemma keeps_SendDeathNotification: "keepsS (ok_for X) (SendDeathNotification h x)"
  unfolding SendDeathNotification_def
  by (intro keepsS_bind keeps_get_session)
    (auto split: option.splits intro!: keepsS_bind keeps_WriteMessage)

lemma keeps_forget_references:
  "keepsS (ok_for X) (upd_registry (\<lambda>r. ((), forget_references h r)))"
  by (rule keeps_upd_registry)
    (auto simp: ok_defs registry_ok_def forget_references_def um_find_simps split: if_splits)

text \<open>A handle may be forgotten only after its references.\<close>

lemma forget_handle_valid:
  "validS (\<lambda>s. ok_for X s \<and> um_find h (references (reg s)) = None)
     (upd_registry (\<lambda>r. ((), forget_handle h r))) (\<lambda>_. ok_for X) (ok_for X)"
  by (rule validS_I)
    (auto simp: upd_registry_def ok_defs registry_ok_def forget_handle_def um_find_simps split: if_splits)

text \<open>Notifications leave the registry alone.\<close>

definition same_registry :: "registry \<Rightarrow> server \<Rightarrow> bool" where
  "same_registry r s \<longleftrightarrow> reg s = r"

lemma registry_WriteMessage: "keepsS (same_registry r) (WriteMessage x msg)"
  unfolding WriteMessage_def SendMessage_def ForwardToMonitor_def messenger_WriteData_def upd_session_def
  by (intro keepsS_seq keepsS_bind keepsS_get keepsS_lift keepsS_mod)
    (auto simp: same_registry_def split: option.splits intro!: keepsS_bind keepsS_mod)

lemma registry_SendDeathNotification: "keepsS (same_registry r) (SendDeathNotification h x)"
proof -
  have "keepsS (same_registry r) (get_session x)"
    by (rule validS_I) (auto simp: get_session_def split: option.splits)
  then show ?thesis
    unfolding SendDeathNotification_def
    by (intro keepsS_bind) (auto split: option.splits intro!: keepsS_bind registry_WriteMessage)
qed

lemma keeps_RemoveHandle: "keepsS (ok_for X) (RemoveHandle h)"
  unfolding RemoveHandle_def
proof (rule validS_bind [where R = "\<lambda>r s. ok_for X s \<and> reg s = r"])
  fix r
  let ?R = "\<lambda>s. ok_for X s \<and> um_find h (references (reg s)) = None"
  have "validS (\<lambda>s. ok_for X s \<and> reg s = r)
      (case um_find h (references r) of None \<Rightarrow> retS ()
       | Some l \<Rightarrow> seqS (forS l (SendDeathNotification h)) (upd_registry (\<lambda>r. ((), forget_references h r))))
      (\<lambda>_. ?R) (ok_for X)"
  proof (cases "um_find h (references r)")
    case None
    then show ?thesis by (auto intro: validS_pre [OF validS_ret])
  next
    case (Some l)
    have "validS (ok_for X) (upd_registry (\<lambda>r. ((), forget_references h r))) (\<lambda>_. ?R) (ok_for X)"
      by (rule validS_I)
        (auto simp: upd_registry_def ok_defs registry_ok_def forget_references_def um_find_simps
          split: if_splits)
    moreover have "validS (\<lambda>s. ok_for X s \<and> reg s = r) (forS l (SendDeathNotification h))
        (\<lambda>_. ok_for X) (ok_for X)"
      by (rule validS_pre [OF keepsS_for]) (auto intro: keeps_SendDeathNotification)
    ultimately show ?thesis using Some by (auto intro: validS_seq)
  qed
  then show "validS (\<lambda>s. ok_for X s \<and> reg s = r)
      (if um_find h (handles r) = None then retS ()
       else seqS (case um_find h (references r) of None \<Rightarrow> retS ()
          | Some l \<Rightarrow> seqS (forS l (SendDeathNotification h)) (upd_registry (\<lambda>r. ((), forget_references h r))))
         (upd_registry (\<lambda>r. ((), forget_handle h r)))) (\<lambda>_. ok_for X) (ok_for X)"
    by (auto intro: validS_seq forget_handle_valid validS_pre [OF keepsS_ret])
qed (simp add: validS_def getS_def)

lemma keeps_Terminate: "keepsS (ok_for X) (Terminate x)"
  unfolding Terminate_def
  by (intro keepsS_bind keeps_get_session keepsS_seq keepsS_for keeps_RemoveHandle
      keeps_upd_registry keeps_upd_session keepsS_mod)
    (auto simp: ok_defs registry_ok_def SetContextManager_def SetMonitor_def)

lemma keeps_OnRead: "x \<in> X \<Longrightarrow> keepsS (ok_for X) (OnRead x frame)"
  unfolding OnRead_def ReadNextMessage_def
  by (intro keepsS_seq keeps_upd_session)
    (auto split: option.splits
      intro!: keepsS_seq keeps_upd_session keeps_Terminate keeps_process_messages)

section \<open>Reachable states\<close>

lemma server_ok_Accept: "server_ok s \<Longrightarrow> server_ok (Accept s)"
proof -
  assume ok: "server_ok s"
  let ?t = "s\<lparr>sess := (sess s)(next_sid s := Some (new_session (next_session_id s))),
      next_sid := next_sid s + 1, next_session_id := next_session_id s + 1,
      table := um_insert (next_session_id s) (next_sid s) (table s)\<rparr>"
  have none: "sess s (next_sid s) = None"
    using ok unfolding server_ok_def by (metis less_irrefl)
  have "server_ok ?t"
    unfolding server_ok_def
  proof (intro conjI allI impI)
    fix h x assume "um_find h (handles (reg ?t)) = Some x"
    then have "um_find h (handles (reg s)) = Some x" by simp
    with ok obtain y where "sess s x = Some y" "um_find h (objects y) \<noteq> None"
      by (rule server_ok_handle)
    then show "\<exists>y. sess ?t x = Some y \<and> um_find h (objects y) \<noteq> None"
      using none by (intro exI [of _ y]) auto
  next
    fix x y c tr assume "sess ?t x = Some y" "um_find c (pending_transactions y) = Some tr"
    then show "tr_caller tr < next_sid ?t"
      using ok unfolding server_ok_def
      by (cases "x = next_sid s") (auto simp: new_session_def intro: less_SucI)
  next
    fix x show "(sess ?t x \<noteq> None) = (x < next_sid ?t)"
      using ok unfolding server_ok_def by (auto simp: less_Suc_eq)
  qed (use ok in \<open>auto simp: server_ok_def intro: less_SucI\<close>)
  then have "server_ok (upd_sess (next_sid s) (\<lambda>y. y\<lparr>reading := True\<rparr>) ?t)"
    by (rule server_ok_upd_sess) auto
  then show ?thesis by (simp add: Accept_def Let_def)
qed

inductive_cases server_stepE: "server_step s s'"

lemma server_ok_step: "server_step s s' \<Longrightarrow> server_ok s \<Longrightarrow> server_ok s'"
proof (induction rule: server_step.induct)
  case (accept s)
  then show ?case by (rule server_ok_Accept)
next
  case (receive s x y frame r s')
  have "x < next_sid s" using receive unfolding server_ok_def by (metis option.distinct(1))
  then have "ok_for {x} s" using receive by (simp add: ok_for_def)
  with receive have "ok_for {x} s'"
    using keepsS_D [OF keeps_OnRead [of x "{x}" frame], of s r s'] by simp
  then show ?case by (simp add: ok_for_def)
qed

lemma server_ok_reachable: "server_reachable a s \<Longrightarrow> server_ok s"
  by (induction rule: server_reachable.induct) (auto intro: server_ok_Create server_ok_step)

end
