(* ===== verification/Server_Behaviour.thy ===== *)
theory Server_Behaviour
  imports Server_Invariant
begin

text \<open>
  What the handlers of \<^verbatim>\<open>server_session.cpp\<close> do, message by message, when memory
  is granted: which bytes reach which session, and how the server's tables change.
\<close>

section \<open>What is sent\<close>

definition put :: "sid \<Rightarrow> message \<Rightarrow> server \<Rightarrow> server" where
  "put x msg = upd_sess x (\<lambda>y. y\<lparr>outbox := outbox y @ [packed msg]\<rparr>)"

definition log_entry :: "message \<Rightarrow> message" where
  "log_entry msg =
     fresh_message TLogEntry 0 0
       (le_bytes 4 (of_nat (length (packed msg)) :: u32) @ padded_bytes True (packed msg))"

text \<open>A message goes to its session, and a copy of it to the monitor.\<close>

definition deliver :: "sid \<Rightarrow> message \<Rightarrow> server \<Rightarrow> server" where
  "deliver x msg s =
     (case monitor (reg s) of
        None \<Rightarrow> put x msg s
      | Some m \<Rightarrow> put m (log_entry msg) (put x msg s))"

lemma put_simps [simp]:
  "reg (put x msg s) = reg s" "alloc (put x msg s) = alloc s" "next_sid (put x msg s) = next_sid s"
  "table (put x msg s) = table s"
  by (simp_all add: put_def)

lemma deliver_simps [simp]:
  "reg (deliver x msg s) = reg s" "alloc (deliver x msg s) = alloc s"
  "next_sid (deliver x msg s) = next_sid s" "table (deliver x msg s) = table s"
  by (simp_all add: deliver_def split: option.splits)

lemma SendMessage_run:
  assumes "total_alloc (alloc s)" and "length (bdata (mdata msg)) \<le> 2147483647"
  shows "SendMessage x msg s = (Inr (), put x msg s)"
  using assms Pack_eq [of "alloc s" msg]
  by (simp add: SendMessage_def messenger_WriteData_def upd_session_def put_def run_simps)

lemma logged_message_run:
  "total_alloc a \<Longrightarrow> fits msg \<Longrightarrow> logged_message a msg = Inr (log_entry msg)"
  using fits_packed [of msg] Pack_eq [of a msg]
  by (simp add: logged_message_def log_entry_def Message_Create_fresh Message_write_run fits_def)

lemma log_entry_length: "fits msg \<Longrightarrow> length (bdata (mdata (log_entry msg))) \<le> 2147483647"
  using fits_packed [of msg] padded_len_bounds(2) [of "length (packed msg)"]
  by (simp add: log_entry_def)

lemma ForwardToMonitor_run:
  assumes "total_alloc (alloc s)" and "fits msg"
  shows "ForwardToMonitor msg s =
    (Inr (), case monitor (reg s) of None \<Rightarrow> s | Some m \<Rightarrow> put m (log_entry msg) s)"
  using assms log_entry_length [of msg] logged_message_run [of "alloc s" msg]
  by (cases "monitor (reg s)") (simp_all add: ForwardToMonitor_def SendMessage_run run_simps)

lemma WriteMessage_run [run_simps]:
  assumes "total_alloc (alloc s)" and "fits msg"
  shows "WriteMessage x msg s = (Inr (), deliver x msg s)"
  using assms
  by (auto simp: WriteMessage_def deliver_def SendMessage_run ForwardToMonitor_run fits_def run_simps
      split: option.splits)

lemma SendStatus_run [run_simps]:
  assumes "total_alloc (alloc s)"
  shows "SendStatus x msg st s = (Inr (), deliver x (status_reply (mcookie msg) st) s)"
proof -
  have "status_message (alloc s) (mcookie msg) st = Inr (status_reply (mcookie msg) st)"
    using assms Message_write_run(3) [of "alloc s" "[]"]
    by (simp add: status_message_def status_reply_def Message_Create_fresh)
  moreover have "fits (status_reply (mcookie msg) st)"
    by (simp add: fits_def status_reply_def)
  ultimately show ?thesis using assms by (simp add: SendStatus_def run_simps)
qed

lemma get_session_run [run_simps]: "sess s x = Some y \<Longrightarrow> get_session x s = (Inr y, s)"
  by (simp add: get_session_def)

lemma upd_session_run [run_simps]: "upd_session x f s = (Inr (), upd_sess x f s)"
  by (simp add: upd_session_def modS_def)

lemma upd_registry_run [run_simps]: "upd_registry f s = (Inr (fst (f (reg s))), s\<lparr>reg := snd (f (reg s))\<rparr>)"
  by (simp add: upd_registry_def Let_def split_beta)

text \<open>Deliveries change nothing but the outboxes.\<close>

definition only_sends :: "server \<Rightarrow> server \<Rightarrow> bool" where
  "only_sends s s' \<longleftrightarrow>
     (\<exists>f. s' = s\<lparr>sess := \<lambda>x. map_option (\<lambda>y. y\<lparr>outbox := outbox y @ f x\<rparr>) (sess s x)\<rparr>)"

lemma only_sends_refl [simp]: "only_sends s s"
proof -
  have "s = s\<lparr>sess := \<lambda>x. map_option (\<lambda>y. y\<lparr>outbox := outbox y @ []\<rparr>) (sess s x)\<rparr>"
    by (simp add: option.map_ident)
  then show ?thesis unfolding only_sends_def by (rule exI [of _ "\<lambda>_. []"])
qed

lemma only_sends_trans [trans]: "only_sends s t \<Longrightarrow> only_sends t u \<Longrightarrow> only_sends s u"
proof -
  assume "only_sends s t" and "only_sends t u"
  then obtain f g where
    t: "t = s\<lparr>sess := \<lambda>x. map_option (\<lambda>y. y\<lparr>outbox := outbox y @ f x\<rparr>) (sess s x)\<rparr>" and
    u: "u = t\<lparr>sess := \<lambda>x. map_option (\<lambda>y. y\<lparr>outbox := outbox y @ g x\<rparr>) (sess t x)\<rparr>"
    unfolding only_sends_def by blast
  have "u = s\<lparr>sess := \<lambda>x. map_option (\<lambda>y. y\<lparr>outbox := outbox y @ (f x @ g x)\<rparr>) (sess s x)\<rparr>"
    unfolding u by (simp add: t option.map_comp comp_def)
  then show ?thesis unfolding only_sends_def by (rule exI [of _ "\<lambda>x. f x @ g x"])
qed

lemma only_sends_append: "only_sends s (upd_sess x (\<lambda>y. y\<lparr>outbox := outbox y @ bs\<rparr>) s)"
proof -
  have "upd_sess x (\<lambda>y. y\<lparr>outbox := outbox y @ bs\<rparr>) s = s\<lparr>sess := \<lambda>z. map_option
      (\<lambda>y. y\<lparr>outbox := outbox y @ (if z = x then bs else [])\<rparr>) (sess s z)\<rparr>"
    unfolding upd_sess_def
    by (auto simp: fun_upd_def option.map_ident intro!: arg_cong [where f = "\<lambda>f. s\<lparr>sess := f\<rparr>"])
  then show ?thesis unfolding only_sends_def by (rule exI [of _ "\<lambda>z. if z = x then bs else []"])
qed

lemma only_sends_put: "only_sends s (put x msg s)"
  unfolding put_def by (rule only_sends_append)

lemma only_sends_deliver: "only_sends s (deliver x msg s)"
  unfolding deliver_def by (auto split: option.splits intro: only_sends_put only_sends_trans)

lemma only_sendsD:
  assumes "only_sends s s'"
  shows "reg s' = reg s" "alloc s' = alloc s" "next_sid s' = next_sid s" "table s' = table s"
    and "sess s x = None \<longleftrightarrow> sess s' x = None"
    and "sess s x = Some y \<Longrightarrow> \<exists>bs. sess s' x = Some (y\<lparr>outbox := outbox y @ bs\<rparr>)"
  using assms by (auto simp: only_sends_def)

section \<open>Replies\<close>

lemma OnReply_run:
  assumes "total_alloc (alloc s)" and "fits msg" and "sess s x = Some y"
    and "um_find (mcookie msg) (pending_transactions y) = Some tr"
  shows "OnReply x msg s =
    (Inr (), deliver (tr_caller tr) (SetCookie (tr_reply_cookie tr) msg)
       (upd_sess x (\<lambda>y. y\<lparr>pending_transactions := um_erase (mcookie msg) (pending_transactions y)\<rparr>) s))"
  using assms by (simp add: OnReply_def run_simps fits_def SetCookie_def)

lemma OnReply_unknown:
  assumes "sess s x = Some y" and "um_find (mcookie msg) (pending_transactions y) = None"
  shows "OnReply x msg s = (Inr (), s)"
  using assms by (simp add: OnReply_def run_simps)

lemma WriteMessage_only_sends: "WriteMessage x msg s = (r, s') \<Longrightarrow> only_sends s s'"
proof -
  have send: "only_sends s s'" if "SendMessage z m s = (r, s')" for z m s and r :: "unit res" and s'
    using that only_sends_append
    by (cases "Pack (alloc s) m")
      (auto simp: SendMessage_def bindS_def getS_def liftS_def messenger_WriteData_def upd_session_run)
  have fwd: "only_sends s s'" if "ForwardToMonitor m s = (r, s')" for m s and r :: "unit res" and s'
    using that send
    by (auto simp: ForwardToMonitor_def bindS_def getS_def liftS_def retS_def
        split: option.splits sum.splits)
  show "WriteMessage x msg s = (r, s') \<Longrightarrow> only_sends s s'"
    using send fwd by (auto simp: WriteMessage_def seqS_def bindS_def split: prod.splits sum.splits)
      (meson only_sends_trans)
qed

text \<open>A reply is passed on at most once.\<close>

lemma OnReply_erases:
  assumes "OnReply x msg s = (Inr (), s')"
  shows "\<exists>y. sess s' x = Some y \<and> um_find (mcookie msg) (pending_transactions y) = None"
proof -
  from assms obtain y where y: "sess s x = Some y"
    by (auto simp: OnReply_def bindS_def get_session_def split: option.splits)
  show ?thesis
  proof (cases "um_find (mcookie msg) (pending_transactions y)")
    case None
    then show ?thesis using assms y OnReply_unknown [OF y None] by auto
  next
    case (Some tr)
    let ?f = "\<lambda>y. y\<lparr>pending_transactions := um_erase (mcookie msg) (pending_transactions y)\<rparr>"
    have "WriteMessage (tr_caller tr) (SetCookie (tr_reply_cookie tr) msg) (upd_sess x ?f s) = (Inr (), s')"
      using assms y Some by (simp add: OnReply_def run_simps)
    then have "only_sends (upd_sess x ?f s) s'" by (rule WriteMessage_only_sends)
    from only_sendsD(6) [OF this, of x "?f y"] y
    obtain bs where "sess s' x = Some ((?f y)\<lparr>outbox := outbox (?f y) @ bs\<rparr>)" by auto
    then show ?thesis by (simp add: um_find_simps)
  qed
qed

section \<open>The special sessions\<close>

lemma OnSetContextManager_run:
  assumes "total_alloc (alloc s)" and "fits msg"
  shows "OnSetContextManager x msg s =
    (let s1 = (case monitor (reg s) of None \<Rightarrow> s | Some m \<Rightarrow> put m (log_entry msg) s) in
     (Inr (), if context_mgr (reg s) = None
        then deliver x (status_reply (mcookie msg) OK) (s1\<lparr>reg := SetContextManager (Some x) (reg s)\<rparr>)
        else deliver x (status_reply (mcookie msg) AlreadyExists) s1))"
proof -
  have "reg (case monitor (reg s) of None \<Rightarrow> s | Some m \<Rightarrow> put m (log_entry msg) s) = reg s"
    and "alloc (case monitor (reg s) of None \<Rightarrow> s | Some m \<Rightarrow> put m (log_entry msg) s) = alloc s"
    by (simp_all split: option.splits)
  then show ?thesis
    using assms by (simp add: OnSetContextManager_def run_simps ForwardToMonitor_run Let_def)
qed

lemma OnSetMonitor_run:
  assumes "total_alloc (alloc s)"
  shows "OnSetMonitor x msg s =
    (Inr (), if monitor (reg s) = None
       then deliver x (status_reply (mcookie msg) OK) (s\<lparr>reg := SetMonitor (Some x) (reg s)\<rparr>)
       else deliver x (status_reply (mcookie msg) AlreadyExists) s)"
  using assms by (simp add: OnSetMonitor_def run_simps)

section \<open>Translating object references\<close>

lemma TranslateObject_binder:
  assumes "flat_type p (td_block tr) = Inr BINDER_TYPE_BINDER" and "p + 24 \<le> length (td_block tr)"
    and "NewObjectHandle x (reg s) = (h, r)"
  obtains q c b where "flat_ptr p (td_block tr) = Inr q" and "flat_cookie p (td_block tr) = Inr c"
    and "TranslateObject x p tr s =
      (Inr (OK, tr\<lparr>td_block := b\<rparr>),
       upd_sess x (\<lambda>y. y\<lparr>objects := um_insert h \<lparr>bo_ptr = q, bo_cookie = c\<rparr> (objects y)\<rparr>) (s\<lparr>reg := r\<rparr>))"
    and "length b = length (td_block tr)"
    and "flat_type p b = Inr BINDER_TYPE_HANDLE" and "flat_handle p b = Inr (ucast h)"
    and "\<And>off n. off + n \<le> p \<or> p + 24 \<le> off \<Longrightarrow> mem_read off n b = mem_read off n (td_block tr)"
    and "flat_rewrite p BINDER_TYPE_HANDLE 0 0 (ucast h) (td_block tr) = Inr b"
proof -
  obtain q where q: "flat_ptr p (td_block tr) = Inr q"
    using load_ok [of "p + 8" 8 "td_block tr"] assms(2) unfolding flat_defs by auto
  obtain c where c: "flat_cookie p (td_block tr) = Inr c"
    using load_ok [of "p + 16" 8 "td_block tr"] assms(2) unfolding flat_defs by auto
  obtain b where b: "flat_rewrite p BINDER_TYPE_HANDLE 0 0 (ucast h) (td_block tr) = Inr b"
    "length b = length (td_block tr)" "flat_type p b = Inr BINDER_TYPE_HANDLE"
    "flat_handle p b = Inr (ucast h)"
    "\<And>off n. off + n \<le> p \<or> p + 24 \<le> off \<Longrightarrow> mem_read off n b = mem_read off n (td_block tr)"
    using flat_rewrite_ok [OF assms(2), of BINDER_TYPE_HANDLE 0 0 "ucast h"] by metis
  show thesis
    by (rule that [OF q c _ b(2-5) b(1)])
      (use assms q c b(1) in \<open>simp_all add: TranslateObject_def run_simps\<close>)
qed

lemma TranslateObject_own_handle:
  assumes "flat_type p (td_block tr) = Inr BINDER_TYPE_HANDLE" and "p + 24 \<le> length (td_block tr)"
    and "flat_handle p (td_block tr) = Inr h" and "sess s x = Some y"
    and "um_find (ucast h) (objects y) = Some ob"
  obtains b where "TranslateObject x p tr s = (Inr (OK, tr\<lparr>td_block := b\<rparr>), s)"
    and "length b = length (td_block tr)"
    and "flat_type p b = Inr BINDER_TYPE_WEAK_BINDER" and "flat_cookie p b = Inr (bo_cookie ob)"
    and "flat_ptr p b = Inr (push_bit 32 (drop_bit 32 (bo_ptr ob)))"
proof -
  obtain b where b: "flat_rewrite p BINDER_TYPE_WEAK_BINDER (bo_ptr ob) (bo_cookie ob) 0 (td_block tr) = Inr b"
    "length b = length (td_block tr)" "flat_type p b = Inr BINDER_TYPE_WEAK_BINDER"
    "flat_cookie p b = Inr (bo_cookie ob)"
    "flat_ptr p b = Inr (ucast (0 :: u32) OR push_bit 32 (drop_bit 32 (bo_ptr ob)))"
    using flat_rewrite_ok [OF assms(2), of BINDER_TYPE_WEAK_BINDER "bo_ptr ob" "bo_cookie ob" 0] by metis
  show thesis
    by (rule that [OF _ b(2-4)])
      (use assms b in \<open>simp_all add: TranslateObject_def run_simps\<close>)
qed

lemma TranslateObject_foreign_handle:
  assumes "flat_type p (td_block tr) = Inr BINDER_TYPE_HANDLE" and "flat_handle p (td_block tr) = Inr h"
    and "sess s x = Some y" and "um_find (ucast h) (objects y) = None"
  shows "TranslateObject x p tr s = (Inr (OK, tr), s)"
  using assms by (simp add: TranslateObject_def run_simps)

lemma TranslateObject_invalid:
  assumes "flat_type p (td_block tr) = Inr t"
    and "t \<notin> {BINDER_TYPE_BINDER, BINDER_TYPE_HANDLE, BINDER_TYPE_WEAK_BINDER,
              BINDER_TYPE_WEAK_HANDLE, BINDER_TYPE_FD}"
  shows "TranslateObject x p tr s = (Inr (InvalidOperation, tr), s)"
  using assms by (simp add: TranslateObject_def run_simps)

section \<open>Transactions\<close>

text \<open>The transaction as the target's client receives it.\<close>

definition posted :: "u64 \<Rightarrow> u64 \<Rightarrow> u64 \<Rightarrow> u64 \<Rightarrow> u32 \<Rightarrow> byte list \<Rightarrow> byte list \<Rightarrow> message" where
  "posted k dest q qc code d os =
     fresh_message TTransaction k dest (padded_bytes True (td_packed q qc code 0x10 d os))"

definition add_pending :: "u64 \<Rightarrow> transaction_record \<Rightarrow> session \<Rightarrow> session" where
  "add_pending k tr y =
     y\<lparr>next_transaction_cookie := k + 1,
       pending_transactions := um_insert k tr (pending_transactions y)\<rparr>"

text \<open>The object a transaction is for: the context manager's is not recorded.\<close>

definition target_object :: "u64 \<Rightarrow> session \<Rightarrow> (u64 \<times> u64) option" where
  "target_object dest y =
     (case um_find dest (objects y) of
        Some ob \<Rightarrow> Some (bo_ptr ob, bo_cookie ob)
      | None \<Rightarrow> if dest = 0 then Some (0, 0) else None)"

lemma with_block_same [simp]: "td_block tr = bdata (mdata msg) \<Longrightarrow> with_block msg tr = msg"
  by (simp add: with_block_def)

lemma fits_posted: "length d + length os \<le> 2147480000 \<Longrightarrow> fits (posted k dest q qc code d os)"
  using padded_len_bounds(2) [of "32 + length d + length os"]
  by (simp add: fits_def posted_def)

lemma upd_sess_twice [simp]: "upd_sess x f (upd_sess x g s) = upd_sess x (\<lambda>y. f (g y)) s"
  by (simp add: upd_sess_def option.map_comp comp_def)

lemma PostTransaction_run:
  assumes a: "total_alloc (alloc s)" and y: "sess s t = Some y"
    and data: "bdata (mdata (tr_message rec)) = td_packed p c code flags d [] @ xs" and d: "length d < 256"
    and ob: "target_object (mdestination (tr_message rec)) y = Some (q, qc)"
  shows "PostTransaction t rec s =
    (Inr OK, deliver t (posted (next_transaction_cookie y) (mdestination (tr_message rec)) q qc
        (low_byte code) d []) (upd_sess t (add_pending (next_transaction_cookie y) rec) s))"
proof -
  let ?k = "next_transaction_cookie y" and ?msg = "tr_message rec"
  let ?td = "\<lparr>td_ptr = q, td_cookie = qc, td_code = low_byte code, td_one_way = False,
    td_has_status = False, td_block = bdata (mdata ?msg), td_base = 28, td_size = length d,
    td_readable = (d \<noteq> []), td_writable = (d \<noteq> []), td_offsets = InBlock (32 + length d), td_count = 0\<rparr>"
  obtain old where old: "TransactionDataFromMessage ?msg = Inr old" "Writable_over q qc (td_code old) old = ?td"
    using TransactionDataFromMessage_packed [OF data d] by (auto simp: Writable_over_def)
  have "GetData_bytes ?td = Inr d"
    using data by (simp add: GetData_bytes_def mem_read_def td_packed_def)
  moreover have "GetObjectOffsets_bytes ?td = Inr []"
    using data by (simp add: GetObjectOffsets_bytes_def mem_read_def td_packed_def)
  ultimately have pack: "TransactionData_Pack (alloc s) ?td =
      Inr \<lparr>bdata = td_packed q qc (low_byte code) 0x10 d [], immutable = False\<rparr>"
    using a d by (subst TransactionData_Pack_eq [where d = d and os = "[]"]) (simp_all add: td_flags_def)
  have wr: "Message_write (WriteData (alloc s) (td_packed q qc (low_byte code) 0x10 d []))
      (SetDestination (mdestination ?msg) (SetCookie ?k (Message_Create TTransaction))) =
      Inr (posted ?k (mdestination ?msg) q qc (low_byte code) d [])"
    using a d by (simp add: Message_Create_fresh Message_write_run posted_def)
  have "fits (posted ?k (mdestination ?msg) q qc (low_byte code) d [])"
    using d by (intro fits_posted) simp
  then show ?thesis
    using a y old ob pack wr
    unfolding PostTransaction_def Let_def target_object_def [symmetric]
    by (simp add: run_simps TranslateObjects_def) (simp add: add_pending_def [abs_def])
qed

lemma OnTransaction_run:
  assumes a: "total_alloc (alloc s)"
    and data: "bdata (mdata msg) = td_packed p c code flags d [] @ xs" and d: "length d < 256"
    and t: "FindSessionByHandle (mdestination msg) (reg s) = Some t" and y: "sess s t = Some y"
    and ob: "target_object (mdestination msg) y = Some (q, qc)"
  shows "OnTransaction x msg s =
    (Inr (), deliver x (status_reply (mcookie msg) OK)
      (deliver t (posted (next_transaction_cookie y) (mdestination msg) q qc (low_byte code) d [])
        (upd_sess t (add_pending (next_transaction_cookie y)
            \<lparr>tr_caller = x, tr_reply_cookie = mcookie msg, tr_message = msg\<rparr>) s)))"
proof -
  obtain old where old: "TransactionDataFromMessage msg = Inr old" "td_count old = 0"
    "td_block old = bdata (mdata msg)"
    using TransactionDataFromMessage_packed [OF data d] by auto
  show ?thesis
    using a t old PostTransaction_run [OF a y, of "\<lparr>tr_caller = x, tr_reply_cookie = mcookie msg, tr_message = msg\<rparr>",
        unfolded transaction_record.simps, OF data d ob]
    by (simp add: OnTransaction_def run_simps TranslateObjects_def)
qed

lemma OnTransaction_no_target:
  assumes "total_alloc (alloc s)" and "TransactionDataFromMessage msg = Inr td" and "td_count td = 0"
    and "FindSessionByHandle (mdestination msg) (reg s) = None"
  shows "OnTransaction x msg s = (Inr (), deliver x (status_reply (mcookie msg) NameNotFound) s)"
  using assms TransactionDataFromMessage_within(1) [OF assms(2)]
  by (simp add: OnTransaction_def run_simps TranslateObjects_def)

lemma OnTransaction_malformed:
  assumes "total_alloc (alloc s)" and "TransactionDataFromMessage msg = Inl OutOfRange"
  shows "OnTransaction x msg s = (Inr (), deliver x (status_reply (mcookie msg) BadValue) s)"
  using assms by (simp add: OnTransaction_def run_simps)

section \<open>References and death notifications\<close>

definition handle_of :: "message \<Rightarrow> u64" where
  "handle_of msg = ucast (bdata (mdata msg) ! 0)"

lemma ReadUint64_message:
  "ReadUint64 (Message_GetReader msg) =
     (if length (bdata (mdata msg)) < 8 then Inl OutOfRange
      else Inr (handle_of msg, adv 8 (Message_GetReader msg)))"
  by (simp add: Read_defs ReadValue_def Message_GetReader_def BinaryReader_def adv_def handle_of_def)

lemma OnReference_run:
  assumes "total_alloc (alloc s)" and "8 \<le> length (bdata (mdata msg))"
  shows "mtype msg = TAcquire \<Longrightarrow> OnReference x msg s =
      (let (st, r) = AddReferenceForHandle x (handle_of msg) (reg s) in
       (Inr (), deliver x (status_reply (mcookie msg) st) (s\<lparr>reg := r\<rparr>)))"
    and "mtype msg = TRelease \<Longrightarrow> OnReference x msg s =
      (let (st, r) = RemoveReferenceForHandle x (handle_of msg) (reg s) in
       (Inr (), deliver x (status_reply (mcookie msg) st) (s\<lparr>reg := r\<rparr>)))"
  using assms by (simp_all add: OnReference_def run_simps ReadUint64_message split_beta)

lemma OnReference_short:
  "length (bdata (mdata msg)) < 8 \<Longrightarrow> OnReference x msg s = (Inl OutOfRange, s)"
  by (simp add: OnReference_def run_simps ReadUint64_message)

definition dead_binder :: "u64 \<Rightarrow> u64 \<Rightarrow> message" where
  "dead_binder h object_id = fresh_message TDeadBinder 0 0 (le_bytes 8 h @ le_bytes 8 object_id)"

lemma SendDeathNotification_run:
  assumes "total_alloc (alloc s)" and "sess s x = Some y"
  shows "SendDeathNotification h x s =
    (Inr (), case um_find h (death_notifications y) of
       None \<Rightarrow> s | Some object_id \<Rightarrow> deliver x (dead_binder h object_id) s)"
proof (cases "um_find h (death_notifications y)")
  case None
  then show ?thesis using assms by (simp add: SendDeathNotification_def run_simps)
next
  case (Some object_id)
  have "dead_message (alloc s) h object_id = Inr (dead_binder h object_id)"
    using assms Message_write_run(4) [of "alloc s" "[]"]
    by (simp add: dead_message_def dead_binder_def Message_Create_fresh)
  moreover have "fits (dead_binder h object_id)" by (simp add: fits_def dead_binder_def)
  ultimately show ?thesis using assms Some by (simp add: SendDeathNotification_def run_simps)
qed

text \<open>Sessions that only got messages.\<close>

definition grows :: "server \<Rightarrow> server \<Rightarrow> bool" where
  "grows s s' \<longleftrightarrow> (\<forall>x y. sess s x = Some y \<longrightarrow> (\<exists>bs. sess s' x = Some (y\<lparr>outbox := outbox y @ bs\<rparr>)))"

lemma only_sends_grows: "only_sends s s' \<Longrightarrow> grows s s'"
  by (simp add: grows_def only_sendsD)

lemma grows_refl: "grows s s"
  by (simp add: only_sends_grows)

lemma grows_trans: "grows s t \<Longrightarrow> grows t u \<Longrightarrow> grows s u"
  by (fastforce simp: grows_def)

lemma grows_reg [simp]: "grows s (s'\<lparr>reg := r\<rparr>) = grows s s'" "grows (s\<lparr>reg := r\<rparr>) s' = grows s s'"
  by (simp_all add: grows_def)

text \<open>Every session of a list of references that asked for it is told.\<close>

definition told :: "u64 \<Rightarrow> sid \<Rightarrow> server \<Rightarrow> server \<Rightarrow> bool" where
  "told h x s s' \<longleftrightarrow> (\<forall>y object_id. sess s x = Some y \<longrightarrow> um_find h (death_notifications y) = Some object_id \<longrightarrow>
     (\<exists>y'. sess s' x = Some y' \<and> packed (dead_binder h object_id) \<in> set (drop (length (outbox y)) (outbox y'))))"

lemma told_mono:
  assumes "grows s s1" and "told h x s1 s2"
  shows "told h x s s2"
  unfolding told_def
proof (intro allI impI)
  fix y object_id assume y: "sess s x = Some y" "um_find h (death_notifications y) = Some object_id"
  obtain bs where s1: "sess s1 x = Some (y\<lparr>outbox := outbox y @ bs\<rparr>)"
    using assms(1) y(1) unfolding grows_def by blast
  with y assms(2) obtain y2 where "sess s2 x = Some y2"
    "packed (dead_binder h object_id) \<in> set (drop (length (outbox y @ bs)) (outbox y2))"
    unfolding told_def by fastforce
  moreover have "set (drop (length (outbox y @ bs)) (outbox y2)) \<subseteq> set (drop (length (outbox y)) (outbox y2))"
    by (simp add: set_drop_subset_set_drop)
  ultimately show "\<exists>y'. sess s2 x = Some y' \<and>
      packed (dead_binder h object_id) \<in> set (drop (length (outbox y)) (outbox y'))" by blast
qed

lemma told_later:
  assumes "told h x s s1" and "grows s1 s2"
  shows "told h x s s2"
  unfolding told_def
proof (intro allI impI)
  fix y object_id assume y: "sess s x = Some y" "um_find h (death_notifications y) = Some object_id"
  with assms(1) obtain y1 where y1: "sess s1 x = Some y1"
    "packed (dead_binder h object_id) \<in> set (drop (length (outbox y)) (outbox y1))"
    unfolding told_def by blast
  moreover obtain bs where "sess s2 x = Some (y1\<lparr>outbox := outbox y1 @ bs\<rparr>)"
    using assms(2) y1(1) unfolding grows_def by blast
  ultimately show "\<exists>y'. sess s2 x = Some y' \<and>
      packed (dead_binder h object_id) \<in> set (drop (length (outbox y)) (outbox y'))" by auto
qed

lemma told_SendDeathNotification:
  assumes "total_alloc (alloc s)" and "sess s x = Some y"
    and "SendDeathNotification h x s = (r, s')"
  shows "told h x s s'"
proof -
  have "packed m \<in> set (drop (length (outbox y)) (outbox y1))" if "sess (put x m s) x = Some y1" for m y1
    using that assms(2) by (auto simp: put_def)
  moreover have "\<exists>y2 bs. sess (deliver x m s) x = Some y2 \<and>
      packed m \<in> set (drop (length (outbox y)) (outbox y2))" for m
    using only_sendsD(6) [OF only_sends_put, of "put x m s" x] assms(2)
    by (auto simp: deliver_def put_def split: option.splits)
  ultimately show ?thesis
    using assms SendDeathNotification_run [OF assms(1,2), of h] by (auto simp: told_def)
qed

lemma SendDeathNotification_only_sends:
  "total_alloc (alloc s) \<Longrightarrow> sess s x = Some y \<Longrightarrow>
     \<exists>s'. SendDeathNotification h x s = (Inr (), s') \<and> only_sends s s'"
  by (auto simp: SendDeathNotification_run only_sends_deliver split: option.splits)

lemma notify_all:
  assumes "total_alloc (alloc s)" and "\<And>x. x \<in> set l \<Longrightarrow> sess s x \<noteq> None"
  shows "\<exists>s'. forS l (SendDeathNotification h) s = (Inr (), s') \<and> only_sends s s' \<and>
    (\<forall>x\<in>set l. told h x s s')"
  using assms
proof (induction l arbitrary: s)
  case Nil
  then show ?case by (simp add: retS_def)
next
  case (Cons x l)
  from Cons.prems(2) [of x] obtain y where y: "sess s x = Some y" by auto
  with Cons.prems(1) obtain s1 where s1: "SendDeathNotification h x s = (Inr (), s1)" "only_sends s s1"
    using SendDeathNotification_only_sends by blast
  have "total_alloc (alloc s1)" and "\<And>z. z \<in> set l \<Longrightarrow> sess s1 z \<noteq> None"
    using Cons.prems only_sendsD(2,5) [OF s1(2)] by auto
  then obtain s2 where s2: "forS l (SendDeathNotification h) s1 = (Inr (), s2)" "only_sends s1 s2"
    "\<forall>z\<in>set l. told h z s1 s2"
    using Cons.IH by blast
  have "told h x s s2"
    using told_later [OF told_SendDeathNotification [OF Cons.prems(1) y s1(1)] only_sends_grows [OF s2(2)]] .
  moreover have "told h z s s2" if "z \<in> set l" for z
    using told_mono [OF only_sends_grows [OF s1(2)]] s2(3) that by blast
  ultimately show ?case
    using s1 s2 by (auto simp: run_simps intro: only_sends_trans)
qed

section \<open>The end of a session\<close>

lemma um_erase_absent: "um_find k m = None \<Longrightarrow> um_erase k m = m"
  by (induction m) (auto simp: um_erase_def um_find_def split: if_splits)

lemma RemoveHandle_run:
  assumes ok: "server_ok s" and a: "total_alloc (alloc s)"
  obtains s1 where "RemoveHandle h s = (Inr (), s1\<lparr>reg := forget_handle h (forget_references h (reg s))\<rparr>)"
    and "only_sends s s1"
    and "\<And>l x. um_find h (references (reg s)) = Some l \<Longrightarrow> x \<in> set l \<Longrightarrow> told h x s s1"
proof (cases "um_find h (references (reg s))")
  case None
  have "RemoveHandle h s = (Inr (), s\<lparr>reg := forget_handle h (forget_references h (reg s))\<rparr>)"
    using None
    by (simp add: RemoveHandle_def run_simps um_erase_absent forget_references_def forget_handle_def)
  then show thesis using None by (intro that [of s]) simp_all
next
  case (Some l)
  have "um_find h (handles (reg s)) \<noteq> None"
    using ok Some unfolding server_ok_def registry_ok_def by (metis option.distinct(1))
  moreover have "x \<in> set l \<Longrightarrow> sess s x \<noteq> None" for x
    using ok Some unfolding server_ok_def by blast
  then obtain s1 where s1: "forS l (SendDeathNotification h) s = (Inr (), s1)" "only_sends s s1"
    "\<forall>x\<in>set l. told h x s s1"
    using notify_all [OF a] by blast
  moreover have "reg s1 = reg s" using only_sendsD(1) [OF s1(2)] .
  ultimately have "RemoveHandle h s = (Inr (), s1\<lparr>reg := forget_handle h (forget_references h (reg s))\<rparr>)"
    using Some by (auto simp: RemoveHandle_def run_simps)
  then show thesis using that s1 Some by auto
qed

lemma remove_all:
  assumes "server_ok s" and "total_alloc (alloc s)"
  shows "\<exists>s'. forS hs RemoveHandle s = (Inr (), s') \<and> server_ok s' \<and> grows s s' \<and>
    alloc s' = alloc s \<and> table s' = table s \<and>
    context_mgr (reg s') = context_mgr (reg s) \<and> monitor (reg s') = monitor (reg s) \<and>
    (\<forall>h. um_find h (handles (reg s')) = (if h \<in> set hs then None else um_find h (handles (reg s)))) \<and>
    (\<forall>h. um_find h (references (reg s')) = (if h \<in> set hs then None else um_find h (references (reg s)))) \<and>
    (\<forall>h l x. h \<in> set hs \<longrightarrow> um_find h (references (reg s)) = Some l \<longrightarrow> x \<in> set l \<longrightarrow> told h x s s')"
  using assms
proof (induction hs arbitrary: s)
  case Nil
  then show ?case by (simp add: retS_def grows_refl)
next
  case (Cons h hs)
  let ?r = "forget_handle h (forget_references h (reg s))"
  obtain s1 where s1: "RemoveHandle h s = (Inr (), s1\<lparr>reg := ?r\<rparr>)" "only_sends s s1"
    "\<And>l x. um_find h (references (reg s)) = Some l \<Longrightarrow> x \<in> set l \<Longrightarrow> told h x s s1"
    using RemoveHandle_run [OF Cons.prems(1,2), of h] by metis
  let ?s1 = "s1\<lparr>reg := ?r\<rparr>"
  have "ok_for {} ?s1"
    using keepsS_D [OF keeps_RemoveHandle [of "{}" h] _ s1(1)] Cons.prems(1) by (simp add: ok_for_def)
  then have "server_ok ?s1" and "total_alloc (alloc ?s1)"
    using Cons.prems(2) only_sendsD(2) [OF s1(2)] by (simp_all add: ok_for_def)
  then obtain s' where s': "forS hs RemoveHandle ?s1 = (Inr (), s')" "server_ok s'" "grows ?s1 s'"
    "alloc s' = alloc ?s1" "table s' = table ?s1"
    "context_mgr (reg s') = context_mgr ?r" "monitor (reg s') = monitor ?r"
    "\<forall>k. um_find k (handles (reg s')) = (if k \<in> set hs then None else um_find k (handles ?r))"
    "\<forall>k. um_find k (references (reg s')) = (if k \<in> set hs then None else um_find k (references ?r))"
    "\<forall>k l x. k \<in> set hs \<longrightarrow> um_find k (references ?r) = Some l \<longrightarrow> x \<in> set l \<longrightarrow> told k x ?s1 s'"
    using Cons.IH [of ?s1] by auto
  have g: "grows s ?s1" using only_sends_grows [OF s1(2)] by simp
  have told: "told k x s s'" if k: "k \<in> set (h # hs)" "um_find k (references (reg s)) = Some l" "x \<in> set l" for k l x
  proof (cases "k = h")
    case True
    then have "told h x s ?s1" using s1(3) k by (simp add: told_def)
    then show ?thesis using told_later s'(3) True by blast
  next
    case False
    then have "um_find k (references ?r) = Some l"
      using k by (simp add: forget_handle_def forget_references_def um_find_simps)
    then show ?thesis using told_mono [OF g] s'(10) k False by auto
  qed
  have "forS (h # hs) RemoveHandle s = (Inr (), s')" using s1(1) s'(1) by (simp add: run_simps)
  moreover have "grows s s'" using g s'(3) by (rule grows_trans)
  ultimately show ?case
    using s' told only_sendsD [OF s1(2)]
    by (intro exI [of _ s'])
      (auto simp: forget_handle_def forget_references_def um_find_simps)
qed

lemma Terminate_run:
  assumes ok: "server_ok s" and a: "total_alloc (alloc s)" and y: "sess s x = Some y"
  obtains s' y' where "Terminate x s = (Inr (), s')"
    and "\<And>h. um_find h (handles (reg s')) =
      (if um_find h (objects y) \<noteq> None then None else um_find h (handles (reg s)))"
    and "context_mgr (reg s') = (if context_mgr (reg s) = Some x then None else context_mgr (reg s))"
    and "monitor (reg s') = (if monitor (reg s) = Some x then None else monitor (reg s))"
    and "sess s' x = Some y'" and "closed y'" and "table s' = um_erase (session_id y) (table s)"
    and "\<And>h l z. um_find h (objects y) \<noteq> None \<Longrightarrow> um_find h (references (reg s)) = Some l \<Longrightarrow>
      z \<in> set l \<Longrightarrow> told h z s s'"
proof -
  let ?hs = "map fst (objects y)"
  have hs: "h \<in> set ?hs \<longleftrightarrow> um_find h (objects y) \<noteq> None" for h
    by (simp add: um_find_def map_of_eq_None_iff)
  obtain s1 where s1: "forS ?hs RemoveHandle s = (Inr (), s1)" "grows s s1" "table s1 = table s"
    "context_mgr (reg s1) = context_mgr (reg s)" "monitor (reg s1) = monitor (reg s)"
    "\<And>h. um_find h (handles (reg s1)) =
      (if h \<in> set ?hs then None else um_find h (handles (reg s)))"
    "\<And>h l z. h \<in> set ?hs \<Longrightarrow> um_find h (references (reg s)) = Some l \<Longrightarrow> z \<in> set l \<Longrightarrow> told h z s s1"
    using remove_all [OF ok a, of ?hs] by blast
  obtain bs where bs: "sess s1 x = Some (y\<lparr>outbox := outbox y @ bs\<rparr>)"
    using s1(2) y unfolding grows_def by blast
  let ?r = "\<lambda>r. if context_mgr r = Some x then SetContextManager None r else r"
  let ?m = "\<lambda>r. if monitor r = Some x then SetMonitor None r else r"
  let ?s2 = "(upd_sess x (\<lambda>y. y\<lparr>closed := True\<rparr>) (s1\<lparr>reg := ?m (?r (reg s1))\<rparr>))\<lparr>table := um_erase (session_id y) (table s)\<rparr>"
  have run: "Terminate x s = (Inr (), ?s2)"
    using y s1(1,3) by (simp add: Terminate_def run_simps)
  have sess: "sess ?s2 z = (if z = x then map_option (\<lambda>y. y\<lparr>closed := True\<rparr>) (sess s1 x) else sess s1 z)" for z
    by simp
  show thesis
  proof (rule that [OF run])
    show "um_find h (handles (reg ?s2)) =
      (if um_find h (objects y) \<noteq> None then None else um_find h (handles (reg s)))" for h
      using s1(6) [of h] hs [of h] by (simp add: SetContextManager_def SetMonitor_def)
    show "sess ?s2 x = Some (y\<lparr>outbox := outbox y @ bs, closed := True\<rparr>)" using bs by simp
    show "told h z s ?s2" if "um_find h (objects y) \<noteq> None" "um_find h (references (reg s)) = Some l" "z \<in> set l" for h l z
    proof -
      have "told h z s s1" using that s1(7) hs by blast
      then show ?thesis using sess by (auto simp: told_def)
    qed
  qed (use s1 in \<open>auto simp: SetContextManager_def SetMonitor_def\<close>)
qed

section \<open>A transaction that carries an object\<close>

lemma TranslateObjects_one:
  assumes "td_count tr = 1" and "object_offset tr 0 = Inr off" and "td_writable tr"
    and "TranslateObject x (td_base tr + off) tr s = (Inr (OK, tr'), s')"
  shows "TranslateObjects x tr s = (Inr (OK, tr'), s')"
  using assms by (simp add: TranslateObjects_def run_simps)

lemma PostTransaction_translated:
  assumes a: "total_alloc (alloc s)" and y: "sess s t = Some y"
    and old: "TransactionDataFromMessage (tr_message rec) = Inr old"
    and ob: "target_object (mdestination (tr_message rec)) y = Some (q, qc)"
    and tr: "TranslateObjects t (Writable_over q qc (td_code old) old)
       (upd_sess t (\<lambda>y. y\<lparr>next_transaction_cookie := next_transaction_cookie y + 1\<rparr>) s) = (Inr (OK, new), s2)"
    and same: "td_ptr new = q" "td_cookie new = qc" "td_code new = td_code old" "td_flags new = 0x10"
    and d: "GetData_bytes new = Inr d" and os: "GetObjectOffsets_bytes new = Inr os"
    and len: "length d + length os \<le> 2147480000" and a2: "alloc s2 = alloc s"
  shows "PostTransaction t rec s =
    (Inr OK, deliver t (posted (next_transaction_cookie y) (mdestination (tr_message rec)) q qc (td_code old) d os)
       (upd_sess t (\<lambda>z. z\<lparr>pending_transactions := um_insert (next_transaction_cookie y)
           (rec\<lparr>tr_message := with_block (tr_message rec) new\<rparr>) (pending_transactions z)\<rparr>) s2))"
proof -
  let ?k = "next_transaction_cookie y" and ?msg = "tr_message rec"
  have inc: "upd_sess t (\<lambda>y. y\<lparr>next_transaction_cookie := next_transaction_cookie y + 1\<rparr>) s =
      upd_sess t (\<lambda>z. z\<lparr>next_transaction_cookie := ?k + 1\<rparr>) s"
    using y by (simp add: upd_sess_def)
  have pack: "TransactionData_Pack (alloc s) new =
      Inr \<lparr>bdata = td_packed q qc (td_code old) 0x10 d os, immutable = False\<rparr>"
    using a d os len same by (subst TransactionData_Pack_eq [where d = d and os = os]) simp_all
  have wr: "Message_write (WriteData (alloc s) (td_packed q qc (td_code old) 0x10 d os))
      (SetDestination (mdestination ?msg) (SetCookie ?k (Message_Create TTransaction))) =
      Inr (posted ?k (mdestination ?msg) q qc (td_code old) d os)"
    using a len by (simp add: Message_Create_fresh Message_write_run posted_def)
  have "fits (posted ?k (mdestination ?msg) q qc (td_code old) d os)"
    using len by (rule fits_posted)
  then show ?thesis
    using a y old ob pack wr tr a2 inc
    unfolding PostTransaction_def Let_def target_object_def [symmetric]
    by (simp add: run_simps)
qed

text \<open>Changing a part of the data of a packed transaction.\<close>

lemma td_packed_rewrite:
  assumes "off + 24 \<le> length d" and "flat_rewrite off t q qc h d = Inr d'" and "length d' = length d"
  shows "flat_rewrite (28 + off) t q qc h (td_packed p c code flags d os @ xs) = Inr (td_packed p c code flags d' os @ xs)"
  using flat_rewrite_inside [OF assms(1), of "le_bytes 8 p @ le_bytes 8 c @ le_bytes 4 code @ le_bytes 4 flags @
      le_bytes 4 (of_nat (length d) :: u32)" 28 t q qc h "le_bytes 4 (of_nat (length os) :: u32) @ os @ xs"] assms(2,3)
  by (simp add: td_packed_def)

lemma load_inside:
  assumes "off + n \<le> length d" and "length pre = k"
  shows "load (k + off) n (pre @ d @ post) = load off n d"
  using assms by (simp add: load_def mem_read_def)

text \<open>Fields of an object in the data, seen in the packed transaction.\<close>

lemma flat_td_packed:
  assumes "off + 24 \<le> length d"
  shows "flat_type (28 + off) (td_packed p c code flags d os @ xs) = flat_type off d"
    and "flat_handle (28 + off) (td_packed p c code flags d os @ xs) = flat_handle off d"
    and "flat_ptr (28 + off) (td_packed p c code flags d os @ xs) = flat_ptr off d"
    and "flat_cookie (28 + off) (td_packed p c code flags d os @ xs) = flat_cookie off d"
proof -
  let ?pre = "le_bytes 8 p @ le_bytes 8 c @ le_bytes 4 code @ le_bytes 4 flags @
     le_bytes 4 (of_nat (length d) :: u32)"
  have eq: "td_packed p c code flags d os @ xs = ?pre @ d @ le_bytes 4 (of_nat (length os) :: u32) @ os @ xs"
    by (simp add: td_packed_def)
  note ld = load_inside [where pre = ?pre and k = 28 and d = d and
      post = "le_bytes 4 (of_nat (length os) :: u32) @ os @ xs", folded eq]
  show "flat_type (28 + off) (td_packed p c code flags d os @ xs) = flat_type off d"
    "flat_handle (28 + off) (td_packed p c code flags d os @ xs) = flat_handle off d"
    "flat_ptr (28 + off) (td_packed p c code flags d os @ xs) = flat_ptr off d"
    "flat_cookie (28 + off) (td_packed p c code flags d os @ xs) = flat_cookie off d"
    using assms ld [of off 4] ld [of "off + 8" 4] ld [of "off + 8" 8] ld [of "off + 16" 8]
    by (simp_all add: flat_defs add.assoc)
qed

text \<open>What the constructor makes of a message with one object.\<close>

lemma one_object:
  assumes data: "bdata (mdata msg) = td_packed p c code flags d (le_bytes 8 (off :: u64)) @ xs"
    and d: "length d < 256" and off: "unat off + 24 \<le> length d"
  obtains td where "TransactionDataFromMessage msg = Inr td" and "td_count td = 1"
    and "object_offset td 0 = Inr (unat off)" and "td_writable td" and "td_base td = 28"
    and "td_size td = length d" and "td_offsets td = InBlock (32 + length d)"
    and "td_block td = bdata (mdata msg)" and "td_code td = low_byte code"
proof -
  let ?pre = "le_bytes 8 p @ le_bytes 8 c @ le_bytes 4 code @ le_bytes 4 flags @
    le_bytes 4 (of_nat (length d) :: u32) @ d @ le_bytes 4 (8 :: u32)"
  have eq: "td_packed p c code flags d (le_bytes 8 off) @ xs = ?pre @ le_bytes 8 off @ xs"
    by (simp add: td_packed_def)
  have "load (32 + length d) 1 (td_packed p c code flags d (le_bytes 8 off) @ xs) =
      (load 0 1 (le_bytes 8 off) :: byte res)"
    using load_inside [of 0 1 "le_bytes 8 off" ?pre "32 + length d" xs, folded eq] by simp
  also have "\<dots> = Inr (ucast off :: byte)"
    by (simp add: load_def mem_read_def le_bytes_Suc numeral_eq_Suc)
  finally have "load (32 + length d) 1 (bdata (mdata msg)) = Inr (ucast off :: byte)" using data by simp
  moreover have "unat (ucast off :: byte) = unat off" using d off by (simp add: unat_ucast_mod)
  ultimately show thesis
    using TransactionDataFromMessage_packed [OF data d] off d
    by (intro that) (auto simp: object_offset_def)
qed

definition with_data :: "message \<Rightarrow> byte list \<Rightarrow> message" where
  "with_data msg b = msg\<lparr>mdata := (mdata msg)\<lparr>bdata := b\<rparr>\<rparr>"

lemma with_data_simps [simp]:
  "mcookie (with_data msg b) = mcookie msg" "mdestination (with_data msg b) = mdestination msg"
  "bdata (mdata (with_data msg b)) = b"
  by (simp_all add: with_data_def)

lemma with_block_with_data: "with_block msg tr = with_data msg (td_block tr)"
  by (simp add: with_block_def with_data_def)

lemma upd_sess_other: "x \<noteq> t \<Longrightarrow> sess (upd_sess x f s) t = sess s t"
  by simp

text \<open>The caller's side: the object gets a handle.\<close>

lemma Translate_caller:
  assumes data: "bdata (mdata msg) = td_packed p c code flags d (le_bytes 8 (off :: u64)) @ xs"
    and d: "length d < 256" and off: "unat off + 24 \<le> length d"
    and ty: "flat_type (unat off) d = Inr BINDER_TYPE_BINDER"
    and q: "flat_ptr (unat off) d = Inr q" "flat_cookie (unat off) d = Inr qc"
    and new: "NewObjectHandle x (reg s) = (h, r)"
  obtains td td' d' where "TransactionDataFromMessage msg = Inr td"
    and "TranslateObjects x td s = (Inr (OK, td'),
        upd_sess x (\<lambda>y. y\<lparr>objects := um_insert h \<lparr>bo_ptr = q, bo_cookie = qc\<rparr> (objects y)\<rparr>) (s\<lparr>reg := r\<rparr>))"
    and "td_block td' = td_packed p c code flags d' (le_bytes 8 off) @ xs" and "length d' = length d"
    and "flat_type (unat off) d' = Inr BINDER_TYPE_HANDLE" and "flat_handle (unat off) d' = Inr (ucast h)"
    and "flat_rewrite (unat off) BINDER_TYPE_HANDLE 0 0 (ucast h) d = Inr d'"
proof -
  obtain td where td: "TransactionDataFromMessage msg = Inr td" "td_count td = 1"
    "object_offset td 0 = Inr (unat off)" "td_writable td" "td_base td = 28"
    "td_block td = bdata (mdata msg)"
    using one_object [OF data d off] by metis
  let ?p = "28 + unat off"
  have fl: "flat_type ?p (td_block td) = Inr BINDER_TYPE_BINDER" "?p + 24 \<le> length (td_block td)"
    "flat_ptr ?p (td_block td) = Inr q" "flat_cookie ?p (td_block td) = Inr qc"
    using td(6) data off ty q by (simp_all add: flat_td_packed)
  from fl(1,2) new obtain q2 c2 b where b2: "flat_ptr ?p (td_block td) = Inr q2"
    "flat_cookie ?p (td_block td) = Inr c2"
    and b: "TranslateObject x ?p td s = (Inr (OK, td\<lparr>td_block := b\<rparr>),
        upd_sess x (\<lambda>y. y\<lparr>objects := um_insert h \<lparr>bo_ptr = q2, bo_cookie = c2\<rparr> (objects y)\<rparr>) (s\<lparr>reg := r\<rparr>))"
    "length b = length (td_block td)"
    "flat_type ?p b = Inr BINDER_TYPE_HANDLE" "flat_handle ?p b = Inr (ucast h)"
    "flat_rewrite ?p BINDER_TYPE_HANDLE 0 0 (ucast h) (td_block td) = Inr b"
    by (rule TranslateObject_binder) (rule that)
  have eqs: "q2 = q" "c2 = qc" using b2 fl(3,4) by simp_all
  obtain d' where rw: "flat_rewrite (unat off) BINDER_TYPE_HANDLE 0 0 (ucast h) d = Inr d'" and l: "length d' = length d"
    by (rule flat_rewrite_ok [OF off])
  have d': "b = td_packed p c code flags d' (le_bytes 8 off) @ xs" "length d' = length d"
    using b(5) td(6) data rw l td_packed_rewrite [OF off] by simp_all
  show thesis
  proof (rule that [OF td(1)])
    show "TranslateObjects x td s = (Inr (OK, td\<lparr>td_block := b\<rparr>),
        upd_sess x (\<lambda>y. y\<lparr>objects := um_insert h \<lparr>bo_ptr = q, bo_cookie = qc\<rparr> (objects y)\<rparr>) (s\<lparr>reg := r\<rparr>))"
      by (rule TranslateObjects_one [OF td(2,3,4)]) (use b(1) td(5) eqs in simp)
    show "td_block (td\<lparr>td_block := b\<rparr>) = td_packed p c code flags d' (le_bytes 8 off) @ xs" using d'(1) by simp
    show "length d' = length d" by (fact d')
    show "flat_type (unat off) d' = Inr BINDER_TYPE_HANDLE" "flat_handle (unat off) d' = Inr (ucast h)"
      using b(3,4) d' off by (simp_all add: flat_td_packed)
    show "flat_rewrite (unat off) BINDER_TYPE_HANDLE 0 0 (ucast h) d = Inr d'" by (fact rw)
  qed
qed

text \<open>The target's side: a handle it does not own is passed on.\<close>

lemma PostTransaction_handle:
  assumes a: "total_alloc (alloc s)" and y: "sess s t = Some y"
    and data: "bdata (mdata (tr_message rec)) = td_packed p c code flags d (le_bytes 8 (off :: u64)) @ xs"
    and d: "length d < 256" and off: "unat off + 24 \<le> length d"
    and ty: "flat_type (unat off) d = Inr BINDER_TYPE_HANDLE" and h: "flat_handle (unat off) d = Inr h"
    and foreign: "um_find (ucast h) (objects y) = None"
    and ob: "target_object (mdestination (tr_message rec)) y = Some (q, qc)"
  shows "PostTransaction t rec s =
    (Inr OK, deliver t (posted (next_transaction_cookie y) (mdestination (tr_message rec)) q qc
        (low_byte code) d (le_bytes 8 off)) (upd_sess t (add_pending (next_transaction_cookie y) rec) s))"
proof -
  let ?msg = "tr_message rec" and ?k = "next_transaction_cookie y"
  obtain td where td: "TransactionDataFromMessage ?msg = Inr td" "td_count td = 1"
    "object_offset td 0 = Inr (unat off)" "td_writable td" "td_base td = 28" "td_size td = length d"
    "td_offsets td = InBlock (32 + length d)" "td_block td = bdata (mdata ?msg)" "td_code td = low_byte code"
    using one_object [OF data d off] by metis
  let ?td = "Writable_over q qc (td_code td) td"
  let ?s1 = "upd_sess t (\<lambda>y. y\<lparr>next_transaction_cookie := next_transaction_cookie y + 1\<rparr>) s"
  have td': "td_count ?td = 1" "object_offset ?td 0 = Inr (unat off)" "td_writable ?td" "td_base ?td = 28"
    "td_block ?td = bdata (mdata ?msg)" "td_size ?td = length d" "td_offsets ?td = InBlock (32 + length d)"
    "td_ptr ?td = q" "td_cookie ?td = qc" "td_code ?td = td_code td" "td_flags ?td = 0x10"
    using td by (simp_all add: Writable_over_def object_offset_def td_flags_def)
  have "TranslateObject t (28 + unat off) ?td ?s1 = (Inr (OK, ?td), ?s1)"
    by (rule TranslateObject_foreign_handle [where
          y = "y\<lparr>next_transaction_cookie := next_transaction_cookie y + 1\<rparr>"])
      (use td'(5) data off ty h y foreign in \<open>simp_all add: flat_td_packed\<close>)
  then have tr: "TranslateObjects t ?td ?s1 = (Inr (OK, ?td), ?s1)"
    by (intro TranslateObjects_one [OF td'(1-3)]) (simp add: td'(4))
  have d': "GetData_bytes ?td = Inr d"
    using td' data by (simp add: GetData_bytes_def mem_read_def td_packed_def)
  have os: "GetObjectOffsets_bytes ?td = Inr (le_bytes 8 off)"
    using td' data by (simp add: GetObjectOffsets_bytes_def mem_read_def td_packed_def)
  have "with_block ?msg ?td = ?msg" using td'(5) by simp
  then show ?thesis
    using PostTransaction_translated [OF a y td(1) ob tr td'(8-11) d' os] d td(9) y
    by (simp add: add_pending_def [abs_def] upd_sess_def)
qed

definition add_object :: "sid \<Rightarrow> u64 \<Rightarrow> binder_object \<Rightarrow> registry \<Rightarrow> server \<Rightarrow> server" where
  "add_object x h ob r s = upd_sess x (\<lambda>y. y\<lparr>objects := um_insert h ob (objects y)\<rparr>) (s\<lparr>reg := r\<rparr>)"

lemma add_object_simps [simp]:
  "reg (add_object x h ob r s) = r" "alloc (add_object x h ob r s) = alloc s"
  "next_sid (add_object x h ob r s) = next_sid s"
  by (simp_all add: add_object_def)

lemma OnTransaction_object:
  assumes a: "total_alloc (alloc s)"
    and data: "bdata (mdata msg) = td_packed p c code flags d (le_bytes 8 (off :: u64)) @ xs"
    and d: "length d < 256" and off: "unat off + 24 \<le> length d"
    and ty: "flat_type (unat off) d = Inr BINDER_TYPE_BINDER"
    and q: "flat_ptr (unat off) d = Inr q" "flat_cookie (unat off) d = Inr qc"
    and new: "NewObjectHandle x (reg s) = (h, r)"
    and t: "FindSessionByHandle (mdestination msg) r = Some t" "x \<noteq> t"
    and y: "sess s t = Some y" and ob: "target_object (mdestination msg) y = Some (tq, tqc)"
    and foreign: "um_find (ucast (ucast h :: u32)) (objects y) = None"
  obtains d' where "OnTransaction x msg s =
      (Inr (), deliver x (status_reply (mcookie msg) OK)
        (deliver t (posted (next_transaction_cookie y) (mdestination msg) tq tqc (low_byte code) d' (le_bytes 8 off))
          (upd_sess t (add_pending (next_transaction_cookie y)
             \<lparr>tr_caller = x, tr_reply_cookie = mcookie msg,
              tr_message = with_data msg (td_packed p c code flags d' (le_bytes 8 off) @ xs)\<rparr>)
            (add_object x h \<lparr>bo_ptr = q, bo_cookie = qc\<rparr> r s))))"
    and "length d' = length d"
    and "flat_type (unat off) d' = Inr BINDER_TYPE_HANDLE" and "flat_handle (unat off) d' = Inr (ucast h)"
    and "flat_rewrite (unat off) BINDER_TYPE_HANDLE 0 0 (ucast h) d = Inr d'"
proof -
  obtain td td' d' where tr: "TransactionDataFromMessage msg = Inr td"
    "TranslateObjects x td s = (Inr (OK, td'), add_object x h \<lparr>bo_ptr = q, bo_cookie = qc\<rparr> r s)"
    "td_block td' = td_packed p c code flags d' (le_bytes 8 off) @ xs"
    and d': "length d' = length d" "flat_type (unat off) d' = Inr BINDER_TYPE_HANDLE"
      "flat_handle (unat off) d' = Inr (ucast h)" "flat_rewrite (unat off) BINDER_TYPE_HANDLE 0 0 (ucast h) d = Inr d'"
    unfolding add_object_def by (rule Translate_caller [OF data d off ty q new])
  let ?s = "add_object x h \<lparr>bo_ptr = q, bo_cookie = qc\<rparr> r s"
  let ?msg = "with_data msg (td_packed p c code flags d' (le_bytes 8 off) @ xs)"
  let ?rec = "\<lparr>tr_caller = x, tr_reply_cookie = mcookie msg, tr_message = ?msg\<rparr>"
  have "PostTransaction t ?rec ?s =
    (Inr OK, deliver t (posted (next_transaction_cookie y) (mdestination msg) tq tqc
        (low_byte code) d' (le_bytes 8 off)) (upd_sess t (add_pending (next_transaction_cookie y) ?rec) ?s))"
  proof (subst PostTransaction_handle)
    show "sess ?s t = Some y" using t(2) y by (simp add: add_object_def)
  qed (use a d off d' ob foreign in \<open>simp_all\<close>)
  then show thesis
    using a t tr by (intro that [OF _ d']) (simp add: OnTransaction_def run_simps with_block_with_data Let_def)
qed

section \<open>Reading a frame\<close>

lemma process_one:
  assumes "bdata b = packed m" and "length (bdata (mdata m)) < 256"
  shows "process_messages x (MessageParser b (buffer_GetSize b)) =
    seqS (ProcessMessage x (truncated m)) (retS ())"
proof -
  let ?p = "MessageParser b (buffer_GetSize b)"
  have "Parser_Next ?p = Inr (Some (truncated m), ?p\<lparr>consumed := length (packed m)\<rparr>)"
    using assms Parser_Next_packed [of ?p "[]" m "[]"]
    by (simp add: MessageParser_def buffer_GetSize_def)
  moreover have "Parser_Next (?p\<lparr>consumed := length (packed m)\<rparr>) =
      Inr (None, ?p\<lparr>consumed := length (packed m)\<rparr>)"
    using assms by (simp add: Parser_Next_end MessageParser_def buffer_GetSize_def)
  then have "process_messages x (?p\<lparr>consumed := length (packed m)\<rparr>) = retS ()"
    by (subst process_messages.simps) simp
  ultimately show ?thesis by (subst process_messages.simps) simp
qed

lemma OnRead_frame:
  assumes "bdata b = packed m" and "length (bdata (mdata m)) < 256"
    and "ProcessMessage x (truncated m) (upd_sess x (\<lambda>y. y\<lparr>reading := False\<rparr>) s) = (Inr (), s')"
  shows "OnRead x (Some b) s = (Inr (), upd_sess x (\<lambda>y. y\<lparr>reading := True\<rparr>) s')"
  using assms by (simp add: OnRead_def process_one ReadNextMessage_def run_simps)

lemma OnRead_frame_exn:
  assumes "bdata b = packed m" and "length (bdata (mdata m)) < 256"
    and "ProcessMessage x (truncated m) (upd_sess x (\<lambda>y. y\<lparr>reading := False\<rparr>) s) = (Inl e, s')"
  shows "OnRead x (Some b) s = (Inl e, s')"
  using assms by (simp add: OnRead_def process_one run_simps)

section \<open>Example states\<close>

text \<open>A server with two connected clients, the first of which is the context manager.\<close>

definition two_clients :: server where
  "two_clients =
     (Accept (Accept (Server_Create plain_alloc)))\<lparr>reg := SetContextManager (Some 0) Registry_Create\<rparr>"

lemma two_clients_simps [simp]:
  "alloc two_clients = plain_alloc"
  "reg two_clients = SetContextManager (Some 0) Registry_Create"
  "sess two_clients x =
     (if x = 0 then Some ((new_session 0)\<lparr>reading := True\<rparr>)
      else if x = 1 then Some ((new_session 1)\<lparr>reading := True\<rparr>) else None)"
  "next_sid two_clients = 2"
  by (simp_all add: two_clients_def Accept_def Let_def upd_sess_def Server_Create_def)

lemma two_clients_ok: "server_ok two_clients"
  by (auto simp: server_ok_def registry_ok_Create registry_ok_set)
    (simp_all add: SetContextManager_def Registry_Create_def new_session_def split: if_splits)

lemma new_session_simps [simp]:
  "objects (new_session i) = []" "pending_transactions (new_session i) = []"
  "death_notifications (new_session i) = []" "next_transaction_cookie (new_session i) = 0"
  "outbox (new_session i) = []" "session_id (new_session i) = i"
  by (simp_all add: new_session_def)

text \<open>A client that asks to be the context manager.\<close>

lemma reachable_context_manager:
  "\<exists>s. server_reachable plain_alloc s \<and> FindSessionByHandle 0 (reg s) = Some 0"
proof -
  let ?m = "Message_Create TSetContextMgr"
  let ?b = "Buffer_view (packed ?m)" and ?s = "Accept (Server_Create plain_alloc)"
  let ?s1 = "upd_sess 0 (\<lambda>y. y\<lparr>reading := False\<rparr>) ?s"
  have tm: "mtype (truncated ?m) = TSetContextMgr" "fits (truncated ?m)"
    using truncated_id [of ?m] by (simp_all add: Message_Create_def known_types_def fits_def)
  have s: "alloc ?s1 = plain_alloc" "reg ?s1 = Registry_Create" "sess ?s 0 = Some ((new_session 0)\<lparr>reading := True\<rparr>)"
    by (simp_all add: Accept_def Let_def Server_Create_def)
  have run: "\<exists>s'. ProcessMessage 0 (truncated ?m) ?s1 = (Inr (), s') \<and> context_mgr (reg s') = Some 0"
    using OnSetContextManager_run [of ?s1 "truncated ?m" 0] s tm
    by (simp add: ProcessMessage_def Registry_Create_def Let_def SetContextManager_def)
  then obtain s' where s': "ProcessMessage 0 (truncated ?m) ?s1 = (Inr (), s')" "context_mgr (reg s') = Some 0"
    by blast
  have rd: "OnRead 0 (Some ?b) ?s = (Inr (), upd_sess 0 (\<lambda>y. y\<lparr>reading := True\<rparr>) s')"
    using s'(1) by (intro OnRead_frame [where m = ?m]) (simp_all add: Buffer_view_def Message_Create_def)
  have "server_step ?s (upd_sess 0 (\<lambda>y. y\<lparr>reading := True\<rparr>) s')"
    by (rule server_step.receive [OF s(3) _ rd]) simp_all
  moreover have "server_reachable plain_alloc ?s"
    by (intro server_reachable.step [OF server_reachable.init] server_step.accept)
  ultimately have "server_reachable plain_alloc (upd_sess 0 (\<lambda>y. y\<lparr>reading := True\<rparr>) s')"
    by (blast intro: server_reachable.step)
  then show ?thesis using s'(2) by (auto simp: FindSessionByHandle_def)
qed

section \<open>Properties\<close>

text \<open>C18: in every state the server can reach, a handle that the registry resolves to a
  session is one for which that session has an object (or the context manager's), so
  a transaction is never refused because registry and object maps disagree.\<close>

theorem registry_and_objects_agree:
  assumes "server_reachable a s" and "FindSessionByHandle h (reg s) = Some x"
  shows "\<exists>y. sess s x = Some y \<and> target_object h y \<noteq> None"
proof -
  have ok: "server_ok s" using assms(1) by (rule server_ok_reachable)
  show ?thesis
  proof (cases "h = 0")
    case True
    then have "x < next_sid s" using ok assms(2) by (simp add: server_ok_def FindSessionByHandle_def)
    then show ?thesis using server_ok_exists [OF ok, of x] True
      by (auto simp: target_object_def split: option.splits)
  next
    case False
    then have "um_find h (handles (reg s)) = Some x" using assms(2) by (simp add: FindSessionByHandle_def)
    with ok show ?thesis by (rule server_ok_handle) (auto simp: target_object_def)
  qed
qed

theorem registry_and_objects_agree_witness:
  "\<exists>s y. server_reachable plain_alloc s \<and> FindSessionByHandle 0 (reg s) = Some 0 \<and>
     sess s 0 = Some y \<and> target_object 0 y \<noteq> None"
proof -
  obtain s where s: "server_reachable plain_alloc s" "FindSessionByHandle 0 (reg s) = Some 0"
    using reachable_context_manager by blast
  with registry_and_objects_agree [OF s] show ?thesis by blast
qed

text \<open>at most one reply to a transaction is passed on: after a reply, a second message
  with the same cookie leaves the server as it is.\<close>

theorem OnReply_only_once:
  assumes "OnReply x msg s = (Inr (), s')" and "mcookie msg' = mcookie msg"
  shows "OnReply x msg' s' = (Inr (), s')"
  using OnReply_erases [OF assms(1)] assms(2) OnReply_unknown by auto

theorem OnReply_only_once_witness:
  "OnReply 0 (Message_Create TStatus) two_clients = (Inr (), two_clients)"
  using OnReply_only_once [of 0 "Message_Create TStatus" two_clients two_clients "Message_Create TStatus"]
    OnReply_unknown [of two_clients 0 _ "Message_Create TStatus"] by simp

text \<open>C17: a whole call. The transaction of session \<open>x\<close> reaches the session \<open>t\<close> that owns
  the destination, with that object's pointer and cookie and under a cookie of \<open>t\<close>;
  \<open>x\<close> is told that it was delivered; and when \<open>t\<close> answers that cookie, the answer
  reaches \<open>x\<close> under the cookie of its transaction.\<close>

theorem transaction_and_reply:
  assumes a: "total_alloc (alloc s)"
    and data: "bdata (mdata msg) = td_packed p c code flags d [] @ xs" and d: "length d < 256"
    and t: "FindSessionByHandle (mdestination msg) (reg s) = Some t" and y: "sess s t = Some y"
    and ob: "target_object (mdestination msg) y = Some (q, qc)"
    and fresh: "um_find (next_transaction_cookie y) (pending_transactions y) = None"
    and reply: "fits reply" "mcookie reply = next_transaction_cookie y"
  shows "\<exists>s1. OnTransaction x msg s = (Inr (), s1) \<and>
    s1 = deliver x (status_reply (mcookie msg) OK)
      (deliver t (posted (next_transaction_cookie y) (mdestination msg) q qc (low_byte code) d [])
        (upd_sess t (add_pending (next_transaction_cookie y)
            \<lparr>tr_caller = x, tr_reply_cookie = mcookie msg, tr_message = msg\<rparr>) s)) \<and>
    OnReply t reply s1 = (Inr (), deliver x (SetCookie (mcookie msg) reply)
      (upd_sess t (\<lambda>y. y\<lparr>pending_transactions := um_erase (mcookie reply) (pending_transactions y)\<rparr>) s1))"
proof -
  let ?k = "next_transaction_cookie y"
  let ?rec = "\<lparr>tr_caller = x, tr_reply_cookie = mcookie msg, tr_message = msg\<rparr>"
  let ?s0 = "upd_sess t (add_pending ?k ?rec) s"
  let ?s1 = "deliver x (status_reply (mcookie msg) OK)
      (deliver t (posted ?k (mdestination msg) q qc (low_byte code) d []) ?s0)"
  have run: "OnTransaction x msg s = (Inr (), ?s1)" by (rule OnTransaction_run [OF a data d t y ob])
  have "only_sends ?s0 ?s1" by (blast intro: only_sends_deliver only_sends_trans)
  moreover have "sess ?s0 t = Some (add_pending ?k ?rec y)" using y by simp
  ultimately obtain bs where
    "sess ?s1 t = Some ((add_pending ?k ?rec y)\<lparr>outbox := outbox (add_pending ?k ?rec y) @ bs\<rparr>)"
    using only_sendsD(6) by blast
  moreover have "um_find ?k (pending_transactions (add_pending ?k ?rec y)) = Some ?rec"
    using fresh by (simp add: add_pending_def um_find_simps)
  ultimately show ?thesis
    using run OnReply_run [of ?s1 reply t _ ?rec] a reply by simp
qed

theorem transaction_and_reply_witness:
  "\<exists>s1 s2. OnTransaction 1 (fresh_message TTransaction 9 0 (td_packed 0 0 2 0x10 [7] [])) two_clients = (Inr (), s1) \<and>
     OnReply 0 (Message_Create TTransactionReply) s1 =
       (Inr (), deliver 1 (SetCookie 9 (Message_Create TTransactionReply)) s2)"
  using transaction_and_reply [of two_clients "fresh_message TTransaction 9 0 (td_packed 0 0 2 0x10 [7] [])"
      0 0 2 "0x10" "[7]" "[]" 0 "(new_session 0)\<lparr>reading := True\<rparr>" 0 0 "Message_Create TTransactionReply" 1]
  by (auto simp: FindSessionByHandle_def SetContextManager_def target_object_def fits_def Message_Create_def)

text \<open>C20: an object that a transaction carries is registered under a new handle of the
  sender, the receiver finds that handle in the place of the object, and the rest of
  the call goes as without objects; from then on the handle leads to the sender.\<close>

theorem object_becomes_handle:
  assumes "total_alloc (alloc s)"
    and "bdata (mdata msg) = td_packed p c code flags d (le_bytes 8 (off :: u64)) @ xs"
    and "length d < 256" and "unat off + 24 \<le> length d"
    and "flat_type (unat off) d = Inr BINDER_TYPE_BINDER"
    and "flat_ptr (unat off) d = Inr q" and "flat_cookie (unat off) d = Inr qc"
    and "given_out (reg s)" and "NewObjectHandle x (reg s) = (h, r)"
    and "FindSessionByHandle (mdestination msg) r = Some t" and "x \<noteq> t"
    and "sess s t = Some y" and "target_object (mdestination msg) y = Some (tq, tqc)"
    and "um_find (ucast (ucast h :: u32)) (objects y) = None"
  shows "\<exists>d' s'. OnTransaction x msg s = (Inr (), s') \<and>
    s' = deliver x (status_reply (mcookie msg) OK)
        (deliver t (posted (next_transaction_cookie y) (mdestination msg) tq tqc (low_byte code) d' (le_bytes 8 off))
          (upd_sess t (add_pending (next_transaction_cookie y)
             \<lparr>tr_caller = x, tr_reply_cookie = mcookie msg,
              tr_message = with_data msg (td_packed p c code flags d' (le_bytes 8 off) @ xs)\<rparr>)
            (add_object x h \<lparr>bo_ptr = q, bo_cookie = qc\<rparr> r s))) \<and>
    FindSessionByHandle h (reg s') = Some x \<and> length d' = length d \<and>
    flat_type (unat off) d' = Inr BINDER_TYPE_HANDLE \<and> flat_handle (unat off) d' = Inr (ucast h)"
proof -
  have own: "FindSessionByHandle h r = Some x" by (rule NewObjectHandle_fresh [OF assms(8,9)])
  show ?thesis
  proof (rule OnTransaction_object [OF assms(1-7,9-14)], goal_cases)
    case (1 d')
    then show ?case using own by (intro exI [of _ d']) simp
  qed
qed

text \<open>A parcel with one object reference at its start.\<close>

definition object_parcel :: "u32 \<Rightarrow> u64 \<Rightarrow> u64 \<Rightarrow> byte list" where
  "object_parcel t q c = le_bytes 4 t @ replicate 4 0 @ le_bytes 8 q @ le_bytes 8 c"

lemma object_parcel_handle: "flat_handle 0 (object_parcel t q c) = Inr (ucast q)"
proof -
  have "(le_word (le_bytes 4 q) :: u32) = ucast q"
    by (rule bit_word_eqI) (auto simp: bit_le_word_le_bytes bit_simps)
  then show ?thesis
    by (simp add: object_parcel_def flat_defs load_def mem_read_def take_le_bytes)
qed

lemma object_parcel_fields:
  "flat_type 0 (object_parcel t q c) = Inr t" "flat_ptr 0 (object_parcel t q c) = Inr q"
  "flat_cookie 0 (object_parcel t q c) = Inr c" "length (object_parcel t q c) = 24"
  by (simp_all add: object_parcel_def flat_defs load_def mem_read_def le_word_le_bytes)

theorem object_becomes_handle_witness:
  "\<exists>d' s'. OnTransaction 1 (fresh_message TTransaction 9 0
       (td_packed 0 0 2 0x10 (object_parcel BINDER_TYPE_BINDER 0xAABBCCDD00112233 5) (le_bytes 8 (0 :: u64)))) two_clients =
     (Inr (), s') \<and> FindSessionByHandle 1 (reg s') = Some 1 \<and>
     flat_type 0 d' = Inr BINDER_TYPE_HANDLE \<and> flat_handle 0 d' = Inr 1"
proof -
  let ?d = "object_parcel BINDER_TYPE_BINDER 0xAABBCCDD00112233 5"
  let ?msg = "fresh_message TTransaction 9 0 (td_packed 0 0 2 0x10 ?d (le_bytes 8 (0 :: u64)))"
  obtain r where r: "NewObjectHandle 1 (reg two_clients) = (1, r)" "FindSessionByHandle 0 r = Some 0"
    by (simp add: NewObjectHandle_def Registry_Create_def SetContextManager_def FindSessionByHandle_def)
  have g: "given_out (reg two_clients)"
    by (simp add: given_out_def SetContextManager_def Registry_Create_def)
  show ?thesis
    using object_becomes_handle [of two_clients ?msg 0 0 2 "0x10" ?d 0 "[]" "0xAABBCCDD00112233" 5 1 1 r 0
        "(new_session 0)\<lparr>reading := True\<rparr>" 0 0] r g
    by (auto simp: object_parcel_fields target_object_def simp del: binder_type_values)
qed

text \<open>a handle that comes back to its owner is turned into a weak reference with the
  recorded cookie, but of the recorded pointer only the upper 32 bits are left: the
  handle shares its place and is cleared last.\<close>

theorem own_handle_loses_pointer:
  assumes "flat_type p (td_block tr) = Inr BINDER_TYPE_HANDLE" and "p + 24 \<le> length (td_block tr)"
    and "flat_handle p (td_block tr) = Inr h" and "sess s x = Some y"
    and "um_find (ucast h) (objects y) = Some ob"
  shows "\<exists>b. TranslateObject x p tr s = (Inr (OK, tr\<lparr>td_block := b\<rparr>), s) \<and>
    flat_type p b = Inr BINDER_TYPE_WEAK_BINDER \<and> flat_cookie p b = Inr (bo_cookie ob) \<and>
    flat_ptr p b = Inr (push_bit 32 (drop_bit 32 (bo_ptr ob)))"
  by (rule TranslateObject_own_handle [OF assms]) blast

theorem own_handle_loses_pointer_witness:
  "\<exists>b. TranslateObject 0 0 (WritableTransactionData 0 0 0 False
       (Some (Buffer_view (object_parcel BINDER_TYPE_HANDLE 1 0))) None)
       (add_object 0 1 \<lparr>bo_ptr = 0xAABBCCDD00112233, bo_cookie = 5\<rparr> Registry_Create two_clients) =
     (Inr (OK, (WritableTransactionData 0 0 0 False
       (Some (Buffer_view (object_parcel BINDER_TYPE_HANDLE 1 0))) None)\<lparr>td_block := b\<rparr>),
      add_object 0 1 \<lparr>bo_ptr = 0xAABBCCDD00112233, bo_cookie = 5\<rparr> Registry_Create two_clients) \<and>
     flat_cookie 0 b = Inr 5 \<and> flat_ptr 0 b = Inr 0xAABBCCDD00000000"
proof -
  let ?tr = "WritableTransactionData 0 0 0 False
       (Some (Buffer_view (object_parcel BINDER_TYPE_HANDLE 1 0))) None"
  let ?s = "add_object 0 1 \<lparr>bo_ptr = 0xAABBCCDD00112233, bo_cookie = 5\<rparr> Registry_Create two_clients"
  have tr: "td_block ?tr = object_parcel BINDER_TYPE_HANDLE 1 0"
    by (simp add: WritableTransactionData_def Buffer_view_def)
  have f1: "flat_type 0 (td_block ?tr) = Inr BINDER_TYPE_HANDLE" by (simp only: tr object_parcel_fields)
  have f2: "0 + 24 \<le> length (td_block ?tr)" by (simp only: tr object_parcel_fields)
  have f3: "flat_handle 0 (td_block ?tr) = Inr 1"
    unfolding tr object_parcel_handle by simp
  have f4: "sess ?s 0 = Some ((new_session 0)\<lparr>reading := True,
      objects := [(1, \<lparr>bo_ptr = 0xAABBCCDD00112233, bo_cookie = 5\<rparr>)]\<rparr>)" (is "_ = Some ?y")
    by (simp add: add_object_def um_insert_def um_find_def)
  have f5: "um_find (ucast (1 :: u32)) (objects ?y) = Some \<lparr>bo_ptr = 0xAABBCCDD00112233, bo_cookie = 5\<rparr>"
    by (simp add: um_find_def)
  have "push_bit 32 (drop_bit 32 (0xAABBCCDD00112233 :: u64)) = 0xAABBCCDD00000000" by simp
  with own_handle_loses_pointer [OF f1 f2 f3 f4 f5] show ?thesis
    by (simp only: binder_object.simps) blast
qed

text \<open>C19: when a session ends in a state that meets the server's invariant, none of its
  handles is left in the registry, it is neither context manager nor monitor any
  more, it has left the session table, and every session that held a reference to one
  of its objects and had asked for it was sent a death notification.\<close>

theorem Terminate_cleans_up:
  assumes ok: "server_ok s" and a: "total_alloc (alloc s)" and y: "sess s x = Some y"
  shows "\<exists>s'. Terminate x s = (Inr (), s') \<and>
    (\<forall>h. um_find h (handles (reg s')) \<noteq> Some x) \<and>
    context_mgr (reg s') \<noteq> Some x \<and> monitor (reg s') \<noteq> Some x \<and>
    um_find (session_id y) (table s') = None \<and>
    (\<forall>h l z yz object_id. um_find h (objects y) \<noteq> None \<longrightarrow> um_find h (references (reg s)) = Some l \<longrightarrow>
       z \<in> set l \<longrightarrow> sess s z = Some yz \<longrightarrow> um_find h (death_notifications yz) = Some object_id \<longrightarrow>
       (\<exists>yz'. sess s' z = Some yz' \<and> packed (dead_binder h object_id) \<in> set (drop (length (outbox yz)) (outbox yz'))))"
proof -
  obtain s' y' where t: "Terminate x s = (Inr (), s')"
    "\<And>h. um_find h (handles (reg s')) =
      (if um_find h (objects y) \<noteq> None then None else um_find h (handles (reg s)))"
    "context_mgr (reg s') = (if context_mgr (reg s) = Some x then None else context_mgr (reg s))"
    "monitor (reg s') = (if monitor (reg s) = Some x then None else monitor (reg s))"
    "table s' = um_erase (session_id y) (table s)"
    "\<And>h l z. um_find h (objects y) \<noteq> None \<Longrightarrow> um_find h (references (reg s)) = Some l \<Longrightarrow>
      z \<in> set l \<Longrightarrow> told h z s s'"
    by (rule Terminate_run [OF ok a y]) (rule that)
  have "um_find h (handles (reg s')) \<noteq> Some x" for h
    using t(2) [of h] server_ok_handle [OF ok, of h x] y by (auto split: if_splits)
  moreover have "um_find (session_id y) (table s') = None" using t(5) by (simp add: um_find_simps)
  moreover have "context_mgr (reg s') \<noteq> Some x" "monitor (reg s') \<noteq> Some x"
    using t(3,4) by (simp_all split: if_splits)
  ultimately show ?thesis using t(1,6) unfolding told_def by blast
qed

theorem Terminate_cleans_up_witness:
  "\<exists>s'. Terminate 0 two_clients = (Inr (), s') \<and> context_mgr (reg s') \<noteq> Some 0"
  using Terminate_cleans_up [OF two_clients_ok, of 0 "(new_session 0)\<lparr>reading := True\<rparr>"] by auto

text \<open>there is one context manager: a session becomes it only when there is none, and
  is told so; otherwise the registry keeps what it has and the session gets
  \<open>AlreadyExists\<close>.\<close>

theorem context_manager_is_unique:
  assumes "total_alloc (alloc s)" and "fits msg"
  shows "\<exists>s' st. OnSetContextManager x msg s = (Inr (), deliver x (status_reply (mcookie msg) st) s') \<and>
    reg s' = (reg s)\<lparr>context_mgr := (if context_mgr (reg s) = None then Some x else context_mgr (reg s))\<rparr> \<and>
    st = (if context_mgr (reg s) = None then OK else AlreadyExists)"
proof -
  let ?s1 = "case monitor (reg s) of None \<Rightarrow> s | Some m \<Rightarrow> put m (log_entry msg) s"
  have "reg ?s1 = reg s" by (simp split: option.splits)
  then show ?thesis
    using OnSetContextManager_run [OF assms, of x]
    by (cases "context_mgr (reg s) = None") (auto simp: Let_def SetContextManager_def)
qed

theorem context_manager_is_unique_witness:
  "\<exists>s'. OnSetContextManager 1 (Message_Create TSetContextMgr) two_clients =
     (Inr (), deliver 1 (status_reply 0 AlreadyExists) s') \<and> context_mgr (reg s') = Some 0"
  using context_manager_is_unique [of two_clients "Message_Create TSetContextMgr" 1]
  by (auto simp: fits_def Message_Create_def SetContextManager_def)

text \<open>C24: an \<open>Acquire\<close> message with fewer than eight bytes of data makes the handler throw:
  the session gets no answer and is left without a pending read, so it takes no
  further step.\<close>

theorem short_Acquire_stops_session:
  assumes "bdata b = packed m" and "mtype m = TAcquire" and "length (bdata (mdata m)) < 8"
  shows "OnRead x (Some b) s = (Inl OutOfRange, upd_sess x (\<lambda>y. y\<lparr>reading := False\<rparr>) s)"
proof -
  have "mtype (truncated m) = TAcquire"
    using assms(2) type_of_low_byte_code [of TAcquire]
    by (simp add: truncated_def Let_def known_types_def)
  moreover have "length (bdata (mdata (truncated m))) < 8"
    using assms(3) by (simp add: truncated_def Let_def Buffer_view_def)
  ultimately show ?thesis
    using assms by (intro OnRead_frame_exn [where m = m]) (simp_all add: ProcessMessage_def OnReference_short)
qed

theorem short_Acquire_stops_session_witness:
  "OnRead 1 (Some (Buffer_view (packed (Message_Create TAcquire)))) two_clients =
     (Inl OutOfRange, upd_sess 1 (\<lambda>y. y\<lparr>reading := False\<rparr>) two_clients)"
  by (rule short_Acquire_stops_session [where m = "Message_Create TAcquire"])
    (simp_all add: Buffer_view_def Message_Create_def)

text \<open>a transaction posted under a cookie of 256 or more is never answered: no message
  that the parser produces carries that cookie, so the entry stays pending.\<close>

theorem large_cookie_stays_pending:
  assumes "Parser_Next p = Inr (Some msg, p')" and "256 \<le> unat c"
    and "OnReply x msg s = (Inr (), s')"
    and "sess s x = Some y" and "um_find c (pending_transactions y) = Some tr"
  shows "\<exists>y'. sess s' x = Some y' \<and> um_find c (pending_transactions y') = Some tr"
proof (cases "um_find (mcookie msg) (pending_transactions y)")
  case None
  then show ?thesis using assms OnReply_unknown [OF assms(4) None] by simp
next
  case (Some tr')
  let ?f = "\<lambda>y. y\<lparr>pending_transactions := um_erase (mcookie msg) (pending_transactions y)\<rparr>"
  have "mcookie msg \<noteq> c" using Parser_Next_small(1) [OF assms(1)] assms(2) by auto
  moreover have "WriteMessage (tr_caller tr') (SetCookie (tr_reply_cookie tr') msg) (upd_sess x ?f s) = (Inr (), s')"
    using assms(3,4) Some by (simp add: OnReply_def run_simps)
  then have "only_sends (upd_sess x ?f s) s'" by (rule WriteMessage_only_sends)
  then obtain bs where "sess s' x = Some ((?f y)\<lparr>outbox := outbox (?f y) @ bs\<rparr>)"
    using only_sendsD(6) [of "upd_sess x ?f s" s' x "?f y"] assms(4) by auto
  ultimately show ?thesis using assms(5) by (simp add: um_find_simps)
qed

theorem large_cookie_stays_pending_witness:
  "\<exists>s' y'. OnReply 0 (truncated (Message_Create TStatus)) (upd_sess 0 (add_pending 256 \<lparr>tr_caller = 1,
       tr_reply_cookie = 9, tr_message = Message_Create TTransaction\<rparr>) two_clients) = (Inr (), s') \<and>
     sess s' 0 = Some y' \<and> um_find 256 (pending_transactions y') \<noteq> None"
proof -
  let ?rec = "\<lparr>tr_caller = 1, tr_reply_cookie = 9, tr_message = Message_Create TTransaction\<rparr>"
  let ?s = "upd_sess 0 (add_pending 256 ?rec) two_clients"
  let ?y = "add_pending 256 ?rec ((new_session 0)\<lparr>reading := True\<rparr>)"
  let ?b = "Buffer_view (packed (Message_Create TStatus))"
  let ?m = "truncated (Message_Create TStatus)"
  have y: "sess ?s 0 = Some ?y" "um_find 256 (pending_transactions ?y) = Some ?rec"
    by (simp_all add: add_pending_def um_insert_def um_find_def)
  have "mcookie ?m = 0" by (simp add: truncated_def Let_def Message_Create_def low_byte_def)
  then have "OnReply 0 ?m ?s = (Inr (), ?s)"
    by (intro OnReply_unknown [OF y(1)]) (simp add: add_pending_def um_insert_def um_find_def)
  moreover obtain p' where "Parser_Next (MessageParser ?b (buffer_GetSize ?b)) = Inr (Some ?m, p')"
    using Parser_Next_packed [of "MessageParser ?b (buffer_GetSize ?b)" "[]" "Message_Create TStatus" "[]"]
    by (auto simp: MessageParser_def buffer_GetSize_def Buffer_view_def Message_Create_def)
  ultimately show ?thesis
    using large_cookie_stays_pending [of _ ?m p' 256 0 ?s ?s ?y ?rec] y by auto
qed

end
