(* ===== verification/Server_Process.thy ===== *)
theory Server_Process
  imports Server_Behaviour
begin

text \<open>
  The rest of \<^verbatim>\<open>src/src/binderd/server_impl.cpp\<close>: what the server does before it accepts
  connections (a socket file that nobody uses is removed), and \<^verbatim>\<open>Run\<close>, which works off the
  events of the io service and logs the exceptions that leave a handler. What the file system
  answers is an argument.
\<close>

unbundle bit_operations_syntax

section \<open>The socket file\<close>

definition S_IFMT :: u32 where "S_IFMT = 0xf000"
definition S_IFSOCK :: u32 where "S_IFSOCK = 0xc000"

text \<open>\<open>statbuf\<close> is the mode of the file, or \<open>None\<close> when \<^verbatim>\<open>stat\<close> fails.\<close>

definition socket_file_exists :: "u32 option \<Rightarrow> bool" where
  "socket_file_exists statbuf =
     (case statbuf of None \<Rightarrow> False | Some st_mode \<Rightarrow> st_mode AND S_IFMT = S_IFSOCK)"

text \<open>\<^verbatim>\<open>std::string::find\<close>: the first place where the argument occurs.\<close>

fun string_find :: "string \<Rightarrow> string \<Rightarrow> nat option" where
  "string_find s [] = (if s = [] then Some 0 else None)"
| "string_find s (c # line) =
     (if take (length s) (c # line) = s then Some 0 else map_option Suc (string_find s line))"

text \<open>\<open>lines\<close> are the lines of \<^verbatim>\<open>/proc/net/unix\<close>.\<close>

definition names_socket :: "string \<Rightarrow> string \<Rightarrow> bool" where
  "names_socket socket_path line =
     (case string_find socket_path line of
        None \<Rightarrow> False
      | Some index \<Rightarrow> index + length socket_path = length line)"

primrec socket_lines :: "string \<Rightarrow> string list \<Rightarrow> bool" where
  "socket_lines socket_path [] = False"
| "socket_lines socket_path (line # lines) =
     (if names_socket socket_path line then True else socket_lines socket_path lines)"

definition socket_exists :: "string list \<Rightarrow> string \<Rightarrow> bool" where
  "socket_exists lines socket_name = socket_lines (CHR '' '' # socket_name) lines"

text \<open>The result is the name and whether the file was removed; \<open>removed\<close> says that
  \<^verbatim>\<open>std::remove\<close> succeeds.\<close>

definition remove_socket_if_stale :: "u32 option \<Rightarrow> string list \<Rightarrow> bool \<Rightarrow> string \<Rightarrow> (string \<times> bool) res" where
  "remove_socket_if_stale statbuf lines removed socket_name =
     (if socket_file_exists statbuf \<and> \<not> socket_exists lines socket_name
      then if \<not> removed then Inl RuntimeError else Inr (socket_name, True)
      else Inr (socket_name, False))"

text \<open>The constructor: \<open>bound\<close> says that the acceptor could be opened on the path.\<close>

definition ServerImpl :: "allocator \<Rightarrow> u32 option \<Rightarrow> string list \<Rightarrow> bool \<Rightarrow> bool \<Rightarrow> string \<Rightarrow> server res" where
  "ServerImpl a statbuf lines removed bound socket_path =
     bindR (remove_socket_if_stale statbuf lines removed socket_path) (\<lambda>_.
     if \<not> bound then Inl RuntimeError else Inr (Server_Create a))"

definition CloseAllSessions :: "server \<Rightarrow> server" where
  "CloseAllSessions s = s\<lparr>table := Sessions_Clear (table s)\<rparr>"

section \<open>Running\<close>

text \<open>What the io service reports: the outcome of an accept, or a frame (\<open>None\<close> for an error)
  for a session.\<close>

datatype io_event = Accepted bool | Received sid "buffer option"

definition OnAccept :: "bool \<Rightarrow> server \<Rightarrow> server" where
  "OnAccept err s = (if \<not> err then Accept s else s)"

text \<open>A frame is reported only to a session that waits for one. \<open>None\<close>: the process is gone.\<close>

definition handle_event :: "io_event \<Rightarrow> server \<Rightarrow> server option" where
  "handle_event ev s =
     (case ev of
        Accepted err \<Rightarrow> Some (OnAccept err s)
      | Received x frame \<Rightarrow>
          (case sess s x of
             None \<Rightarrow> Some s
           | Some y \<Rightarrow>
               if \<not> reading y then Some s
               else case OnRead x frame s of
                   (Inl MemFault, _) \<Rightarrow> None
                 | (_, s') \<Rightarrow> Some s'))"

text \<open>\<open>Run stop evs s\<close>: the events are worked off until \<^verbatim>\<open>exit_\<close> is seen set, before event number
  \<open>stop\<close>; an exception that leaves a handler is logged and the loop goes on.\<close>

primrec Run :: "nat \<Rightarrow> io_event list \<Rightarrow> server \<Rightarrow> server option" where
  "Run stop [] s = Some s"
| "Run stop (ev # evs) s =
     (if stop = 0 then Some s
      else case handle_event ev s of
          None \<Rightarrow> None
        | Some s' \<Rightarrow> Run (stop - 1) evs s')"

section \<open>Running and reachable states\<close>

lemma handle_event_step:
  assumes "handle_event ev s = Some s'"
  shows "s' = s \<or> server_step s s'"
proof (cases ev)
  case (Accepted err)
  then show ?thesis using assms server_step.accept [of s] by (auto simp: handle_event_def OnAccept_def)
next
  case (Received x frame)
  show ?thesis
  proof (cases "\<exists>y. sess s x = Some y \<and> reading y")
    case True
    then obtain y where y: "sess s x = Some y" "reading y" by auto
    obtain r t where r: "OnRead x frame s = (r, t)" by (cases "OnRead x frame s")
    have "r \<noteq> Inl MemFault \<and> s' = t"
      using assms Received y r by (auto simp: handle_event_def split: sum.splits exn.splits)
    then show ?thesis using server_step.receive [OF y r] by auto
  next
    case False
    then show ?thesis using assms Received by (auto simp: handle_event_def split: option.splits if_splits)
  qed
qed

lemma server_step_event:
  assumes "server_step s s'"
  shows "\<exists>ev. handle_event ev s = Some s'"
  using assms
proof cases
  case accept
  then show ?thesis by (intro exI [of _ "Accepted False"]) (simp add: handle_event_def OnAccept_def)
next
  case (receive x y frame r)
  then show ?thesis
    by (intro exI [of _ "Received x frame"]) (auto simp: handle_event_def split: sum.splits exn.splits)
qed

lemma Run_append:
  "Run (length evs) evs s = Some s' \<Longrightarrow> Run (length evs + n) (evs @ evs') s = Run n evs' s'"
  by (induction evs arbitrary: s) (auto split: option.splits)

lemma Run_reachable: "server_reachable a s \<Longrightarrow> Run n evs s = Some s' \<Longrightarrow> server_reachable a s'"
proof (induction evs arbitrary: n s)
  case (Cons ev evs)
  show ?case
  proof (cases "n = 0")
    case False
    then obtain t where t: "handle_event ev s = Some t" "Run (n - 1) evs t = Some s'"
      using Cons.prems(2) by (auto split: option.splits)
    have "server_reachable a t"
      using handle_event_step [OF t(1)] Cons.prems(1) by (auto intro: server_reachable.step)
    then show ?thesis using Cons.IH t(2) by blast
  qed (use Cons.prems in simp)
qed simp

text \<open>The states a server can reach are those in which \<^verbatim>\<open>Run\<close> can leave it: the event loop
  and the step relation describe the same server.\<close>

theorem Run_reaches_exactly:
  "server_reachable a s \<longleftrightarrow> (\<exists>evs. Run (length evs) evs (Server_Create a) = Some s)"
proof
  assume "server_reachable a s"
  then show "\<exists>evs. Run (length evs) evs (Server_Create a) = Some s"
  proof induction
    case init
    show ?case by (rule exI [of _ "[]"]) simp
  next
    case (step s s')
    then obtain evs ev where "Run (length evs) evs (Server_Create a) = Some s" "handle_event ev s = Some s'"
      using server_step_event by blast
    then have "Run (length (evs @ [ev])) (evs @ [ev]) (Server_Create a) = Some s'"
      using Run_append [of evs "Server_Create a" s 1 "[ev]"] by simp
    then show ?case by blast
  qed
next
  assume "\<exists>evs. Run (length evs) evs (Server_Create a) = Some s"
  then show "server_reachable a s" using Run_reachable [OF server_reachable.init] by blast
qed

section \<open>Only stale sockets are removed\<close>

lemma string_find_None: "string_find s line = None \<longleftrightarrow> (\<forall>xs ys. line \<noteq> xs @ s @ ys)"
proof (induction line)
  case (Cons c line)
  have t: "take (length s) (c # line) = s \<longleftrightarrow> (\<exists>ys. c # line = s @ ys)"
    by (metis append_eq_conv_conj append_take_drop_id)
  show ?case
  proof (cases "take (length s) (c # line) = s")
    case True
    then show ?thesis using t by (metis append_Nil option.distinct(1) string_find.simps(2))
  next
    case False
    then have "(\<forall>xs ys. c # line \<noteq> xs @ s @ ys) \<longleftrightarrow> (\<forall>xs ys. line \<noteq> xs @ s @ ys)"
      using t by (metis append_Cons append_Nil neq_Nil_conv list.inject)
    then show ?thesis using Cons False by simp
  qed
qed auto

lemma string_find_Some: "string_find s line = Some i \<Longrightarrow> take (length s) (drop i line) = s \<and> i + length s \<le> length line"
proof (induction line arbitrary: i)
  case (Cons c line)
  show ?case
  proof (cases "take (length s) (c # line) = s")
    case True
    then have "length s \<le> length (c # line)" by (metis length_take min.cobounded1 min.commute)
    then show ?thesis using True Cons.prems by auto
  next
    case False
    then show ?thesis using Cons by auto
  qed
qed (auto split: if_splits)

lemma string_find_first: "string_find s line = Some i \<Longrightarrow> line = xs @ s @ ys \<Longrightarrow> i \<le> length xs"
proof (induction line arbitrary: i xs)
  case (Cons c line)
  show ?case
  proof (cases "take (length s) (c # line) = s")
    case True
    then show ?thesis using Cons.prems(1) by simp
  next
    case False
    then obtain x xs' where xs: "xs = x # xs'" "line = xs' @ s @ ys" using Cons.prems(2) by (cases xs) auto
    obtain k where k: "string_find s line = Some k" "i = Suc k" using Cons.prems(1) False by auto
    show ?thesis using Cons.IH [OF k(1) xs(2)] xs(1) k(2) by simp
  qed
qed (auto split: if_splits)

lemma names_socket_iff:
  "names_socket s line \<longleftrightarrow>
     (\<exists>pre. line = pre @ s \<and> (\<forall>xs ys. line = xs @ s @ ys \<longrightarrow> length pre \<le> length xs))"
proof
  assume "names_socket s line"
  then obtain i where i: "string_find s line = Some i" "i + length s = length line"
    by (auto simp: names_socket_def split: option.splits)
  have "drop i line = s" using string_find_Some [OF i(1)] i(2) by auto
  then have line: "line = take i line @ s" using append_take_drop_id [of i line] by simp
  moreover have "length (take i line) = i" using i(2) by simp
  ultimately show "\<exists>pre. line = pre @ s \<and> (\<forall>xs ys. line = xs @ s @ ys \<longrightarrow> length pre \<le> length xs)"
    using string_find_first [OF i(1)] by (intro exI [of _ "take i line"]) auto
next
  assume "\<exists>pre. line = pre @ s \<and> (\<forall>xs ys. line = xs @ s @ ys \<longrightarrow> length pre \<le> length xs)"
  then obtain pre where pre: "line = pre @ s" "\<And>xs ys. line = xs @ s @ ys \<Longrightarrow> length pre \<le> length xs" by auto
  have "string_find s line \<noteq> None" unfolding string_find_None using pre(1) by (metis append_Nil2)
  then obtain i where i: "string_find s line = Some i" by auto
  have "i \<le> length pre" using string_find_first [OF i, of pre "[]"] pre(1) by simp
  moreover have "length pre \<le> i"
  proof -
    have f: "take (length s) (drop i line) = s" "i + length s \<le> length line" using string_find_Some [OF i] by auto
    have "line = take i line @ s @ drop (length s) (drop i line)"
      using append_take_drop_id [of i line] append_take_drop_id [of "length s" "drop i line"] f(1) by simp
    from pre(2) [OF this] show ?thesis using f(2) by simp
  qed
  ultimately show "names_socket s line" using i pre(1) by (simp add: names_socket_def)
qed

lemma socket_lines_iff: "socket_lines s lines \<longleftrightarrow> (\<exists>line \<in> set lines. names_socket s line)"
  by (induction lines) auto

text \<open>A server removes a file before it binds its socket only when the file is a socket and no
  line of the table of open sockets ends with the name, unless the name occurs earlier in that
  line too: only the first occurrence is looked at. Where removing fails, and where the socket
  cannot be opened, the server does not start.\<close>

theorem only_stale_sockets_removed:
  "(remove_socket_if_stale statbuf lines removed name = Inr (name, True) \<longleftrightarrow>
      removed \<and> (\<exists>st_mode. statbuf = Some st_mode \<and> st_mode AND S_IFMT = S_IFSOCK) \<and>
      \<not> (\<exists>line. line \<in> set lines \<and> (\<exists>pre. line = pre @ CHR '' '' # name \<and>
          \<not> (\<exists>xs ys. line = xs @ (CHR '' '' # name) @ ys \<and> length xs < length pre)))) \<and>
   ServerImpl a statbuf lines removed bound name =
     (if bound \<and> (if socket_file_exists statbuf \<and> \<not> socket_exists lines name then removed else True)
      then Inr (Server_Create a) else Inl RuntimeError)"
proof
  have e: "socket_exists lines name \<longleftrightarrow> (\<exists>line. line \<in> set lines \<and> (\<exists>pre. line = pre @ CHR '' '' # name \<and>
      \<not> (\<exists>xs ys. line = xs @ (CHR '' '' # name) @ ys \<and> length xs < length pre)))"
    unfolding socket_exists_def socket_lines_iff names_socket_iff by (auto simp: not_less)
  show "remove_socket_if_stale statbuf lines removed name = Inr (name, True) \<longleftrightarrow>
      removed \<and> (\<exists>st_mode. statbuf = Some st_mode \<and> st_mode AND S_IFMT = S_IFSOCK) \<and>
      \<not> (\<exists>line. line \<in> set lines \<and> (\<exists>pre. line = pre @ CHR '' '' # name \<and>
          \<not> (\<exists>xs ys. line = xs @ (CHR '' '' # name) @ ys \<and> length xs < length pre)))"
    unfolding e [symmetric]
    by (auto simp: remove_socket_if_stale_def socket_file_exists_def split: option.splits)
  show "ServerImpl a statbuf lines removed bound name =
     (if bound \<and> (if socket_file_exists statbuf \<and> \<not> socket_exists lines name then removed else True)
      then Inr (Server_Create a) else Inl RuntimeError)"
    by (auto simp: ServerImpl_def remove_socket_if_stale_def)
qed

end
