(* ===== verification/Cli.thy ===== *)
theory Cli
  imports Utils
begin

text \<open>
  \<^verbatim>\<open>src/src/binderd/cli.cpp\<close> and \<^verbatim>\<open>cli.h\<close>: commands with flags and subcommands. The parser of
  the command line, \<^verbatim>\<open>boost::program_options\<close>, is a parameter: given the names of the options
  (and whether the first positional argument is the option \<^verbatim>\<open>command\<close>) and the arguments, it
  gives the values and switches it found and the arguments it did not recognise, or the text of
  an error.
\<close>

section \<open>Strings of bounded size\<close>

text \<open>\<^verbatim>\<open>SizeConstrainedString\<close>: \<open>None\<close> is the exception.\<close>

definition SizeConstrainedString :: "nat \<Rightarrow> string \<Rightarrow> string option" where
  "SizeConstrainedString limit s = (if length s > limit then None else Some s)"

text \<open>\<^verbatim>\<open>operator<<\<close>: the text padded on the right with blanks.\<close>

definition padded_string :: "nat \<Rightarrow> string \<Rightarrow> string" where
  "padded_string limit s = s @ replicate (limit - length s) CHR '' ''"

abbreviation name_size :: nat where "name_size \<equiv> 20"
abbreviation usage_size :: nat where "usage_size \<equiv> 60"
abbreviation description_size :: nat where "description_size \<equiv> 100"

section \<open>Flags and commands\<close>

text \<open>\<open>is_switch\<close>: a \<^verbatim>\<open>BoolSwitchFlag\<close>; the others take a value.\<close>

record flag =
  flag_name :: string
  flag_description :: string
  is_switch :: bool

record command_info =
  cmd_name :: string
  cmd_usage :: string
  cmd_description :: string
  cmd_hidden :: bool

record parsed =
  po_values :: "(string \<times> string) list"
  po_switches :: "string list"
  po_unrecognized :: "string list"

type_synonym option_parser = "bool \<Rightarrow> (string \<times> bool) list \<Rightarrow> string list \<Rightarrow> string + parsed"

text \<open>An action gets what was parsed and the arguments that are left, and gives the exit
  status.\<close>

type_synonym 's action = "parsed \<Rightarrow> string list \<Rightarrow> ('s, int) comp"

datatype 's command =
    WithSubcommands command_info "(string \<times> 's command option) list" "flag list"
  | WithFlagsAndAction command_info "flag list" "'s action"
  | HelpFor

primrec info_of :: "'s command \<Rightarrow> command_info" where
  "info_of (WithSubcommands i cs fs) = i"
| "info_of (WithFlagsAndAction i fs a) = i"
| "info_of HelpFor = \<lparr>cmd_name = ''help'', cmd_usage = ''prints a short help message'',
     cmd_description = ''prints a short help message'', cmd_hidden = False\<rparr>"

definition add_to_desc_for_flags :: "(string \<times> bool) list \<Rightarrow> flag list \<Rightarrow> (string \<times> bool) list" where
  "add_to_desc_for_flags desc flags = desc @ map (\<lambda>f. (flag_name f, is_switch f)) flags"

definition args :: "nat \<Rightarrow> string list \<Rightarrow> string list" where
  "args argc argv = map (\<lambda>i. argv ! i) [1..<argc]"

text \<open>The constructor enters the help command; \<^verbatim>\<open>command\<close> replaces an entry of the same name.\<close>

definition CommandWithSubcommands :: "command_info \<Rightarrow> 's command" where
  "CommandWithSubcommands i = WithSubcommands i [(''help'', Some HelpFor)] []"

primrec add_command :: "'s command \<Rightarrow> 's command \<Rightarrow> 's command" where
  "add_command c (WithSubcommands i cs fs) =
     WithSubcommands i (um_store (cmd_name (info_of c)) (Some c) (um_insert (cmd_name (info_of c)) None cs)) fs"
| "add_command c (WithFlagsAndAction i fs a) = WithFlagsAndAction i fs a"
| "add_command c HelpFor = HelpFor"

primrec add_flag :: "flag \<Rightarrow> 's command \<Rightarrow> 's command" where
  "add_flag f (WithSubcommands i cs fs) = WithSubcommands i cs (fs @ [f])"
| "add_flag f (WithFlagsAndAction i fs a) = WithFlagsAndAction i (fs @ [f]) a"
| "add_flag f HelpFor = HelpFor"

primrec set_action :: "'s action \<Rightarrow> 's command \<Rightarrow> 's command" where
  "set_action a (WithFlagsAndAction i fs a') = WithFlagsAndAction i fs a"
| "set_action a (WithSubcommands i cs fs) = WithSubcommands i cs fs"
| "set_action a HelpFor = HelpFor"

section \<open>Help\<close>

definition endl :: string where "endl = ''\<newline>''"

definition help_head :: "string \<Rightarrow> string \<Rightarrow> string \<Rightarrow> string" where
  "help_head a b c =
     ''NAME:'' @ endl @ ''    '' @ a @ '' - '' @ b @ endl @ endl @
     ''USAGE:'' @ endl @ ''    '' @ c @ '' [command options] [arguments...]'' @ endl"

definition help_flags :: "flag list \<Rightarrow> string" where
  "help_flags fs =
     (if length fs > 0
      then endl @ ''OPTIONS:'' @ endl @
        concat (map (\<lambda>f. ''    --'' @ padded_string name_size (flag_name f) @ '' '' @
                          padded_string description_size (flag_description f) @ endl) fs)
      else [])"

definition help_commands :: "(string \<times> 's command option) list \<Rightarrow> string" where
  "help_commands cs =
     (if length cs > 0
      then endl @ ''COMMANDS:'' @ endl @
        concat (map (\<lambda>(_, c). case c of
             None \<Rightarrow> []
           | Some c \<Rightarrow>
               if cmd_hidden (info_of c) then []
               else ''    '' @ padded_string name_size (cmd_name (info_of c)) @ '' '' @
                    padded_string description_size (cmd_description (info_of c)) @ endl) cs)
      else [])"

primrec help_text :: "'s command \<Rightarrow> string" where
  "help_text (WithSubcommands i cs fs) =
     help_head (cmd_name i) (cmd_usage i) (cmd_name i) @ help_flags fs @ help_commands cs"
| "help_text (WithFlagsAndAction i fs a) = help_head (cmd_name i) (cmd_description i) (cmd_name i) @ help_flags fs"
| "help_text HelpFor = []"

section \<open>Running a command\<close>

definition EXIT_SUCCESS :: int where "EXIT_SUCCESS = 0"
definition EXIT_FAILURE :: int where "EXIT_FAILURE = 1"

text \<open>\<open>run parse parent c as\<close>: \<open>parent\<close> is the command a help command belongs to. The result is
  the exit status and what was printed by the framework. The option \<^verbatim>\<open>command\<close> is required:
  the parser reports its absence as an error, and to read it all the same would throw.\<close>

lemma command_size_find:
  "um_find k cs = Some (Some c) \<Longrightarrow> size c < size (WithSubcommands i cs fs)"
proof -
  assume "um_find k cs = Some (Some c)"
  then have "(k, Some c) \<in> set cs" by (rule um_find_in_set)
  then have "size_prod (\<lambda>_. 0) (size_option size) (k, Some c) \<le> size_list (size_prod (\<lambda>_. 0) (size_option size)) cs"
    by (intro size_list_estimation') auto
  then show ?thesis by simp
qed

function run :: "option_parser \<Rightarrow> 's command \<Rightarrow> 's command \<Rightarrow> string list \<Rightarrow> ('s, int \<times> string) comp" where
  "run parse parent HelpFor as = retS (EXIT_FAILURE, help_text parent)"
| "run parse parent (WithFlagsAndAction i fs a) as =
     (case parse False (add_to_desc_for_flags [(''help'', True)] fs) as of
        Inl err \<Rightarrow> retS (EXIT_FAILURE, err @ endl @ help_text (WithFlagsAndAction i fs a))
      | Inr p \<Rightarrow>
          if ''help'' \<in> set (po_switches p) then retS (EXIT_SUCCESS, help_text (WithFlagsAndAction i fs a))
          else bindS (a p (po_unrecognized p)) (\<lambda>code. retS (code, [])))"
| "run parse parent (WithSubcommands i cs fs) as =
     (case parse True (add_to_desc_for_flags [(''command'', False)] fs) as of
        Inl err \<Rightarrow> retS (EXIT_FAILURE, err @ endl @ help_text (WithSubcommands i cs fs))
      | Inr p \<Rightarrow>
          (case map_of (po_values p) ''command'' of
             None \<Rightarrow> throwS RuntimeError
           | Some name \<Rightarrow>
               (case um_find name cs of
                  Some (Some c) \<Rightarrow> run parse (WithSubcommands i cs fs) c (po_unrecognized p)
                | _ \<Rightarrow>
                    retS (EXIT_FAILURE, ''Unknown command '' @ [CHR 0x27] @ name @ [CHR 0x27] @ endl @
                      help_text (WithSubcommands i (um_insert name None cs) fs)))))"
  by pat_completeness auto
termination
  by (relation "measure (\<lambda>(parse, parent, c, as). size c)") (auto dest: command_size_find)

end
