(* ===== verification/Logger.thy ===== *)
theory Logger
  imports Utils
begin

text \<open>
  \<^verbatim>\<open>src/src/binderd/logger.cpp\<close> and \<^verbatim>\<open>logger.h\<close>: the severities of log messages, and the
  logger of the program, which prints the messages that are severe enough. The time is an
  argument.
\<close>

datatype severity = kTrace | kDebug | kInfo | kWarning | kError | kFatal

text \<open>The values of the enumerators, which are what severities are compared by.\<close>

primrec severity_code :: "severity \<Rightarrow> nat" where
  "severity_code kTrace = 0"
| "severity_code kDebug = 1"
| "severity_code kInfo = 2"
| "severity_code kWarning = 3"
| "severity_code kError = 4"
| "severity_code kFatal = 5"

instantiation severity :: linorder
begin

definition less_eq_severity :: "severity \<Rightarrow> severity \<Rightarrow> bool" where
  "less_eq_severity s t \<longleftrightarrow> severity_code s \<le> severity_code t"

definition less_severity :: "severity \<Rightarrow> severity \<Rightarrow> bool" where
  "less_severity s t \<longleftrightarrow> severity_code s < severity_code t"

instance
proof
  fix s t u :: severity
  show "s < t \<longleftrightarrow> s \<le> t \<and> \<not> t \<le> s" by (auto simp: less_eq_severity_def less_severity_def)
  show "s \<le> s" by (simp add: less_eq_severity_def)
  show "s \<le> t \<Longrightarrow> t \<le> u \<Longrightarrow> s \<le> u" by (simp add: less_eq_severity_def)
  show "s \<le> t \<Longrightarrow> t \<le> s \<Longrightarrow> s = t" by (cases s; cases t) (simp_all add: less_eq_severity_def)
  show "s \<le> t \<or> t \<le> s" by (auto simp: less_eq_severity_def)
qed

end

text \<open>\<^verbatim>\<open>operator<<\<close> for a severity.\<close>

primrec severity_string :: "severity \<Rightarrow> string" where
  "severity_string kTrace = ''TT''"
| "severity_string kDebug = ''DD''"
| "severity_string kInfo = ''II''"
| "severity_string kWarning = ''WW''"
| "severity_string kError = ''EE''"
| "severity_string kFatal = ''FF''"

record location =
  loc_file :: string
  loc_function :: string
  loc_line :: nat

text \<open>\<^verbatim>\<open>boost::filesystem::path(...).filename()\<close>: what follows the last slash.\<close>

definition filename :: "string \<Rightarrow> string" where
  "filename p = rev (takeWhile (\<lambda>c. c \<noteq> CHR ''/'') (rev p))"

text \<open>\<^verbatim>\<open>%d\<close>\<close>

fun decimal :: "nat \<Rightarrow> string" where
  "decimal n = (if n < 10 then [char_of (48 + n)] else decimal (n div 10) @ [char_of (48 + n mod 10)])"

declare decimal.simps [simp del]

definition location_string :: "location \<Rightarrow> string" where
  "location_string l = filename (loc_file l) @ '':'' @ decimal (loc_line l) @ ''@'' @ loc_function l"

section \<open>The logger\<close>

text \<open>\<open>log_severity\<close> has whatever value the memory has until it is set: it is an argument of the
  constructor. \<open>printed\<close> is what went to the standard output.\<close>

record std_logger =
  log_severity :: severity
  initialized :: bool
  printed :: string

definition StdLogger :: "severity \<Rightarrow> std_logger" where
  "StdLogger garbage = \<lparr>log_severity = garbage, initialized = False, printed = []\<rparr>"

definition Init :: "severity \<Rightarrow> std_logger \<Rightarrow> std_logger" where
  "Init severity l = (if initialized l then l else l\<lparr>log_severity := severity, initialized := True\<rparr>)"

definition SetSeverity :: "severity \<Rightarrow> std_logger \<Rightarrow> std_logger" where
  "SetSeverity severity l = l\<lparr>log_severity := severity\<rparr>"

text \<open>\<^verbatim>\<open>location.get()\<close> of an absent location is not allowed.\<close>

definition Log :: "string \<Rightarrow> severity \<Rightarrow> string \<Rightarrow> location option \<Rightarrow> (std_logger, unit) comp" where
  "Log now severity msg loc =
     bindS (getS log_severity) (\<lambda>limit.
     if severity < limit then retS ()
     else case loc of
         None \<Rightarrow> throwS MemFault
       | Some l \<Rightarrow>
           modS (\<lambda>s. s\<lparr>printed := printed s @ ''['' @ severity_string severity @ '' '' @ now @ ''] ['' @
             location_string l @ ''] '' @ msg @ ''\<newline>''\<rparr>))"

definition Log_Trace :: "string \<Rightarrow> string \<Rightarrow> location option \<Rightarrow> (std_logger, unit) comp" where
  "Log_Trace now msg loc = Log now kTrace msg loc"

definition Log_Debug :: "string \<Rightarrow> string \<Rightarrow> location option \<Rightarrow> (std_logger, unit) comp" where
  "Log_Debug now msg loc = Log now kDebug msg loc"

definition Log_Info :: "string \<Rightarrow> string \<Rightarrow> location option \<Rightarrow> (std_logger, unit) comp" where
  "Log_Info now msg loc = Log now kInfo msg loc"

definition Log_Warning :: "string \<Rightarrow> string \<Rightarrow> location option \<Rightarrow> (std_logger, unit) comp" where
  "Log_Warning now msg loc = Log now kWarning msg loc"

definition Log_Error :: "string \<Rightarrow> string \<Rightarrow> location option \<Rightarrow> (std_logger, unit) comp" where
  "Log_Error now msg loc = Log now kError msg loc"

definition Log_Fatal :: "string \<Rightarrow> string \<Rightarrow> location option \<Rightarrow> (std_logger, unit) comp" where
  "Log_Fatal now msg loc = Log now kFatal msg loc"

definition SetSeverityFromString :: "string \<Rightarrow> std_logger \<Rightarrow> bool \<times> std_logger" where
  "SetSeverityFromString severity l =
     (if severity = ''trace'' then (True, SetSeverity kTrace l)
      else if severity = ''debug'' then (True, SetSeverity kDebug l)
      else if severity = ''info'' then (True, SetSeverity kInfo l)
      else if severity = ''warning'' then (True, SetSeverity kWarning l)
      else if severity = ''error'' then (True, SetSeverity kError l)
      else if severity = ''fatal'' then (True, SetSeverity kFatal l)
      else (False, l))"

section \<open>What is printed\<close>

lemma Log_prints:
  "Log now severity msg (Some loc) l = (Inr (), if severity < log_severity l then l
     else l\<lparr>printed := printed l @ ''['' @ severity_string severity @ '' '' @ now @ ''] ['' @
             location_string loc @ ''] '' @ msg @ ''\<newline>''\<rparr>)"
  by (simp add: Log_def bindS_def getS_def modS_def retS_def)

text \<open>A message without its place of origin is dropped when it is not severe enough and is a
  fault otherwise.\<close>

lemma Log_no_location:
  "Log now severity msg None l = (if severity < log_severity l then Inr () else Inl MemFault, l)"
  by (simp add: Log_def bindS_def getS_def retS_def throwS_def)

lemma SetSeverityFromString_known:
  "fst (SetSeverityFromString s l) \<longleftrightarrow> s \<in> {''trace'', ''debug'', ''info'', ''warning'', ''error'', ''fatal''}"
  by (auto simp: SetSeverityFromString_def)

lemma Init_once: "Init s' (Init s l) = Init s l"
  by (simp add: Init_def)

end
