(* ===== verification/Client_Threads.thy ===== *)
theory Client_Threads
  imports Client
begin

text \<open>
  The threads of a client (\<^verbatim>\<open>src/src/binderd/client_impl.cpp\<close>): any number of callers inside
  \<^verbatim>\<open>Transact\<close>, the workers of the io service that deliver frames and run the tasks of the strand, and
  the pool that executes commands. A caller is interrupted between entering and leaving \<^verbatim>\<open>StartCall\<close>,
  before it queues the message and before it picks up the answer; a run is any sequence of actions.

  \<^verbatim>\<open>pending_calls_\<close> is a plain \<^verbatim>\<open>unordered_map\<close>: \<^verbatim>\<open>StartCall\<close> and \<^verbatim>\<open>FinishCall\<close> change it and take no lock, and
  the lock of \<^verbatim>\<open>OnNewMessage\<close> is therefore no protection. Every access has a beginning and an end, and an access that
  begins while another one has not ended is undefined behaviour: the run ends in \<open>MemFault\<close>. (Two accesses that
  overlap are never both reads, since only the one frame being handled is read from the map without changing it.)
  The handlers of the application run as one step; a call that they make themselves waits in that step.
\<close>

section \<open>Threads\<close>

text \<open>A caller: outside of a call; inside \<^verbatim>\<open>StartCall\<close>; after \<^verbatim>\<open>StartCall\<close>, with its promise and message; waiting for its
  promise; back with the answer, \<open>None\<close> for a null pointer; or left by an exception. The cookie of
  the call is kept to the end.\<close>

datatype caller =
    Outside
  | Entering message bool
  | Started nat message
  | Waiting nat u64
  | Returned u64 "message option"
  | Threw exn

text \<open>Who is inside an access to \<^verbatim>\<open>pending_calls_\<close>: a caller in \<^verbatim>\<open>StartCall\<close>, the worker that handles a frame in
  \<^verbatim>\<open>OnNewMessage\<close>, or the strand in \<^verbatim>\<open>FinishCall\<close>.\<close>

datatype party =
    Caller nat
  | Reader buffer
  | Finisher

record client_system =
  sy_client :: client
  callers :: "nat \<Rightarrow> caller"
  inside :: "party option"

datatype thread_action =
    Enter nat message bool
  | Start nat
  | Queue nat
  | Wake nat
  | Leave nat
  | Frame "buffer option"
  | FrameDone
  | Strand
  | Finish
  | Command
  | Close

definition set_caller :: "nat \<Rightarrow> caller \<Rightarrow> client_system \<Rightarrow> client_system" where
  "set_caller t k s = s\<lparr>callers := (callers s)(t := k)\<rparr>"

text \<open>The beginning of an access to \<^verbatim>\<open>pending_calls_\<close>; nothing keeps the threads apart.\<close>

definition enter_calls :: "party \<Rightarrow> client_system \<Rightarrow> client_system res" where
  "enter_calls who s = (if inside s = None then Inr (s\<lparr>inside := Some who\<rparr>) else Inl MemFault)"

text \<open>\<^verbatim>\<open>ClientImpl::Transact(const MessagePtr&, bool)\<close> in its parts.\<close>

definition caller_enter :: "nat \<Rightarrow> message \<Rightarrow> bool \<Rightarrow> client_system \<Rightarrow> client_system res" where
  "caller_enter t msg one_way s =
     (if \<not> c_connected (sy_client s) then Inr (set_caller t (Returned (mcookie msg) None) s)
      else enter_calls (Caller t) (set_caller t (Entering msg one_way) s))"

definition caller_start :: "nat \<Rightarrow> message \<Rightarrow> bool \<Rightarrow> client_system \<Rightarrow> client_system" where
  "caller_start t msg one_way s =
     (case StartCall msg one_way (sy_client s) of
        (Inl e, c) \<Rightarrow> set_caller t (Threw e) (s\<lparr>sy_client := c, inside := None\<rparr>)
      | (Inr (p, msg), c) \<Rightarrow> set_caller t (Started p msg) (s\<lparr>sy_client := c, inside := None\<rparr>))"

definition caller_queue :: "nat \<Rightarrow> nat \<Rightarrow> message \<Rightarrow> client_system \<Rightarrow> client_system res" where
  "caller_queue t p msg s =
     (case QueueMessage msg (sy_client s) of
        (Inl e, c) \<Rightarrow> if e = MemFault then Inl MemFault else Inr (set_caller t (Threw e) (s\<lparr>sy_client := c\<rparr>))
      | (Inr _, c) \<Rightarrow> Inr (set_caller t (Waiting p (mcookie msg)) (s\<lparr>sy_client := c\<rparr>)))"

definition caller_wake :: "nat \<Rightarrow> nat \<Rightarrow> u64 \<Rightarrow> client_system \<Rightarrow> client_system res" where
  "caller_wake t p k s =
     (case promises (sy_client s) p of
        Some m \<Rightarrow> Inr (set_caller t (Returned k (Some m)) s)
      | None \<Rightarrow> Inl Blocked)"

text \<open>A handler of the application that starts a call of its own while somebody is inside \<^verbatim>\<open>pending_calls_\<close>.\<close>

definition calls_within :: "client_system \<Rightarrow> client \<Rightarrow> bool" where
  "calls_within s c \<longleftrightarrow> inside s \<noteq> None \<and> next_promise c \<noteq> next_promise (sy_client s)"

text \<open>The workers of the io service catch what a handler throws and go on; a thread of the pool that
  executes commands does not, so an exception there ends the process.\<close>

definition io_worker :: "unit cl \<Rightarrow> client_system \<Rightarrow> client_system res" where
  "io_worker m s =
     (case m (sy_client s) of
        (r, c) \<Rightarrow>
          if calls_within s c then Inl MemFault
          else case r of
            Inr _ \<Rightarrow> Inr (s\<lparr>sy_client := c\<rparr>)
          | Inl e \<Rightarrow> if e \<in> {OutOfRange, RuntimeError} then Inr (s\<lparr>sy_client := c\<rparr>) else Inl e)"

definition pool_worker :: "bool cl \<Rightarrow> client_system \<Rightarrow> client_system res" where
  "pool_worker m s =
     (case m (sy_client s) of
        (r, c) \<Rightarrow>
          if calls_within s c then Inl MemFault
          else case r of
            Inr _ \<Rightarrow> Inr (s\<lparr>sy_client := c\<rparr>)
          | Inl e \<Rightarrow> Inl (if e \<in> {OutOfRange, RuntimeError} then Aborted else e))"

text \<open>\<^verbatim>\<open>OnNewMessage\<close> of a frame, from the lock of \<^verbatim>\<open>read_lock_\<close> on: the read that delivered it is over, the next one is
  armed at its end. An error on the connection terminates the client without a look at the calls.\<close>

definition frame_in :: "buffer option \<Rightarrow> client_system \<Rightarrow> client_system res" where
  "frame_in f s =
     (case f of
        None \<Rightarrow> io_worker (OnNewMessage None) s
      | Some b \<Rightarrow> enter_calls (Reader b) (s\<lparr>sy_client := (sy_client s)\<lparr>c_reading := False\<rparr>\<rparr>))"

text \<open>The strand runs one task at a time.\<close>

definition strand_in :: "handler \<Rightarrow> client_system \<Rightarrow> client_system res" where
  "strand_in h s =
     (if inside s = Some Finisher then Inl Blocked
      else case strand (sy_client s) of
        [] \<Rightarrow> Inl Blocked
      | TaskFinishCall _ # _ \<Rightarrow> enter_calls Finisher s
      | TaskContextMessage _ # _ \<Rightarrow> io_worker (run_strand h) s)"

text \<open>A worker of the pool takes \<^verbatim>\<open>read_lock_\<close> to fetch its command, which the handler of a frame holds.\<close>

fun reading_frame :: "party option \<Rightarrow> bool" where
  "reading_frame (Some (Reader _)) = True"
| "reading_frame _ = False"

text \<open>An action that its thread cannot take now is \<open>Blocked\<close>; the workers end when the client is told to exit.\<close>

fun act :: "handler \<Rightarrow> thread_action \<Rightarrow> client_system \<Rightarrow> client_system res" where
  "act h (Enter t msg one_way) s =
     (if callers s t = Outside then caller_enter t msg one_way s else Inl Blocked)"
| "act h (Start t) s =
     (case callers s t of Entering msg one_way \<Rightarrow> Inr (caller_start t msg one_way s) | _ \<Rightarrow> Inl Blocked)"
| "act h (Queue t) s = (case callers s t of Started p msg \<Rightarrow> caller_queue t p msg s | _ \<Rightarrow> Inl Blocked)"
| "act h (Wake t) s = (case callers s t of Waiting p k \<Rightarrow> caller_wake t p k s | _ \<Rightarrow> Inl Blocked)"
| "act h (Leave t) s =
     (case callers s t of
        Returned _ _ \<Rightarrow> Inr (set_caller t Outside s)
      | Threw _ \<Rightarrow> Inr (set_caller t Outside s)
      | _ \<Rightarrow> Inl Blocked)"
| "act h (Frame f) s =
     (if c_reading (sy_client s) \<and> \<not> c_should_exit (sy_client s) then frame_in f s else Inl Blocked)"
| "act h FrameDone s =
     (case inside s of
        Some (Reader b) \<Rightarrow> io_worker (OnNewMessage (Some b)) (s\<lparr>inside := None\<rparr>)
      | _ \<Rightarrow> Inl Blocked)"
| "act h Strand s = (if c_should_exit (sy_client s) then Inl Blocked else strand_in h s)"
| "act h Finish s =
     (if inside s = Some Finisher then io_worker (run_strand h) (s\<lparr>inside := None\<rparr>) else Inl Blocked)"
| "act h Command s =
     (if c_should_exit (sy_client s) \<or> reading_frame (inside s) then Inl Blocked
      else pool_worker (ProcessAndExecuteCommand h) s)"
| "act h Close s = io_worker Client_Terminate s"

primrec run_actions :: "handler \<Rightarrow> thread_action list \<Rightarrow> client_system \<Rightarrow> client_system res" where
  "run_actions h [] s = Inr s"
| "run_actions h (a # as) s = bindR (act h a s) (run_actions h as)"

text \<open>A client that was just connected.\<close>

definition new_system :: "allocator \<Rightarrow> client_system" where
  "new_system a = \<lparr>sy_client = snd (ClientImpl_connect True (ClientImpl a)), callers = \<lambda>_. Outside, inside = None\<rparr>"

section \<open>The calls of a client\<close>

text \<open>The calls whose promise has a value and which wait for \<^verbatim>\<open>FinishCall\<close>.\<close>

fun finish_of :: "strand_task \<Rightarrow> u64 list" where
  "finish_of (TaskFinishCall k) = [k]"
| "finish_of (TaskContextMessage _) = []"

definition finishing :: "client \<Rightarrow> u64 list" where
  "finishing c = concat (map finish_of (strand c))"

text \<open>Promises are used by one call each; the calls that were answered are exactly those that will be
  removed, once each.\<close>

definition calls_wf :: "client \<Rightarrow> bool" where
  "calls_wf c \<longleftrightarrow> um_ok (pending_calls c) \<and> calls_ok c \<and>
     (\<forall>k k' call call'. um_find k (pending_calls c) = Some call \<longrightarrow> um_find k' (pending_calls c) = Some call' \<longrightarrow>
        pc_promise call = pc_promise call' \<longrightarrow> k = k') \<and>
     distinct (finishing c) \<and>
     (\<forall>k. k \<in> set (finishing c) \<longleftrightarrow>
        (\<exists>call. um_find k (pending_calls c) = Some call \<and> promises c (pc_promise call) \<noteq> None))"

text \<open>The call with promise \<open>p\<close> and cookie \<open>k\<close> has its own answer, or is still registered.\<close>

definition waits :: "client \<Rightarrow> nat \<Rightarrow> u64 \<Rightarrow> bool" where
  "waits c p k \<longleftrightarrow> p < next_promise c \<and>
     (case promises c p of
        Some m \<Rightarrow> mcookie m = k \<and> unat k < 256 \<and> mtype m \<noteq> TLogEntry
      | None \<Rightarrow> \<exists>call. um_find k (pending_calls c) = Some call \<and> pc_promise call = p)"

definition calls_inv :: "(nat \<times> u64) set \<Rightarrow> client \<Rightarrow> bool" where
  "calls_inv W c \<longleftrightarrow> calls_wf c \<and> (\<forall>(p, k)\<in>W. waits c p k)"

text \<open>A computation that touches the calls only by making calls and receiving frames.\<close>

definition by_calls :: "'a cl \<Rightarrow> bool" where
  "by_calls m \<longleftrightarrow> (\<forall>W. keepsS (calls_inv W) m)"

lemma calls_inv_cong:
  assumes "pending_calls c' = pending_calls c" "promises c' = promises c" "next_promise c' = next_promise c"
    "finishing c' = finishing c"
  shows "calls_inv W c' = calls_inv W c"
  unfolding calls_inv_def calls_wf_def calls_ok_def waits_def assms by (rule refl)

lemma calls_inv_D:
  assumes "calls_inv W c"
  shows "calls_wf c" and "(p, k) \<in> W \<Longrightarrow> waits c p k"
  using assms by (auto simp: calls_inv_def)

lemma calls_wf_promise: "calls_wf c \<Longrightarrow> um_find k (pending_calls c) = Some call \<Longrightarrow> pc_promise call < next_promise c"
  using um_find_in_set by (fastforce simp: calls_wf_def calls_ok_def)

lemma by_calls_simps [simp]:
  "by_calls (retS x)" "by_calls (throwS e)" "by_calls (getS f)" "by_calls (liftS r)"
  by (simp_all add: by_calls_def)

lemma by_calls_bind: "by_calls m \<Longrightarrow> (\<And>x. by_calls (f x)) \<Longrightarrow> by_calls (bindS m f)"
  by (simp add: by_calls_def keepsS_bind)

lemma by_calls_seq: "by_calls m \<Longrightarrow> by_calls k \<Longrightarrow> by_calls (seqS m k)"
  by (simp add: by_calls_def keepsS_seq)

lemma by_calls_mod:
  assumes "\<And>c. pending_calls (f c) = pending_calls c \<and> promises (f c) = promises c \<and>
    next_promise (f c) = next_promise c \<and> strand (f c) = strand c"
  shows "by_calls (modS f)"
proof -
  have "calls_inv W (f c) = calls_inv W c" for W c
    using assms [of c] by (intro calls_inv_cong) (simp_all add: finishing_def)
  then show ?thesis unfolding by_calls_def by (intro allI keepsS_mod) simp
qed

section \<open>Frames and tasks\<close>

lemma dispatch_answers:
  assumes inv: "calls_inv W c" and find: "um_find (mcookie msg) (pending_calls c) = Some call"
    and none: "promises c (pc_promise call) = None" and small: "unat (mcookie msg) < 256" "mtype msg \<noteq> TLogEntry"
  shows "calls_inv W (c\<lparr>promises := (promises c)(pc_promise call \<mapsto> msg),
    strand := strand c @ [TaskFinishCall (mcookie msg)]\<rparr>)" (is "calls_inv W ?c")
proof -
  note wf = calls_inv_D(1) [OF inv]
  have uniq: "k = mcookie msg" if "um_find k (pending_calls c) = Some call'" "pc_promise call' = pc_promise call" for k call'
    using wf that find unfolding calls_wf_def by blast
  have fin: "finishing ?c = finishing c @ [mcookie msg]" by (simp add: finishing_def)
  have new: "mcookie msg \<notin> set (finishing c)" using wf find none unfolding calls_wf_def by auto
  have old: "k \<in> set (finishing c) \<longleftrightarrow>
      (\<exists>call. um_find k (pending_calls c) = Some call \<and> promises c (pc_promise call) \<noteq> None)" for k
    using wf unfolding calls_wf_def by blast
  have "k \<in> set (finishing ?c) \<longleftrightarrow>
      (\<exists>call. um_find k (pending_calls ?c) = Some call \<and> promises ?c (pc_promise call) \<noteq> None)" for k
  proof (cases "k = mcookie msg")
    case True
    then show ?thesis using find unfolding fin by simp
  next
    case False
    then have "promises ?c (pc_promise call') = promises c (pc_promise call')"
      if "um_find k (pending_calls c) = Some call'" for call'
      using uniq [OF that] by auto
    then show ?thesis using False old [of k] unfolding fin by auto
  qed
  moreover have "calls_ok ?c" using wf calls_wf_promise [OF wf find] by (auto simp: calls_wf_def calls_ok_def)
  ultimately have "calls_wf ?c" using wf new unfolding calls_wf_def fin by simp
  moreover have "waits ?c p k" if "(p, k) \<in> W" for p k
    using calls_inv_D(2) [OF inv that] uniq [of k] find none small by (auto simp: waits_def split: option.splits)
  ultimately show ?thesis by (auto simp: calls_inv_def)
qed

lemma dispatch_keeps:
  assumes small: "unat (mcookie msg) < 256"
  shows "keepsS (calls_inv W) (dispatch msg)"
proof -
  have other: "calls_inv W (c\<lparr>in_messages := ms\<rparr>) = calls_inv W c" "calls_inv W (c\<lparr>log_seen := ls\<rparr>) = calls_inv W c"
    "calls_inv W (c\<lparr>strand := strand c @ [TaskContextMessage m]\<rparr>) = calls_inv W c" for c ms ls m
    by (rule calls_inv_cong; simp add: finishing_def)+
  have "calls_inv W c'" if inv: "calls_inv W c" and run: "dispatch msg c = (r, c')" for c r c'
  proof (cases "mtype msg = TLogEntry")
    case True
    then show ?thesis using inv run other
      by (auto simp: dispatch_def bindS_def getS_def modS_def liftS_def retS_def split: if_splits sum.splits)
  next
    case log: False
    show ?thesis
    proof (cases "um_find (mcookie msg) (pending_calls c)")
      case None
      then show ?thesis using inv run other dispatch_unrelated [OF log None] by (auto split: if_splits)
    next
      case (Some call)
      then have "c' = c \<or> promises c (pc_promise call) = None \<and>
          c' = c\<lparr>promises := (promises c)(pc_promise call \<mapsto> msg), strand := strand c @ [TaskFinishCall (mcookie msg)]\<rparr>"
        using run log
        by (auto simp: dispatch_def set_promise_def post_def bindS_def seqS_def getS_def modS_def liftS_def retS_def throwS_def
            split: if_splits sum.splits option.splits)
      then show ?thesis using inv dispatch_answers [OF inv Some _ small log] by auto
    qed
  qed
  then show ?thesis by (auto intro!: validS_I)
qed

lemma dispatch_all_by_calls: "by_calls (dispatch_all p)"
proof (induction p rule: dispatch_all.induct)
  case (1 p)
  have d: "by_calls (dispatch msg)" if "Parser_Next p = Inr (Some msg, p')" for msg p'
    using dispatch_keeps Parser_Next_small(1) [OF that] by (simp add: by_calls_def)
  show ?case
    by (subst dispatch_all.simps) (auto intro!: by_calls_seq d 1 split: sum.split prod.split option.split)
qed

lemma OnNewMessage_by_calls: "by_calls (OnNewMessage f)"
  unfolding OnNewMessage_def Client_Terminate_def Client_ReadNextMessage_def
  by (auto intro!: by_calls_seq by_calls_mod dispatch_all_by_calls split: option.split)

text \<open>\<^verbatim>\<open>FinishCall\<close> removes the call whose task it is, and no other.\<close>

lemma FinishCall_keeps:
  assumes inv: "calls_inv W c" and task: "strand c = TaskFinishCall k # ts"
  shows "calls_inv W (c\<lparr>strand := ts, pending_calls := um_erase k (pending_calls c)\<rparr>)" (is "calls_inv W ?c")
proof -
  note wf = calls_inv_D(1) [OF inv]
  have fin: "finishing c = k # finishing ?c" by (simp add: finishing_def task)
  have k: "k \<notin> set (finishing ?c)" using wf unfolding calls_wf_def fin by simp
  have old: "j \<in> set (finishing c) \<longleftrightarrow>
      (\<exists>call. um_find j (pending_calls c) = Some call \<and> promises c (pc_promise call) \<noteq> None)" for j
    using wf unfolding calls_wf_def by blast
  have "j \<in> set (finishing ?c) \<longleftrightarrow>
      (\<exists>call. um_find j (pending_calls ?c) = Some call \<and> promises ?c (pc_promise call) \<noteq> None)" for j
    using k old [of j] unfolding fin by (cases "j = k") (simp_all add: um_find_simps)
  moreover have "calls_ok ?c" using wf by (auto simp: calls_wf_def calls_ok_def um_erase_def)
  ultimately have "calls_wf ?c"
    using wf unfolding calls_wf_def fin by (auto simp: um_find_simps split: if_splits)
  moreover have "waits ?c p j" if "(p, j) \<in> W" for p j
    using calls_inv_D(2) [OF inv that] old [of k] unfolding fin
    by (auto simp: waits_def um_find_simps split: option.splits)
  ultimately show ?thesis by (auto simp: calls_inv_def)
qed

section \<open>Making calls\<close>

lemma StartCall_registers:
  assumes inv: "calls_inv W c" and run: "StartCall msg ow c = (r, c')"
  shows "calls_inv W c'" and "r = Inr (p, msg') \<Longrightarrow>
    p = next_promise c \<and> next_promise c' = p + 1 \<and> waits c' p (mcookie msg')"
proof -
  note wf = calls_inv_D(1) [OF inv]
  let ?k = "next_cookie c" and ?p = "next_promise c"
  have cookie: "calls_inv W (c\<lparr>next_cookie := j\<rparr>) = calls_inv W c" for j
    by (rule calls_inv_cong) (simp_all add: finishing_def)
  show "calls_inv W c'"
  proof (cases "um_find ?k (pending_calls c)")
    case (Some call)
    then show ?thesis using run inv cookie
      by (auto simp: StartCall_def NewCookie_def Let_def bindS_def getS_def throwS_def)
  next
    case None
    let ?call = "\<lparr>pc_promise = ?p, pc_type = mtype msg, pc_one_way = ow\<rparr>"
    let ?c = "c\<lparr>next_cookie := ?k + 1, next_promise := ?p + 1, pending_calls := um_insert ?k ?call (pending_calls c)\<rparr>"
    have c': "c' = ?c"
      using run None by (auto simp: StartCall_def NewCookie_def Let_def bindS_def seqS_def getS_def modS_def retS_def
          SetCookie_def)
    have lt: "pc_promise call < ?p" if "um_find j (pending_calls c) = Some call" for j call
      by (rule calls_wf_promise [OF wf that])
    have free: "promises c ?p = None" using wf by (auto simp: calls_wf_def calls_ok_def)
    have fin: "finishing ?c = finishing c" by (simp add: finishing_def)
    have "calls_ok ?c" using wf None by (auto simp: calls_wf_def calls_ok_def um_insert_def less_SucI)
    moreover have "k = k'" if "um_find k (pending_calls ?c) = Some call1" "um_find k' (pending_calls ?c) = Some call2"
        "pc_promise call1 = pc_promise call2" for k k' call1 call2
      using that wf lt [of k call1] lt [of k' call2] unfolding calls_wf_def
      by (auto simp: um_find_simps split: if_splits)
    moreover have "j \<in> set (finishing c) \<longleftrightarrow>
        (\<exists>call. um_find j (pending_calls ?c) = Some call \<and> promises ?c (pc_promise call) \<noteq> None)" for j
      using wf None free unfolding calls_wf_def by (auto simp: um_find_simps)
    ultimately have "calls_wf ?c" using wf unfolding calls_wf_def fin by (simp del: um_find_simps)
    moreover have "waits ?c p j" if "(p, j) \<in> W" for p j
      using calls_inv_D(2) [OF inv that] None by (auto simp: waits_def um_find_simps split: option.splits)
    ultimately show ?thesis by (auto simp: calls_inv_def c')
  qed
  show "p = next_promise c \<and> next_promise c' = p + 1 \<and> waits c' p (mcookie msg')" if "r = Inr (p, msg')"
    using run that wf
    by (auto simp: StartCall_def NewCookie_def Let_def bindS_def seqS_def getS_def modS_def retS_def throwS_def waits_def
        SetCookie_def um_find_simps calls_wf_def calls_ok_def split: if_splits option.splits)
qed

lemma StartCall_by_calls: "by_calls (StartCall msg ow)"
  unfolding by_calls_def using StartCall_registers(1) by (blast intro: validS_I)

lemma client_send_by_calls: "by_calls (client_send msg)"
  unfolding client_send_def by (intro by_calls_bind by_calls_mod by_calls_simps) simp

lemma QueueMessage_by_calls: "by_calls (QueueMessage msg)"
  unfolding QueueMessage_def by (auto intro!: by_calls_bind client_send_by_calls)

lemma await_by_calls: "by_calls (await p)"
proof -
  have "by_calls (await_frames p fs)" for fs
  proof (induction fs)
    case Nil
    show ?case by (auto intro!: by_calls_bind by_calls_seq by_calls_mod split: option.split)
  next
    case (Cons f fs)
    have "by_calls (tryS (OnNewMessage (Some f))
        (\<lambda>e. case e of OutOfRange \<Rightarrow> Some (retS ()) | RuntimeError \<Rightarrow> Some (retS ()) | _ \<Rightarrow> None))"
      using OnNewMessage_by_calls [of "Some f"] unfolding by_calls_def
      by (auto intro!: validS_try split: exn.splits)
    with Cons show ?case by (auto intro!: by_calls_bind by_calls_seq by_calls_mod split: option.split)
  qed
  then show ?thesis unfolding await_def by (auto intro!: by_calls_bind)
qed

lemma Transact_message_by_calls: "by_calls (Transact_message msg ow)"
  unfolding Transact_message_def
  by (auto intro!: by_calls_bind by_calls_seq StartCall_by_calls QueueMessage_by_calls await_by_calls split: prod.split)

lemma NewCookie_by_calls: "by_calls NewCookie"
proof -
  have "NewCookie = bindS (getS next_cookie) (\<lambda>k. seqS (modS (\<lambda>c. c\<lparr>next_cookie := next_cookie c + 1\<rparr>)) (retS k))"
    by (simp add: fun_eq_iff NewCookie_def bindS_def seqS_def getS_def modS_def retS_def)
  moreover have "by_calls \<dots>" by (auto intro!: by_calls_bind by_calls_seq by_calls_mod)
  ultimately show ?thesis by simp
qed

text \<open>A part of the client that has nothing to do with calls.\<close>

lemma by_calls_part:
  assumes "\<And>c. \<exists>c'. m c = (fst (m c), c') \<and> pending_calls c' = pending_calls c \<and> promises c' = promises c \<and>
    next_promise c' = next_promise c \<and> strand c' = strand c"
  shows "by_calls m"
proof -
  have "calls_inv W (snd (m c)) = calls_inv W c" for W c
    using assms [of c] by (intro calls_inv_cong) (auto simp: finishing_def, (metis snd_conv)+)
  then show ?thesis unfolding by_calls_def by (auto intro!: validS_I) (metis snd_conv)+
qed

lemma on_translator_by_calls: "by_calls (on_translator m)"
  by (rule by_calls_part) (simp add: on_translator_def split: prod.split)

lemma on_pool_by_calls: "by_calls (on_pool m)"
  by (rule by_calls_part) (simp add: on_pool_def split: prod.split)

lemma Transact_by_calls: "by_calls (Transact handle request wants_reply)"
  unfolding Transact_def Let_def
  by (auto intro!: by_calls_bind NewCookie_by_calls on_translator_by_calls Transact_message_by_calls
      split: option.split prod.split)

lemma Client_SendStatus_by_calls: "by_calls (Client_SendStatus msg st)"
  unfolding Client_SendStatus_def by (auto intro!: by_calls_bind client_send_by_calls)

lemmas calls_made = by_calls_bind by_calls_seq by_calls_mod Transact_by_calls on_translator_by_calls
  client_send_by_calls QueueMessage_by_calls Client_SendStatus_by_calls

lemma SendObituary_by_calls: "by_calls (SendObituary ob)"
proof -
  have "by_calls (get_remote ob)"
    by (rule by_calls_part) (simp add: get_remote_def split: option.split obj.split)
  then show ?thesis unfolding SendObituary_def put_remote_def by (auto intro!: calls_made)
qed

lemma transaction_object_by_calls: "by_calls (transaction_object request)"
  by (rule by_calls_part) (simp add: transaction_object_def Let_def)

section \<open>Handlers\<close>

text \<open>What is asked of the code of an application that serves transactions: that it touches the calls of the client only
  by making calls.\<close>

locale calling_handler =
  fixes h :: handler
  assumes uses_calls: "by_calls (h ob request)"
begin

lemma Object_Transact_by_calls: "by_calls (Object_Transact h ob request)"
  unfolding Object_Transact_def LocalObject_Transact_def
  by (auto intro!: calls_made uses_calls split: option.split obj.split)

lemma HandleContextObjectMessage_by_calls: "by_calls (HandleContextObjectMessage h msg)"
  unfolding HandleContextObjectMessage_def
  by (auto intro!: calls_made Object_Transact_by_calls split: option.split prod.split)

lemma ProcessAndExecuteCommand_by_calls: "by_calls (ProcessAndExecuteCommand h)"
proof -
  have "by_calls (OnClientTransaction h msg)" for msg
    unfolding OnClientTransaction_def
    by (auto intro!: calls_made Object_Transact_by_calls transaction_object_by_calls split: option.split prod.split)
  moreover have "by_calls (OnDeadBinder msg)" for msg
    unfolding OnDeadBinder_def
    by (auto intro!: calls_made SendObituary_by_calls split: option.split prod.split obj.split)
  ultimately show ?thesis
    unfolding ProcessAndExecuteCommand_def DequeueMessage_def
    by (auto intro!: calls_made split: option.split prod.split list.split msg_type.split)
qed

lemma run_strand_keeps:
  assumes inv: "calls_inv W c" and run: "run_strand h c = (r, c')" and ok: "r \<noteq> Inl MemFault"
  shows "calls_inv W c'"
proof (cases "strand c")
  case Nil
  then show ?thesis using inv run by (simp add: run_strand_def bindS_def getS_def retS_def)
next
  case (Cons t ts)
  show ?thesis
  proof (cases t)
    case (TaskFinishCall k)
    then show ?thesis
      using FinishCall_keeps [OF inv Cons [unfolded TaskFinishCall]] run Cons
      by (simp add: run_strand_def FinishCall_def bindS_def seqS_def getS_def modS_def)
  next
    case (TaskContextMessage msg)
    have "calls_inv W (c\<lparr>strand := ts\<rparr>) = calls_inv W c"
      by (rule calls_inv_cong) (simp_all add: finishing_def Cons TaskContextMessage)
    moreover have "HandleContextObjectMessage h msg (c\<lparr>strand := ts\<rparr>) = (r, c')"
      using run Cons TaskContextMessage by (simp add: run_strand_def bindS_def seqS_def getS_def modS_def)
    ultimately show ?thesis
      using HandleContextObjectMessage_by_calls inv ok unfolding by_calls_def by (blast dest: keepsS_D)
  qed
qed

end

section \<open>Runs\<close>

fun engaged :: "caller \<Rightarrow> (nat \<times> u64) option" where
  "engaged (Started p msg) = Some (p, mcookie msg)"
| "engaged (Waiting p k) = Some (p, k)"
| "engaged _ = None"

definition engagements :: "client_system \<Rightarrow> (nat \<times> u64) set" where
  "engagements s = {e. \<exists>t. engaged (callers s t) = Some e}"

definition answered_well :: "caller \<Rightarrow> bool" where
  "answered_well q \<longleftrightarrow> (\<forall>k m. q = Returned k (Some m) \<longrightarrow> mcookie m = k \<and> unat k < 256 \<and> mtype m \<noteq> TLogEntry)"

definition threads_inv :: "client_system \<Rightarrow> bool" where
  "threads_inv s \<longleftrightarrow> calls_inv (engagements s) (sy_client s) \<and>
     (\<forall>t t' p k k'. engaged (callers s t) = Some (p, k) \<longrightarrow> engaged (callers s t') = Some (p, k') \<longrightarrow> t = t') \<and>
     (\<forall>t. answered_well (callers s t))"

lemma set_caller_simps [simp]:
  "sy_client (set_caller t q s) = sy_client s" "callers (set_caller t q s) = (callers s)(t := q)"
  "inside (set_caller t q s) = inside s"
  by (simp_all add: set_caller_def)

lemma threads_inv_inside [simp]: "threads_inv (s\<lparr>inside := p\<rparr>) = threads_inv s"
  by (simp add: threads_inv_def engagements_def)

lemma threads_inv_client:
  assumes "threads_inv s" and "\<And>W. calls_inv W (sy_client s) \<Longrightarrow> calls_inv W c"
  shows "threads_inv (s\<lparr>sy_client := c\<rparr>)"
  using assms by (simp add: threads_inv_def engagements_def)

text \<open>A caller goes on with the same call, or with none.\<close>

lemma threads_inv_caller:
  assumes "threads_inv s" and "engaged q = engaged (callers s t) \<or> engaged q = None" and "answered_well q"
  shows "threads_inv (set_caller t q s)"
proof -
  have "engagements (set_caller t q s) \<subseteq> engagements s"
    using assms(2) by (auto simp: engagements_def split: if_splits)
  then have calls: "calls_inv (engagements (set_caller t q s)) (sy_client s)"
    using assms(1) by (auto simp: threads_inv_def calls_inv_def)
  have one: "u = u'" if "engaged (((callers s)(t := q)) u) = Some (p, k)" "engaged (((callers s)(t := q)) u') = Some (p, k')"
    for u u' p k k'
  proof -
    have "engaged (callers s u) = Some (p, k)" "engaged (callers s u') = Some (p, k')"
      using that assms(2) by (auto split: if_splits)
    then show ?thesis using assms(1) unfolding threads_inv_def by blast
  qed
  have "answered_well (((callers s)(t := q)) u)" for u using assms(1,3) by (simp add: threads_inv_def)
  then show ?thesis using calls one unfolding threads_inv_def set_caller_simps by blast
qed

lemma io_worker_inv:
  assumes "threads_inv s" and "\<And>W. keepsS (calls_inv W) m" and "io_worker m s = Inr s'"
  shows "threads_inv s'"
proof -
  obtain r c where run: "m (sy_client s) = (r, c)" by (cases "m (sy_client s)")
  then have "s' = s\<lparr>sy_client := c\<rparr>" "r \<noteq> Inl MemFault"
    using assms(3) by (auto simp: io_worker_def split: sum.splits if_splits)
  then show ?thesis using threads_inv_client [OF assms(1)] keepsS_D [OF assms(2) _ run] by blast
qed

lemma pool_worker_inv:
  assumes "threads_inv s" and "by_calls m" and "pool_worker m s = Inr s'"
  shows "threads_inv s'"
proof -
  obtain r c where run: "m (sy_client s) = (r, c)" by (cases "m (sy_client s)")
  then have "s' = s\<lparr>sy_client := c\<rparr>" "r \<noteq> Inl MemFault"
    using assms(3) by (auto simp: pool_worker_def split: sum.splits if_splits)
  then show ?thesis using threads_inv_client [OF assms(1)] assms(2) run unfolding by_calls_def
    by (metis keepsS_D)
qed

lemma caller_start_inv:
  assumes inv: "threads_inv s" and out: "engaged (callers s t) = None"
  shows "threads_inv (caller_start t msg ow s)"
proof -
  obtain r c where run: "StartCall msg ow (sy_client s) = (r, c)" by (cases "StartCall msg ow (sy_client s)")
  have c: "threads_inv (s\<lparr>sy_client := c\<rparr>)"
    using threads_inv_client [OF inv] StartCall_registers(1) [OF _ run] by blast
  show ?thesis
  proof (cases r)
    case (Inl e)
    then show ?thesis
      using run threads_inv_caller [of "s\<lparr>sy_client := c, inside := None\<rparr>"] c
      by (simp add: caller_start_def answered_well_def)
  next
    case (Inr x)
    obtain p msg' where x: "x = (p, msg')" by (cases x)
    let ?s = "set_caller t (Started p msg') (s\<lparr>sy_client := c, inside := None\<rparr>)"
    have all: "calls_inv (engagements s) (sy_client s)" using inv by (simp add: threads_inv_def)
    have p: "p = next_promise (sy_client s)" "waits c p (mcookie msg')"
      using StartCall_registers(2) [OF all run] Inr x by auto
    have old: "q < p" if "engaged (callers s t') = Some (q, k)" for t' q k
      using calls_inv_D(2) [OF all, of q k] that p by (auto simp: engagements_def waits_def)
    have "engagements ?s = insert (p, mcookie msg') (engagements s)"
      using out by (auto simp: engagements_def split: if_splits) (metis option.distinct(1))
    then have "calls_inv (engagements ?s) c"
      using StartCall_registers(1) [OF all run] p(2) by (auto simp: calls_inv_def)
    then have "threads_inv ?s"
      using c old p by (fastforce simp: threads_inv_def answered_well_def split: if_splits)
    then show ?thesis using run Inr x by (simp add: caller_start_def)
  qed
qed

lemma enter_calls_inv: "enter_calls who s = Inr s' \<Longrightarrow> threads_inv s' = threads_inv s"
  by (auto simp: enter_calls_def split: if_splits)

context calling_handler
begin

lemma act_inv:
  assumes inv: "threads_inv s" and run: "act h a s = Inr s'"
  shows "threads_inv s'"
proof -
  have frame: "keepsS (calls_inv W) (OnNewMessage f)" for W f
    using OnNewMessage_by_calls [of f] by (simp add: by_calls_def)
  have task: "keepsS (calls_inv W) (run_strand h)" for W
    by (rule validS_I) (use run_strand_keeps in blast)+
  show ?thesis
  proof (cases a)
    case (Enter t msg ow)
    then show ?thesis
      using run threads_inv_caller [OF inv, of _ t] by (auto simp: caller_enter_def answered_well_def enter_calls_inv split: if_splits)
  next
    case (Start t)
    then show ?thesis using run caller_start_inv [OF inv] by (auto split: caller.splits)
  next
    case (Queue t)
    then obtain p msg where st: "callers s t = Started p msg" and q: "caller_queue t p msg s = Inr s'"
      using run by (auto split: caller.splits)
    obtain r c where send: "QueueMessage msg (sy_client s) = (r, c)" by (cases "QueueMessage msg (sy_client s)")
    have "threads_inv (s\<lparr>sy_client := c\<rparr>)" if "r \<noteq> Inl MemFault"
      using threads_inv_client [OF inv] QueueMessage_by_calls [of msg] send that unfolding by_calls_def
      by (metis keepsS_D)
    then show ?thesis
      using q send st threads_inv_caller [of "s\<lparr>sy_client := c\<rparr>"]
      by (auto simp: caller_queue_def answered_well_def split: sum.splits if_splits)
  next
    case (Wake t)
    then obtain p k m where w: "callers s t = Waiting p k" "promises (sy_client s) p = Some m"
        "s' = set_caller t (Returned k (Some m)) s"
      using run by (auto simp: caller_wake_def split: caller.splits option.splits)
    have "(p, k) \<in> engagements s" using w(1) unfolding engagements_def by (auto intro: exI [of _ t])
    then have "waits (sy_client s) p k" using inv by (auto simp: threads_inv_def calls_inv_def)
    then show ?thesis
      using w threads_inv_caller [OF inv, of "Returned k (Some m)" t] by (simp add: waits_def answered_well_def)
  next
    case (Leave t)
    then show ?thesis
      using run threads_inv_caller [OF inv, of Outside t] by (auto simp: answered_well_def split: caller.splits)
  next
    case (Frame f)
    have "threads_inv (s\<lparr>sy_client := (sy_client s)\<lparr>c_reading := False\<rparr>\<rparr>)"
      using threads_inv_client [OF inv] calls_inv_cong [of "(sy_client s)\<lparr>c_reading := False\<rparr>" "sy_client s"]
      by (simp add: finishing_def)
    then show ?thesis
      using run Frame io_worker_inv [OF inv frame] by (auto simp: frame_in_def enter_calls_inv split: if_splits option.splits)
  next
    case FrameDone
    then show ?thesis
      using run io_worker_inv [of "s\<lparr>inside := None\<rparr>", OF _ frame] inv by (auto split: option.splits party.splits)
  next
    case Strand
    then show ?thesis using run io_worker_inv [OF inv task] inv
      by (auto simp: strand_in_def enter_calls_inv split: if_splits list.splits strand_task.splits)
  next
    case Finish
    then show ?thesis
      using run io_worker_inv [of "s\<lparr>inside := None\<rparr>", OF _ task] inv by (auto split: if_splits)
  next
    case Command
    then show ?thesis using run pool_worker_inv [OF inv ProcessAndExecuteCommand_by_calls] by (auto split: if_splits)
  next
    case Close
    have "by_calls Client_Terminate" unfolding Client_Terminate_def by (rule by_calls_mod) simp
    then show ?thesis using run Close io_worker_inv [OF inv, of Client_Terminate] by (auto simp: by_calls_def)
  qed
qed

lemma run_actions_inv: "threads_inv s \<Longrightarrow> run_actions h as s = Inr s' \<Longrightarrow> threads_inv s'"
  by (induction as arbitrary: s) (auto simp: bindR_Inr_iff dest: act_inv)

end

lemma new_system_inv: "threads_inv (new_system a)"
  by (simp add: threads_inv_def new_system_def engagements_def calls_inv_def calls_wf_def calls_ok_def answered_well_def
      finishing_def ClientImpl_connect_def Client_Connect_def Client_ReadNextMessage_def ClientImpl_def
      seqS_def bindS_def modS_def)

text \<open>C5: for every order of the actions of a client's threads in which no two accesses to \<^verbatim>\<open>pending_calls_\<close> overlap (the
  code has no lock that keeps them apart, and a run in which two overlap has no result), a caller that comes
  back with an answer has the answer to its own call; a caller that waits can be woken or its call is still registered
  under its cookie, so no answer is lost; two callers that wait share no promise and, as long as neither is
  answered, no cookie; and a call whose cookie does not fit in a byte waits for ever, since no message that
  the parser produces carries it. The handlers of the application run as one step each.\<close>

theorem callers_get_their_answers:
  assumes "\<forall>ob request. by_calls (h ob request)" and "run_actions h as (new_system a) = Inr s"
  shows "(callers s t = Returned k (Some m) \<longrightarrow> mcookie m = k \<and> unat k < 256 \<and> mtype m \<noteq> TLogEntry) \<and>
    (callers s t = Waiting p k \<longrightarrow>
       act h (Wake t) s \<noteq> Inl Blocked \<or> (\<exists>call. um_find k (pending_calls (sy_client s)) = Some call \<and> pc_promise call = p)) \<and>
    (callers s t = Waiting p k \<and> callers s u = Waiting q j \<and> t \<noteq> u \<longrightarrow>
       p \<noteq> q \<and> (promises (sy_client s) p = None \<and> promises (sy_client s) q = None \<longrightarrow> k \<noteq> j)) \<and>
    (callers s t = Waiting p k \<and> 256 \<le> unat k \<longrightarrow> act h (Wake t) s = Inl Blocked)"
proof -
  have ch: "calling_handler h" using assms(1) by unfold_locales simp
  have inv: "threads_inv s" by (rule calling_handler.run_actions_inv [OF ch new_system_inv assms(2)])
  have w: "waits (sy_client s) p k" if "callers s t = Waiting p k" for t p k
  proof -
    have "(p, k) \<in> engagements s" using that unfolding engagements_def by (auto intro: exI [of _ t])
    then show ?thesis using inv by (auto simp: threads_inv_def calls_inv_def)
  qed
  have "p \<noteq> q" if "callers s t = Waiting p k" "callers s u = Waiting q j" "t \<noteq> u"
    using inv that unfolding threads_inv_def by (metis engaged.simps(2))
  moreover have "k \<noteq> j" if "callers s t = Waiting p k" "callers s u = Waiting q j" "p \<noteq> q"
      "promises (sy_client s) p = None" "promises (sy_client s) q = None"
    using w [OF that(1)] w [OF that(2)] that by (auto simp: waits_def)
  moreover have "answered_well (callers s t)" using inv by (simp add: threads_inv_def)
  ultimately show ?thesis
    using w [of t p k] by (auto simp: answered_well_def caller_wake_def waits_def split: option.splits)
qed

text \<open>Nothing keeps two accesses apart: in every state in which nobody is inside \<^verbatim>\<open>pending_calls_\<close>, a caller can begin its
  call while another one is in \<^verbatim>\<open>StartCall\<close>, or while a frame is being handled.\<close>

lemma calls_can_race:
  assumes "inside s = None" and "c_connected (sy_client s)" and "callers s t = Outside" and "callers s u = Outside" and "t \<noteq> u"
  shows "run_actions h [Enter t msg ow, Enter u msg' ow'] s = Inl MemFault" and
    "c_reading (sy_client s) \<and> \<not> c_should_exit (sy_client s) \<Longrightarrow>
      run_actions h [Frame (Some b), Enter t msg ow] s = Inl MemFault"
  using assms by (simp_all add: caller_enter_def enter_calls_def frame_in_def)

text \<open>Two callers whose calls are made at the same time, one inside \<^verbatim>\<open>StartCall\<close> after the other.\<close>

definition quiet :: handler where
  "quiet ob request = retS (UnknownTransaction, None)"

interpretation quiet: calling_handler quiet
  by unfold_locales (simp add: quiet_def)

definition two_calls :: "thread_action list" where
  "two_calls =
     [Enter 1 (Message_Create TSetContextMgr) False, Start 1, Enter 2 (Message_Create TTransaction) False, Start 2,
      Queue 2, Queue 1]"

lemma caller_start_run:
  assumes "c_connected c" and "um_find (next_cookie c) (pending_calls c) = None" and "k t = Outside"
  shows "run_actions h (Enter t msg ow # Start t # as) \<lparr>sy_client = c, callers = k, inside = None\<rparr> =
    run_actions h as
      \<lparr>sy_client = c\<lparr>next_cookie := next_cookie c + 1, next_promise := next_promise c + 1, pending_calls :=
          um_insert (next_cookie c) \<lparr>pc_promise = next_promise c, pc_type = mtype msg, pc_one_way = ow\<rparr> (pending_calls c)\<rparr>,
        callers = k(t := Started (next_promise c) (SetCookie (next_cookie c) msg)), inside = None\<rparr>"
  using assms by (simp add: caller_enter_def enter_calls_def caller_start_def set_caller_def StartCall_def NewCookie_def Let_def
      bindS_def seqS_def getS_def modS_def retS_def SetCookie_def)

lemma two_calls_wait:
  obtains s where "run_actions quiet two_calls (new_system plain_alloc) = Inr s" and "callers s 1 = Waiting 0 0"
    and "callers s 2 = Waiting 1 1" and "promises (sy_client s) = Map.empty"
    and "c_reading (sy_client s) \<and> \<not> c_should_exit (sy_client s) \<and> inside s = None"
    and "um_find 0 (pending_calls (sy_client s)) = Some \<lparr>pc_promise = 0, pc_type = TSetContextMgr, pc_one_way = False\<rparr>"
proof -
  let ?m = "SetCookie 0 (Message_Create TSetContextMgr)" and ?n = "SetCookie 1 (Message_Create TTransaction)"
  define c where "c = (ClientImpl plain_alloc)\<lparr>c_connected := True, c_reading := True, c_running := True\<rparr>"
  have c: "c_connected c" "c_reading c" "c_running c" "\<not> c_should_exit c" "next_cookie c = 0" "next_promise c = 0"
    "pending_calls c = []" "promises c = Map.empty" "c_alloc c = plain_alloc"
    by (simp_all add: c_def ClientImpl_def)
  have new: "new_system plain_alloc = \<lparr>sy_client = c, callers = \<lambda>_. Outside, inside = None\<rparr>"
    by (simp add: new_system_def c_def ClientImpl_connect_def Client_Connect_def Client_ReadNextMessage_def seqS_def
        bindS_def modS_def)
  define d where "d = c\<lparr>next_cookie := 2, next_promise := 2,
    pending_calls := [(0, \<lparr>pc_promise = 0, pc_type = TSetContextMgr, pc_one_way = False\<rparr>),
      (1, \<lparr>pc_promise = 1, pc_type = TTransaction, pc_one_way = False\<rparr>)]\<rparr>"
  let ?st = "\<lparr>sy_client = d, callers = (\<lambda>_. Outside)(1 := Started 0 ?m, 2 := Started 1 ?n), inside = None\<rparr>"
  have start: "run_actions quiet two_calls (new_system plain_alloc) = run_actions quiet [Queue 2, Queue 1] ?st"
    unfolding two_calls_def new using c
    by (simp add: caller_start_run d_def um_insert_def um_find_def Message_Create_def numeral_2_eq_2 del: run_actions.simps)
  have f: "fits ?m" "fits ?n" by (simp_all add: fits_def SetCookie_def Message_Create_def Buffer_view_def)
  have q: "QueueMessage m d = (Inr (), d\<lparr>c_outbox := c_outbox d @ [packed m]\<rparr>)"
    if "fits m" "c_running d" "\<not> c_should_exit d" "c_alloc d = plain_alloc" for m d
    using that client_send_run [of d m] by (simp add: QueueMessage_def bindS_def getS_def)
  have cookies: "mcookie ?m = 0" "mcookie ?n = 1" by (simp_all add: SetCookie_def)
  have d: "c_running d" "\<not> c_should_exit d" "c_alloc d = plain_alloc" "promises d = Map.empty" "c_reading d"
    by (simp_all add: d_def c)
  let ?s = "\<lparr>sy_client = d\<lparr>c_outbox := c_outbox d @ [packed ?n, packed ?m]\<rparr>,
    callers = (\<lambda>_. Outside)(1 := Started 0 ?m, 2 := Waiting 1 1, 1 := Waiting 0 0), inside = None\<rparr>"
  have "run_actions quiet [Queue 2, Queue 1] ?st = Inr ?s"
    using q [OF f(2) d(1-3)] q [OF f(1), of "d\<lparr>c_outbox := c_outbox d @ [packed ?n]\<rparr>"] d
    by (simp add: caller_queue_def set_caller_def cookies)
  then show thesis by (intro that [of ?s]) (simp_all add: start d, simp add: d_def um_find_def)
qed

theorem callers_get_their_answers_witness:
  "\<exists>s call. run_actions quiet two_calls (new_system plain_alloc) = Inr s \<and> callers s 1 = Waiting 0 0 \<and>
     callers s 2 = Waiting 1 1 \<and> um_find 1 (pending_calls (sy_client s)) = Some call \<and> pc_promise call = 1"
proof (rule two_calls_wait)
  fix s assume s: "run_actions quiet two_calls (new_system plain_alloc) = Inr s" "callers s 1 = Waiting 0 0"
    "callers s 2 = Waiting 1 1" "promises (sy_client s) = Map.empty"
  have "\<forall>ob request. by_calls (quiet ob request)" using quiet.uses_calls by blast
  from callers_get_their_answers [OF this s(1), of 2 1 _ 1] s show ?thesis by (auto simp: caller_wake_def)
qed



end
