(* ===== verification/Commands.thy ===== *)
theory Commands
  imports Service_Manager Server_Process Cli Logger "HOL-Library.Sublist" Client_Threads
begin

text \<open>
  \<^verbatim>\<open>src/src/binderd/cmds/\<close>, \<^verbatim>\<open>daemon.cpp\<close>, \<^verbatim>\<open>client.cpp\<close> and \<^verbatim>\<open>src/src/main.cpp\<close>: the commands
  of the program. A command works on the process: its client and what it printed. The threads
  of the pool are \<open>worker_loop\<close>, with the number of passes they make before the client ends
  as an argument.
\<close>

section \<open>The process\<close>

record process =
  proc_client :: client
  proc_out :: string
  proc_err :: string

type_synonym 'a proc = "(process, 'a) comp"

definition with_client :: "'a cl \<Rightarrow> 'a proc" where
  "with_client m = (\<lambda>p. let (r, c) = m (proc_client p) in (r, p\<lparr>proc_client := c\<rparr>))"

definition print_out :: "string \<Rightarrow> unit proc" where
  "print_out s = modS (\<lambda>p. p\<lparr>proc_out := proc_out p @ s\<rparr>)"

definition print_err :: "string \<Rightarrow> unit proc" where
  "print_err s = modS (\<lambda>p. p\<lparr>proc_err := proc_err p @ s\<rparr>)"

section \<open>Making a client\<close>

definition socket_path_for :: "string \<Rightarrow> string \<Rightarrow> string" where
  "socket_path_for socket_path_override socket_path =
     (if socket_path_override \<noteq> [] then socket_path_override else socket_path)"

text \<open>\<open>ok path\<close>: a connection to that path succeeds.\<close>

definition Client_Create :: "allocator \<Rightarrow> (string \<Rightarrow> bool) \<Rightarrow> string \<Rightarrow> string \<Rightarrow> bool \<Rightarrow> client" where
  "Client_Create a ok socket_path_override socket_path connect =
     (if connect then snd (ClientImpl_connect (ok (socket_path_for socket_path_override socket_path)) (ClientImpl a))
      else ClientImpl a)"

text \<open>\<^verbatim>\<open>connect\<close> is here the function of the C library, whose address is not null.\<close>

definition Client_CreateNotTracked :: "allocator \<Rightarrow> (string \<Rightarrow> bool) \<Rightarrow> string \<Rightarrow> client" where
  "Client_CreateNotTracked a ok socket_path = snd (ClientImpl_connect (ok socket_path) (ClientImpl a))"

definition program_name :: string where "program_name = ''bin'' @ ''der''"

definition kDefaultSocketPath :: string where "kDefaultSocketPath = ''/run/'' @ program_name @ ''.sock''"

primrec worker_loop :: "handler \<Rightarrow> nat \<Rightarrow> unit cl" where
  "worker_loop h 0 = retS ()"
| "worker_loop h (Suc n) =
     bindS (getS c_should_exit) (\<lambda>ex.
     if ex then retS () else bindS (ProcessAndExecuteCommand h) (\<lambda>_. worker_loop h n))"

section \<open>The commands\<close>

definition cmd_Server :: "allocator \<Rightarrow> u32 option \<Rightarrow> string list \<Rightarrow> bool \<Rightarrow> bool \<Rightarrow> nat \<Rightarrow> io_event list \<Rightarrow> int res option" where
  "cmd_Server a statbuf lines removed bound stop evs =
     (case ServerImpl a statbuf lines removed bound kDefaultSocketPath of
        Inl e \<Rightarrow> Some (Inl e)
      | Inr s \<Rightarrow> (case Run stop evs s of None \<Rightarrow> None | Some _ \<Rightarrow> Some (Inr EXIT_SUCCESS)))"

definition TestService :: handler where
  "TestService ob request = retS (FdsNotAllowed, None)"

interpretation test_service: calling_handler TestService
  by unfold_locales (simp add: TestService_def)

definition cmd_Client :: "bool \<Rightarrow> nat \<Rightarrow> int proc" where
  "cmd_Client service n =
     (if service then
        bindS (with_client (new_object LocalObject)) (\<lambda>ob.
        bindS (with_client (Proxy_AddService True (bytes_of ''Foo'') (Some ob) 0)) (\<lambda>_.
        bindS (with_client (worker_loop TestService n)) (\<lambda>_.
        retS EXIT_SUCCESS)))
      else
        bindS (with_client (Proxy_GetService True (bytes_of ''Foo''))) (\<lambda>(st, object).
        if st \<noteq> OK
        then seqS (print_err (''Failed to access object '' @ [CHR 0x27] @ ''Foo'' @ [CHR 0x27] @ endl)) (retS EXIT_FAILURE)
        else
          bindS (getS (\<lambda>p. c_alloc (proc_client p))) (\<lambda>a.
          bindS (liftS (ParcelTransactionDataWriter a)) (\<lambda>w.
          case object of
            Some (Some ob) \<Rightarrow>
              bindS (with_client (Object_Transact TestService ob (Parcel_Finalize (Parcel_SetCode 3 w)))) (\<lambda>(st, _).
              seqS (print_out (''Receieved reply from service: '' @ status_string st @ endl)) (retS EXIT_SUCCESS))
          | _ \<Rightarrow> throwS MemFault))))"

text \<open>\<open>h\<close> is what the objects of the process do.\<close>

definition cmd_Monitor :: "handler \<Rightarrow> nat \<Rightarrow> int proc" where
  "cmd_Monitor h n =
     bindS (getS (\<lambda>p. c_connected (proc_client p))) (\<lambda>con.
     if \<not> con then seqS (print_err ''Failed to connect to server'') (retS EXIT_FAILURE)
     else
       bindS (with_client BecomeMonitor) (\<lambda>st.
       if st \<noteq> OK then seqS (print_err (''Failed to enable monitor mode'' @ endl)) (retS EXIT_FAILURE)
       else
         seqS (with_client (SetLogMessageHandler True))
        (seqS (with_client (worker_loop h n)) (retS EXIT_SUCCESS))))"

definition service_line :: "nat \<times> byte list \<Rightarrow> string" where
  "service_line nv = decimal (fst nv) @ [CHR 0x09] @ map (\<lambda>b. char_of (unat b)) (snd nv) @ endl"

definition cmd_Service :: "bool \<Rightarrow> int proc" where
  "cmd_Service list =
     (if \<not> list then seqS (print_err (''No valid action specified'' @ endl)) (retS EXIT_FAILURE)
      else
        bindS (getS (\<lambda>p. c_connected (proc_client p))) (\<lambda>con.
        if \<not> con then seqS (print_err ''Failed to connect to server'') (retS EXIT_FAILURE)
        else
          bindS (with_client (Proxy_ListServices True [])) (\<lambda>(st, sv).
          if st \<noteq> OK
          then seqS (print_err (''Failed to retrieve available services: '' @ status_string st @ endl)) (retS EXIT_FAILURE)
          else
            seqS (print_out (''Found '' @ decimal (length sv) @ '' services:'' @ endl))
           (seqS (print_out (concat (map service_line (enumerate 0 sv))))
            (retS EXIT_SUCCESS)))))"

definition cmd_ServiceManager :: "handler \<Rightarrow> nat \<Rightarrow> int proc" where
  "cmd_ServiceManager h n =
     bindS (with_client BecomeContextManager) (\<lambda>st.
     if st \<noteq> OK then retS EXIT_FAILURE
     else
       bindS (with_client (new_object LocalObject)) (\<lambda>ob.
       seqS (with_client (SetContextObject (Some ob)))
      (seqS (with_client (worker_loop h n)) (retS EXIT_SUCCESS))))"

section \<open>The daemon\<close>

definition cmd_info :: "string \<Rightarrow> string \<Rightarrow> string \<Rightarrow> command_info" where
  "cmd_info n u d = \<lparr>cmd_name = n, cmd_usage = u, cmd_description = d, cmd_hidden = False\<rparr>"

text \<open>\<open>server\<close> is what the server command does.\<close>

definition Daemon :: "int proc \<Rightarrow> handler \<Rightarrow> nat \<Rightarrow> process command" where
  "Daemon server h n =
     add_command (WithFlagsAndAction (cmd_info ''monitor'' ''monitor'' ''Monitor all messages exchanged over the binderd server'')
        [] (\<lambda>p as. cmd_Monitor h n))
    (add_command (WithFlagsAndAction (cmd_info ''service'' ''service'' (''Simple command to interact with '' @ program_name @ '' services''))
        [\<lparr>flag_name = ''list'', flag_description = ''List available '' @ program_name @ '' services'', is_switch = True\<rparr>]
        (\<lambda>p as. cmd_Service (''list'' \<in> set (po_switches p))))
    (add_command (WithFlagsAndAction (cmd_info ''service-manager'' ''service-manger'' ''Run the service-manager service'')
        [] (\<lambda>p as. cmd_ServiceManager h n))
    (add_command (WithFlagsAndAction (cmd_info ''client'' ''client'' (''Run a '' @ program_name @ '' client''))
        [\<lparr>flag_name = ''service'', flag_description = ''Start the service part'', is_switch = True\<rparr>]
        (\<lambda>p as. cmd_Client (''service'' \<in> set (po_switches p)) n))
    (add_command (WithFlagsAndAction (cmd_info ''server'' ''server'' (''Run the '' @ program_name @ '' server component''))
        [] (\<lambda>p as. server))
    (CommandWithSubcommands (cmd_info program_name program_name ''Binder service''))))))"

text \<open>The logger as the constructor leaves it, and whether the level of the environment was
  understood.\<close>

definition Daemon_logger :: "environment \<Rightarrow> std_logger \<Rightarrow> bool \<times> std_logger" where
  "Daemon_logger env l =
     (let l = Init kWarning l; log_level = get_env_value env ''BINDER_LOG_LEVEL'' [] in
      if log_level \<noteq> [] then SetSeverityFromString log_level l else (True, l))"

text \<open>An exception is logged and becomes the exit status.\<close>

definition Daemon_Run :: "option_parser \<Rightarrow> process command \<Rightarrow> string list \<Rightarrow> (int \<times> string) proc" where
  "Daemon_Run parse cmd arguments =
     tryS (run parse cmd cmd arguments)
       (\<lambda>e. case e of
          OutOfRange \<Rightarrow> Some (retS (EXIT_FAILURE, []))
        | RuntimeError \<Rightarrow> Some (retS (EXIT_FAILURE, []))
        | _ \<Rightarrow> None)"

definition main_program :: "option_parser \<Rightarrow> process command \<Rightarrow> nat \<Rightarrow> string list \<Rightarrow> (int \<times> string) proc" where
  "main_program parse cmd argc argv = Daemon_Run parse cmd (collect_arguments argc argv)"

section \<open>Which command runs\<close>

definition daemon_names :: "string list" where
  "daemon_names = [''help'', ''server'', ''client'', ''service-manager'', ''service'', ''monitor'']"

lemma add_command_known:
  "um_find n cs = None \<Longrightarrow> n = cmd_name (info_of c) \<Longrightarrow>
     add_command c (WithSubcommands i cs fs) = WithSubcommands i (cs @ [(n, Some c)]) fs"
proof -
  assume f: "um_find n cs = None" and n: "n = cmd_name (info_of c)"
  have "map (\<lambda>(k', v'). if k' = n then (k', Some c) else (k', v')) cs = cs"
    using f by (intro map_idI) (auto simp: um_find_def map_of_eq_None_iff image_iff)
  then show ?thesis using f n by (simp add: um_insert_def um_store_def)
qed

lemma Daemon_commands:
  obtains i cs where "Daemon server h n = WithSubcommands i cs []" and "map fst cs = daemon_names"
    and "\<forall>k c. (k, c) \<in> set cs \<longrightarrow> (\<exists>d. c = Some d)"
    and "um_find ''service-manager'' cs = Some (Some (WithFlagsAndAction
           (cmd_info ''service-manager'' ''service-manger'' ''Run the service-manager service'') [] (\<lambda>p as. cmd_ServiceManager h n)))"
  by (rule that)
    (auto simp: Daemon_def CommandWithSubcommands_def cmd_info_def daemon_names_def um_find_def um_store_def um_insert_def)

lemma Daemon_unknown:
  assumes p: "parse True [(''command'', False)] as = Inr p" and c: "map_of (po_values p) ''command'' = Some name"
    and name: "name \<notin> set daemon_names"
  obtains out where "Daemon_Run parse (Daemon server h n) as s = (Inr (EXIT_FAILURE, out), s)"
    and "prefix ''Unknown command '' out"
proof -
  obtain i cs where d: "Daemon server h n = WithSubcommands i cs []" and f: "map fst cs = daemon_names"
    by (rule Daemon_commands [of server h n])
  have "um_find name cs = None"
    using name f by (metis list.set_map map_of_eq_None_iff um_find_def)
  then have "Daemon_Run parse (Daemon server h n) as s = (Inr (EXIT_FAILURE, ''Unknown command '' @ [CHR 0x27] @ name @
      [CHR 0x27] @ endl @ help_text (WithSubcommands i (um_insert name None cs) [])), s)"
    by (simp add: Daemon_Run_def d p c add_to_desc_for_flags_def tryS_def retS_def)
  then show thesis by (rule that) simp
qed

lemma Daemon_help:
  assumes "parse True [(''command'', False)] as = Inl err"
  shows "Daemon_Run parse (Daemon server h n) as s =
    (Inr (EXIT_FAILURE, err @ endl @ help_text (Daemon server h n)), s)"
proof -
  obtain i cs where d: "Daemon server h n = WithSubcommands i cs []" by (rule Daemon_commands [of server h n])
  show ?thesis unfolding Daemon_Run_def d
    by (simp add: assms add_to_desc_for_flags_def tryS_def retS_def)
qed

end
