(* ===== verification/Common.thy ===== *)
theory Common
  imports Binder_Prelude
begin

text \<open>
  \<^verbatim>\<open>src/src/binderd/common/fd.cpp\<close> and \<^verbatim>\<open>common/variable_length_array.h\<close>: file descriptors that
  are closed with their last owner, and arrays that use the heap only beyond a built-in size.
\<close>

section \<open>File descriptors\<close>

text \<open>A cell is what a \<^verbatim>\<open>std::shared_ptr<int>\<close> points to; \<open>fd_owned\<close> says that it has the deleter
  that closes the descriptor. \<open>closed_fds\<close> lists the calls of \<^verbatim>\<open>close\<close>. The value of an \<^verbatim>\<open>Fd\<close> is the
  cell it shares, or \<open>None\<close> after it has been moved from.\<close>

record fd_cell =
  fd_raw :: int
  fd_owned :: bool
  fd_count :: nat

record fd_store =
  fd_cells :: "nat \<Rightarrow> fd_cell option"
  fd_next :: nat
  closed_fds :: "int list"

type_synonym 'a fds = "(fd_store, 'a) comp"

definition Fd_invalid :: int where "Fd_invalid = - 1"

definition new_cell :: "int \<Rightarrow> bool \<Rightarrow> nat option fds" where
  "new_cell raw owned = (\<lambda>s. (Inr (Some (fd_next s)),
     s\<lparr>fd_cells := (fd_cells s)(fd_next s \<mapsto> \<lparr>fd_raw = raw, fd_owned = owned, fd_count = 1\<rparr>),
       fd_next := fd_next s + 1\<rparr>))"

definition Fd_of_raw :: "int \<Rightarrow> nat option fds" where
  "Fd_of_raw raw_fd = new_cell raw_fd True"

definition Fd_of_IntOwned :: "int \<Rightarrow> nat option fds" where
  "Fd_of_IntOwned fd = new_cell fd False"

definition Fd_default :: "nat option fds" where
  "Fd_default = Fd_of_raw Fd_invalid"

definition Fd_copy :: "nat option \<Rightarrow> nat option fds" where
  "Fd_copy f =
     (case f of
        None \<Rightarrow> retS None
      | Some k \<Rightarrow>
          seqS (modS (\<lambda>s. s\<lparr>fd_cells := (fd_cells s)(k := map_option (\<lambda>c. c\<lparr>fd_count := fd_count c + 1\<rparr>) (fd_cells s k))\<rparr>))
         (retS (Some k)))"

text \<open>The result of a move: the new value and what is left in the old one.\<close>

definition Fd_move :: "nat option \<Rightarrow> nat option \<times> nat option" where
  "Fd_move other = (other, None)"

definition Fd_destroy :: "nat option \<Rightarrow> unit fds" where
  "Fd_destroy f =
     (case f of
        None \<Rightarrow> retS ()
      | Some k \<Rightarrow>
          bindS (getS (\<lambda>s. fd_cells s k)) (\<lambda>cell.
          case cell of
            None \<Rightarrow> throwS MemFault
          | Some c \<Rightarrow>
              if fd_count c > 1
              then modS (\<lambda>s. s\<lparr>fd_cells := (fd_cells s)(k \<mapsto> c\<lparr>fd_count := fd_count c - 1\<rparr>)\<rparr>)
              else modS (\<lambda>s. s\<lparr>fd_cells := (fd_cells s)(k := None),
                closed_fds := (if fd_owned c \<and> fd_raw c > Fd_invalid then closed_fds s @ [fd_raw c] else closed_fds s)\<rparr>)))"

text \<open>\<^verbatim>\<open>operator=(Fd other)\<close>: the argument is passed by value, swapped with the member and then
  destroyed.\<close>

definition Fd_assign :: "nat option \<Rightarrow> nat option \<Rightarrow> nat option fds" where
  "Fd_assign fd other = bindS (Fd_copy other) (\<lambda>new. seqS (Fd_destroy fd) (retS new))"

definition Fd_int :: "nat option \<Rightarrow> fd_store \<Rightarrow> int" where
  "Fd_int f s = (case f of None \<Rightarrow> Fd_invalid | Some k \<Rightarrow> (case fd_cells s k of None \<Rightarrow> Fd_invalid | Some c \<Rightarrow> fd_raw c))"

primrec copies :: "nat \<Rightarrow> nat option \<Rightarrow> unit fds" where
  "copies 0 f = retS ()"
| "copies (Suc n) f = bindS (Fd_copy f) (\<lambda>_. copies n f)"

primrec destroys :: "nat \<Rightarrow> nat option \<Rightarrow> unit fds" where
  "destroys 0 f = retS ()"
| "destroys (Suc n) f = seqS (Fd_destroy f) (destroys n f)"

lemma copies_count:
  assumes "fd_cells s k = Some c"
  shows "copies n (Some k) s = (Inr (), s\<lparr>fd_cells := (fd_cells s)(k \<mapsto> c\<lparr>fd_count := fd_count c + n\<rparr>)\<rparr>)"
  using assms
proof (induction n arbitrary: s c)
  case 0
  then show ?case by (simp add: retS_def fun_upd_idem)
next
  case (Suc n)
  then show ?case by (simp add: Fd_copy_def bindS_def seqS_def modS_def retS_def cong: if_cong)
qed

lemma destroys_count:
  assumes "fd_cells s k = Some c" and "n < fd_count c"
  shows "destroys n (Some k) s = (Inr (), s\<lparr>fd_cells := (fd_cells s)(k \<mapsto> c\<lparr>fd_count := fd_count c - n\<rparr>)\<rparr>)"
  using assms
proof (induction n arbitrary: s c)
  case 0
  then show ?case by (simp add: retS_def fun_upd_idem)
next
  case (Suc n)
  then show ?case by (simp add: Fd_destroy_def bindS_def seqS_def getS_def modS_def cong: if_cong)
qed

lemma destroys_last: "destroys (Suc n) f s = (case destroys n f s of (Inl e, t) \<Rightarrow> (Inl e, t) | (Inr _, t) \<Rightarrow> Fd_destroy f t)"
proof (induction n arbitrary: s)
  case 0
  show ?case by (auto simp: seqS_def bindS_def retS_def split: sum.splits prod.splits)
next
  case (Suc n)
  obtain r t where d: "Fd_destroy f s = (r, t)" by (cases "Fd_destroy f s")
  have unroll: "destroys (Suc m) f s = (case r of Inl e \<Rightarrow> (Inl e, t) | Inr _ \<Rightarrow> destroys m f t)" for m
    using d by (cases r) (simp_all add: seqS_def bindS_def)
  show ?case unfolding unroll using Suc [of t] by (cases r) (simp_all del: destroys.simps)
qed

text \<open>A descriptor that is owned is closed when the last of its copies goes, and not before.\<close>

lemma closed_with_last_owner:
  assumes "fd_cells s k = Some \<lparr>fd_raw = raw, fd_owned = True, fd_count = 1\<rparr>" and "0 \<le> raw" and "m \<le> n"
  shows "\<exists>t. bindS (copies n (Some k)) (\<lambda>_. destroys m (Some k)) s = (Inr (), t) \<and> closed_fds t = closed_fds s"
    and "\<exists>t. bindS (copies n (Some k)) (\<lambda>_. destroys (Suc n) (Some k)) s = (Inr (), t) \<and> closed_fds t = closed_fds s @ [raw]"
proof -
  let ?c = "\<lparr>fd_raw = raw, fd_owned = True, fd_count = 1 + n\<rparr>"
  let ?s = "s\<lparr>fd_cells := (fd_cells s)(k \<mapsto> ?c)\<rparr>"
  have c: "copies n (Some k) s = (Inr (), ?s)" using copies_count [OF assms(1), of n] by simp
  have s: "fd_cells ?s k = Some ?c" by simp
  show "\<exists>t. bindS (copies n (Some k)) (\<lambda>_. destroys m (Some k)) s = (Inr (), t) \<and> closed_fds t = closed_fds s"
    using destroys_count [OF s, of m] assms(3) c by (simp add: bindS_def)
  show "\<exists>t. bindS (copies n (Some k)) (\<lambda>_. destroys (Suc n) (Some k)) s = (Inr (), t) \<and> closed_fds t = closed_fds s @ [raw]"
    using destroys_count [OF s, of n] c assms(2)
    by (simp add: bindS_def destroys_last Fd_destroy_def getS_def modS_def Fd_invalid_def del: destroys.simps)
qed

section \<open>Arrays of variable length\<close>

text \<open>\<open>vla_heap\<close> is the block on the heap, if one is in use; \<open>vla_size\<close> is what \<^verbatim>\<open>GetSize\<close> returns.\<close>

record vla =
  vla_builtin :: "byte list"
  vla_heap :: "byte list option"
  vla_size :: nat

text \<open>\<open>junk\<close> is what fresh memory holds.\<close>

definition vla_Resize :: "(nat \<Rightarrow> byte) \<Rightarrow> nat \<Rightarrow> vla \<Rightarrow> vla" where
  "vla_Resize junk sz v =
     (if sz > length (vla_builtin v) then v\<lparr>vla_heap := Some (map junk [0..<sz]), vla_size := sz\<rparr>
      else v\<lparr>vla_heap := None, vla_size := sz\<rparr>)"

definition VariableLengthArray :: "(nat \<Rightarrow> byte) \<Rightarrow> nat \<Rightarrow> nat \<Rightarrow> vla" where
  "VariableLengthArray junk BuiltInBufferSize sz =
     (let v = \<lparr>vla_builtin = map junk [0..<BuiltInBufferSize], vla_heap = None, vla_size = sz\<rparr> in
      if sz > BuiltInBufferSize then vla_Resize junk sz v else v)"

definition vla_GetData :: "vla \<Rightarrow> byte list" where
  "vla_GetData v = (case vla_heap v of None \<Rightarrow> vla_builtin v | Some b \<Rightarrow> b)"

definition vla_GetSize :: "vla \<Rightarrow> nat" where
  "vla_GetSize v = vla_size v"

text \<open>The memory is always at least as large as the size says.\<close>

lemma vla_fits:
  "vla_GetSize (VariableLengthArray junk b sz) = sz"
  "sz \<le> length (vla_GetData (VariableLengthArray junk b sz))"
  "vla_GetSize (vla_Resize junk n v) = n"
  "n \<le> length (vla_GetData (vla_Resize junk n v))"
  by (simp_all add: VariableLengthArray_def vla_Resize_def vla_GetData_def vla_GetSize_def Let_def)

end
