(* ===== verification/Android_Parcel.thy ===== *)
theory Android_Parcel
  imports Transaction_Data
begin

text \<open>
  \<^verbatim>\<open>src/external/android/binder/Parcel.cpp\<close>: the parcels of the Android libraries that run on top
  of the client. A parcel is a block of memory with a size, a capacity and a position, and an
  array of the offsets at which it holds references to objects.

  The reference counts of the objects live elsewhere: \<open>refs_log\<close> lists the calls that
  \<^verbatim>\<open>acquire_object\<close> and \<^verbatim>\<open>release_object\<close> make on them. The memory a
  parcel holds for shared memory regions (\<^verbatim>\<open>mOpenAshmemSize\<close>) is not modelled. Statuses
  are those of the client, whose numbers are the same as Android's.
\<close>

section \<open>State\<close>

definition PARCEL_INT32_MAX :: nat where "PARCEL_INT32_MAX = 2147483647"

text \<open>\<^verbatim>\<open>size_t\<close> sums wrap around.\<close>

definition size_add :: "nat \<Rightarrow> nat \<Rightarrow> nat" where
  "size_add m n = (m + n) mod 2 ^ 64"

text \<open>\<^verbatim>\<open>flat_binder_object\<close>; the handle shares the first half of \<open>fo_ptr\<close>.\<close>

record flat_binder =
  fo_type :: u32
  fo_flags :: u32
  fo_ptr :: u64
  fo_cookie :: u64

definition fo_handle :: "flat_binder \<Rightarrow> u32" where
  "fo_handle f = ucast (fo_ptr f)"

definition flat_bytes :: "flat_binder \<Rightarrow> byte list" where
  "flat_bytes f = le_bytes 4 (fo_type f) @ le_bytes 4 (fo_flags f) @ le_bytes 8 (fo_ptr f) @ le_bytes 8 (fo_cookie f)"

definition flat_at :: "nat \<Rightarrow> byte list \<Rightarrow> flat_binder res" where
  "flat_at p b =
     bindR (load p 4 b) (\<lambda>t. bindR (load (p + 4) 4 b) (\<lambda>fl.
     bindR (load (p + 8) 8 b) (\<lambda>q. bindR (load (p + 16) 8 b) (\<lambda>c.
     Inr \<lparr>fo_type = t, fo_flags = fl, fo_ptr = q, fo_cookie = c\<rparr>))))"

text \<open>Calls on reference counts: of the object or weak reference at an address, of the proxy for a
  handle; and the closing of a file descriptor.\<close>

datatype ref_call =
    IncStrong u64 | IncWeak u64 | DecWeak u64
  | ProxyIncStrong u32 | ProxyDecStrong u32 | ProxyIncWeak u32 | ProxyDecWeak u32
  | CloseFd u32

text \<open>\<open>mData\<close> is \<open>None\<close> for a null pointer and else the whole block; \<open>mObjects\<close> is the array with all
  its capacity. \<open>mOwner\<close> says that a release function is set: the block belongs to someone
  else. The last two are the counters the parcels of a process share.\<close>

record aparcel =
  mError :: status
  mData :: "byte list option"
  mDataSize :: nat
  mDataCapacity :: nat
  mDataPos :: nat
  mObjects :: "u64 list option"
  mObjectsSize :: nat
  mObjectsCapacity :: nat
  mNextObjectHint :: nat
  mHasFds :: bool
  mFdsKnown :: bool
  mAllowFds :: bool
  mOwner :: bool
  refs_log :: "ref_call list"
  gParcelGlobalAllocSize :: u64
  gParcelGlobalAllocCount :: u64

type_synonym 'a parc = "(aparcel, 'a) comp"

definition initState :: "unit parc" where
  "initState =
     modS (\<lambda>p. p\<lparr>mError := OK, mData := None, mDataSize := 0, mDataCapacity := 0, mDataPos := 0,
       mObjects := None, mObjectsSize := 0, mObjectsCapacity := 0, mNextObjectHint := 0,
       mHasFds := False, mFdsKnown := True, mAllowFds := True, mOwner := False\<rparr>)"

definition Parcel_new :: aparcel where
  "Parcel_new =
     \<lparr>mError = OK, mData = None, mDataSize = 0, mDataCapacity = 0, mDataPos = 0, mObjects = None,
      mObjectsSize = 0, mObjectsCapacity = 0, mNextObjectHint = 0, mHasFds = False, mFdsKnown = True,
      mAllowFds = True, mOwner = False, refs_log = [], gParcelGlobalAllocSize = 0, gParcelGlobalAllocCount = 0\<rparr>"

definition android_pad_size :: "nat \<Rightarrow> nat res" where
  "android_pad_size s =
     (if s > 4294967295 - 3 then Inl Aborted else Inr (unat (PAD_SIZE_UNSAFE (of_nat s))))"

definition dataSize :: "aparcel \<Rightarrow> nat" where
  "dataSize p = (if mDataSize p > mDataPos p then mDataSize p else mDataPos p)"

definition dataPosition :: "aparcel \<Rightarrow> nat" where
  "dataPosition p = mDataPos p"

definition dataCapacity :: "aparcel \<Rightarrow> nat" where
  "dataCapacity p = mDataCapacity p"

definition dataAvail :: "nat parc" where
  "dataAvail =
     bindS (getS (\<lambda>p. dataSize p - dataPosition p)) (\<lambda>result.
     if result > PARCEL_INT32_MAX then throwS Aborted else retS result)"

definition setDataPosition :: "nat \<Rightarrow> unit parc" where
  "setDataPosition pos =
     (if pos > PARCEL_INT32_MAX then throwS Aborted
      else modS (\<lambda>p. p\<lparr>mDataPos := pos, mNextObjectHint := 0\<rparr>))"

definition errorCheck :: "aparcel \<Rightarrow> status" where
  "errorCheck p = mError p"

definition setError :: "status \<Rightarrow> unit parc" where
  "setError err = modS (\<lambda>p. p\<lparr>mError := err\<rparr>)"

definition allowFds :: "aparcel \<Rightarrow> bool" where
  "allowFds p = mAllowFds p"

definition pushAllowFds :: "bool \<Rightarrow> bool parc" where
  "pushAllowFds allow =
     bindS (getS mAllowFds) (\<lambda>orig.
     seqS (if \<not> allow then modS (\<lambda>p. p\<lparr>mAllowFds := False\<rparr>) else retS ()) (retS orig))"

definition restoreAllowFds :: "bool \<Rightarrow> unit parc" where
  "restoreAllowFds last_value = modS (\<lambda>p. p\<lparr>mAllowFds := last_value\<rparr>)"

section \<open>Memory\<close>

text \<open>Access through \<^verbatim>\<open>mData\<close> and \<^verbatim>\<open>mObjects\<close>.\<close>

definition the_data :: "byte list parc" where
  "the_data = (\<lambda>p. case mData p of None \<Rightarrow> (Inl MemFault, p) | Some b \<Rightarrow> (Inr b, p))"

definition write_data :: "nat \<Rightarrow> byte list \<Rightarrow> unit parc" where
  "write_data off xs =
     bindS the_data (\<lambda>b.
     bindS (liftS (mem_write off xs b)) (\<lambda>b.
     modS (\<lambda>p. p\<lparr>mData := Some b\<rparr>)))"

definition entry_at :: "nat \<Rightarrow> u64 parc" where
  "entry_at i =
     (\<lambda>p. case mObjects p of
            Some os \<Rightarrow> (if i < length os then Inr (os ! i) else Inl MemFault, p)
          | None \<Rightarrow> (Inl MemFault, p))"

text \<open>The first \<open>n\<close> entries of the array.\<close>

definition array_part :: "nat \<Rightarrow> u64 list option \<Rightarrow> u64 list res" where
  "array_part n os =
     (case os of
        Some os \<Rightarrow> if n \<le> length os then Inr (take n os) else Inl MemFault
      | None \<Rightarrow> if n = 0 then Inr [] else Inl MemFault)"

definition flat_at_index :: "nat \<Rightarrow> flat_binder parc" where
  "flat_at_index i = bindS (entry_at i) (\<lambda>off. bindS the_data (\<lambda>b. liftS (flat_at (unat off) b)))"

definition acquire_calls :: "flat_binder \<Rightarrow> ref_call list" where
  "acquire_calls obj =
     (if fo_type obj = BINDER_TYPE_BINDER then (if fo_ptr obj \<noteq> 0 then [IncStrong (fo_cookie obj)] else [])
      else if fo_type obj = BINDER_TYPE_WEAK_BINDER then (if fo_ptr obj \<noteq> 0 then [IncWeak (fo_ptr obj)] else [])
      else if fo_type obj = BINDER_TYPE_HANDLE then [ProxyIncStrong (fo_handle obj)]
      else if fo_type obj = BINDER_TYPE_WEAK_HANDLE then [ProxyIncWeak (fo_handle obj)]
      else [])"

definition release_calls :: "flat_binder \<Rightarrow> ref_call list" where
  "release_calls obj =
     (if fo_type obj = BINDER_TYPE_BINDER then []
      else if fo_type obj = BINDER_TYPE_WEAK_BINDER then (if fo_ptr obj \<noteq> 0 then [DecWeak (fo_ptr obj)] else [])
      else if fo_type obj = BINDER_TYPE_HANDLE then [ProxyDecStrong (fo_handle obj)]
      else if fo_type obj = BINDER_TYPE_WEAK_HANDLE then [ProxyDecWeak (fo_handle obj)]
      else if fo_type obj = BINDER_TYPE_FD \<and> fo_cookie obj \<noteq> 0 then [CloseFd (fo_handle obj)]
      else [])"

definition acquire_object :: "flat_binder \<Rightarrow> unit parc" where
  "acquire_object obj = modS (\<lambda>p. p\<lparr>refs_log := refs_log p @ acquire_calls obj\<rparr>)"

definition release_object :: "flat_binder \<Rightarrow> unit parc" where
  "release_object obj = modS (\<lambda>p. p\<lparr>refs_log := refs_log p @ release_calls obj\<rparr>)"

text \<open>The loops run from the last object to the first.\<close>

definition releaseObjects :: "unit parc" where
  "releaseObjects =
     bindS (getS mObjectsSize) (\<lambda>n. forS (rev [0..<n]) (\<lambda>i. bindS (flat_at_index i) release_object))"

definition acquireObjects :: "unit parc" where
  "acquireObjects =
     bindS (getS mObjectsSize) (\<lambda>n. forS (rev [0..<n]) (\<lambda>i. bindS (flat_at_index i) acquire_object))"

text \<open>The release functions the program passes do nothing.\<close>

definition freeDataNoInit :: "unit parc" where
  "freeDataNoInit =
     bindS (getS mOwner) (\<lambda>ow.
     if ow then retS ()
     else
       seqS releaseObjects
      (modS (\<lambda>p. if mData p = None then p
         else p\<lparr>gParcelGlobalAllocSize :=
                  (if mDataCapacity p \<le> unat (gParcelGlobalAllocSize p)
                   then gParcelGlobalAllocSize p - of_nat (mDataCapacity p) else 0),
                gParcelGlobalAllocCount :=
                  (if gParcelGlobalAllocCount p > 0 then gParcelGlobalAllocCount p - 1
                   else gParcelGlobalAllocCount p)\<rparr>)))"

definition freeData :: "unit parc" where
  "freeData = seqS freeDataNoInit initState"

definition uninitialised :: "allocator \<Rightarrow> nat \<Rightarrow> byte list" where
  "uninitialised a n = map (fill a) [0..<n]"

text \<open>\<open>add_alloc n k\<close>: \<open>n\<close> more bytes in use, \<open>k\<close> more blocks.\<close>

definition add_alloc :: "u64 \<Rightarrow> u64 \<Rightarrow> aparcel \<Rightarrow> aparcel" where
  "add_alloc n k p =
     p\<lparr>gParcelGlobalAllocSize := gParcelGlobalAllocSize p + n,
       gParcelGlobalAllocCount := gParcelGlobalAllocCount p + k\<rparr>"

definition no_memory :: "status parc" where
  "no_memory = seqS (setError NoMemory) (retS NoMemory)"

text \<open>The number of objects that lie before \<open>desired\<close>: the loop goes down from the last.\<close>

primrec keep_objects :: "nat \<Rightarrow> nat \<Rightarrow> nat parc" where
  "keep_objects desired 0 = retS 0"
| "keep_objects desired (Suc n) =
     bindS (entry_at n) (\<lambda>off. if unat off < desired then retS (Suc n) else keep_objects desired n)"

text \<open>The three cases of \<^verbatim>\<open>continueWrite\<close>: the block belongs to someone else, to the parcel, or
  there is none yet. \<open>n\<close> objects are kept.\<close>

definition take_possession :: "allocator \<Rightarrow> nat \<Rightarrow> nat \<Rightarrow> status parc" where
  "take_possession a desired n =
     (if desired = 0 then seqS freeData (retS OK)
      else if \<not> grants a desired then no_memory
      else if n \<noteq> 0 \<and> \<not> grants a (8 * n) then no_memory
      else
        bindS (getS mObjectsSize) (\<lambda>old.
        seqS (if n \<noteq> 0
              then seqS (modS (\<lambda>p. p\<lparr>mObjectsSize := n\<rparr>))
                  (seqS acquireObjects (modS (\<lambda>p. p\<lparr>mObjectsSize := old\<rparr>)))
              else retS ())
       (bindS (getS (\<lambda>p. (mData p, mObjects p, min (mDataSize p) desired))) (\<lambda>(b, os, m).
        bindS (liftS (case b of None \<Rightarrow> Inr [] | Some b \<Rightarrow> mem_read 0 m b)) (\<lambda>kept.
        bindS (liftS (if n = 0 then Inr None
                      else case os of
                          None \<Rightarrow> Inr (Some (replicate n 0))
                        | Some os \<Rightarrow> if n \<le> length os then Inr (Some (take n os)) else Inl MemFault)) (\<lambda>objects.
        seqS (modS (\<lambda>p. add_alloc (of_nat desired) 1 (p\<lparr>mOwner := False,
          mData := Some (kept @ drop (length kept) (uninitialised a desired)), mObjects := objects, mDataSize := m,
          mDataCapacity := desired, mObjectsSize := n, mObjectsCapacity := n, mNextObjectHint := 0\<rparr>)))
       (retS OK)))))))"

definition drop_object :: "nat \<Rightarrow> unit parc" where
  "drop_object i =
     bindS (flat_at_index i) (\<lambda>f.
     seqS (if fo_type f = BINDER_TYPE_FD then modS (\<lambda>p. p\<lparr>mFdsKnown := False\<rparr>) else retS ())
     (release_object f))"

definition drop_objects :: "allocator \<Rightarrow> nat \<Rightarrow> unit parc" where
  "drop_objects a n =
     bindS (getS mObjectsSize) (\<lambda>old.
     if n < old then
       seqS (forS [n..<old] drop_object)
      (modS (\<lambda>p. p\<lparr>mObjects := (if n = 0 \<or> grants a (8 * n) then map_option (take n) (mObjects p) else mObjects p),
         mObjectsSize := n, mNextObjectHint := 0\<rparr>))
     else retS ())"

definition resize_own :: "allocator \<Rightarrow> nat \<Rightarrow> nat \<Rightarrow> status parc" where
  "resize_own a desired n =
     seqS (drop_objects a n)
    (bindS the_data (\<lambda>b.
     bindS (getS mDataCapacity) (\<lambda>cap.
     if desired > cap then
       if grants a desired
       then seqS (modS (\<lambda>p. add_alloc (of_nat desired - of_nat cap) 0
              (p\<lparr>mData := Some (grown a desired b), mDataCapacity := desired\<rparr>))) (retS OK)
       else no_memory
     else
       seqS (modS (\<lambda>p. p\<lparr>mDataSize := min (mDataSize p) desired, mDataPos := min (mDataPos p) desired\<rparr>))
      (retS OK))))"

definition first_data :: "allocator \<Rightarrow> nat \<Rightarrow> status parc" where
  "first_data a desired =
     (if \<not> grants a desired then no_memory
      else
        seqS (modS (\<lambda>p. add_alloc (of_nat desired) 1 (p\<lparr>mData := Some (uninitialised a desired),
          mDataSize := 0, mDataPos := 0, mDataCapacity := desired\<rparr>))) (retS OK))"

definition continueWrite :: "allocator \<Rightarrow> nat \<Rightarrow> status parc" where
  "continueWrite a desired =
     (if desired > PARCEL_INT32_MAX then retS BadValue
      else
        bindS (getS (\<lambda>p. (mDataSize p, mObjectsSize p, mOwner p, mData p))) (\<lambda>(size, count, owner, b).
        bindS (if desired < size then (if desired = 0 then retS 0 else keep_objects desired count)
               else retS count) (\<lambda>n.
        if owner then take_possession a desired n
        else if b \<noteq> None then resize_own a desired n
        else first_data a desired)))"

definition growData :: "allocator \<Rightarrow> nat \<Rightarrow> status parc" where
  "growData a len =
     (if len > PARCEL_INT32_MAX then retS BadValue
      else
        bindS (getS mDataSize) (\<lambda>size.
        let newSize = size_add size len * 3 mod 2 ^ 64 div 2 in
        if newSize \<le> size then retS NoMemory else continueWrite a newSize))"

definition setDataSize :: "allocator \<Rightarrow> nat \<Rightarrow> status parc" where
  "setDataSize a sz =
     (if sz > PARCEL_INT32_MAX then retS BadValue
      else
        bindS (continueWrite a sz) (\<lambda>err.
        seqS (if err = OK then modS (\<lambda>p. p\<lparr>mDataSize := sz\<rparr>) else retS ()) (retS err)))"

definition setDataCapacity :: "allocator \<Rightarrow> nat \<Rightarrow> status parc" where
  "setDataCapacity a sz =
     (if sz > PARCEL_INT32_MAX then retS BadValue
      else bindS (getS mDataCapacity) (\<lambda>cap. if sz > cap then continueWrite a sz else retS OK))"

section \<open>Writing\<close>

definition finishWrite :: "nat \<Rightarrow> status parc" where
  "finishWrite len =
     (if len > PARCEL_INT32_MAX then retS BadValue
      else
        seqS (modS (\<lambda>p. p\<lparr>mDataPos := size_add (mDataPos p) len\<rparr>))
       (seqS (modS (\<lambda>p. if mDataPos p > mDataSize p then p\<lparr>mDataSize := mDataPos p\<rparr> else p))
       (retS OK)))"

text \<open>\<open>with_room a len k\<close>: \<open>k\<close> is what follows the label \<^verbatim>\<open>restart_write\<close>, reached at once when
  \<open>len\<close> bytes fit and else after \<^verbatim>\<open>growData\<close> has succeeded; the capacity is not compared again.\<close>

definition with_room :: "allocator \<Rightarrow> nat \<Rightarrow> (status \<Rightarrow> 'a parc) \<Rightarrow> 'a parc \<Rightarrow> 'a parc" where
  "with_room a len failed k =
     bindS (getS (\<lambda>p. size_add (mDataPos p) len \<le> mDataCapacity p)) (\<lambda>enough.
     if enough then k
     else bindS (growData a len) (\<lambda>err. if err = OK then k else failed err))"

definition writeUnpadded :: "allocator \<Rightarrow> byte list \<Rightarrow> status parc" where
  "writeUnpadded a data =
     (let len = length data in
      if len > PARCEL_INT32_MAX then retS BadValue
      else
        bindS (getS mDataPos) (\<lambda>pos.
        if size_add pos len < pos then retS BadValue
        else with_room a len retS
          (bindS (getS mDataPos) (\<lambda>pos. seqS (write_data pos data) (finishWrite len)))))"

text \<open>What is kept of the last word, by the number of padding bytes.\<close>

definition parcel_mask :: "u32 list" where
  "parcel_mask = [0x00000000, 0x00ffffff, 0x0000ffff, 0x000000ff]"

text \<open>The result is the place in the block, \<open>None\<close> for a null pointer.\<close>

definition writeInplace :: "allocator \<Rightarrow> nat \<Rightarrow> nat option parc" where
  "writeInplace a len =
     (if len > PARCEL_INT32_MAX then retS None
      else
        bindS (liftS (android_pad_size len)) (\<lambda>padded.
        bindS (getS mDataPos) (\<lambda>pos.
        if size_add pos padded < pos then retS None
        else with_room a padded (\<lambda>_. retS None)
          (bindS (getS mDataPos) (\<lambda>data.
           seqS (if padded \<noteq> len
                 then bindS the_data (\<lambda>b.
                      bindS (liftS (load (data + padded - 4) 4 b)) (\<lambda>w.
                      write_data (data + padded - 4) (le_bytes 4 (w AND parcel_mask ! (padded - len)))))
                 else retS ())
          (bindS (finishWrite padded) (\<lambda>_. retS (Some data))))))))"

definition aparcel_write :: "allocator \<Rightarrow> byte list \<Rightarrow> status parc" where
  "aparcel_write a data =
     (if length data > PARCEL_INT32_MAX then retS BadValue
      else
        bindS (writeInplace a (length data)) (\<lambda>d.
        case d of
          Some d \<Rightarrow> seqS (write_data d data) (retS OK)
        | None \<Rightarrow> getS mError))"

definition writeAligned :: "allocator \<Rightarrow> nat \<Rightarrow> 'w::len word \<Rightarrow> status parc" where
  "writeAligned a sz val =
     with_room a sz retS
       (bindS (getS mDataPos) (\<lambda>pos. seqS (write_data pos (le_bytes sz val)) (finishWrite sz)))"

definition writeInt32 :: "allocator \<Rightarrow> u32 \<Rightarrow> status parc" where
  "writeInt32 a val = writeAligned a 4 val"

definition writeInt64 :: "allocator \<Rightarrow> u64 \<Rightarrow> status parc" where
  "writeInt64 a val = writeAligned a 8 val"

definition writePointer :: "allocator \<Rightarrow> u64 \<Rightarrow> status parc" where
  "writePointer a val = writeAligned a 8 val"

definition writeBool :: "allocator \<Rightarrow> bool \<Rightarrow> status parc" where
  "writeBool a val = writeInt32 a (if val then 1 else 0)"

definition writeChar :: "allocator \<Rightarrow> u16 \<Rightarrow> status parc" where
  "writeChar a val = writeInt32 a (ucast val)"

definition writeByte :: "allocator \<Rightarrow> byte \<Rightarrow> status parc" where
  "writeByte a val = writeInt32 a (scast val)"

definition writeCString :: "allocator \<Rightarrow> byte list \<Rightarrow> status parc" where
  "writeCString a str = aparcel_write a (str @ [0])"

text \<open>\<open>str\<close> are the bytes of the string; the memory behind them ends with a zero.\<close>

definition writeString8 :: "allocator \<Rightarrow> byte list \<Rightarrow> status parc" where
  "writeString8 a str =
     bindS (writeInt32 a (of_nat (length str))) (\<lambda>err.
     if length str > 0 \<and> err = OK then aparcel_write a (str @ [0]) else retS err)"

definition writeString16 :: "allocator \<Rightarrow> u16 list option \<Rightarrow> status parc" where
  "writeString16 a str =
     (case str of
        None \<Rightarrow> writeInt32 a (- 1)
      | Some str \<Rightarrow>
          bindS (writeInt32 a (of_nat (length str))) (\<lambda>err.
          if err = OK then
            (let len = length str * 2 in
             bindS (writeInplace a (size_add len 2)) (\<lambda>data.
             case data of
               Some d \<Rightarrow> seqS (write_data d (u16_bytes str)) (seqS (write_data (d + len) [0, 0]) (retS OK))
             | None \<Rightarrow> getS mError))
          else retS err))"

section \<open>Objects\<close>

text \<open>What \<^verbatim>\<open>localBinder\<close> and \<^verbatim>\<open>remoteBinder\<close> say of an object: a local one has an address and the
  address of its weak reference count, a proxy has a handle, \<open>NoBinder\<close> is neither.\<close>

datatype ibinder = LocalBinder u64 u64 | RemoteBinder u32 | NoBinder

definition uninitialised_objects :: "allocator \<Rightarrow> nat \<Rightarrow> u64 list" where
  "uninitialised_objects a n = map (\<lambda>i. ucast (fill a i)) [0..<n]"

definition grow_objects :: "allocator \<Rightarrow> status parc" where
  "grow_objects a =
     bindS (getS (\<lambda>p. (mObjectsSize p, mObjects p))) (\<lambda>(n, os).
     let newSize = size_add n 2 * 3 mod 2 ^ 64 div 2; os = (case os of None \<Rightarrow> [] | Some os \<Rightarrow> os) in
     if newSize < n then retS NoMemory
     else if \<not> grants a (newSize * 8) then retS NoMemory
     else seqS (modS (\<lambda>p. p\<lparr>mObjects := Some (take newSize os @ drop (length os) (uninitialised_objects a newSize)),
            mObjectsCapacity := newSize\<rparr>)) (retS OK))"

definition put_object :: "nat \<Rightarrow> u64 \<Rightarrow> unit parc" where
  "put_object i off =
     (\<lambda>p. case mObjects p of
            Some os \<Rightarrow> if i < length os then (Inr (), p\<lparr>mObjects := Some (os[i := off])\<rparr>) else (Inl MemFault, p)
          | None \<Rightarrow> (Inl MemFault, p))"

text \<open>The meta-data of an object at place \<open>pos\<close>, the \<open>n\<close>th.\<close>

definition note_object :: "flat_binder \<Rightarrow> bool \<Rightarrow> nat \<Rightarrow> nat \<Rightarrow> unit parc" where
  "note_object val nullMetaData pos n =
     (if nullMetaData \<or> fo_ptr val \<noteq> 0
      then seqS (put_object n (of_nat pos))
          (seqS (acquire_object val) (modS (\<lambda>p. p\<lparr>mObjectsSize := n + 1\<rparr>)))
      else retS ())"

definition writeObject :: "allocator \<Rightarrow> flat_binder \<Rightarrow> bool \<Rightarrow> status parc" where
  "writeObject a val nullMetaData =
     bindS (getS (\<lambda>p. (size_add (mDataPos p) 24 \<le> mDataCapacity p, mObjectsSize p < mObjectsCapacity p)))
       (\<lambda>(enoughData, enoughObjects).
     bindS (if enoughData then retS OK else growData a 24) (\<lambda>err.
     if err \<noteq> OK then retS err
     else
       bindS (if enoughObjects then retS OK else grow_objects a) (\<lambda>err.
       if err \<noteq> OK then retS err
       else
         bindS (getS (\<lambda>p. (mDataPos p, mObjectsSize p, mAllowFds p))) (\<lambda>(pos, n, allow).
         seqS (write_data pos (flat_bytes val))
        (if fo_type val = BINDER_TYPE_FD \<and> \<not> allow then retS FdsNotAllowed
         else
           seqS (if fo_type val = BINDER_TYPE_FD then modS (\<lambda>p. p\<lparr>mHasFds := True, mFdsKnown := True\<rparr>) else retS ())
          (seqS (note_object val nullMetaData pos n)
           (finishWrite 24)))))))"

definition flat_of_binder :: "ibinder option \<Rightarrow> flat_binder" where
  "flat_of_binder ob =
     (let flags = 0x7f OR 0x100 in
      case ob of
        Some (LocalBinder addr refs) \<Rightarrow>
          \<lparr>fo_type = BINDER_TYPE_BINDER, fo_flags = flags, fo_ptr = refs, fo_cookie = addr\<rparr>
      | Some (RemoteBinder handle) \<Rightarrow>
          \<lparr>fo_type = BINDER_TYPE_HANDLE, fo_flags = flags, fo_ptr = ucast handle, fo_cookie = 0\<rparr>
      | Some NoBinder \<Rightarrow> \<lparr>fo_type = BINDER_TYPE_HANDLE, fo_flags = flags, fo_ptr = 0, fo_cookie = 0\<rparr>
      | None \<Rightarrow> \<lparr>fo_type = BINDER_TYPE_BINDER, fo_flags = flags, fo_ptr = 0, fo_cookie = 0\<rparr>)"

definition flatten_binder :: "allocator \<Rightarrow> ibinder option \<Rightarrow> status parc" where
  "flatten_binder a ob = writeObject a (flat_of_binder ob) False"

definition writeStrongBinder :: "allocator \<Rightarrow> ibinder option \<Rightarrow> status parc" where
  "writeStrongBinder a val = flatten_binder a val"

section \<open>Reading\<close>

text \<open>\<open>None\<close> is a null pointer, \<open>Some off\<close> a place in the block.\<close>

definition readInplace :: "nat \<Rightarrow> nat option parc" where
  "readInplace len =
     (if len > PARCEL_INT32_MAX then retS None
      else
        bindS (liftS (android_pad_size len)) (\<lambda>padded.
        bindS (getS (\<lambda>p. (mDataPos p, mDataSize p))) (\<lambda>(pos, sz).
        if size_add pos padded \<ge> pos \<and> size_add pos padded \<le> sz \<and> len \<le> padded
        then seqS (modS (\<lambda>p. p\<lparr>mDataPos := size_add pos padded\<rparr>)) (retS (Some pos))
        else retS None)))"

definition bytes_at :: "nat \<Rightarrow> nat \<Rightarrow> byte list parc" where
  "bytes_at off n = bindS the_data (\<lambda>b. liftS (mem_read off n b))"

definition aparcel_read :: "nat \<Rightarrow> (status \<times> byte list) parc" where
  "aparcel_read len =
     (if len > PARCEL_INT32_MAX then retS (BadValue, [])
      else
        bindS (liftS (android_pad_size len)) (\<lambda>padded.
        bindS (getS (\<lambda>p. (mDataPos p, mDataSize p))) (\<lambda>(pos, sz).
        if size_add pos padded \<ge> pos \<and> size_add pos padded \<le> sz \<and> len \<le> padded
        then bindS (bytes_at pos len) (\<lambda>d.
             seqS (modS (\<lambda>p. p\<lparr>mDataPos := size_add pos padded\<rparr>)) (retS (OK, d)))
        else retS (NotEnoughData, []))))"

definition readAligned_status :: "nat \<Rightarrow> (status \<times> 'w::len word) parc" where
  "readAligned_status sz =
     bindS (getS (\<lambda>p. (mDataPos p, mDataSize p))) (\<lambda>(pos, size).
     if size_add pos sz \<le> size
     then seqS (modS (\<lambda>p. p\<lparr>mDataPos := size_add pos sz\<rparr>))
         (bindS (bytes_at pos sz) (\<lambda>d. retS (OK, le_word d)))
     else retS (NotEnoughData, 0))"

definition readAligned :: "nat \<Rightarrow> 'w::len word parc" where
  "readAligned sz = bindS (readAligned_status sz) (\<lambda>(err, v). retS (if err \<noteq> OK then 0 else v))"

definition readInt32 :: "u32 parc" where
  "readInt32 = readAligned 4"

definition readInt64 :: "u64 parc" where
  "readInt64 = readAligned 8"

definition readPointer :: "u64 parc" where
  "readPointer = readAligned 8"

definition readBool :: "bool parc" where
  "readBool = bindS readInt32 (\<lambda>v. retS (v \<noteq> 0))"

definition readChar :: "u16 parc" where
  "readChar = bindS readInt32 (\<lambda>v. retS (ucast v))"

definition readByte :: "byte parc" where
  "readByte = bindS readInt32 (\<lambda>v. retS (ucast v))"

text \<open>\<^verbatim>\<open>memchr\<close> looks for the zero in what is left of the data.\<close>

definition readCString :: "byte list option parc" where
  "readCString =
     bindS (getS (\<lambda>p. (mDataPos p, (mDataSize p + 2 ^ 64 - mDataPos p) mod 2 ^ 64))) (\<lambda>(pos, avail).
     if avail > 0 then
       bindS the_data (\<lambda>b.
       let str = takeWhile (\<lambda>c. c \<noteq> 0) (take avail (drop pos b)) in
       if length str < avail \<and> pos + length str < length b then
         bindS (liftS (android_pad_size (length str + 1))) (\<lambda>padded.
         seqS (modS (\<lambda>p. p\<lparr>mDataPos := size_add pos padded\<rparr>)) (retS (Some str)))
       else if pos + avail \<le> length b then retS None else throwS MemFault)
     else retS None)"

text \<open>The size field is compared as a signed number.\<close>

definition readString8 :: "byte list parc" where
  "readString8 =
     bindS readInt32 (\<lambda>sz.
     if 0 <s sz \<and> sz <s of_nat PARCEL_INT32_MAX then
       bindS (readInplace (unat sz + 1)) (\<lambda>str.
       case str of
         Some off \<Rightarrow> bytes_at off (unat sz)
       | None \<Rightarrow> retS [])
     else retS [])"

definition readString16Inplace :: "(nat option \<times> nat) parc" where
  "readString16Inplace =
     bindS readInt32 (\<lambda>sz.
     if 0 \<le>s sz \<and> sz <s of_nat PARCEL_INT32_MAX then
       bindS (readInplace ((unat sz + 1) * 2)) (\<lambda>str.
       case str of
         Some off \<Rightarrow> retS (Some off, unat sz)
       | None \<Rightarrow> retS (None, 0))
     else retS (None, 0))"

fun bytes_char16 :: "byte list \<Rightarrow> u16 list" where
  "bytes_char16 (b0 # b1 # bs) = le_word [b0, b1] # bytes_char16 bs"
| "bytes_char16 _ = []"

definition readString16_status :: "(status \<times> u16 list) parc" where
  "readString16_status =
     bindS readString16Inplace (\<lambda>(str, len).
     case str of
       Some off \<Rightarrow> bindS (bytes_at off (len * 2)) (\<lambda>d. retS (OK, bytes_char16 d))
     | None \<Rightarrow> retS (UnexpectedNull, []))"

definition readString16 :: "u16 list parc" where
  "readString16 = bindS readString16_status (\<lambda>(_, s). retS s)"

section \<open>Reading objects\<close>

text \<open>The two searches of \<^verbatim>\<open>readObject\<close> on the offsets \<open>os\<close> of the objects: forwards from \<open>opos\<close>
  (\<open>k\<close> steps are left to the last object), then backwards.\<close>

primrec search_forward :: "u64 list \<Rightarrow> u64 \<Rightarrow> nat \<Rightarrow> nat \<Rightarrow> nat" where
  "search_forward os dpos opos 0 = opos"
| "search_forward os dpos opos (Suc k) =
     (if os ! opos < dpos then search_forward os dpos (Suc opos) k else opos)"

primrec search_backward :: "u64 list \<Rightarrow> u64 \<Rightarrow> nat \<Rightarrow> nat" where
  "search_backward os dpos 0 = 0"
| "search_backward os dpos (Suc opos) =
     (if os ! Suc opos > dpos then search_backward os dpos opos else Suc opos)"

definition find_object :: "u64 list \<Rightarrow> u64 \<Rightarrow> nat \<Rightarrow> nat option" where
  "find_object os dpos hint =
     (let n = length os in
      if n > 0 then
        (let opos = (if hint < n then search_forward os dpos hint (n - 1 - hint) else n - 1) in
         if os ! opos = dpos then Some opos
         else
           (let opos = search_backward os dpos opos in
            if os ! opos = dpos then Some opos else None))
      else None)"

text \<open>The result is the place of the object and the object, \<open>None\<close> for a null pointer.\<close>

definition readObject :: "bool \<Rightarrow> (nat \<times> flat_binder) option parc" where
  "readObject nullMetaData =
     bindS (getS (\<lambda>p. (mDataPos p, mDataSize p))) (\<lambda>(dpos, sz).
     if size_add dpos 24 \<le> sz then
       seqS (modS (\<lambda>p. p\<lparr>mDataPos := size_add dpos 24\<rparr>))
      (bindS (bindS the_data (\<lambda>b. liftS (flat_at dpos b))) (\<lambda>obj.
       if \<not> nullMetaData \<and> fo_cookie obj = 0 \<and> fo_ptr obj = 0 then retS (Some (dpos, obj))
       else
         bindS (getS (\<lambda>p. (mObjects p, mObjectsSize p, mNextObjectHint p))) (\<lambda>(os, n, hint).
         bindS (liftS (array_part n os)) (\<lambda>os.
         case find_object os (of_nat dpos) hint of
           Some opos \<Rightarrow> seqS (modS (\<lambda>p. p\<lparr>mNextObjectHint := opos + 1\<rparr>)) (retS (Some (dpos, obj)))
         | None \<Rightarrow> retS None))))
     else retS None)"

text \<open>\<^verbatim>\<open>unflatten_binder\<close> for strong references: \<open>FromCookie\<close> is the object at that address,
  \<open>ProxyFor\<close> the proxy that \<^verbatim>\<open>getStrongProxyForHandle\<close> gives for the handle.\<close>

datatype unflattened = FromCookie u64 | ProxyFor u32

definition unflatten_binder :: "(status \<times> unflattened option) parc" where
  "unflatten_binder =
     bindS (readObject False) (\<lambda>flat.
     case flat of
       Some (_, f) \<Rightarrow>
         if fo_type f = BINDER_TYPE_BINDER then retS (OK, Some (FromCookie (fo_cookie f)))
         else if fo_type f = BINDER_TYPE_HANDLE then retS (OK, Some (ProxyFor (fo_handle f)))
         else retS (BadType, None)
     | None \<Rightarrow> retS (BadType, None))"

section \<open>Exchanging data with the transport\<close>

definition ipcDataSize :: "aparcel \<Rightarrow> nat" where
  "ipcDataSize p = (if mDataSize p > mDataPos p then mDataSize p else mDataPos p)"

definition ipcObjectsCount :: "aparcel \<Rightarrow> nat" where
  "ipcObjectsCount p = mObjectsSize p"

text \<open>\<open>scan_fds i n\<close>: \<open>n\<close> objects are left, the next is number \<open>i\<close>.\<close>

primrec scan_fds :: "nat \<Rightarrow> nat \<Rightarrow> bool parc" where
  "scan_fds i 0 = retS False"
| "scan_fds i (Suc n) =
     bindS (flat_at_index i) (\<lambda>f. if fo_type f = BINDER_TYPE_FD then retS True else scan_fds (Suc i) n)"

definition scanForFds :: "unit parc" where
  "scanForFds =
     bindS (getS mObjectsSize) (\<lambda>n.
     bindS (scan_fds 0 n) (\<lambda>hasFds.
     modS (\<lambda>p. p\<lparr>mHasFds := hasFds, mFdsKnown := True\<rparr>)))"

definition hasFileDescriptors :: "bool parc" where
  "hasFileDescriptors =
     bindS (getS mFdsKnown) (\<lambda>known.
     seqS (if \<not> known then scanForFds else retS ()) (getS mHasFds))"

text \<open>\<open>offsets_apart minOffset os\<close>: the test of the offsets, each at least 24 bytes behind the last.\<close>

primrec offsets_apart :: "u64 \<Rightarrow> u64 list \<Rightarrow> bool" where
  "offsets_apart minOffset [] = True"
| "offsets_apart minOffset (off # os) = (off \<ge> minOffset \<and> offsets_apart (off + 24) os)"

text \<open>\<open>data\<close> and \<open>objects\<close> are the memory the pointers lead to, \<open>None\<close> for null pointers; the array must
  have \<open>count\<close> entries.\<close>

definition ipcSetDataReference :: "byte list option \<Rightarrow> nat \<Rightarrow> u64 list option \<Rightarrow> nat \<Rightarrow> unit parc" where
  "ipcSetDataReference data sz objects count =
     seqS freeDataNoInit
    (seqS (modS (\<lambda>p. p\<lparr>mError := OK, mData := data, mDataSize := sz, mDataCapacity := sz, mDataPos := 0,
       mObjects := objects, mObjectsSize := count, mObjectsCapacity := count, mNextObjectHint := 0,
       mOwner := True\<rparr>))
    (bindS (liftS (array_part count objects)) (\<lambda>os.
     seqS (if offsets_apart 0 os then retS () else modS (\<lambda>p. p\<lparr>mObjectsSize := 0\<rparr>))
     scanForFds)))"

section \<open>The search for an object\<close>

text \<open>The first object at or behind the position, not before \<open>opos\<close>, or the last one.\<close>

lemma search_forward_bounds:
  "opos + k < length os \<Longrightarrow> opos \<le> search_forward os d opos k \<and> search_forward os d opos k \<le> opos + k"
proof (induction k arbitrary: opos)
  case (Suc k)
  then have "Suc opos \<le> search_forward os d (Suc opos) k \<and> search_forward os d (Suc opos) k \<le> Suc opos + k"
    by (intro Suc.IH) simp
  then show ?case by simp
qed simp

lemma search_forward_passed:
  "opos + k < length os \<Longrightarrow> opos \<le> i \<Longrightarrow> i < search_forward os d opos k \<Longrightarrow> os ! i < d"
proof (induction k arbitrary: opos)
  case (Suc k)
  show ?case
  proof (cases "os ! opos < d \<and> i \<noteq> opos")
    case True
    then show ?thesis using Suc.prems Suc.IH [of "Suc opos"] by simp
  next
    case False
    then show ?thesis using Suc.prems by (auto split: if_splits)
  qed
qed simp

lemma search_forward_stop:
  "search_forward os d opos k < opos + k \<Longrightarrow> d \<le> os ! search_forward os d opos k"
proof (induction k arbitrary: opos)
  case (Suc k)
  then show ?case using Suc.IH [of "Suc opos"] by (auto simp: not_less split: if_splits)
qed simp

lemma search_backward_bound: "search_backward os d opos \<le> opos"
  by (induction opos) auto

lemma search_backward_passed: "search_backward os d opos < i \<Longrightarrow> i \<le> opos \<Longrightarrow> os ! i > d"
  by (induction opos) (auto simp: le_Suc_eq split: if_splits)

text \<open>In an ascending array the two searches find the object at a position, whatever the hint.\<close>

lemma find_object_finds:
  assumes os: "sorted_wrt (<) os" and i: "i < length os" "os ! i = d"
  shows "find_object os d hint = Some i"
proof -
  have less: "j < k \<Longrightarrow> k < length os \<Longrightarrow> os ! j < os ! k" for j k
    using sorted_wrt_nth_less [OF os] by simp
  have bwd: "search_backward os d q = i" if "i \<le> q" "q < length os" for q
  proof -
    have "i \<le> search_backward os d q"
      using search_backward_passed [of os d q i] that i by (meson leI less_irrefl)
    moreover have "search_backward os d q \<le> i"
    proof (rule ccontr)
      assume "\<not> search_backward os d q \<le> i"
      then have "i < search_backward os d q" by simp
      then have "os ! search_backward os d q > d" "search_backward os d q \<noteq> 0"
        using less [of i "search_backward os d q"] search_backward_bound [of os d q] that i by auto
      then show False
        by (induction q) (auto split: if_splits)
    qed
    ultimately show ?thesis by simp
  qed
  define q where "q = (if hint < length os then search_forward os d hint (length os - 1 - hint) else length os - 1)"
  have "i \<le> q \<and> q < length os"
  proof (cases "hint < length os")
    case True
    let ?k = "length os - 1 - hint"
    have b: "hint \<le> q" "q \<le> length os - 1"
      using search_forward_bounds [of hint ?k os d] True by (auto simp: q_def)
    have "i \<le> q"
    proof (rule ccontr)
      assume "\<not> i \<le> q"
      then have "q < hint + ?k" using b i True by simp
      then have "d \<le> os ! q" using search_forward_stop [of os d hint ?k] True by (simp add: q_def)
      then show False using less [of q i] \<open>\<not> i \<le> q\<close> i by simp
    qed
    then show ?thesis using b True by auto
  next
    case False
    then show ?thesis using i by (auto simp: q_def)
  qed
  then have "os ! q = d \<Longrightarrow> q = i" using less [of i q] i by (metis le_neq_implies_less less_irrefl)
  moreover have "0 < length os" using i by auto
  ultimately show ?thesis
    using bwd [of q] \<open>i \<le> q \<and> q < length os\<close> i by (auto simp: find_object_def q_def Let_def)
qed

lemma find_object_sound: "find_object os d hint = Some i \<Longrightarrow> i < length os \<and> os ! i = d"
proof -
  assume f: "find_object os d hint = Some i"
  define q where "q = (if hint < length os then search_forward os d hint (length os - 1 - hint) else length os - 1)"
  have "os \<noteq> []" using f by (auto simp: find_object_def)
  then have "q < length os"
    using search_forward_bounds [of hint "length os - 1 - hint" os d] by (auto simp: q_def)
  moreover from this have "search_backward os d q < length os" using search_backward_bound [of os d q] by simp
  ultimately show ?thesis
    using f by (auto simp: find_object_def Let_def q_def [symmetric] split: if_splits)
qed

lemma find_object_iff:
  "sorted_wrt (<) os \<Longrightarrow> find_object os d hint = Some i \<longleftrightarrow> i < length os \<and> os ! i = d"
  using find_object_finds find_object_sound by blast

text \<open>The offsets of the objects a parcel holds, and that they are in ascending order.\<close>

definition object_places :: "aparcel \<Rightarrow> u64 list" where
  "object_places p = (case mObjects p of None \<Rightarrow> [] | Some os \<Rightarrow> take (mObjectsSize p) os)"

definition objects_ok :: "aparcel \<Rightarrow> bool" where
  "objects_ok p \<longleftrightarrow> mObjectsSize p \<le> length (case mObjects p of None \<Rightarrow> [] | Some os \<Rightarrow> os) \<and>
     sorted_wrt (<) (object_places p)"

lemma flat_at_ok: "q + 24 \<le> length b \<Longrightarrow> \<exists>f. flat_at q b = Inr f"
  using load_ok [of q 4 b, where 'a = 32] load_ok [of "q + 4" 4 b, where 'a = 32]
    load_ok [of "q + 8" 8 b, where 'a = 64] load_ok [of "q + 16" 8 b, where 'a = 64]
  by (auto simp: flat_at_def)

lemma size_add_small [simp]: "m + n < 2 ^ 64 \<Longrightarrow> size_add m n = m + n"
  by (simp add: size_add_def)

lemma readObject_lookup:
  assumes "objects_ok p" and "mData p = Some b" and "mDataSize p \<le> length b" and "mDataSize p \<le> PARCEL_INT32_MAX"
    and "mDataPos p + 24 \<le> mDataSize p"
  shows "\<exists>f p' h. flat_at (mDataPos p) b = Inr f \<and>
    readObject null_meta_data p =
      (Inr (if (\<not> null_meta_data \<and> fo_cookie f = 0 \<and> fo_ptr f = 0) \<or>
               of_nat (mDataPos p) \<in> set (object_places p)
            then Some (mDataPos p, f) else None), p') \<and>
    p' = p\<lparr>mDataPos := mDataPos p + 24, mNextObjectHint := h\<rparr>"
proof -
  obtain f where f: "flat_at (mDataPos p) b = Inr f" using flat_at_ok [of "mDataPos p" b] assms by auto
  have sz: "size_add (mDataPos p) 24 = mDataPos p + 24" using assms(3-5) by (simp add: PARCEL_INT32_MAX_def)
  let ?os = "object_places p" and ?p = "p\<lparr>mDataPos := mDataPos p + 24\<rparr>"
  have os: "array_part (mObjectsSize p) (mObjects p) = Inr ?os"
    using assms(1) by (auto simp: objects_ok_def object_places_def array_part_def split: option.splits)
  have find: "find_object ?os (of_nat (mDataPos p)) (mNextObjectHint p) \<noteq> None \<longleftrightarrow> of_nat (mDataPos p) \<in> set ?os"
    using find_object_iff [of ?os "of_nat (mDataPos p)" "mNextObjectHint p"] assms(1)
    by (auto simp: objects_ok_def in_set_conv_nth)
  show ?thesis
  proof (cases "\<not> null_meta_data \<and> fo_cookie f = 0 \<and> fo_ptr f = 0")
    case True
    then have "readObject null_meta_data p = (Inr (Some (mDataPos p, f)), ?p)"
      using assms sz f by (simp add: readObject_def the_data_def bindS_def seqS_def getS_def modS_def liftS_def retS_def)
    moreover have "?p = p\<lparr>mDataPos := mDataPos p + 24, mNextObjectHint := mNextObjectHint p\<rparr>" by simp
    ultimately show ?thesis using f True by (intro exI [of _ f] exI [of _ ?p] exI [of _ "mNextObjectHint p"]) simp
  next
    case False
    then have r: "readObject null_meta_data p =
        (case find_object ?os (of_nat (mDataPos p)) (mNextObjectHint p) of
           None \<Rightarrow> (Inr None, ?p)
         | Some k \<Rightarrow> (Inr (Some (mDataPos p, f)), ?p\<lparr>mNextObjectHint := k + 1\<rparr>))"
      using assms sz f os
      by (auto simp: readObject_def the_data_def bindS_def seqS_def getS_def modS_def liftS_def retS_def split: option.split)
    then show ?thesis
      using f False find
    proof (cases "find_object ?os (of_nat (mDataPos p)) (mNextObjectHint p)")
      case None
      then show ?thesis
        using r f False find by (intro exI [of _ f] exI [of _ ?p] exI [of _ "mNextObjectHint p"]) auto
    next
      case (Some k)
      then show ?thesis
        using r f False find by (intro exI [of _ f] exI [of _ "?p\<lparr>mNextObjectHint := k + 1\<rparr>"] exI [of _ "k + 1"]) auto
    qed
  qed
qed

text \<open>C8: reading an object gives the object at the position exactly when that position is one of the
  recorded offsets, whatever place the last reads left the search at, or when the object is a
  null reference, which is not recorded; and the position moves past every object that lies
  within the data.\<close>

theorem readObject_exact:
  assumes "objects_ok p" and "mData p = Some b" and "mDataSize p \<le> length b" and "mDataSize p \<le> PARCEL_INT32_MAX"
    and "mDataPos p + 24 \<le> mDataSize p"
  shows "\<exists>f p'. flat_at (mDataPos p) b = Inr f \<and>
    readObject null_meta_data p =
      (Inr (if (\<not> null_meta_data \<and> fo_cookie f = 0 \<and> fo_ptr f = 0) \<or>
               of_nat (mDataPos p) \<in> set (object_places p)
            then Some (mDataPos p, f) else None), p') \<and>
    mDataPos p' = mDataPos p + 24"
  using readObject_lookup [OF assms] by fastforce

text \<open>A parcel with one object at offset 4 and the position there.\<close>

definition sample_object :: flat_binder where
  "sample_object = \<lparr>fo_type = BINDER_TYPE_BINDER, fo_flags = 0x17f, fo_ptr = 0x20, fo_cookie = 0x10\<rparr>"

definition sample_parcel :: aparcel where
  "sample_parcel = Parcel_new\<lparr>mData := Some ([1, 0, 0, 0] @ flat_bytes sample_object), mDataSize := 28,
     mDataCapacity := 28, mDataPos := 4, mObjects := Some [4, 0], mObjectsSize := 1, mObjectsCapacity := 2\<rparr>"

theorem readObject_exact_witness:
  "\<exists>f p'. readObject False sample_parcel = (Inr (Some (4, f)), p') \<and> mDataPos p' = 28"
  using readObject_exact [of sample_parcel "[1, 0, 0, 0] @ flat_bytes sample_object" False]
  by (auto simp: sample_parcel_def objects_ok_def object_places_def flat_bytes_def PARCEL_INT32_MAX_def)

section \<open>Offsets that are not checked\<close>

text \<open>data taken over from a transaction whose offset array leads outside it: the offsets are
  only compared with each other, and the search for file descriptors reads outside the data.\<close>

theorem ipcSetDataReference_reads_outside:
  assumes "mOwner p" and "length data < unat off + 24"
  shows "fst (ipcSetDataReference (Some data) (length data) (Some [off]) 1 p) = Inl MemFault"
proof -
  have "\<exists>e. flat_at (unat off) data = Inl e"
    using assms(2) by (auto simp: flat_at_def load_def mem_read_def)
  then have "flat_at (unat off) data = Inl MemFault"
    by (auto simp: flat_at_def load_def mem_read_def split: if_splits)
  then show ?thesis
    using assms(1)
    by (simp add: ipcSetDataReference_def array_part_def freeDataNoInit_def scanForFds_def flat_at_index_def entry_at_def
        the_data_def bindS_def seqS_def getS_def modS_def liftS_def retS_def)
qed

theorem ipcSetDataReference_reads_outside_witness:
  "fst (ipcSetDataReference (Some []) 0 (Some [8]) 1 (Parcel_new\<lparr>mOwner := True\<rparr>)) = Inl MemFault"
  using ipcSetDataReference_reads_outside [of "Parcel_new\<lparr>mOwner := True\<rparr>" "[]" 8] by simp

end
