(* ===== verification/Android_Items.thy ===== *)
theory Android_Items
  imports Android_Parcel
begin

text \<open>
  What is written to an Android parcel is read back: how each write of
  \<^verbatim>\<open>Parcel.cpp\<close> extends the data and the offset array, how each read consumes them, and both for
  any sequence of numbers, strings and references.
\<close>

section \<open>Appending\<close>

text \<open>A parcel without an error that owns its block (or has none yet) and whose data are the bytes \<open>d\<close>, the position
  at their end.\<close>

definition has_data :: "aparcel \<Rightarrow> byte list \<Rightarrow> bool" where
  "has_data p d \<longleftrightarrow> mError p = OK \<and> \<not> mOwner p \<and> mDataPos p = length d \<and> mDataSize p = length d \<and>
     mDataCapacity p \<le> PARCEL_INT32_MAX \<and> length d \<le> mDataCapacity p \<and>
     (case mData p of
        None \<Rightarrow> mDataCapacity p = 0
      | Some b \<Rightarrow> length b = mDataCapacity p \<and> take (length d) b = d)"

lemma has_data_new: "has_data Parcel_new []"
  by (simp add: has_data_def Parcel_new_def)

text \<open>Nothing but the block, its measures and the counters differ.\<close>

definition only_data :: "aparcel \<Rightarrow> aparcel \<Rightarrow> bool" where
  "only_data p p' \<longleftrightarrow> mObjects p' = mObjects p \<and> mObjectsSize p' = mObjectsSize p \<and>
     mObjectsCapacity p' = mObjectsCapacity p \<and> mNextObjectHint p' = mNextObjectHint p \<and> mError p' = mError p \<and>
     mHasFds p' = mHasFds p \<and> mFdsKnown p' = mFdsKnown p \<and> mAllowFds p' = mAllowFds p \<and> mOwner p' = mOwner p \<and>
     refs_log p' = refs_log p"

lemma only_data_refl [simp]: "only_data p p"
  by (simp add: only_data_def)

lemma only_data_trans: "only_data p q \<Longrightarrow> only_data q r \<Longrightarrow> only_data p r"
  by (simp add: only_data_def)

definition grow_limit :: nat where "grow_limit = 1431655764"

lemma growData_holds:
  assumes "total_alloc a" and "has_data p d" and "0 < len" and "length d + len \<le> grow_limit"
    and "mDataCapacity p < length d + len"
  shows "\<exists>p'. growData a len p = (Inr OK, p') \<and> has_data p' d \<and> length d + len \<le> mDataCapacity p' \<and> only_data p p'"
proof -
  let ?n = "(length d + len) * 3 div 2"
  have b: "length d < ?n" "?n \<le> PARCEL_INT32_MAX" "length d + len \<le> ?n" "mDataCapacity p < ?n" "len \<le> PARCEL_INT32_MAX"
    "length d + len < 2 ^ 64" "(length d + len) * 3 < 2 ^ 64"
    using assms(3-5) by (auto simp: grow_limit_def PARCEL_INT32_MAX_def)
  have h: "mError p = OK" "\<not> mOwner p" "mDataPos p = length d" "mDataSize p = length d"
    using assms(2) by (simp_all add: has_data_def)
  have g: "growData a len p = continueWrite a ?n p"
    using b h(4) by (simp add: growData_def bindS_def getS_def)
  show ?thesis
  proof (cases "mData p")
    case None
    then have "d = []" "mDataCapacity p = 0" using assms(2) by (auto simp: has_data_def)
    then show ?thesis
      using g b h None assms(1)
      by (auto simp: continueWrite_def first_data_def add_alloc_def has_data_def only_data_def uninitialised_def
          bindS_def seqS_def getS_def modS_def retS_def)
  next
    case (Some blk)
    then have "length blk = mDataCapacity p" "take (length d) blk = d" "length d \<le> length blk"
      using assms(2) by (simp_all add: has_data_def)
    then show ?thesis
      using g b h Some assms(1)
      by (auto simp: continueWrite_def resize_own_def drop_objects_def the_data_def add_alloc_def has_data_def only_data_def
          grown_def bindS_def seqS_def getS_def modS_def retS_def)
  qed
qed

lemma with_room_holds:
  assumes "total_alloc a" and "has_data p d" and "0 < len" and "length d + len \<le> grow_limit"
  obtains p' b where "with_room a len f k p = k p'" and "has_data p' d" and "only_data p p'"
    and "mData p' = Some b" and "length d + len \<le> length b"
proof -
  have sa: "size_add (mDataPos p) len = length d + len"
    using assms(2,4) by (simp add: has_data_def grow_limit_def)
  have "\<exists>p'. with_room a len f k p = k p' \<and> has_data p' d \<and> only_data p p' \<and> length d + len \<le> mDataCapacity p'"
  proof (cases "length d + len \<le> mDataCapacity p")
    case True
    then show ?thesis using assms(2) sa by (intro exI [of _ p]) (simp add: with_room_def bindS_def getS_def)
  next
    case False
    then obtain p' where "growData a len p = (Inr OK, p')" "has_data p' d" "length d + len \<le> mDataCapacity p'" "only_data p p'"
      using growData_holds [OF assms] by auto
    then show ?thesis using False sa by (intro exI [of _ p']) (simp add: with_room_def bindS_def getS_def)
  qed
  then obtain p' where p': "with_room a len f k p = k p'" "has_data p' d" "only_data p p'" "length d + len \<le> mDataCapacity p'"
    by blast
  then have "mData p' \<noteq> None" using assms(3) by (auto simp: has_data_def split: option.splits)
  then obtain b where "mData p' = Some b" by blast
  moreover from this have "length d + len \<le> length b" using p' by (simp add: has_data_def)
  ultimately show thesis using that p' by blast
qed

text \<open>Writing over a part of the data.\<close>

lemma overwrite:
  assumes "has_data p (d @ ys @ zs)" and "length xs = length ys" and "ys @ zs \<noteq> []"
  shows "\<exists>p'. write_data (length d) xs p = (Inr (), p') \<and> has_data p' (d @ xs @ zs) \<and> only_data p p'"
proof -
  obtain b where b: "mData p = Some b" "length b = mDataCapacity p" "take (length (d @ ys @ zs)) b = d @ ys @ zs"
    "length (d @ ys @ zs) \<le> length b"
    using assms(1,3) by (auto simp: has_data_def split: option.splits)
  obtain junk where junk: "b = (d @ ys @ zs) @ junk" using b(3) by (metis append_take_drop_id)
  have "mem_write (length d) xs b = Inr (d @ xs @ zs @ junk)"
    using assms(2) junk by (simp add: mem_write_def)
  then have "write_data (length d) xs p = (Inr (), p\<lparr>mData := Some (d @ xs @ zs @ junk)\<rparr>)"
    using b(1) by (simp add: write_data_def the_data_def bindS_def liftS_def modS_def)
  moreover have "has_data (p\<lparr>mData := Some (d @ xs @ zs @ junk)\<rparr>) (d @ xs @ zs)"
    using assms b junk by (simp add: has_data_def)
  ultimately show ?thesis by (auto simp: only_data_def)
qed

text \<open>A write at the end, followed by \<^verbatim>\<open>finishWrite\<close>, where there is room.\<close>

lemma write_finish:
  assumes "has_data p d" and "mData p = Some b" and "length d + length xs \<le> length b" and "length xs \<le> n"
    and "length d + n \<le> length b"
  shows "\<exists>p1 p'. write_data (length d) xs p = (Inr (), p1) \<and> finishWrite n p1 = (Inr OK, p') \<and>
    has_data p' (d @ xs @ take (n - length xs) (drop (length d + length xs) b)) \<and> only_data p p'"
proof -
  have h: "mDataPos p = length d" "mDataSize p = length d" "length b = mDataCapacity p" "take (length d) b = d"
    "mDataCapacity p \<le> PARCEL_INT32_MAX"
    using assms(1,2) by (simp_all add: has_data_def)
  let ?b = "d @ xs @ drop (length d + length xs) b"
  have "mem_write (length d) xs b = Inr ?b" using assms(3) h(4) by (simp add: mem_write_def)
  then have w: "write_data (length d) xs p = (Inr (), p\<lparr>mData := Some ?b\<rparr>)"
    using assms(2) by (simp add: write_data_def the_data_def bindS_def liftS_def modS_def)
  have n: "n \<le> PARCEL_INT32_MAX" "size_add (length d) n = length d + n"
    using assms(5) h(3,5) by (simp_all add: PARCEL_INT32_MAX_def)
  have "finishWrite n (p\<lparr>mData := Some ?b\<rparr>) = (Inr OK, p\<lparr>mData := Some ?b, mDataPos := length d + n,
      mDataSize := length d + n\<rparr>)"
    using n h(1,2) by (cases n) (simp_all add: finishWrite_def bindS_def seqS_def modS_def retS_def)
  moreover have "has_data (p\<lparr>mData := Some ?b, mDataPos := length d + n, mDataSize := length d + n\<rparr>)
      (d @ xs @ take (n - length xs) (drop (length d + length xs) b))"
    using assms h by (auto simp: has_data_def min_def)
  ultimately show ?thesis using w by (auto simp: only_data_def)
qed

lemma writeAligned_holds:
  assumes "total_alloc a" and "has_data p d" and "0 < sz" and "length d + sz \<le> grow_limit"
  shows "\<exists>p'. writeAligned a sz val p = (Inr OK, p') \<and> has_data p' (d @ le_bytes sz val) \<and> only_data p p'"
proof -
  let ?k = "bindS (getS mDataPos) (\<lambda>pos. seqS (write_data pos (le_bytes sz val)) (finishWrite sz))"
  obtain p1 b where p1: "with_room a sz retS ?k p = ?k p1" "has_data p1 d" "only_data p p1" "mData p1 = Some b"
    "length d + sz \<le> length b"
    by (rule with_room_holds [OF assms])
  obtain p2 p' where w: "write_data (length d) (le_bytes sz val) p1 = (Inr (), p2)" "finishWrite sz p2 = (Inr OK, p')"
    "has_data p' (d @ le_bytes sz val)" "only_data p1 p'"
    using write_finish [of p1 d b "le_bytes sz val" sz] p1 by auto
  have "mDataPos p1 = length d" using p1(2) by (simp add: has_data_def)
  then show ?thesis
    using p1(1,3) w only_data_trans [of p p1 p'] by (simp add: writeAligned_def bindS_def seqS_def getS_def)
qed

lemma android_pad_size_padded: "s \<le> 4294967292 \<Longrightarrow> android_pad_size s = Inr (padded_len s)"
  using pad_size_padded [of s] by (simp add: android_pad_size_def pad_size_def)

text \<open>The last word of the block: the bytes behind the data are cleared.\<close>

lemma parcel_mask_pad: "parcel_mask = pad_mask"
  by (simp add: parcel_mask_def pad_mask_def)

lemma clear_padding:
  assumes u: "length u = padded_len len" and len: "padded_len len \<noteq> len"
  shows "\<exists>w. load (length d + padded_len len - 4) 4 (d @ u @ junk) = Inr w \<and>
    mem_write (length d + padded_len len - 4) (le_bytes 4 (w AND parcel_mask ! (padded_len len - len))) (d @ u @ junk) =
      Inr (d @ take len u @ replicate (padded_len len - len) 0 @ junk)"
proof -
  let ?p = "padded_len len" and ?k = "padded_len len - len"
  have "0 < len" using len by (cases len) (auto simp: padded_len_def)
  then have p: "4 \<le> ?p" "len < ?p" "?k \<in> {1, 2, 3}"
    using padded_len_ge_4 [of len] padded_len_bounds(1,2) [of len] len by auto
  let ?v = "drop (?p - 4) u"
  have v: "length ?v = 4" "u = take (?p - 4) u @ ?v" using u p(1) by simp_all
  have off: "length d + ?p - 4 = length d + (?p - 4)" using p(1) by simp
  have rd: "mem_read (length d + (?p - 4)) 4 (d @ u @ junk) = Inr ?v"
    using u p(1) by (simp add: mem_read_def)
  have m: "le_bytes 4 ((le_word ?v :: u32) AND parcel_mask ! ?k) = take (4 - ?k) ?v @ replicate ?k 0"
    unfolding parcel_mask_pad by (rule masked_word [OF p(3) v(1)])
  have "len = (?p - 4) + (4 - ?k)" using p by auto
  then have "take (?p - 4) u @ take (4 - ?k) ?v = take len u" by (metis take_add)
  then have "mem_write (length d + (?p - 4)) (take (4 - ?k) ?v @ replicate ?k 0) (d @ u @ junk) =
      Inr (d @ take len u @ replicate ?k 0 @ junk)"
    using u p v(1) by (auto simp: mem_write_def)
  then show ?thesis using rd m unfolding off by (intro exI [of _ "le_word ?v"]) (simp add: load_def)
qed

lemma finish_only:
  assumes "has_data p d" and "mData p = Some b" and "length d + n \<le> length b"
  shows "\<exists>p'. finishWrite n p = (Inr OK, p') \<and> has_data p' (d @ take n (drop (length d) b)) \<and> only_data p p'"
proof -
  obtain p1 p' where p': "write_data (length d) [] p = (Inr (), p1)" "finishWrite n p1 = (Inr OK, p')"
    "has_data p' (d @ take n (drop (length d) b))" "only_data p p'"
    using write_finish [of p d b "[]" n] assms by auto
  have "p1 = p"
    using p'(1) assms(2,3) by (auto simp: write_data_def the_data_def mem_write_def bindS_def liftS_def modS_def)
  then show ?thesis using p' by blast
qed

lemma writeInplace_holds:
  assumes "total_alloc a" and "has_data p d" and "0 < len" and "length d + padded_len len \<le> grow_limit"
  shows "\<exists>p' ys. writeInplace a len p = (Inr (Some (length d)), p') \<and>
    has_data p' (d @ ys @ replicate (padded_len len - len) 0) \<and> length ys = len \<and> only_data p p'"
proof -
  let ?p = "padded_len len"
  let ?k = "bindS (getS mDataPos) (\<lambda>data.
           seqS (if ?p \<noteq> len
                 then bindS the_data (\<lambda>b.
                      bindS (liftS (load (data + ?p - 4) 4 b)) (\<lambda>w.
                      write_data (data + ?p - 4) (le_bytes 4 (w AND parcel_mask ! (?p - len)))))
                 else retS ())
          (bindS (finishWrite ?p) (\<lambda>_. retS (Some data))))"
  have len: "len \<le> ?p" "?p \<le> grow_limit" "0 < ?p" "len \<le> 4294967292" "len \<le> PARCEL_INT32_MAX"
    using padded_len_bounds(1) [of len] assms(3,4) by (auto simp: grow_limit_def PARCEL_INT32_MAX_def)
  have pos: "mDataPos p = length d" using assms(2) by (simp add: has_data_def)
  have "size_add (length d) ?p = length d + ?p" using assms(4) by (simp add: grow_limit_def)
  then have w: "writeInplace a len p = with_room a ?p (\<lambda>_. retS None) ?k p"
    using len pos by (simp add: writeInplace_def android_pad_size_padded bindS_def liftS_def getS_def)
  obtain p1 b where p1: "with_room a ?p (\<lambda>_. retS None) ?k p = ?k p1" "has_data p1 d" "only_data p p1"
    "mData p1 = Some b" "length d + ?p \<le> length b"
    by (rule with_room_holds [OF assms(1,2) len(3) assms(4)])
  have pos1: "mDataPos p1 = length d" and d: "take (length d) b = d" using p1 by (simp_all add: has_data_def)
  let ?u = "take ?p (drop (length d) b)" and ?junk = "drop (length d + ?p) b"
  have u: "length ?u = ?p" using p1(5) by simp
  have b: "b = d @ ?u @ ?junk"
    by (metis append_take_drop_id d drop_drop add.commute)
  show ?thesis
  proof (cases "?p = len")
    case True
    obtain p' where p': "finishWrite ?p p1 = (Inr OK, p')" "has_data p' (d @ ?u)" "only_data p1 p'"
      using finish_only [OF p1(2,4,5)] by auto
    have "?k p1 = (Inr (Some (length d)), p')"
      using True p'(1) pos1 by (simp add: bindS_def seqS_def getS_def retS_def)
    then show ?thesis using w p1(1,3) p' True u only_data_trans [of p p1 p'] by auto
  next
    case False
    obtain wd where wd: "load (length d + ?p - 4) 4 b = Inr wd"
      "mem_write (length d + ?p - 4) (le_bytes 4 (wd AND parcel_mask ! (?p - len))) b =
        Inr (d @ take len ?u @ replicate (?p - len) 0 @ ?junk)" (is "_ = Inr ?b")
      using clear_padding [OF u False, of d ?junk] b by auto
    let ?p2 = "p1\<lparr>mData := Some ?b\<rparr>"
    have h2: "has_data ?p2 d" "length d + ?p \<le> length ?b" "only_data p1 ?p2" and md: "mData ?p2 = Some ?b"
      using p1(2,4,5) b len(1) u by (auto simp: has_data_def only_data_def)
    obtain p' where p': "finishWrite ?p ?p2 = (Inr OK, p')" "has_data p' (d @ take ?p (drop (length d) ?b))"
      "only_data ?p2 p'"
      using finish_only [OF h2(1) md h2(2)] by blast
    have "take ?p (drop (length d) ?b) = take len ?u @ replicate (?p - len) 0" using u len(1) by simp
    then have h: "has_data p' (d @ take len ?u @ replicate (?p - len) 0)" using p'(2) by (simp only:)
    have "?k p1 = (Inr (Some (length d)), p')"
      using False p'(1) pos1 wd p1(4)
      by (simp add: bindS_def seqS_def getS_def retS_def liftS_def modS_def the_data_def write_data_def)
    moreover have "only_data p p'"
      using only_data_trans [OF only_data_trans [OF p1(3) h2(3)] p'(3)] .
    ultimately show ?thesis using w p1(1) h u len(1) by (intro exI [of _ p'] exI [of _ "take len ?u"]) simp
  qed
qed

lemma aparcel_write_holds:
  assumes "total_alloc a" and "has_data p d" and "xs \<noteq> []" and "length d + padded_len (length xs) \<le> grow_limit"
  shows "\<exists>p'. aparcel_write a xs p = (Inr OK, p') \<and> has_data p' (d @ padded_bytes True xs) \<and> only_data p p'"
proof -
  obtain p1 ys where p1: "writeInplace a (length xs) p = (Inr (Some (length d)), p1)"
    "has_data p1 (d @ ys @ replicate (padded_len (length xs) - length xs) 0)" "length ys = length xs" "only_data p p1"
    using writeInplace_holds [OF assms(1,2) _ assms(4)] assms(3) by auto
  obtain p' where "write_data (length d) xs p1 = (Inr (), p')"
    "has_data p' (d @ xs @ replicate (padded_len (length xs) - length xs) 0)" "only_data p1 p'"
    using overwrite [OF p1(2) p1(3) [symmetric]] p1(3) assms(3) by (metis append_is_Nil_conv length_0_conv)
  moreover have "length xs \<le> PARCEL_INT32_MAX"
    using padded_len_bounds(1) [of "length xs"] assms(4) by (simp add: PARCEL_INT32_MAX_def grow_limit_def)
  ultimately show ?thesis
    using p1 only_data_trans [of p p1 p']
    by (simp add: aparcel_write_def bindS_def seqS_def retS_def padded_bytes_def)
qed

lemma writeString8_holds:
  assumes "total_alloc a" and "has_data p d" and "length d + 4 + padded_len (length s + 1) \<le> grow_limit"
  shows "\<exists>p'. writeString8 a s p = (Inr OK, p') \<and> only_data p p' \<and>
    has_data p' (d @ le_bytes 4 (of_nat (length s) :: u32) @ (if s = [] then [] else padded_bytes True (s @ [0])))"
proof -
  let ?n = "le_bytes 4 (of_nat (length s) :: u32)"
  obtain p1 where p1: "writeInt32 a (of_nat (length s)) p = (Inr OK, p1)" "has_data p1 (d @ ?n)" "only_data p p1"
    using writeAligned_holds [OF assms(1,2), of 4 "of_nat (length s) :: u32"] assms(3) by (auto simp: writeInt32_def)
  show ?thesis
  proof (cases "s = []")
    case True
    then show ?thesis using p1 by (simp add: writeString8_def bindS_def retS_def)
  next
    case False
    obtain p' where "aparcel_write a (s @ [0]) p1 = (Inr OK, p')" "has_data p' ((d @ ?n) @ padded_bytes True (s @ [0]))"
      "only_data p1 p'"
      using aparcel_write_holds [OF assms(1) p1(2), of "s @ [0]"] assms(3) by auto
    then show ?thesis using p1 False only_data_trans [of p p1 p'] by (simp add: writeString8_def bindS_def)
  qed
qed

lemma length_chars_bytes [simp]: "length (u16_bytes s) = 2 * length s"
  by (induction s) (simp_all add: u16_bytes_def)

lemma u16_bytes_end: "u16_bytes (s @ [0]) = u16_bytes s @ [0, 0]"
  by (simp add: u16_bytes_def le_bytes_Suc numeral_2_eq_2)

lemma writeString16_holds:
  assumes "total_alloc a" and "has_data p d" and "length d + 4 + padded_len (2 * length s + 2) \<le> grow_limit"
  shows "\<exists>p'. writeString16 a (Some s) p = (Inr OK, p') \<and> only_data p p' \<and>
    has_data p' (d @ le_bytes 4 (of_nat (length s) :: u32) @ padded_bytes True (u16_bytes (s @ [0])))"
proof -
  let ?n = "le_bytes 4 (of_nat (length s) :: u32)" and ?len = "2 * length s + 2"
  let ?z = "replicate (padded_len ?len - ?len) (0 :: byte)"
  obtain p1 where p1: "writeInt32 a (of_nat (length s)) p = (Inr OK, p1)" "has_data p1 (d @ ?n)" "only_data p p1"
    using writeAligned_holds [OF assms(1,2), of 4 "of_nat (length s) :: u32"] assms(3) by (auto simp: writeInt32_def)
  obtain p2 ys where p2: "writeInplace a ?len p1 = (Inr (Some (length (d @ ?n))), p2)" "has_data p2 ((d @ ?n) @ ys @ ?z)"
    "length ys = ?len" "only_data p1 p2"
    using writeInplace_holds [OF assms(1) p1(2), of ?len] assms(3) by auto
  let ?y1 = "take (2 * length s) ys" and ?y2 = "drop (2 * length s) ys"
  have y: "length ?y1 = length (u16_bytes s)" "length ?y2 = 2" using p2(3) by simp_all
  then have ne: "?y2 \<noteq> []" by (metis length_0_conv zero_neq_numeral)
  have "has_data p2 ((d @ ?n) @ ?y1 @ (?y2 @ ?z))" using p2(2) by (metis append.assoc append_take_drop_id)
  then obtain p3 where p3: "write_data (length (d @ ?n)) (u16_bytes s) p2 = (Inr (), p3)"
    "has_data p3 ((d @ ?n) @ u16_bytes s @ ?y2 @ ?z)" "only_data p2 p3"
    using overwrite [of p2 "d @ ?n" ?y1 "?y2 @ ?z" "u16_bytes s"] y(1) ne by auto
  have "has_data p3 (((d @ ?n) @ u16_bytes s) @ ?y2 @ ?z)" using p3(2) by simp
  then obtain p4 where p4: "write_data (length ((d @ ?n) @ u16_bytes s)) [0, 0] p3 = (Inr (), p4)"
    "has_data p4 (((d @ ?n) @ u16_bytes s) @ [0, 0] @ ?z)" "only_data p3 p4"
    using overwrite [of p3 "(d @ ?n) @ u16_bytes s" ?y2 ?z "[0, 0]"] y(2) ne by auto
  have sa: "size_add (length s * 2) 2 = ?len"
    using assms(3) padded_len_bounds(1) [of ?len] by (simp add: grow_limit_def)
  have od: "only_data p p4" using p1(3) p2(4) p3(3) p4(3) by (blast intro: only_data_trans)
  have "writeString16 a (Some s) p = (Inr OK, p4)"
    using p1(1) p2(1) p3(1) p4(1) sa
    by (simp add: writeString16_def bindS_def seqS_def retS_def Let_def mult.commute add.assoc)
  moreover have "((d @ ?n) @ u16_bytes s) @ [0, 0] @ ?z = d @ ?n @ padded_bytes True (u16_bytes (s @ [0]))"
    by (simp add: padded_bytes_def u16_bytes_end)
  ultimately show ?thesis using p4(2) od by metis
qed

section \<open>Appending objects\<close>

definition holds_objects :: "aparcel \<Rightarrow> u64 list \<Rightarrow> bool" where
  "holds_objects p os \<longleftrightarrow> mObjectsSize p = length os \<and>
     (case mObjects p of
        None \<Rightarrow> mObjectsCapacity p = 0 \<and> os = []
      | Some arr \<Rightarrow> length arr = mObjectsCapacity p \<and> length os \<le> length arr \<and> take (length os) arr = os)"

lemma holds_objects_new: "holds_objects Parcel_new []"
  by (simp add: holds_objects_def Parcel_new_def)

lemma holds_objects_data: "only_data p p' \<Longrightarrow> holds_objects p os \<Longrightarrow> holds_objects p' os"
  by (auto simp: holds_objects_def only_data_def split: option.splits)

lemma holds_objects_offsets: "holds_objects p os \<Longrightarrow> object_places p = os"
  by (auto simp: holds_objects_def object_places_def split: option.splits)

lemma grow_objects_holds:
  assumes "total_alloc a" and "holds_objects p os" and "length os < 2 ^ 32"
  shows "\<exists>p'. grow_objects a p = (Inr OK, p') \<and> holds_objects p' os \<and> length os < mObjectsCapacity p' \<and>
    p' = p\<lparr>mObjects := mObjects p', mObjectsCapacity := mObjectsCapacity p'\<rparr>"
proof -
  let ?n = "length os" and ?arr = "case mObjects p of None \<Rightarrow> [] | Some arr \<Rightarrow> arr"
  let ?new = "(?n + 2) * 3 div 2"
  let ?arr' = "take ?new ?arr @ drop (length ?arr) (uninitialised_objects a ?new)"
  have n: "mObjectsSize p = ?n" "take ?n ?arr = os" "?n \<le> length ?arr"
    using assms(2) by (auto simp: holds_objects_def split: option.splits)
  have "?n + 2 < 2 ^ 64" "(?n + 2) * 3 < 2 ^ 64" using assms(3) by simp_all
  then have e: "size_add ?n 2 * 3 mod 2 ^ 64 div 2 = ?new" by (simp only: size_add_small mod_less)
  then have "grow_objects a p = (Inr OK, p\<lparr>mObjects := Some ?arr', mObjectsCapacity := ?new\<rparr>)"
    using n(1) assms(1) unfolding grow_objects_def
    by (simp only: bindS_def getS_def sum.case prod.case e Let_def) (simp add: seqS_def bindS_def modS_def retS_def)
  moreover have "length ?arr' = ?new" by (simp add: uninitialised_objects_def)
  moreover have "take ?n ?arr' = os" using n(2,3) by (auto simp: min_def)
  ultimately show ?thesis using n(1) by (auto simp: holds_objects_def)
qed

lemma length_flat_bytes [simp]: "length (flat_bytes f) = 24"
  by (simp add: flat_bytes_def)

lemma writeObject_holds:
  assumes a: "total_alloc a" and d: "has_data p d" and os: "holds_objects p os" "length os < 2 ^ 32"
    and len: "length d + 24 \<le> grow_limit" and t: "fo_type f \<noteq> BINDER_TYPE_FD"
  shows "\<exists>p'. writeObject a f null_meta_data p = (Inr OK, p') \<and> has_data p' (d @ flat_bytes f) \<and>
    holds_objects p' (if null_meta_data \<or> fo_ptr f \<noteq> 0 then os @ [of_nat (length d)] else os)"
proof -
  obtain p1 b where p1: "with_room a 24 retS (retS OK) p = retS OK p1" "has_data p1 d" "only_data p p1" "mData p1 = Some b"
    "length d + 24 \<le> length b"
    by (rule with_room_holds [OF a d _ len]) simp
  let ?grow = "if size_add (mDataPos p) 24 \<le> mDataCapacity p then retS OK else growData a 24"
  have "with_room a 24 retS (retS OK) p = ?grow p"
    by (auto simp: with_room_def bindS_def getS_def retS_def split: prod.splits sum.splits)
  then have g: "?grow p = (Inr OK, p1)" using p1(1) by (simp add: retS_def)
  have os1: "holds_objects p1 os" by (rule holds_objects_data [OF p1(3) os(1)])
  have eo: "mObjectsSize p < mObjectsCapacity p \<longleftrightarrow> mObjectsSize p1 < mObjectsCapacity p1"
    using p1(3) by (simp add: only_data_def)
  obtain p2 where p2: "(if mObjectsSize p < mObjectsCapacity p then retS OK else grow_objects a) p1 = (Inr OK, p2)"
    "holds_objects p2 os" "length os < mObjectsCapacity p2"
    "p2 = p1\<lparr>mObjects := mObjects p2, mObjectsCapacity := mObjectsCapacity p2\<rparr>"
  proof (cases "mObjectsSize p < mObjectsCapacity p")
    case True
    then show ?thesis using that [of p1] os1 eo by (simp add: retS_def holds_objects_def)
  next
    case False
    then show ?thesis using that grow_objects_holds [OF a os1 os(2)] by auto
  qed
  have h2: "has_data p2 d" "mData p2 = Some b" "mDataPos p2 = length d"
    using p1(2,4) by (subst p2(4), simp add: has_data_def)+
  obtain arr where arr: "mObjects p2 = Some arr" "length arr = mObjectsCapacity p2" "take (length os) arr = os"
    "mObjectsSize p2 = length os"
    using p2(2,3) by (auto simp: holds_objects_def split: option.splits)
  let ?os = "if null_meta_data \<or> fo_ptr f \<noteq> 0 then os @ [of_nat (length d)] else os"
  obtain p3 where p3: "write_data (length d) (flat_bytes f) p2 = (Inr (), p3)" "mData p3 = Some (d @ flat_bytes f @ drop (length d + 24) b)"
    "p3 = p2\<lparr>mData := mData p3\<rparr>"
  proof -
    have "take (length d) b = d" using h2(1,2) by (simp add: has_data_def)
    then have "mem_write (length d) (flat_bytes f) b = Inr (d @ flat_bytes f @ drop (length d + 24) b)"
      using p1(5) by (simp add: mem_write_def)
    then show thesis
      using h2(2) by (intro that [of "p2\<lparr>mData := Some (d @ flat_bytes f @ drop (length d + 24) b)\<rparr>"])
        (simp_all add: write_data_def the_data_def bindS_def liftS_def modS_def)
  qed
  let ?p4 = "if null_meta_data \<or> fo_ptr f \<noteq> 0
    then p3\<lparr>mObjects := Some (arr[length os := of_nat (length d)]), refs_log := refs_log p3 @ acquire_calls f,
       mObjectsSize := length os + 1\<rparr> else p3"
  let ?p5 = "?p4\<lparr>mDataPos := length d + 24, mDataSize := length d + 24\<rparr>"
  have sz: "size_add (length d) 24 = length d + 24" using len by (simp add: grow_limit_def)
  have fields: "mObjects p3 = Some arr" "mObjectsSize p3 = length os" "mObjectsCapacity p3 = mObjectsCapacity p2"
    "mDataPos p3 = length d" "mDataSize p3 = length d" "mDataCapacity p3 = mDataCapacity p2" "mOwner p3 = mOwner p2" "mError p3 = mError p2"
    using arr h2 by (subst p3(3), simp add: has_data_def)+
  have meta: "note_object f null_meta_data (length d) (length os) p3 = (Inr (), ?p4)"
    using fields arr(2) p2(3)
    by (simp add: note_object_def put_object_def acquire_object_def bindS_def seqS_def modS_def retS_def)
  have fin: "finishWrite 24 ?p4 = (Inr OK, ?p5)"
    using fields sz by (simp add: finishWrite_def PARCEL_INT32_MAX_def bindS_def seqS_def modS_def retS_def)
  have "writeObject a f null_meta_data p = (Inr OK, ?p5)"
    using t g p2(1) p3(1) arr(4) h2(3)
    unfolding writeObject_def by (simp add: bindS_def seqS_def getS_def retS_def meta fin del: binder_type_values split del: if_split)
  moreover have "has_data ?p5 (d @ flat_bytes f)"
    using fields h2 p3(2) p1(5) by (auto simp: has_data_def)
  moreover have "holds_objects ?p5 ?os"
    using fields arr p2(3) by (auto simp: holds_objects_def take_Suc_conv_app_nth)
  ultimately show ?thesis by blast
qed

section \<open>Reading back\<close>

text \<open>The data are \<open>pre\<close>, which was read, and \<open>bs\<close>, which was not.\<close>

definition unread :: "aparcel \<Rightarrow> byte list \<Rightarrow> byte list \<Rightarrow> bool" where
  "unread p pre bs \<longleftrightarrow> mDataPos p = length pre \<and> mDataSize p = length pre + length bs \<and>
     mDataSize p \<le> PARCEL_INT32_MAX \<and> (\<exists>b. mData p = Some (pre @ bs @ b))"

lemma unread_start:
  assumes "has_data p d" and "d \<noteq> []"
  shows "setDataPosition 0 p = (Inr (), p\<lparr>mDataPos := 0, mNextObjectHint := 0\<rparr>)"
    and "unread (p\<lparr>mDataPos := 0, mNextObjectHint := 0\<rparr>) [] d"
proof -
  show "setDataPosition 0 p = (Inr (), p\<lparr>mDataPos := 0, mNextObjectHint := 0\<rparr>)"
    by (simp add: setDataPosition_def modS_def)
  obtain b where b: "mData p = Some b" "take (length d) b = d" "length b \<le> PARCEL_INT32_MAX"
    using assms by (auto simp: has_data_def split: option.splits)
  then have "b = d @ drop (length d) b" by (metis append_take_drop_id)
  then show "unread (p\<lparr>mDataPos := 0, mNextObjectHint := 0\<rparr>) [] d"
    using assms(1) b unfolding unread_def by (auto simp: has_data_def intro: exI [of _ "drop (length d) b"])
qed

lemma unread_bytes:
  assumes "unread p pre (xs @ ys)" and "mData q = mData p"
  shows "bytes_at (length pre) (length xs) q = (Inr xs, q)"
  using assms by (auto simp: unread_def bytes_at_def the_data_def mem_read_def bindS_def liftS_def)

lemma unread_skip:
  "unread p pre (xs @ ys) \<Longrightarrow> unread (p\<lparr>mDataPos := length pre + length xs\<rparr>) (pre @ xs) ys"
  by (auto simp: unread_def)

lemma readAligned_status_unread:
  fixes v :: "'w::len word"
  assumes "unread p pre (le_bytes sz v @ ys)" and "LENGTH('w) \<le> 8 * sz"
  shows "\<exists>p'. readAligned_status sz p = (Inr (OK, v), p') \<and> unread p' (pre @ le_bytes sz v) ys \<and>
    p' = p\<lparr>mDataPos := length pre + sz\<rparr>"
proof -
  let ?p = "p\<lparr>mDataPos := length pre + sz\<rparr>"
  have "size_add (length pre) sz = length pre + sz" using assms(1) by (auto simp: unread_def PARCEL_INT32_MAX_def)
  moreover have "bytes_at (length pre) sz ?p = (Inr (le_bytes sz v), ?p)"
    using unread_bytes [OF assms(1), of ?p] by simp
  ultimately have "readAligned_status sz p = (Inr (OK, v), ?p)"
    using assms
    by (simp add: readAligned_status_def unread_def bindS_def seqS_def getS_def modS_def retS_def le_word_le_bytes)
  then show ?thesis using unread_skip [OF assms(1)] by simp
qed

lemma readAligned_unread:
  fixes v :: "'w::len word"
  assumes "unread p pre (le_bytes sz v @ ys)" and "LENGTH('w) \<le> 8 * sz"
  shows "\<exists>p'. readAligned sz p = (Inr v, p') \<and> unread p' (pre @ le_bytes sz v) ys \<and> p' = p\<lparr>mDataPos := length pre + sz\<rparr>"
  using readAligned_status_unread [OF assms] by (auto simp: readAligned_def bindS_def retS_def)

lemma readInplace_unread:
  assumes "unread p pre (xs @ ys)" and "length xs = padded_len len"
  shows "readInplace len p = (Inr (Some (length pre)), p\<lparr>mDataPos := length pre + length xs\<rparr>)"
proof -
  have "len \<le> length xs" using assms(2) padded_len_bounds(1) [of len] by simp
  moreover have "length pre + length xs \<le> PARCEL_INT32_MAX" using assms(1) by (auto simp: unread_def)
  ultimately show ?thesis
    using assms
    by (auto simp: readInplace_def android_pad_size_padded unread_def PARCEL_INT32_MAX_def bindS_def seqS_def
        liftS_def getS_def modS_def retS_def)
qed

lemma small_signed:
  assumes "n < 2 ^ 31"
  shows "unat (of_nat n :: u32) = n" and "0 \<le>s (of_nat n :: u32)" and "0 <s (of_nat n :: u32) \<longleftrightarrow> 0 < n"
    and "(of_nat n :: u32) <s of_nat PARCEL_INT32_MAX \<longleftrightarrow> n < PARCEL_INT32_MAX"
proof -
  have s: "sint (of_nat m :: u32) = int m" if "m < 2 ^ 31" for m
    using that by (subst signed_of_nat) (simp add: signed_take_bit_int_eq_self)
  show "unat (of_nat n :: u32) = n" using assms by (simp add: unat_of_nat)
  show "0 \<le>s (of_nat n :: u32)" using s [OF assms] by (simp add: word_sle_eq)
  show "0 <s (of_nat n :: u32) \<longleftrightarrow> 0 < n" using s [OF assms] by (simp add: word_sless_alt)
  show "(of_nat n :: u32) <s of_nat PARCEL_INT32_MAX \<longleftrightarrow> n < PARCEL_INT32_MAX"
    using s [OF assms] s [of PARCEL_INT32_MAX] by (simp add: word_sless_alt PARCEL_INT32_MAX_def)
qed

definition string8_data :: "byte list \<Rightarrow> byte list" where
  "string8_data s = le_bytes 4 (of_nat (length s) :: u32) @ (if s = [] then [] else padded_bytes True (s @ [0]))"

definition string16_data :: "u16 list \<Rightarrow> byte list" where
  "string16_data s = le_bytes 4 (of_nat (length s) :: u32) @ padded_bytes True (u16_bytes (s @ [0]))"

lemma unread_length: "unread p pre bs \<Longrightarrow> length bs \<le> PARCEL_INT32_MAX"
  by (auto simp: unread_def)

lemma readString8_unread:
  assumes "unread p pre (string8_data s @ ys)"
  shows "\<exists>p'. readString8 p = (Inr s, p') \<and> unread p' (pre @ string8_data s) ys \<and> p' = p\<lparr>mDataPos := mDataPos p'\<rparr>"
proof -
  let ?n = "le_bytes 4 (of_nat (length s) :: u32)"
  obtain p1 where p1: "readInt32 p = (Inr (of_nat (length s)), p1)"
    "unread p1 (pre @ ?n) ((if s = [] then [] else padded_bytes True (s @ [0])) @ ys)" "p1 = p\<lparr>mDataPos := length pre + 4\<rparr>"
    using readAligned_unread [of p pre 4 "of_nat (length s) :: u32"] assms
    by (auto simp: string8_data_def readInt32_def)
  show ?thesis
  proof (cases "s = []")
    case True
    then show ?thesis
      using p1 by (intro exI [of _ p1]) (auto simp: readString8_def string8_data_def bindS_def retS_def)
  next
    case False
    let ?xs = "padded_bytes True (s @ [0])" and ?z = "replicate (padded_len (length s + 1) - (length s + 1)) (0 :: byte)"
    have u: "unread p1 (pre @ ?n) (?xs @ ys)" using p1(2) False by simp
    have s: "length s < PARCEL_INT32_MAX" "length s < 2 ^ 31"
      using unread_length [OF u] padded_len_bounds(1) [of "length s + 1"] by (simp_all add: PARCEL_INT32_MAX_def)
    let ?p2 = "p1\<lparr>mDataPos := length (pre @ ?n) + length ?xs\<rparr>"
    have ri: "readInplace (length s + 1) p1 = (Inr (Some (length (pre @ ?n))), ?p2)"
      by (rule readInplace_unread [OF u]) simp
    have "?xs @ ys = s @ ([0] @ ?z @ ys)" by (simp add: padded_bytes_def)
    then have "unread p1 (pre @ ?n) (s @ ([0] @ ?z @ ys))" using u by simp
    then have rb: "bytes_at (length (pre @ ?n)) (length s) ?p2 = (Inr s, ?p2)" by (rule unread_bytes) simp
    have "readString8 p = (Inr s, ?p2)"
      using p1(1) ri rb small_signed [OF s(2)] s(1) False by (simp add: readString8_def bindS_def)
    moreover have "unread ?p2 (pre @ string8_data s) ys"
      using unread_skip [OF u] False by (simp add: string8_data_def)
    ultimately show ?thesis using p1(3) by auto
  qed
qed

lemma bytes_char16_u16_bytes: "bytes_char16 (u16_bytes s) = s"
proof (induction s)
  case (Cons c s)
  have "u16_bytes (c # s) = le_bytes 2 c @ u16_bytes s" by (simp add: u16_bytes_def)
  moreover have "bytes_char16 (le_bytes 2 c @ bs) = c # bytes_char16 bs" for bs
    using le_word_le_bytes [of 2 c] by (simp add: numeral_2_eq_2 le_bytes_Suc)
  ultimately show ?case using Cons by simp
qed (simp add: u16_bytes_def)

lemma readString16_status_unread:
  assumes "unread p pre (string16_data s @ ys)"
  shows "\<exists>p'. readString16_status p = (Inr (OK, s), p') \<and> unread p' (pre @ string16_data s) ys \<and> p' = p\<lparr>mDataPos := mDataPos p'\<rparr>"
proof -
  let ?n = "le_bytes 4 (of_nat (length s) :: u32)" and ?xs = "padded_bytes True (u16_bytes (s @ [0]))"
  obtain p1 where p1: "readInt32 p = (Inr (of_nat (length s)), p1)" "unread p1 (pre @ ?n) (?xs @ ys)"
    "p1 = p\<lparr>mDataPos := length pre + 4\<rparr>"
    using readAligned_unread [of p pre 4 "of_nat (length s) :: u32"] assms
    by (auto simp: string16_data_def readInt32_def)
  have s: "length s < PARCEL_INT32_MAX" "length s < 2 ^ 31"
    using unread_length [OF p1(2)] padded_len_bounds(1) [of "length (u16_bytes (s @ [0]))"]
    by (simp_all add: PARCEL_INT32_MAX_def)
  let ?p2 = "p1\<lparr>mDataPos := length (pre @ ?n) + length ?xs\<rparr>"
  have ri: "readInplace ((length s + 1) * 2) p1 = (Inr (Some (length (pre @ ?n))), ?p2)"
    by (rule readInplace_unread [OF p1(2)]) (simp add: algebra_simps)
  obtain zs where "?xs @ ys = u16_bytes s @ zs" by (simp add: padded_bytes_def u16_bytes_end)
  then have "unread p1 (pre @ ?n) (u16_bytes s @ zs)" using p1(2) by simp
  then have b: "bytes_at (length (pre @ ?n)) (length (u16_bytes s)) ?p2 = (Inr (u16_bytes s), ?p2)"
    by (rule unread_bytes) simp
  have "readString16_status p = (Inr (OK, s), ?p2)"
    using p1(1) ri b small_signed [OF s(2)] s(1)
    by (simp add: readString16_status_def readString16Inplace_def bytes_char16_u16_bytes
        bindS_def retS_def mult.commute)
  moreover have "unread ?p2 (pre @ string16_data s) ys"
    using unread_skip [OF p1(2)] by (simp add: string16_data_def)
  ultimately show ?thesis using p1(3) by auto
qed

lemma readString16_unread:
  assumes "unread p pre (string16_data s @ ys)"
  shows "\<exists>p'. readString16 p = (Inr s, p') \<and> unread p' (pre @ string16_data s) ys \<and> p' = p\<lparr>mDataPos := mDataPos p'\<rparr>"
  using readString16_status_unread [OF assms] by (auto simp: readString16_def bindS_def retS_def)

lemma flat_at_bytes: "flat_at (length pre) (pre @ flat_bytes f @ ys) = Inr f"
proof -
  have l: "load (length as) n (as @ le_bytes n (w :: 'w::len word) @ bs) = Inr w" if "LENGTH('w) \<le> 8 * n" for as n w bs
    using that by (simp add: load_def mem_read_def le_word_le_bytes)
  have "load (length pre) 4 (pre @ flat_bytes f @ ys) = Inr (fo_type f)"
    "load (length pre + 4) 4 (pre @ flat_bytes f @ ys) = Inr (fo_flags f)"
    "load (length pre + 8) 8 (pre @ flat_bytes f @ ys) = Inr (fo_ptr f)"
    "load (length pre + 16) 8 (pre @ flat_bytes f @ ys) = Inr (fo_cookie f)"
    using l [of 4 pre "fo_type f"] l [of 4 "pre @ le_bytes 4 (fo_type f)" "fo_flags f"]
      l [of 8 "pre @ le_bytes 4 (fo_type f) @ le_bytes 4 (fo_flags f)" "fo_ptr f"]
      l [of 8 "pre @ le_bytes 4 (fo_type f) @ le_bytes 4 (fo_flags f) @ le_bytes 8 (fo_ptr f)" "fo_cookie f"]
    by (simp_all add: flat_bytes_def)
  then show ?thesis by (simp add: flat_at_def)
qed

lemma unflatten_unread:
  assumes u: "unread p pre (flat_bytes f @ ys)" and ok: "objects_ok p"
    and known: "(fo_cookie f = 0 \<and> fo_ptr f = 0) \<or> of_nat (length pre) \<in> set (object_places p)"
    and t: "fo_type f = BINDER_TYPE_BINDER \<or> fo_type f = BINDER_TYPE_HANDLE"
  shows "\<exists>p' h. unflatten_binder p =
      (Inr (OK, Some (if fo_type f = BINDER_TYPE_BINDER then FromCookie (fo_cookie f) else ProxyFor (fo_handle f))), p') \<and>
    unread p' (pre @ flat_bytes f) ys \<and> p' = p\<lparr>mDataPos := mDataPos p', mNextObjectHint := h\<rparr>"
proof -
  obtain b where b: "mData p = Some (pre @ (flat_bytes f @ ys) @ b)" "mDataSize p \<le> PARCEL_INT32_MAX"
    and pos: "mDataPos p = length pre" "mDataSize p = length pre + length (flat_bytes f @ ys)"
    using u by (auto simp: unread_def)
  have fl: "flat_at (mDataPos p) (pre @ (flat_bytes f @ ys) @ b) = Inr f"
    using flat_at_bytes [of pre f "ys @ b"] pos by simp
  obtain p' h where p': "readObject False p = (Inr (Some (length pre, f)), p')"
    "p' = p\<lparr>mDataPos := length pre + 24, mNextObjectHint := h\<rparr>"
    using readObject_lookup [OF ok b(1) _ b(2), of False] fl pos known by auto
  have "unread p' (pre @ flat_bytes f) ys"
    using unread_skip [OF u] unfolding p'(2) by (auto simp: unread_def)
  moreover have "unflatten_binder p =
      (Inr (OK, Some (if fo_type f = BINDER_TYPE_BINDER then FromCookie (fo_cookie f) else ProxyFor (fo_handle f))), p')"
    using p'(1) t by (auto simp: unflatten_binder_def bindS_def retS_def)
  ultimately show ?thesis using p'(2) by auto
qed

section \<open>Whole parcels\<close>

text \<open>The values that go into a parcel, what is written for them, and how they are read.\<close>

datatype item = Int32_item u32 | Int64_item u64 | String8_item "byte list" | String16_item "u16 list"
  | Binder_item "ibinder option"

datatype item_value = Int32_value u32 | Int64_value u64 | String8_value "byte list" | String16_value "u16 list"
  | Binder_value status "unflattened option"

primrec write_item :: "allocator \<Rightarrow> item \<Rightarrow> status parc" where
  "write_item a (Int32_item v) = writeInt32 a v"
| "write_item a (Int64_item v) = writeInt64 a v"
| "write_item a (String8_item s) = writeString8 a s"
| "write_item a (String16_item s) = writeString16 a (Some s)"
| "write_item a (Binder_item ob) = writeStrongBinder a ob"

primrec write_items :: "allocator \<Rightarrow> item list \<Rightarrow> status parc" where
  "write_items a [] = retS OK"
| "write_items a (i # is) = bindS (write_item a i) (\<lambda>st. if st = OK then write_items a is else retS st)"

primrec read_like :: "item \<Rightarrow> item_value parc" where
  "read_like (Int32_item _) = bindS readInt32 (\<lambda>v. retS (Int32_value v))"
| "read_like (Int64_item _) = bindS readInt64 (\<lambda>v. retS (Int64_value v))"
| "read_like (String8_item _) = bindS readString8 (\<lambda>s. retS (String8_value s))"
| "read_like (String16_item _) = bindS readString16 (\<lambda>s. retS (String16_value s))"
| "read_like (Binder_item _) = bindS unflatten_binder (\<lambda>(st, ob). retS (Binder_value st ob))"

primrec read_items :: "item list \<Rightarrow> item_value list parc" where
  "read_items [] = retS []"
| "read_items (i # is) = bindS (read_like i) (\<lambda>v. bindS (read_items is) (\<lambda>vs. retS (v # vs)))"

primrec seen_binder :: "ibinder \<Rightarrow> unflattened" where
  "seen_binder (LocalBinder addr _) = FromCookie addr"
| "seen_binder (RemoteBinder handle) = ProxyFor handle"
| "seen_binder NoBinder = ProxyFor 0"

primrec value_of :: "item \<Rightarrow> item_value" where
  "value_of (Int32_item v) = Int32_value v"
| "value_of (Int64_item v) = Int64_value v"
| "value_of (String8_item s) = String8_value s"
| "value_of (String16_item s) = String16_value s"
| "value_of (Binder_item ob) =
     Binder_value OK (Some (case ob of None \<Rightarrow> FromCookie 0 | Some ob \<Rightarrow> seen_binder ob))"

primrec item_bytes :: "item \<Rightarrow> byte list" where
  "item_bytes (Int32_item v) = le_bytes 4 v"
| "item_bytes (Int64_item v) = le_bytes 8 v"
| "item_bytes (String8_item s) = string8_data s"
| "item_bytes (String16_item s) = string16_data s"
| "item_bytes (Binder_item ob) = flat_bytes (flat_of_binder ob)"

text \<open>The address of the reference count of a local object is not null.\<close>

fun item_ok :: "item \<Rightarrow> bool" where
  "item_ok (Binder_item (Some (LocalBinder _ refs))) = (refs \<noteq> 0)"
| "item_ok _ = True"

definition noted :: "item \<Rightarrow> bool" where
  "noted i = (case i of Binder_item ob \<Rightarrow> fo_ptr (flat_of_binder ob) \<noteq> 0 | _ \<Rightarrow> False)"

definition items_bytes :: "item list \<Rightarrow> byte list" where
  "items_bytes is = concat (map item_bytes is)"

primrec noted_offsets :: "nat \<Rightarrow> item list \<Rightarrow> u64 list" where
  "noted_offsets n [] = []"
| "noted_offsets n (i # is) =
     (if noted i then [of_nat n] else []) @ noted_offsets (n + length (item_bytes i)) is"

lemma write_item_holds:
  assumes "total_alloc a" and "has_data p d" and "holds_objects p os" and "length os \<le> length d"
    and "length d + length (item_bytes i) + 4 \<le> grow_limit"
  shows "\<exists>p'. write_item a i p = (Inr OK, p') \<and> has_data p' (d @ item_bytes i) \<and>
    holds_objects p' (os @ (if noted i then [of_nat (length d)] else []))"
proof (cases i)
  case (Int32_item v)
  then show ?thesis
    using writeAligned_holds [OF assms(1,2), of 4 v] assms(3,5) holds_objects_data [of p _ os]
    by (auto simp: writeInt32_def noted_def)
next
  case (Int64_item v)
  then show ?thesis
    using writeAligned_holds [OF assms(1,2), of 8 v] assms(3,5) holds_objects_data [of p _ os]
    by (auto simp: writeInt64_def noted_def)
next
  case (String8_item s)
  have "length d + 4 + padded_len (length s + 1) \<le> grow_limit"
    using assms(5) String8_item by (cases s) (simp_all add: string8_data_def padded_len_def)
  then show ?thesis
    using writeString8_holds [OF assms(1,2), of s] assms(3) holds_objects_data [of p _ os] String8_item
    by (fastforce simp: noted_def string8_data_def)
next
  case (String16_item s)
  have "length d + 4 + padded_len (2 * length s + 2) \<le> grow_limit"
    using assms(5) String16_item by (simp add: string16_data_def)
  then show ?thesis
    using writeString16_holds [OF assms(1,2), of s] assms(3) holds_objects_data [of p _ os] String16_item
    by (fastforce simp: noted_def string16_data_def)
next
  case (Binder_item ob)
  have "fo_type (flat_of_binder ob) \<noteq> BINDER_TYPE_FD"
    by (auto simp: flat_of_binder_def Let_def split: option.splits ibinder.splits)
  moreover have "length os < 2 ^ 32" using assms(4,5) by (simp add: grow_limit_def)
  ultimately show ?thesis
    using writeObject_holds [OF assms(1,2,3), of "flat_of_binder ob" False] assms(5) Binder_item
    by (auto simp: writeStrongBinder_def flatten_binder_def noted_def)
qed

lemma length_item_bytes: "noted i \<Longrightarrow> 0 < length (item_bytes i)"
  by (cases i) (simp_all add: noted_def)

lemma write_items_holds:
  assumes "total_alloc a" and "has_data p d" and "holds_objects p os" and "length os \<le> length d"
    and "length d + length (items_bytes is) + 4 \<le> grow_limit"
  shows "\<exists>p'. write_items a is p = (Inr OK, p') \<and> has_data p' (d @ items_bytes is) \<and>
    holds_objects p' (os @ noted_offsets (length d) is)"
  using assms(2-)
proof (induction "is" arbitrary: p d os)
  case Nil
  then show ?case by (simp add: items_bytes_def retS_def)
next
  case (Cons i "is")
  have len: "length d + length (item_bytes i) + 4 \<le> grow_limit"
    using Cons.prems(4) by (simp add: items_bytes_def)
  let ?os = "os @ (if noted i then [of_nat (length d)] else [])"
  obtain p1 where p1: "write_item a i p = (Inr OK, p1)" "has_data p1 (d @ item_bytes i)" "holds_objects p1 ?os"
    using write_item_holds [OF assms(1) Cons.prems(1-3) len] by blast
  have os: "length ?os \<le> length (d @ item_bytes i)"
    using Cons.prems(3) length_item_bytes [of i] by (cases "noted i") (simp_all del: length_greater_0_conv)
  have "length (d @ item_bytes i) + length (items_bytes is) + 4 \<le> grow_limit"
    using Cons.prems(4) by (simp add: items_bytes_def)
  from Cons.IH [OF p1(2,3) os this] obtain p' where "write_items a is p1 = (Inr OK, p')"
    "has_data p' ((d @ item_bytes i) @ items_bytes is)" "holds_objects p' (?os @ noted_offsets (length (d @ item_bytes i)) is)"
    by blast
  then show ?case using p1(1) by (simp add: items_bytes_def bindS_def)
qed

lemma noted_offsets_sorted:
  assumes "n + length (items_bytes is) < 2 ^ 64"
  shows "sorted_wrt (<) (noted_offsets n is) \<and> (\<forall>off\<in>set (noted_offsets n is). n \<le> unat off)"
  using assms
proof (induction "is" arbitrary: n)
  case (Cons i "is")
  have ih: "sorted_wrt (<) (noted_offsets (n + length (item_bytes i)) is)"
    "\<forall>off\<in>set (noted_offsets (n + length (item_bytes i)) is). n + length (item_bytes i) \<le> unat off"
    using Cons.IH [of "n + length (item_bytes i)"] Cons.prems by (simp_all add: items_bytes_def)
  have n: "unat (of_nat n :: u64) = n" using Cons.prems by (simp add: unat_of_nat)
  have "of_nat n < off" if "off \<in> set (noted_offsets (n + length (item_bytes i)) is)" "noted i" for off
  proof -
    have "n + length (item_bytes i) \<le> unat off" using ih(2) that(1) by blast
    then have "n < unat off" using length_item_bytes [OF that(2)] by linarith
    then show ?thesis using n by (simp add: word_less_nat_alt)
  qed
  then show ?case using ih n by (auto intro: order_trans [OF le_add1])
qed simp

lemma noted_offset_in:
  "i \<in> set is \<Longrightarrow> noted i \<Longrightarrow> is = xs @ i # ys \<Longrightarrow>
     of_nat (n + length (items_bytes xs)) \<in> set (noted_offsets n is)"
proof (induction xs arbitrary: n "is")
  case Nil
  then show ?case by (simp add: items_bytes_def)
next
  case (Cons x xs)
  have "of_nat (n + length (item_bytes x) + length (items_bytes xs)) \<in> set (noted_offsets (n + length (item_bytes x)) (xs @ i # ys))"
    using Cons.IH [of "xs @ i # ys" "n + length (item_bytes x)"] Cons.prems by simp
  then show ?case using Cons.prems by (simp add: items_bytes_def add.assoc)
qed

lemma read_like_unread:
  assumes "unread p pre (item_bytes i @ ys)" and "objects_ok p" and "item_ok i"
    and "noted i \<Longrightarrow> of_nat (length pre) \<in> set (object_places p)"
  shows "\<exists>p' h. read_like i p = (Inr (value_of i), p') \<and> unread p' (pre @ item_bytes i) ys \<and>
    p' = p\<lparr>mDataPos := mDataPos p', mNextObjectHint := h\<rparr>"
proof (cases i)
  case (Int32_item v)
  then obtain p' where p': "readInt32 p = (Inr v, p')" "unread p' (pre @ item_bytes i) ys" "p' = p\<lparr>mDataPos := length pre + 4\<rparr>"
    using readAligned_unread [of p pre 4 v ys] assms(1) by (auto simp: readInt32_def)
  then show ?thesis using Int32_item
    by (intro exI [of _ p'] exI [of _ "mNextObjectHint p"]) (simp add: bindS_def retS_def)
next
  case (Int64_item v)
  then obtain p' where p': "readInt64 p = (Inr v, p')" "unread p' (pre @ item_bytes i) ys" "p' = p\<lparr>mDataPos := length pre + 8\<rparr>"
    using readAligned_unread [of p pre 8 v ys] assms(1) by (auto simp: readInt64_def)
  then show ?thesis using Int64_item
    by (intro exI [of _ p'] exI [of _ "mNextObjectHint p"]) (simp add: bindS_def retS_def)
next
  case (String8_item s)
  then obtain p' where p': "readString8 p = (Inr s, p')" "unread p' (pre @ item_bytes i) ys" "p' = p\<lparr>mDataPos := mDataPos p'\<rparr>"
    using readString8_unread [of p pre s ys] assms(1) by auto
  have "p' = p\<lparr>mDataPos := mDataPos p', mNextObjectHint := mNextObjectHint p\<rparr>" by (subst p'(3)) simp
  then show ?thesis using String8_item p' by (auto simp: bindS_def retS_def)
next
  case (String16_item s)
  then obtain p' where p': "readString16 p = (Inr s, p')" "unread p' (pre @ item_bytes i) ys" "p' = p\<lparr>mDataPos := mDataPos p'\<rparr>"
    using readString16_unread [of p pre s ys] assms(1) by auto
  have "p' = p\<lparr>mDataPos := mDataPos p', mNextObjectHint := mNextObjectHint p\<rparr>" by (subst p'(3)) simp
  then show ?thesis using String16_item p' by (auto simp: bindS_def retS_def)
next
  case (Binder_item ob)
  let ?f = "flat_of_binder ob"
  have t: "fo_type ?f = BINDER_TYPE_BINDER \<or> fo_type ?f = BINDER_TYPE_HANDLE"
    and v: "value_of i = Binder_value OK (Some (if fo_type ?f = BINDER_TYPE_BINDER then FromCookie (fo_cookie ?f)
      else ProxyFor (fo_handle ?f)))"
    using Binder_item by (auto simp: flat_of_binder_def fo_handle_def Let_def ucast_up_ucast_id is_up.rep_eq split: option.splits ibinder.splits)
  have known: "(fo_cookie ?f = 0 \<and> fo_ptr ?f = 0) \<or> of_nat (length pre) \<in> set (object_places p)"
  proof (cases "noted i")
    case False
    then have "fo_ptr ?f = 0" using Binder_item by (simp add: noted_def)
    then have "fo_cookie ?f = 0"
      using assms(3) Binder_item by (auto simp: flat_of_binder_def Let_def split: option.splits ibinder.splits)
    then show ?thesis using \<open>fo_ptr ?f = 0\<close> by simp
  qed (use assms(4) in simp)
  obtain p' h where "unflatten_binder p = (Inr (OK, Some (if fo_type ?f = BINDER_TYPE_BINDER then FromCookie (fo_cookie ?f)
      else ProxyFor (fo_handle ?f))), p')" "unread p' (pre @ flat_bytes ?f) ys" "p' = p\<lparr>mDataPos := mDataPos p', mNextObjectHint := h\<rparr>"
    using unflatten_unread [of p pre ?f ys, OF _ assms(2) known t] assms(1) Binder_item by auto
  then show ?thesis using v Binder_item by (auto simp: bindS_def retS_def simp del: value_of.simps)
qed

lemma offsets_position [simp]:
  "object_places (p\<lparr>mDataPos := k, mNextObjectHint := h\<rparr>) = object_places p"
  "objects_ok (p\<lparr>mDataPos := k, mNextObjectHint := h\<rparr>) = objects_ok p"
  by (simp_all add: objects_ok_def object_places_def cong: option.case_cong)

lemma read_items_unread:
  assumes "unread p (items_bytes xs) (items_bytes is @ ys)" and "objects_ok p"
    and "object_places p = noted_offsets 0 (xs @ is)" and "\<forall>i\<in>set is. item_ok i"
  shows "\<exists>p'. read_items is p = (Inr (map value_of is), p')"
  using assms
proof (induction "is" arbitrary: xs p)
  case (Cons i "is")
  have "of_nat (length (items_bytes xs)) \<in> set (object_places p)" if "noted i"
    using noted_offset_in [of i "xs @ i # is" xs "is" 0] that Cons.prems(3) by simp
  moreover have "unread p (items_bytes xs) (item_bytes i @ (items_bytes is @ ys))"
    using Cons.prems(1) by (simp add: items_bytes_def)
  ultimately obtain p1 h where p1: "read_like i p = (Inr (value_of i), p1)"
    "unread p1 (items_bytes xs @ item_bytes i) (items_bytes is @ ys)" "p1 = p\<lparr>mDataPos := mDataPos p1, mNextObjectHint := h\<rparr>"
    using read_like_unread [of p "items_bytes xs" i "items_bytes is @ ys"] Cons.prems(2,4) by auto
  have "object_places p1 = object_places p" by (subst p1(3)) simp
  moreover have "objects_ok p1"
    using Cons.prems(2) by (subst p1(3)) simp
  ultimately obtain p' where "read_items is p1 = (Inr (map value_of is), p')"
    using Cons.IH [of p1 "xs @ [i]"] p1(2) Cons.prems(3,4) by (auto simp: items_bytes_def)
  then show ?case using p1(1) by (simp add: bindS_def retS_def)
qed (simp add: retS_def)

lemma items_bytes_nonempty: "is \<noteq> [] \<Longrightarrow> items_bytes is \<noteq> []"
proof -
  have "item_bytes i \<noteq> []" for i
  proof -
    have "4 \<le> length (item_bytes i)" by (cases i) (simp_all add: string8_data_def string16_data_def)
    then show ?thesis by auto
  qed
  then show "is \<noteq> [] \<Longrightarrow> items_bytes is \<noteq> []" by (cases "is") (simp_all add: items_bytes_def)
qed

text \<open>C7: numbers, strings and references to objects that are written to a new parcel, in any
  order, are read back in the same order: a local object as the address it was written with, a
  proxy as its handle. The offset array names exactly the references whose pointer field is not 0: those to local
  objects and to proxies with a handle other than 0. A null reference is not named, and neither is a proxy of handle
  0, the context manager, whose handle is written into the same field.\<close>

theorem android_parcel_round_trip:
  assumes "total_alloc a" and "length (items_bytes items) + 4 \<le> grow_limit" and "\<forall>i\<in>set items. item_ok i"
  shows "\<exists>p p1 p2. write_items a items Parcel_new = (Inr OK, p) \<and> object_places p = noted_offsets 0 items \<and>
    setDataPosition 0 p = (Inr (), p1) \<and> read_items items p1 = (Inr (map value_of items), p2)"
proof -
  obtain p where p: "write_items a items Parcel_new = (Inr OK, p)" "has_data p (items_bytes items)"
    "holds_objects p (noted_offsets 0 items)"
    using write_items_holds [OF assms(1) has_data_new holds_objects_new] assms(2) by auto
  let ?p1 = "p\<lparr>mDataPos := 0, mNextObjectHint := 0\<rparr>"
  have off: "object_places p = noted_offsets 0 items" by (rule holds_objects_offsets [OF p(3)])
  have pos: "setDataPosition 0 p = (Inr (), ?p1)" by (simp add: setDataPosition_def modS_def)
  have "\<exists>p2. read_items items ?p1 = (Inr (map value_of items), p2)"
  proof (cases "items = []")
    case True
    then show ?thesis by (simp add: retS_def)
  next
    case False
    have "unread ?p1 [] (items_bytes items)" by (rule unread_start(2) [OF p(2) items_bytes_nonempty [OF False]])
    moreover have "objects_ok ?p1" "object_places ?p1 = noted_offsets 0 items"
      using p(3) off noted_offsets_sorted [of 0 items] assms(2)
      by (auto simp: objects_ok_def holds_objects_def grow_limit_def split: option.splits)
    ultimately show ?thesis
      using read_items_unread [of ?p1 "[]" items "[]"] assms(3) by (simp add: items_bytes_def)
  qed
  then show ?thesis using p(1) off pos by blast
qed

theorem android_parcel_round_trip_witness:
  "\<exists>p p1 p2. write_items plain_alloc [Int32_item 7, String8_item [104, 105], Binder_item (Some (RemoteBinder 5)),
      String16_item [72], Binder_item None, Binder_item (Some (LocalBinder 0x1000 0x2000))] Parcel_new = (Inr OK, p) \<and>
    object_places p = [12, 68] \<and> setDataPosition 0 p = (Inr (), p1) \<and>
    read_items [Int32_item 7, String8_item [104, 105], Binder_item (Some (RemoteBinder 5)),
      String16_item [72], Binder_item None, Binder_item (Some (LocalBinder 0x1000 0x2000))] p1 =
      (Inr [Int32_value 7, String8_value [104, 105], Binder_value OK (Some (ProxyFor 5)), String16_value [72],
        Binder_value OK (Some (FromCookie 0)), Binder_value OK (Some (FromCookie 0x1000))], p2)"
  using android_parcel_round_trip [of plain_alloc "[Int32_item 7, String8_item [104, 105], Binder_item (Some (RemoteBinder 5)),
      String16_item [72], Binder_item None, Binder_item (Some (LocalBinder 0x1000 0x2000))]"]
  by (simp add: items_bytes_def string8_data_def string16_data_def grow_limit_def padded_len_def noted_def
      flat_of_binder_def)

section \<open>A parcel that is emptied\<close>

lemma drop_loop:
  assumes "mData p = Some b" and "mObjects p = Some arr"
    and "\<forall>i\<in>set is. i < length arr \<and> unat (arr ! i) + 24 \<le> length b"
  shows "\<exists>r k. forS is drop_object p = (Inr (), p\<lparr>refs_log := r, mFdsKnown := k\<rparr>)"
  using assms
proof (induction "is" arbitrary: p)
  case Nil
  show ?case by (intro exI [of _ "refs_log p"] exI [of _ "mFdsKnown p"]) (simp add: retS_def)
next
  case (Cons i "is")
  obtain f where f: "flat_at (unat (arr ! i)) b = Inr f" using flat_at_ok [of "unat (arr ! i)" b] Cons.prems(3) by auto
  then have "flat_at_index i p = (Inr f, p)"
    using Cons.prems by (simp add: flat_at_index_def entry_at_def the_data_def bindS_def liftS_def)
  then obtain k' where one: "drop_object i p = (Inr (), p\<lparr>mFdsKnown := k', refs_log := refs_log p @ release_calls f\<rparr>)"
    by (cases "fo_type f = BINDER_TYPE_FD")
      (auto simp: drop_object_def release_object_def bindS_def seqS_def modS_def retS_def intro: that [of "mFdsKnown p"]
        simp del: binder_type_values)
  let ?p = "p\<lparr>mFdsKnown := k', refs_log := refs_log p @ release_calls f\<rparr>"
  obtain r k where "forS is drop_object ?p = (Inr (), ?p\<lparr>refs_log := r, mFdsKnown := k\<rparr>)"
    using Cons.IH [of ?p] Cons.prems by auto
  then show ?case
    using one by (intro exI [of _ r] exI [of _ k]) (simp add: bindS_def seqS_def)
qed

lemma setDataSize_0:
  assumes "has_data p d" and "holds_objects p os" and "os \<noteq> []" and "\<forall>off\<in>set os. unat off + 24 \<le> length d"
  shows "\<exists>p'. setDataSize a 0 p = (Inr OK, p') \<and> mObjects p' = Some [] \<and> mObjectsSize p' = 0 \<and>
    mObjectsCapacity p' = mObjectsCapacity p \<and> mDataPos p' = 0 \<and> mDataCapacity p' = mDataCapacity p \<and>
    mData p' = mData p \<and> mAllowFds p' = mAllowFds p"
proof -
  have "d \<noteq> []" using assms(3,4) by fastforce
  then obtain b where b: "mData p = Some b" "length d \<le> length b" using assms(1) by (auto simp: has_data_def split: option.splits)
  obtain arr where arr: "mObjects p = Some arr" "take (length os) arr = os" "length os \<le> length arr" "mObjectsSize p = length os"
    using assms(2,3) by (auto simp: holds_objects_def split: option.splits)
  have "arr ! i = os ! i" if "i < length os" for i
    using arr(2) that by (metis nth_take)
  then have "\<forall>i\<in>set [0..<length os]. i < length arr \<and> unat (arr ! i) + 24 \<le> length b"
    using assms(4) arr(3) b(2) by (fastforce dest: nth_mem)
  from drop_loop [OF b(1) arr(1) this] obtain r k where loop: "forS [0..<length os] drop_object p = (Inr (), p\<lparr>refs_log := r, mFdsKnown := k\<rparr>)" by blast
  have "drop_objects a 0 p = (Inr (), p\<lparr>refs_log := r, mFdsKnown := k, mObjects := Some [], mObjectsSize := 0,
      mNextObjectHint := 0\<rparr>)"
    using arr(1,4) assms(3) loop unfolding drop_objects_def
    by (simp add: bindS_def seqS_def getS_def modS_def del: binder_type_values)
  then show ?thesis
    using b(1) assms(1) \<open>d \<noteq> []\<close>
    by (simp add: setDataSize_def continueWrite_def resize_own_def the_data_def has_data_def bindS_def seqS_def
        getS_def modS_def retS_def)
qed

text \<open>C38: when a parcel that holds references is emptied, its offset array is given back but the
  capacity of that array is kept; the next reference is then written outside the array.\<close>

theorem emptied_parcel_write_faults:
  assumes "has_data p d" and "holds_objects p os" and "os \<noteq> []" and "\<forall>off\<in>set os. unat off + 24 \<le> length d"
    and "refs \<noteq> 0"
  shows "\<exists>p'. setDataSize a 0 p = (Inr OK, p') \<and>
    fst (writeStrongBinder a (Some (LocalBinder addr refs)) p') = Inl MemFault"
proof -
  obtain p' where p': "setDataSize a 0 p = (Inr OK, p')" "mObjects p' = Some []" "mObjectsSize p' = 0"
    "mObjectsCapacity p' = mObjectsCapacity p" "mDataPos p' = 0" "mDataCapacity p' = mDataCapacity p" "mData p' = mData p"
    using setDataSize_0 [OF assms(1-4)] by blast
  obtain off where "off \<in> set os" using assms(3) by (cases os) auto
  then have d: "24 \<le> length d" using assms(4) by fastforce
  then obtain b where b: "mData p = Some b" "length b = mDataCapacity p" "length d \<le> length b"
    using assms(1) by (auto simp: has_data_def split: option.splits)
  have cap: "0 < mObjectsCapacity p"
    using assms(2,3) by (cases os) (auto simp: holds_objects_def split: option.splits)
  let ?f = "flat_of_binder (Some (LocalBinder addr refs))"
  have f: "fo_type ?f \<noteq> BINDER_TYPE_FD" "fo_ptr ?f \<noteq> 0" using assms(5) by (simp_all add: flat_of_binder_def)
  have wr: "write_data 0 (flat_bytes ?f) p' = (Inr (), p'\<lparr>mData := Some (flat_bytes ?f @ drop 24 b)\<rparr>)"
    using p'(7) b d by (simp add: write_data_def the_data_def mem_write_def bindS_def liftS_def modS_def)
  have "fst (writeObject a ?f False p') = Inl MemFault"
    using p' b d cap f wr unfolding writeObject_def
    by (simp add: note_object_def put_object_def bindS_def seqS_def getS_def retS_def del: binder_type_values)
  then show ?thesis using p'(1) by (auto simp: writeStrongBinder_def flatten_binder_def)
qed

theorem emptied_parcel_write_faults_witness:
  "\<exists>p p'. write_items plain_alloc [Binder_item (Some (RemoteBinder 5))] Parcel_new = (Inr OK, p) \<and>
     setDataSize plain_alloc 0 p = (Inr OK, p') \<and>
     fst (writeStrongBinder plain_alloc (Some (LocalBinder 0x1000 0x2000)) p') = Inl MemFault"
proof -
  let ?is = "[Binder_item (Some (RemoteBinder 5))]"
  have n: "noted_offsets 0 ?is = [0]" "length (items_bytes ?is) = 24"
    by (simp_all add: noted_def flat_of_binder_def items_bytes_def)
  obtain p where p: "write_items plain_alloc ?is Parcel_new = (Inr OK, p)" "has_data p (items_bytes ?is)" "holds_objects p [0]"
    using write_items_holds [OF total_plain_alloc has_data_new holds_objects_new, of ?is] n by (auto simp: grow_limit_def)
  show ?thesis
    using p(1) emptied_parcel_write_faults [OF p(2,3), of "0x2000" plain_alloc "0x1000"] n(2) by auto
qed

end
