(* ===== verification/Android_Vector.thy ===== *)
theory Android_Vector
  imports Buffer "HOL-Library.Multiset"
begin

text \<open>
  \<^verbatim>\<open>src/external/android/utils/SharedBuffer.cpp\<close>, \<^verbatim>\<open>src/external/android/utils/VectorImpl.cpp\<close> and the templates of
  \<^verbatim>\<open>include/utils/Vector.h\<close> and \<^verbatim>\<open>include/utils/TypeHelpers.h\<close>: vectors whose storage is counted and shared
  between copies until one of them is changed. The memory of all vectors of one element type is one
  heap of buffers; a vector is passed by value and given back changed. Of each
  buffer the model keeps the places for elements, each of them raw or with an element
  in it. A program that never makes two threads share a buffer is modelled.
\<close>

section \<open>Element types\<close>

text \<open>What the templates know of an element type: which of its operations are trivial, its size in bytes
  and the value its default constructor makes. \<^verbatim>\<open>mFlags\<close> and \<^verbatim>\<open>mItemSize\<close> of a vector are those
  of its element type.\<close>

record 'a elem_type =
  trivial_ctor :: bool
  trivial_dtor :: bool
  trivial_copy :: bool
  trivial_move :: bool
  item_size :: nat
  default_item :: 'a

text \<open>\<open>asserts\<close>: \<^verbatim>\<open>NDEBUG\<close> is not defined, so \<^verbatim>\<open>ALOG_ASSERT\<close> ends the process.\<close>

record build = allocator +
  asserts :: bool

definition size_max :: nat where "size_max = 2 ^ 64 - 1"

text \<open>Arithmetic of \<^verbatim>\<open>size_t\<close>, and the conversion to \<^verbatim>\<open>ssize_t\<close>.\<close>

definition size_t :: "nat \<Rightarrow> nat" where
  "size_t n = n mod 2 ^ 64"

definition size_sub :: "nat \<Rightarrow> nat \<Rightarrow> nat" where
  "size_sub m n = size_t (m + (2 ^ 64 - size_t n))"

definition ssize_t :: "nat \<Rightarrow> int" where
  "ssize_t n = (if size_t n < 2 ^ 63 then int (size_t n) else int (size_t n) - 2 ^ 64)"

definition NO_MEMORY :: int where "NO_MEMORY = - 12"
definition BAD_VALUE :: int where "BAD_VALUE = - 22"
definition BAD_INDEX :: int where "BAD_INDEX = - 75"
definition NAME_NOT_FOUND :: int where "NAME_NOT_FOUND = - 2"

section \<open>Shared buffers\<close>

record 'a shared_buffer =
  mRefs :: nat
  mSize :: nat
  cells :: "'a option list"

record 'a vec_heap =
  bufs :: "nat \<rightharpoonup> 'a shared_buffer"
  next_buf :: nat

type_synonym ('a, 'b) vec_op = "('a vec_heap, 'b) comp"

definition buffer_header_size :: nat where "buffer_header_size = 24"

text \<open>A buffer that was freed must not be touched.\<close>

definition get_buf :: "nat \<Rightarrow> ('a, 'a shared_buffer) vec_op" where
  "get_buf b = (\<lambda>h. case bufs h b of None \<Rightarrow> (Inl MemFault, h) | Some sb \<Rightarrow> (Inr sb, h))"

definition set_buf :: "nat \<Rightarrow> 'a shared_buffer \<Rightarrow> ('a, unit) vec_op" where
  "set_buf b sb = modS (\<lambda>h. h\<lparr>bufs := (bufs h)(b \<mapsto> sb)\<rparr>)"

text \<open>\<open>None\<close> is a null pointer. The places of a new buffer are raw.\<close>

definition new_buf :: "nat \<Rightarrow> nat \<Rightarrow> 'a option list \<Rightarrow> ('a, nat option) vec_op" where
  "new_buf refs n cs =
     (\<lambda>h. (Inr (Some (next_buf h)),
        h\<lparr>bufs := (bufs h)(next_buf h \<mapsto> \<lparr>mRefs = refs, mSize = n, cells = cs\<rparr>), next_buf := next_buf h + 1\<rparr>))"

definition SB_alloc :: "build \<Rightarrow> 'a elem_type \<Rightarrow> nat \<Rightarrow> ('a, nat option) vec_op" where
  "SB_alloc B T n =
     (if n \<ge> size_max - buffer_header_size then throwS Aborted
      else if grants B (buffer_header_size + n) then new_buf 1 n (replicate (n div item_size T) None)
      else retS None)"

text \<open>Freeing a buffer with elements whose destructor does something would lose them; the model
  treats this like an access outside of the memory.\<close>

definition SB_dealloc :: "'a elem_type \<Rightarrow> nat \<Rightarrow> ('a, unit) vec_op" where
  "SB_dealloc T b =
     bindS (get_buf b) (\<lambda>sb.
     if \<not> trivial_dtor T \<and> \<not> list_all (\<lambda>c. c = None) (cells sb) then throwS MemFault
     else modS (\<lambda>h. h\<lparr>bufs := (bufs h)(b := None)\<rparr>))"

definition onlyOwner :: "nat \<Rightarrow> ('a, bool) vec_op" where
  "onlyOwner b = bindS (get_buf b) (\<lambda>sb. retS (mRefs sb = 1))"

definition SB_acquire :: "nat \<Rightarrow> ('a, unit) vec_op" where
  "SB_acquire b = bindS (get_buf b) (\<lambda>sb. set_buf b (sb\<lparr>mRefs := mRefs sb + 1\<rparr>))"

text \<open>\<open>keep\<close> is the flag \<^verbatim>\<open>eKeepStorage\<close>. With one thread the second operand of the disjunction is reached
  with another count than 1 only; what is assigned to \<^verbatim>\<open>prev\<close> is the result of a comparison.\<close>

definition SB_release :: "'a elem_type \<Rightarrow> bool \<Rightarrow> nat \<Rightarrow> ('a, int) vec_op" where
  "SB_release T keep b =
     bindS (get_buf b) (\<lambda>sb.
     if mRefs sb = 1 then
       seqS (set_buf b (sb\<lparr>mRefs := 0\<rparr>)) (seqS (if keep then retS () else SB_dealloc T b) (retS 1))
     else seqS (set_buf b (sb\<lparr>mRefs := mRefs sb - 1\<rparr>)) (retS 0))"

definition SB_attemptEdit :: "nat \<Rightarrow> ('a, nat option) vec_op" where
  "SB_attemptEdit b = bindS (onlyOwner b) (\<lambda>only. retS (if only then Some b else None))"

text \<open>\<^verbatim>\<open>realloc\<close> and \<^verbatim>\<open>memcpy\<close> of a buffer: the places of another size of buffer that begins with the same bytes.\<close>

definition resized :: "'a elem_type \<Rightarrow> nat \<Rightarrow> 'a option list \<Rightarrow> 'a option list" where
  "resized T bytes cs =
     (let n = bytes div item_size T in take n cs @ replicate (n - length cs) None)"

definition SB_edit :: "build \<Rightarrow> 'a elem_type \<Rightarrow> nat \<Rightarrow> ('a, nat option) vec_op" where
  "SB_edit B T b =
     bindS (get_buf b) (\<lambda>sb.
     if mRefs sb = 1 then retS (Some b)
     else
       bindS (SB_alloc B T (mSize sb)) (\<lambda>r.
       case r of
         None \<Rightarrow> retS None
       | Some b' \<Rightarrow>
           bindS (get_buf b') (\<lambda>sb'.
           seqS (set_buf b' (sb'\<lparr>cells := resized T (mSize sb) (cells sb)\<rparr>))
           (bindS (SB_release T False b) (\<lambda>_. retS (Some b'))))))"

text \<open>The block that \<^verbatim>\<open>realloc\<close> returns is another one.\<close>

definition SB_editResize :: "build \<Rightarrow> 'a elem_type \<Rightarrow> nat \<Rightarrow> nat \<Rightarrow> ('a, nat option) vec_op" where
  "SB_editResize B T b newSize =
     bindS (get_buf b) (\<lambda>sb.
     let copy =
       bindS (SB_alloc B T newSize) (\<lambda>r.
       case r of
         None \<Rightarrow> retS None
       | Some b' \<Rightarrow>
           bindS (get_buf b') (\<lambda>sb'.
           seqS (set_buf b' (sb'\<lparr>cells := resized T newSize (cells sb)\<rparr>))
           (bindS (SB_release T False b) (\<lambda>_. retS (Some b')))))
     in
     if mRefs sb = 1 then
       if mSize sb = newSize then retS (Some b)
       else if newSize \<ge> size_max - buffer_header_size then throwS Aborted
       else if grants B (buffer_header_size + newSize) then
         seqS (modS (\<lambda>h. h\<lparr>bufs := (bufs h)(b := None)\<rparr>)) (new_buf 1 newSize (resized T newSize (cells sb)))
       else copy
     else copy)"

definition SB_reset :: "build \<Rightarrow> 'a elem_type \<Rightarrow> nat \<Rightarrow> nat \<Rightarrow> ('a, nat option) vec_op" where
  "SB_reset B T b new_size =
     bindS (SB_alloc B T new_size) (\<lambda>r.
     case r of None \<Rightarrow> retS None | Some b' \<Rightarrow> bindS (SB_release T False b) (\<lambda>_. retS (Some b')))"

section \<open>Elements\<close>

text \<open>Where elements are copied from: places of a buffer, or memory that belongs to no vector.\<close>

datatype 'a source = InBuffer nat | Given "'a list"

primrec fetch :: "'a source \<Rightarrow> nat \<Rightarrow> ('a, 'a option) vec_op" where
  "fetch (InBuffer b) i = bindS (get_buf b) (\<lambda>sb. if i < length (cells sb) then retS (cells sb ! i) else throwS MemFault)"
| "fetch (Given xs) i = (if i < length xs then retS (Some (xs ! i)) else throwS MemFault)"

text \<open>Constructing an element over one whose destructor does something would lose that one.\<close>

definition put_cell :: "'a elem_type \<Rightarrow> nat \<Rightarrow> nat \<Rightarrow> 'a option \<Rightarrow> ('a, unit) vec_op" where
  "put_cell T b i c =
     bindS (get_buf b) (\<lambda>sb.
     if i < length (cells sb) \<and> (trivial_dtor T \<or> cells sb ! i = None)
     then set_buf b (sb\<lparr>cells := (cells sb)[i := c]\<rparr>) else throwS MemFault)"

definition copy_cell :: "'a elem_type \<Rightarrow> nat \<Rightarrow> nat \<Rightarrow> 'a source \<Rightarrow> nat \<Rightarrow> ('a, unit) vec_op" where
  "copy_cell T b d src k =
     bindS (fetch src k) (\<lambda>c. if c = None \<and> \<not> trivial_copy T then throwS MemFault else put_cell T b d c)"

definition destroy_cell :: "'a elem_type \<Rightarrow> nat \<Rightarrow> nat \<Rightarrow> ('a, unit) vec_op" where
  "destroy_cell T b i =
     (if trivial_dtor T then retS ()
      else
        bindS (get_buf b) (\<lambda>sb.
        if i < length (cells sb) \<and> cells sb ! i \<noteq> None
        then set_buf b (sb\<lparr>cells := (cells sb)[i := None]\<rparr>) else throwS MemFault))"

primrec do_construct :: "'a elem_type \<Rightarrow> nat \<Rightarrow> nat \<Rightarrow> nat \<Rightarrow> ('a, unit) vec_op" where
  "do_construct T b d 0 = retS ()"
| "do_construct T b d (Suc n) =
     (if trivial_ctor T then retS ()
      else seqS (put_cell T b d (Some (default_item T))) (do_construct T b (Suc d) n))"

primrec do_destroy :: "'a elem_type \<Rightarrow> nat \<Rightarrow> nat \<Rightarrow> nat \<Rightarrow> ('a, unit) vec_op" where
  "do_destroy T b i 0 = retS ()"
| "do_destroy T b i (Suc n) = seqS (destroy_cell T b i) (do_destroy T b (Suc i) n)"

primrec do_copy :: "'a elem_type \<Rightarrow> nat \<Rightarrow> nat \<Rightarrow> 'a source \<Rightarrow> nat \<Rightarrow> nat \<Rightarrow> ('a, unit) vec_op" where
  "do_copy T b d src k 0 = retS ()"
| "do_copy T b d src k (Suc n) = seqS (copy_cell T b d src k) (do_copy T b (Suc d) src (Suc k) n)"

primrec do_splat :: "'a elem_type \<Rightarrow> nat \<Rightarrow> nat \<Rightarrow> 'a source \<Rightarrow> nat \<Rightarrow> nat \<Rightarrow> ('a, unit) vec_op" where
  "do_splat T b d src k 0 = retS ()"
| "do_splat T b d src k (Suc n) = seqS (copy_cell T b d src k) (do_splat T b (Suc d) src k n)"

text \<open>\<^verbatim>\<open>memmove\<close> of \<open>n\<close> elements. Elements that are moved as a whole, and not copied, have left their old places.\<close>

definition do_memmove :: "'a elem_type \<Rightarrow> nat \<Rightarrow> nat \<Rightarrow> nat \<Rightarrow> nat \<Rightarrow> ('a, unit) vec_op" where
  "do_memmove T b d s n =
     bindS (get_buf b) (\<lambda>sb.
     let cs = cells sb in
     if s + n \<le> length cs \<and> d + n \<le> length cs then
       set_buf b (sb\<lparr>cells := map (\<lambda>i. if d \<le> i \<and> i < d + n then cs ! (i - d + s)
                                      else if s \<le> i \<and> i < s + n \<and> \<not> trivial_dtor T then None
                                      else cs ! i) [0..<length cs]\<rparr>)
     else throwS MemFault)"

definition by_memmove :: "'a elem_type \<Rightarrow> bool" where
  "by_memmove T \<longleftrightarrow> (trivial_dtor T \<and> trivial_copy T) \<or> trivial_move T"

primrec move_up :: "'a elem_type \<Rightarrow> nat \<Rightarrow> nat \<Rightarrow> nat \<Rightarrow> nat \<Rightarrow> ('a, unit) vec_op" where
  "move_up T b d s 0 = retS ()"
| "move_up T b d s (Suc n) =
     seqS (copy_cell T b (d + n) (InBuffer b) (s + n)) (seqS (destroy_cell T b (s + n)) (move_up T b d s n))"

primrec move_down :: "'a elem_type \<Rightarrow> nat \<Rightarrow> nat \<Rightarrow> nat \<Rightarrow> nat \<Rightarrow> ('a, unit) vec_op" where
  "move_down T b d s 0 = retS ()"
| "move_down T b d s (Suc n) =
     seqS (copy_cell T b d (InBuffer b) s) (seqS (destroy_cell T b s) (move_down T b (Suc d) (Suc s) n))"

definition do_move_forward :: "'a elem_type \<Rightarrow> nat \<Rightarrow> nat \<Rightarrow> nat \<Rightarrow> nat \<Rightarrow> ('a, unit) vec_op" where
  "do_move_forward T b d s n = (if by_memmove T then do_memmove T b d s n else move_up T b d s n)"

definition do_move_backward :: "'a elem_type \<Rightarrow> nat \<Rightarrow> nat \<Rightarrow> nat \<Rightarrow> nat \<Rightarrow> ('a, unit) vec_op" where
  "do_move_backward T b d s n = (if by_memmove T then do_memmove T b d s n else move_down T b d s n)"

section \<open>Vectors\<close>

record vector =
  mStorage :: "nat option"
  mCount :: nat

definition kMinVectorCapacity :: nat where "kMinVectorCapacity = 4"

definition VectorImpl :: vector where
  "VectorImpl = \<lparr>mStorage = None, mCount = 0\<rparr>"

definition VectorImpl_copy :: "vector \<Rightarrow> ('a, vector) vec_op" where
  "VectorImpl_copy rhs =
     seqS (case mStorage rhs of None \<Rightarrow> retS () | Some b \<Rightarrow> SB_acquire b) (retS rhs)"

definition vec_capacity :: "'a elem_type \<Rightarrow> vector \<Rightarrow> ('a, nat) vec_op" where
  "vec_capacity T v =
     (case mStorage v of None \<Rightarrow> retS 0 | Some b \<Rightarrow> bindS (get_buf b) (\<lambda>sb. retS (mSize sb div item_size T)))"

definition arrayImpl :: "vector \<Rightarrow> 'a source" where
  "arrayImpl v = (case mStorage v of None \<Rightarrow> Given [] | Some b \<Rightarrow> InBuffer b)"

definition release_storage :: "'a elem_type \<Rightarrow> vector \<Rightarrow> ('a, unit) vec_op" where
  "release_storage T v =
     (case mStorage v of
        None \<Rightarrow> retS ()
      | Some b \<Rightarrow>
          bindS (SB_release T True b) (\<lambda>prev.
          if prev = 1 then seqS (do_destroy T b 0 (mCount v)) (SB_dealloc T b) else retS ()))"

text \<open>The assignment of another vector, \<^verbatim>\<open>this != &rhs\<close>.\<close>

definition VectorImpl_assign :: "'a elem_type \<Rightarrow> vector \<Rightarrow> vector \<Rightarrow> ('a, vector) vec_op" where
  "VectorImpl_assign T rhs v =
     seqS (release_storage T v)
       (if mCount rhs \<noteq> 0 then
          (case mStorage rhs of None \<Rightarrow> throwS MemFault | Some b \<Rightarrow> seqS (SB_acquire b) (retS rhs))
        else retS VectorImpl)"

definition editArrayImpl :: "build \<Rightarrow> 'a elem_type \<Rightarrow> vector \<Rightarrow> ('a, vector) vec_op" where
  "editArrayImpl B T v =
     (case mStorage v of
        None \<Rightarrow> retS v
      | Some b \<Rightarrow>
          bindS (SB_attemptEdit b) (\<lambda>editable.
          if editable \<noteq> None then retS v
          else
            bindS (get_buf b) (\<lambda>sb.
            bindS (SB_alloc B T (mSize sb)) (\<lambda>editable.
            case editable of
              None \<Rightarrow> throwS Aborted
            | Some b' \<Rightarrow>
                seqS (do_copy T b' 0 (InBuffer b) 0 (mCount v))
                (seqS (release_storage T v) (retS (v\<lparr>mStorage := Some b'\<rparr>)))))))"

text \<open>The buffer of the location, of which the index is known; \<open>None\<close> for a null pointer.\<close>

definition itemLocation :: "build \<Rightarrow> 'a elem_type \<Rightarrow> nat \<Rightarrow> vector \<Rightarrow> ('a, nat option) vec_op" where
  "itemLocation B T index v =
     bindS (vec_capacity T v) (\<lambda>cap.
     if asserts B \<and> \<not> index < cap then throwS Aborted
     else retS (if index < cap then mStorage v else None))"

definition editItemLocation :: "build \<Rightarrow> 'a elem_type \<Rightarrow> nat \<Rightarrow> vector \<Rightarrow> ('a, nat option \<times> vector) vec_op" where
  "editItemLocation B T index v =
     bindS (vec_capacity T v) (\<lambda>cap.
     if asserts B \<and> \<not> index < cap then throwS Aborted
     else if index < cap then bindS (editArrayImpl B T v) (\<lambda>v. retS (mStorage v, v))
     else retS (None, v))"

text \<open>Both \<open>_grow\<close> and \<open>_shrink\<close> may move to a new buffer: the first \<open>wh\<close> elements stay first, \<open>n\<close> elements from \<open>from\<close> on are put
  at \<open>dest\<close>. \<open>None\<close>: there is no memory.\<close>

definition relocate :: "build \<Rightarrow> 'a elem_type \<Rightarrow> nat \<Rightarrow> nat \<Rightarrow> nat \<Rightarrow> nat \<Rightarrow> nat \<Rightarrow> vector \<Rightarrow> ('a, vector option) vec_op" where
  "relocate B T bytes wh dest from n v =
     bindS (SB_alloc B T bytes) (\<lambda>r.
     case r of
       None \<Rightarrow> retS None
     | Some b \<Rightarrow>
         seqS (do_copy T b 0 (arrayImpl v) 0 wh)
         (seqS (do_copy T b dest (arrayImpl v) from n)
         (seqS (release_storage T v) (retS (Some (v\<lparr>mStorage := Some b\<rparr>))))))"

definition resize_storage :: "build \<Rightarrow> 'a elem_type \<Rightarrow> nat \<Rightarrow> nat \<Rightarrow> vector \<Rightarrow> ('a, vector option) vec_op" where
  "resize_storage B T bytes b v =
     bindS (SB_editResize B T b bytes) (\<lambda>r. retS (map_option (\<lambda>b'. v\<lparr>mStorage := Some b'\<rparr>) r))"

definition grown_capacity :: "nat \<Rightarrow> nat" where
  "grown_capacity new_size = max kMinVectorCapacity (size_t (size_t (new_size + new_size div 2) + 1))"

definition grow_storage :: "build \<Rightarrow> 'a elem_type \<Rightarrow> nat \<Rightarrow> nat \<Rightarrow> nat \<Rightarrow> nat \<Rightarrow> vector \<Rightarrow> ('a, vector option) vec_op" where
  "grow_storage B T wh amount cap new_size v =
     (if cap < new_size then
        let bytes = size_t (grown_capacity new_size * item_size T) in
        if mStorage v \<noteq> None \<and> mCount v = wh \<and> trivial_copy T \<and> trivial_dtor T
        then resize_storage B T bytes (the (mStorage v)) v
        else relocate B T bytes wh (size_t (wh + amount)) wh (mCount v - wh) v
      else
        bindS (editArrayImpl B T v) (\<lambda>v.
        seqS (if wh \<noteq> mCount v then
                (case mStorage v of
                   None \<Rightarrow> throwS MemFault
                 | Some b \<Rightarrow> do_move_forward T b (size_t (wh + amount)) wh (mCount v - wh))
              else retS ())
        (retS (Some v))))"

definition vec_grow :: "build \<Rightarrow> 'a elem_type \<Rightarrow> nat \<Rightarrow> nat \<Rightarrow> vector \<Rightarrow> ('a, nat option \<times> vector) vec_op" where
  "vec_grow B T wh amount v =
     (if asserts B \<and> \<not> wh \<le> mCount v then throwS Aborted
      else
        let new_size = size_t (mCount v + amount) in
        bindS (vec_capacity T v) (\<lambda>cap.
        bindS (grow_storage B T wh amount cap new_size v) (\<lambda>r.
        case r of
          None \<Rightarrow> retS (None, v)
        | Some v \<Rightarrow>
            let v = v\<lparr>mCount := new_size\<rparr> in
            bindS (itemLocation B T wh v) (\<lambda>free_space. retS (free_space, v)))))"

definition shrink_storage :: "build \<Rightarrow> 'a elem_type \<Rightarrow> nat \<Rightarrow> nat \<Rightarrow> nat \<Rightarrow> nat \<Rightarrow> nat \<Rightarrow> vector \<Rightarrow> ('a, vector option) vec_op" where
  "shrink_storage B T b wh amount cap new_size v =
     (if new_size < cap div 2 then
        let bytes = size_t (max kMinVectorCapacity (size_t (new_size * 2)) * item_size T) in
        if wh = new_size \<and> trivial_copy T \<and> trivial_dtor T then resize_storage B T bytes b v
        else relocate B T bytes wh wh (size_t (wh + amount)) (size_sub new_size wh) v
      else
        bindS (editArrayImpl B T v) (\<lambda>v.
        case mStorage v of
          None \<Rightarrow> throwS MemFault
        | Some b \<Rightarrow>
            seqS (do_destroy T b wh amount)
            (seqS (if wh \<noteq> new_size then do_move_backward T b wh (size_t (wh + amount)) (size_sub new_size wh) else retS ())
            (retS (Some v)))))"

definition vec_shrink :: "build \<Rightarrow> 'a elem_type \<Rightarrow> nat \<Rightarrow> nat \<Rightarrow> vector \<Rightarrow> ('a, vector) vec_op" where
  "vec_shrink B T wh amount v =
     (case mStorage v of
        None \<Rightarrow> retS v
      | Some b \<Rightarrow>
          if asserts B \<and> \<not> size_t (wh + amount) \<le> mCount v then throwS Aborted
          else
            let new_size = size_sub (mCount v) amount in
            bindS (vec_capacity T v) (\<lambda>cap.
            bindS (shrink_storage B T b wh amount cap new_size v) (\<lambda>r.
            retS (case r of None \<Rightarrow> v | Some v \<Rightarrow> v\<lparr>mCount := new_size\<rparr>))))"

section \<open>Operations of vectors\<close>

text \<open>An argument that is a pointer to elements is a source and a place in it.\<close>

definition insertArrayAt :: "build \<Rightarrow> 'a elem_type \<Rightarrow> 'a source \<Rightarrow> nat \<Rightarrow> nat \<Rightarrow> nat \<Rightarrow> vector \<Rightarrow> ('a, int \<times> vector) vec_op" where
  "insertArrayAt B T array k index len v =
     (if index > mCount v then retS (BAD_INDEX, v)
      else
        bindS (vec_grow B T index len v) (\<lambda>(wh, v).
        case wh of
          None \<Rightarrow> retS (NO_MEMORY, v)
        | Some b \<Rightarrow> seqS (do_copy T b index array k len) (retS (ssize_t index, v))))"

definition appendArray :: "build \<Rightarrow> 'a elem_type \<Rightarrow> 'a source \<Rightarrow> nat \<Rightarrow> nat \<Rightarrow> vector \<Rightarrow> ('a, int \<times> vector) vec_op" where
  "appendArray B T array k len v = insertArrayAt B T array k (mCount v) len v"

definition insertVectorAt :: "build \<Rightarrow> 'a elem_type \<Rightarrow> vector \<Rightarrow> nat \<Rightarrow> vector \<Rightarrow> ('a, int \<times> vector) vec_op" where
  "insertVectorAt B T w index v = insertArrayAt B T (arrayImpl w) 0 index (mCount w) v"

definition appendVector :: "build \<Rightarrow> 'a elem_type \<Rightarrow> vector \<Rightarrow> vector \<Rightarrow> ('a, int \<times> vector) vec_op" where
  "appendVector B T w v = insertVectorAt B T w (mCount v) v"

text \<open>\<open>None\<close> for the item is a null pointer: the elements are made by the default constructor.\<close>

definition insertAt :: "build \<Rightarrow> 'a elem_type \<Rightarrow> ('a source \<times> nat) option \<Rightarrow> nat \<Rightarrow> nat \<Rightarrow> vector \<Rightarrow> ('a, int \<times> vector) vec_op" where
  "insertAt B T item index numItems v =
     (if index > mCount v then retS (BAD_INDEX, v)
      else
        bindS (vec_grow B T index numItems v) (\<lambda>(wh, v).
        case wh of
          None \<Rightarrow> retS (NO_MEMORY, v)
        | Some b \<Rightarrow>
            seqS (case item of
                    Some (src, k) \<Rightarrow> do_splat T b index src k numItems
                  | None \<Rightarrow> do_construct T b index numItems)
            (retS (ssize_t index, v))))"

definition vec_push :: "build \<Rightarrow> 'a elem_type \<Rightarrow> ('a source \<times> nat) option \<Rightarrow> vector \<Rightarrow> ('a, vector) vec_op" where
  "vec_push B T item v = bindS (insertAt B T item (mCount v) 1 v) (\<lambda>(_, v). retS v)"

definition vec_add :: "build \<Rightarrow> 'a elem_type \<Rightarrow> ('a source \<times> nat) option \<Rightarrow> vector \<Rightarrow> ('a, int \<times> vector) vec_op" where
  "vec_add B T item v = insertAt B T item (mCount v) 1 v"

definition replaceAt :: "build \<Rightarrow> 'a elem_type \<Rightarrow> ('a source \<times> nat) option \<Rightarrow> nat \<Rightarrow> vector \<Rightarrow> ('a, int \<times> vector) vec_op" where
  "replaceAt B T prototype index v =
     (if asserts B \<and> \<not> index < mCount v then throwS Aborted
      else if index \<ge> mCount v then retS (BAD_INDEX, v)
      else
        bindS (editItemLocation B T index v) (\<lambda>(item, v).
        case item of
          None \<Rightarrow> retS (if prototype = None then ssize_t index else NO_MEMORY, v)
        | Some b \<Rightarrow>
            seqS (if prototype = Some (InBuffer b, index) then retS ()
                  else
                    seqS (do_destroy T b index 1)
                      (case prototype of
                         None \<Rightarrow> do_construct T b index 1
                       | Some (src, k) \<Rightarrow> do_copy T b index src k 1))
            (retS (ssize_t index, v))))"

definition removeItemsAt :: "build \<Rightarrow> 'a elem_type \<Rightarrow> nat \<Rightarrow> nat \<Rightarrow> vector \<Rightarrow> ('a, int \<times> vector) vec_op" where
  "removeItemsAt B T index cnt v =
     (if asserts B \<and> \<not> size_t (index + cnt) \<le> mCount v then throwS Aborted
      else if size_t (index + cnt) > mCount v then retS (BAD_VALUE, v)
      else bindS (vec_shrink B T index cnt v) (\<lambda>v. retS (ssize_t index, v)))"

definition vec_pop :: "build \<Rightarrow> 'a elem_type \<Rightarrow> vector \<Rightarrow> ('a, vector) vec_op" where
  "vec_pop B T v =
     (if mCount v \<noteq> 0 then bindS (removeItemsAt B T (mCount v - 1) 1 v) (\<lambda>(_, v). retS v) else retS v)"

definition finish_vector :: "'a elem_type \<Rightarrow> vector \<Rightarrow> ('a, vector) vec_op" where
  "finish_vector T v = seqS (release_storage T v) (retS (v\<lparr>mStorage := None, mCount := 0\<rparr>))"

definition vec_clear :: "build \<Rightarrow> 'a elem_type \<Rightarrow> vector \<Rightarrow> ('a, vector) vec_op" where
  "vec_clear B T v = vec_shrink B T 0 (mCount v) v"

definition setCapacity :: "build \<Rightarrow> 'a elem_type \<Rightarrow> nat \<Rightarrow> vector \<Rightarrow> ('a, int \<times> vector) vec_op" where
  "setCapacity B T new_capacity v =
     (if new_capacity \<le> mCount v then bindS (vec_capacity T v) (\<lambda>cap. retS (ssize_t cap, v))
      else
        bindS (SB_alloc B T (size_t (new_capacity * item_size T))) (\<lambda>r.
        case r of
          None \<Rightarrow> retS (NO_MEMORY, v)
        | Some b \<Rightarrow>
            seqS (do_copy T b 0 (arrayImpl v) 0 (mCount v))
            (seqS (release_storage T v) (retS (ssize_t new_capacity, v\<lparr>mStorage := Some b\<rparr>)))))"

definition vec_resize :: "build \<Rightarrow> 'a elem_type \<Rightarrow> nat \<Rightarrow> vector \<Rightarrow> ('a, int \<times> vector) vec_op" where
  "vec_resize B T n v =
     bindS
       (if n > mCount v then insertAt B T None (mCount v) (n - mCount v) v
        else if n < mCount v then removeItemsAt B T n (mCount v - n) v
        else retS (0, v))
     (\<lambda>(result, v). retS (if result < 0 then result else ssize_t n, v))"

text \<open>\<^verbatim>\<open>operator[]\<close>; \<open>None\<close> is an indeterminate value.\<close>

definition itemAt :: "build \<Rightarrow> nat \<Rightarrow> vector \<Rightarrow> ('a, 'a option) vec_op" where
  "itemAt B index v =
     (if asserts B \<and> index \<ge> mCount v then throwS Aborted else fetch (arrayImpl v) index)"

definition vec_top :: "vector \<Rightarrow> ('a, 'a option) vec_op" where
  "vec_top v = fetch (arrayImpl v) (size_sub (mCount v) 1)"

text \<open>The assignment of \<open>x\<close> to \<^verbatim>\<open>editItemAt(index)\<close>.\<close>

definition editItemAt :: "build \<Rightarrow> 'a elem_type \<Rightarrow> nat \<Rightarrow> ('a option \<Rightarrow> 'a) \<Rightarrow> vector \<Rightarrow> ('a, vector) vec_op" where
  "editItemAt B T index f v =
     bindS (editItemLocation B T index v) (\<lambda>(item, v).
     case item of
       None \<Rightarrow> throwS MemFault
     | Some b \<Rightarrow>
         bindS (get_buf b) (\<lambda>sb.
         if index < length (cells sb)
         then seqS (set_buf b (sb\<lparr>cells := (cells sb)[index := Some (f (cells sb ! index))]\<rparr>)) (retS v)
         else throwS MemFault))"

end
