(* ===== verification/Vector_Contents.thy ===== *)
theory Vector_Contents
  imports Android_Vector
begin

text \<open>
  What vectors promise: the elements of each are a list of its own, however storage is shared. \<open>vectors_in T h M\<close>
  says that the heap \<open>h\<close> holds exactly the vectors of \<open>M\<close>, each with its elements: buffers are
  owned as often as their counts say, no buffer is without owner, and places beyond the elements are raw where that matters.
\<close>

section \<open>The invariant\<close>

text \<open>An indeterminate element is one of a type that is copied and destroyed without looking at it.\<close>

definition values_ok :: "'a elem_type \<Rightarrow> 'a option list \<Rightarrow> bool" where
  "values_ok T xs \<longleftrightarrow> (trivial_copy T \<and> trivial_dtor T) \<or> None \<notin> set xs"

definition buffer_ok :: "'a elem_type \<Rightarrow> 'a shared_buffer \<Rightarrow> bool" where
  "buffer_ok T sb \<longleftrightarrow> length (cells sb) = mSize sb div item_size T \<and> mSize sb < size_max - buffer_header_size"

text \<open>The buffer holds the elements \<open>xs\<close> and nothing else.\<close>

definition holds_items :: "'a elem_type \<Rightarrow> 'a shared_buffer \<Rightarrow> 'a option list \<Rightarrow> bool" where
  "holds_items T sb xs \<longleftrightarrow> length xs \<le> length (cells sb) \<and> take (length xs) (cells sb) = xs \<and>
     (trivial_dtor T \<or> set (drop (length xs) (cells sb)) \<subseteq> {None})"

type_synonym 'a holding = "vector \<times> 'a option list"

fun holding_ok :: "'a elem_type \<Rightarrow> 'a vec_heap \<Rightarrow> 'a holding \<Rightarrow> bool" where
  "holding_ok T h (v, xs) \<longleftrightarrow> mCount v = length xs \<and> values_ok T xs \<and>
     (case mStorage v of
        None \<Rightarrow> xs = []
      | Some b \<Rightarrow> (case bufs h b of None \<Rightarrow> False | Some sb \<Rightarrow> holds_items T sb xs))"

definition owners :: "nat \<Rightarrow> 'a holding multiset \<Rightarrow> nat" where
  "owners b M = size {#p \<in># M. mStorage (fst p) = Some b#}"

definition vectors_in :: "'a elem_type \<Rightarrow> 'a vec_heap \<Rightarrow> 'a holding multiset \<Rightarrow> bool" where
  "vectors_in T h M \<longleftrightarrow> item_size T > 0 \<and>
     (\<forall>b sb. bufs h b = Some sb \<longrightarrow> b < next_buf h \<and> buffer_ok T sb \<and> mRefs sb = owners b M \<and> mRefs sb > 0) \<and>
     (\<forall>p \<in># M. holding_ok T h p)"

text \<open>A buffer that one vector owns, and what is left of the heap without it.\<close>

definition set_cells :: "nat \<Rightarrow> 'a option list \<Rightarrow> 'a vec_heap \<Rightarrow> 'a vec_heap" where
  "set_cells b cs h = h\<lparr>bufs := (bufs h)(b := map_option (\<lambda>sb. sb\<lparr>cells := cs\<rparr>) (bufs h b))\<rparr>"

definition without :: "nat \<Rightarrow> 'a vec_heap \<Rightarrow> 'a vec_heap" where
  "without b h = h\<lparr>bufs := (bufs h)(b := None)\<rparr>"

definition owned :: "'a elem_type \<Rightarrow> 'a vec_heap \<Rightarrow> nat \<Rightarrow> 'a shared_buffer \<Rightarrow> 'a holding multiset \<Rightarrow> bool" where
  "owned T h b sb M \<longleftrightarrow> bufs h b = Some sb \<and> b < next_buf h \<and> mRefs sb = 1 \<and> buffer_ok T sb \<and> vectors_in T (without b h) M"

lemma owners_add: "owners b (add_mset (v, xs) M) = (if mStorage v = Some b then 1 else 0) + owners b M"
  by (simp add: owners_def)

lemma owners_0: "owners b M = 0 \<longleftrightarrow> (\<forall>p \<in># M. mStorage (fst p) \<noteq> Some b)"
  by (auto simp: owners_def simp flip: set_mset_eq_empty_iff)

lemma store_item: "vectors_in T h M \<Longrightarrow> p \<in># M \<Longrightarrow> holding_ok T h p"
  by (simp add: vectors_in_def)

lemma store_size: "vectors_in T h M \<Longrightarrow> item_size T > 0"
  by (simp add: vectors_in_def)

lemma store_buf:
  assumes "vectors_in T h M" and "bufs h b = Some sb"
  shows "b < next_buf h" and "buffer_ok T sb" and "mRefs sb = owners b M" and "mRefs sb > 0"
  using assms unfolding vectors_in_def by blast+

lemma storeI:
  assumes "item_size T > 0" and "\<And>p. p \<in># M \<Longrightarrow> holding_ok T h p"
    and "\<And>b sb. bufs h b = Some sb \<Longrightarrow> b < next_buf h \<and> buffer_ok T sb \<and> mRefs sb = owners b M \<and> mRefs sb > 0"
  shows "vectors_in T h M"
  using assms unfolding vectors_in_def by blast

lemma holding_frame:
  assumes "holding_ok T h p" and "\<And>b. mStorage (fst p) = Some b \<Longrightarrow> bufs h' b = bufs h b"
  shows "holding_ok T h' p"
  using assms by (cases p) (auto split: option.splits)

lemma without_simps [simp]:
  "bufs (without b h) c = (if c = b then None else bufs h c)" "next_buf (without b h) = next_buf h"
  by (simp_all add: without_def)

lemma set_cells_simps [simp]:
  "bufs (set_cells b cs h) c = (if c = b then map_option (\<lambda>sb. sb\<lparr>cells := cs\<rparr>) (bufs h b) else bufs h c)"
  "next_buf (set_cells b cs h) = next_buf h" "without b (set_cells b cs h) = without b h"
  by (simp_all add: set_cells_def without_def)

text \<open>The only owner of a buffer can be split off.\<close>

lemma store_owned:
  assumes st: "vectors_in T h (add_mset (v, xs) M)" and b: "mStorage v = Some b" and sb: "bufs h b = Some sb" and one: "mRefs sb = 1"
  shows "owned T h b sb M" and "holds_items T sb xs" and "values_ok T xs" and "mCount v = length xs"
proof -
  note ok = store_buf [OF st sb]
  have none: "owners b M = 0" using ok(3) one b by (simp add: owners_add)
  have "vectors_in T (without b h) M"
  proof (rule storeI)
    show "item_size T > 0" by (rule store_size [OF st])
    show "holding_ok T (without b h) p" if "p \<in># M" for p
    proof (rule holding_frame)
      show "holding_ok T h p" using that by (intro store_item [OF st]) simp
      show "bufs (without b h) c = bufs h c" if "mStorage (fst p) = Some c" for c
        using none that \<open>p \<in># M\<close> by (auto simp: owners_0)
    qed
    show "c < next_buf (without b h) \<and> buffer_ok T s \<and> mRefs s = owners c M \<and> mRefs s > 0" if "bufs (without b h) c = Some s" for c s
    proof -
      have c: "c \<noteq> b" "bufs h c = Some s" using that by (simp_all split: if_splits)
      show ?thesis using store_buf [OF st c(2)] c(1) b by (simp add: owners_add)
    qed
  qed
  then show "owned T h b sb M" using ok sb one by (simp add: owned_def)
  have "holding_ok T h (v, xs)" by (rule store_item [OF st]) simp
  then show "holds_items T sb xs" and "values_ok T xs" and "mCount v = length xs"
    using b sb by simp_all
qed

lemma owned_not: "owned T h b sb M \<Longrightarrow> p \<in># M \<Longrightarrow> mStorage (fst p) \<noteq> Some b"
  unfolding owned_def by (cases p) (auto dest!: store_item)

lemma owned_store:
  assumes "owned T h b sb M" and "mStorage v = Some b" and "mCount v = length xs" and "holds_items T sb xs" and "values_ok T xs"
  shows "vectors_in T h (add_mset (v, xs) M)"
proof (rule storeI)
  have st: "vectors_in T (without b h) M" and sb: "bufs h b = Some sb" "b < next_buf h" "mRefs sb = 1" "buffer_ok T sb"
    using assms(1) by (simp_all add: owned_def)
  have own: "owners b M = 0" using owned_not [OF assms(1)] by (simp add: owners_0)
  show "item_size T > 0" by (rule store_size [OF st])
  show "holding_ok T h p" if p: "p \<in># add_mset (v, xs) M" for p
  proof (cases "p = (v, xs)")
    case True
    then show ?thesis using assms(2-) sb by simp
  next
    case False
    then have m: "p \<in># M" using p by simp
    have "bufs h c = bufs (without b h) c" if "mStorage (fst p) = Some c" for c
      using owned_not [OF assms(1) m] that by auto
    then show ?thesis by (rule holding_frame [OF store_item [OF st m]])
  qed
  show "c < next_buf h \<and> buffer_ok T s \<and> mRefs s = owners c (add_mset (v, xs) M) \<and> mRefs s > 0" if "bufs h c = Some s" for c s
  proof (cases "c = b")
    case True
    then show ?thesis using that sb own assms(2) by (simp add: owners_add)
  next
    case False
    then show ?thesis using store_buf [OF st, of c s] that assms(2) by (simp add: owners_add)
  qed
qed

lemma owned_set_cells:
  assumes "owned T h b sb M" and "length cs = length (cells sb)"
  shows "owned T (set_cells b cs h) b (sb\<lparr>cells := cs\<rparr>) M"
  using assms by (simp add: owned_def buffer_ok_def)

section \<open>Elements in an owned buffer\<close>

lemma get_buf_run [simp]: "bufs h b = Some sb \<Longrightarrow> get_buf b h = (Inr sb, h)"
  by (simp add: get_buf_def)

lemma set_buf_cells: "bufs h b = Some sb \<Longrightarrow> set_buf b (sb\<lparr>cells := cs\<rparr>) h = (Inr (), set_cells b cs h)"
  by (simp add: set_buf_def modS_def set_cells_def)

lemma set_cells_twice [simp]: "set_cells b cs (set_cells b ds h) = set_cells b cs h"
  by (simp add: set_cells_def option.map_comp comp_def)

lemma set_cells_same: "bufs h b = Some sb \<Longrightarrow> set_cells b (cells sb) h = h"
  by (simp add: set_cells_def fun_upd_idem)

definition no_item :: "'a elem_type \<Rightarrow> 'a option list \<Rightarrow> bool" where
  "no_item T cs \<longleftrightarrow> trivial_dtor T \<or> set cs \<subseteq> {None}"

lemma no_item_simps [simp]:
  "no_item T []" "no_item T (replicate n None)" "no_item T (c # cs) \<longleftrightarrow> (trivial_dtor T \<or> c = None) \<and> no_item T cs"
  "no_item T (cs @ ds) \<longleftrightarrow> no_item T cs \<and> no_item T ds"
  by (auto simp: no_item_def)

lemma holds_itemsI: "cells sb = xs @ rest \<Longrightarrow> no_item T rest \<Longrightarrow> holds_items T sb xs"
  by (auto simp: holds_items_def no_item_def)

definition copyable :: "'a elem_type \<Rightarrow> 'a option list \<Rightarrow> bool" where
  "copyable T xs \<longleftrightarrow> trivial_copy T \<or> None \<notin> set xs"

lemma copyable_simps [simp]:
  "copyable T []" "copyable T (c # cs) \<longleftrightarrow> (trivial_copy T \<or> c \<noteq> None) \<and> copyable T cs"
  "copyable T (cs @ ds) \<longleftrightarrow> copyable T cs \<and> copyable T ds" "copyable T (map Some ys)"
  by (auto simp: copyable_def)

lemma values_ok_simps [simp]:
  "values_ok T []" "values_ok T (map Some ys)" "values_ok T (cs @ ds) \<longleftrightarrow> values_ok T cs \<and> values_ok T ds"
  "values_ok T (c # cs) \<longleftrightarrow> (trivial_copy T \<and> trivial_dtor T \<or> c \<noteq> None) \<and> values_ok T cs"
  by (auto simp: values_ok_def)

lemma values_ok_copyable: "values_ok T xs \<Longrightarrow> copyable T xs"
  by (auto simp: values_ok_def copyable_def)

lemma values_ok_mono: "values_ok T xs \<Longrightarrow> set ys \<subseteq> set xs \<Longrightarrow> values_ok T ys"
  by (auto simp: values_ok_def)

lemma put_cell_run:
  assumes "bufs h b = Some sb" and "cells sb = pre @ c # rest" and "trivial_dtor T \<or> c = None"
  shows "put_cell T b (length pre) c' h = (Inr (), set_cells b (pre @ c' # rest) h)"
  using assms by (auto simp: put_cell_def bindS_def set_buf_cells)

text \<open>The source has the elements \<open>xs\<close> from \<open>k\<close> on, outside of the buffer \<open>b\<close>.\<close>

definition cell_at :: "'a vec_heap \<Rightarrow> 'a source \<Rightarrow> nat \<Rightarrow> 'a option option" where
  "cell_at h src i =
     (case src of
        Given ys \<Rightarrow> if i < length ys then Some (Some (ys ! i)) else None
      | InBuffer c \<Rightarrow> (case bufs h c of None \<Rightarrow> None | Some sb \<Rightarrow> if i < length (cells sb) then Some (cells sb ! i) else None))"

definition provides :: "nat \<Rightarrow> 'a vec_heap \<Rightarrow> 'a source \<Rightarrow> nat \<Rightarrow> 'a option list \<Rightarrow> bool" where
  "provides b h src k xs \<longleftrightarrow> src \<noteq> InBuffer b \<and> (\<forall>i < length xs. cell_at h src (k + i) = Some (xs ! i))"

lemma fetch_run: "cell_at h src i = Some c \<Longrightarrow> fetch src i h = (Inr c, h)"
  by (auto simp: cell_at_def bindS_def retS_def split: source.splits option.splits if_splits)

lemma provides_frame:
  "provides b h src k xs \<Longrightarrow> (\<And>c. c \<noteq> b \<Longrightarrow> bufs h' c = bufs h c) \<Longrightarrow> provides b h' src k xs"
  by (auto simp: provides_def cell_at_def split: source.splits)

lemma provides_set_cells [simp]: "provides b h src k xs \<Longrightarrow> provides b (set_cells b cs h) src k xs"
  by (erule provides_frame) simp

lemma provides_Cons:
  assumes "provides b h src k (x # xs)"
  shows "fetch src k h = (Inr x, h)" and "provides b h src (Suc k) xs"
proof -
  have "cell_at h src (k + i) = Some ((x # xs) ! i)" if "i < Suc (length xs)" for i
    using assms that by (auto simp: provides_def)
  from this [of 0] this [of "Suc _"] show "fetch src k h = (Inr x, h)" and "provides b h src (Suc k) xs"
    using assms by (auto simp: provides_def intro!: fetch_run)
qed

lemma provides_items:
  assumes "bufs h c = Some sb" and "c \<noteq> b" and "k + length xs \<le> length (cells sb)" and "take (length xs) (drop k (cells sb)) = xs"
  shows "provides b h (InBuffer c) k xs"
proof -
  have "cells sb ! (k + i) = xs ! i" if "i < length xs" for i
    using assms(3) that by (subst assms(4) [symmetric]) simp
  then show ?thesis using assms by (simp add: provides_def cell_at_def)
qed

lemma do_copy_run:
  assumes "bufs h b = Some sb" and "cells sb = pre @ gap @ rest" and "length gap = length xs" and "no_item T gap"
    and "copyable T xs" and "provides b h src k xs"
  shows "do_copy T b (length pre) src k (length xs) h = (Inr (), set_cells b (pre @ xs @ rest) h)"
  using assms
proof (induction xs arbitrary: h sb pre gap k)
  case Nil
  then have "pre @ [] @ rest = cells sb" by simp
  then show ?case using set_cells_same [OF Nil(1)] by (simp add: retS_def)
next
  case (Cons x xs)
  obtain c gap' where gap: "gap = c # gap'" using Cons.prems(3) by (cases gap) auto
  let ?h = "set_cells b (pre @ x # gap' @ rest) h"
  have "copy_cell T b (length pre) src k h = (Inr (), ?h)"
    using Cons.prems gap provides_Cons(1) [OF Cons.prems(6)] put_cell_run [of h b sb pre c "gap' @ rest" T x]
    by (auto simp: copy_cell_def bindS_def)
  moreover have "do_copy T b (length (pre @ [x])) src (Suc k) (length xs) ?h = (Inr (), set_cells b ((pre @ [x]) @ xs @ rest) ?h)"
    by (rule Cons.IH [of _ "sb\<lparr>cells := pre @ x # gap' @ rest\<rparr>" "pre @ [x]" gap' "Suc k"])
      (use Cons.prems gap provides_Cons(2) [OF Cons.prems(6)] in simp_all)
  ultimately show ?case by (simp add: seqS_def bindS_def)
qed

lemma do_splat_run:
  assumes "bufs h b = Some sb" and "cells sb = pre @ gap @ rest" and "length gap = n" and "no_item T gap"
    and "copyable T [x]" and "provides b h src k [x]"
  shows "do_splat T b (length pre) src k n h = (Inr (), set_cells b (pre @ replicate n x @ rest) h)"
  using assms
proof (induction n arbitrary: h sb pre gap)
  case 0
  then have "pre @ [] @ rest = cells sb" by simp
  then show ?case using set_cells_same [OF 0(1)] by (simp add: retS_def)
next
  case (Suc n)
  obtain c gap' where gap: "gap = c # gap'" using Suc.prems(3) by (cases gap) auto
  let ?h = "set_cells b (pre @ x # gap' @ rest) h"
  have "copy_cell T b (length pre) src k h = (Inr (), ?h)"
    using Suc.prems gap provides_Cons(1) [OF Suc.prems(6)] put_cell_run [of h b sb pre c "gap' @ rest" T x]
    by (auto simp: copy_cell_def bindS_def)
  moreover have "do_splat T b (length (pre @ [x])) src k n ?h = (Inr (), set_cells b ((pre @ [x]) @ replicate n x @ rest) ?h)"
    by (rule Suc.IH [of _ "sb\<lparr>cells := pre @ x # gap' @ rest\<rparr>" "pre @ [x]" gap']) (use Suc.prems gap in simp_all)
  ultimately show ?case by (simp add: seqS_def bindS_def)
qed

lemma do_construct_run:
  assumes "bufs h b = Some sb" and "cells sb = pre @ gap @ rest" and "length gap = n" and "no_item T gap" and "\<not> trivial_ctor T"
  shows "do_construct T b (length pre) n h = (Inr (), set_cells b (pre @ replicate n (Some (default_item T)) @ rest) h)"
  using assms
proof (induction n arbitrary: h sb pre gap)
  case 0
  then have "pre @ [] @ rest = cells sb" by simp
  then show ?case using set_cells_same [OF 0(1)] by (simp add: retS_def)
next
  case (Suc n)
  let ?x = "Some (default_item T)"
  obtain c gap' where gap: "gap = c # gap'" using Suc.prems(3) by (cases gap) auto
  let ?h = "set_cells b (pre @ ?x # gap' @ rest) h"
  have "put_cell T b (length pre) ?x h = (Inr (), ?h)"
    using Suc.prems gap put_cell_run [of h b sb pre c "gap' @ rest" T ?x] by simp
  moreover have "do_construct T b (length (pre @ [?x])) n ?h = (Inr (), set_cells b ((pre @ [?x]) @ replicate n ?x @ rest) ?h)"
    by (rule Suc.IH [of _ "sb\<lparr>cells := pre @ ?x # gap' @ rest\<rparr>" "pre @ [?x]" gap']) (use Suc.prems gap in simp_all)
  ultimately show ?case using Suc.prems(5) by (simp add: seqS_def bindS_def)
qed

text \<open>What destroying leaves of the places of elements.\<close>

definition destroyed :: "'a elem_type \<Rightarrow> 'a option list \<Rightarrow> 'a option list" where
  "destroyed T xs = (if trivial_dtor T then xs else replicate (length xs) None)"

lemma destroyed_simps [simp]:
  "length (destroyed T xs) = length xs" "no_item T (destroyed T xs)" "destroyed T [] = []"
  "destroyed T (x # xs) = (if trivial_dtor T then x else None) # destroyed T xs"
  by (auto simp: destroyed_def no_item_def)

lemma destroy_cell_run:
  assumes "bufs h b = Some sb" and "cells sb = pre @ x # rest" and "values_ok T [x]"
  shows "destroy_cell T b (length pre) h = (Inr (), set_cells b (pre @ (if trivial_dtor T then x else None) # rest) h)"
  using assms set_cells_same [OF assms(1)] by (auto simp: destroy_cell_def retS_def bindS_def set_buf_cells)

lemma do_destroy_run:
  assumes "bufs h b = Some sb" and "cells sb = pre @ xs @ rest" and "values_ok T xs"
  shows "do_destroy T b (length pre) (length xs) h = (Inr (), set_cells b (pre @ destroyed T xs @ rest) h)"
  using assms
proof (induction xs arbitrary: h sb pre)
  case Nil
  then show ?case using set_cells_same [OF Nil(1)] by (simp add: retS_def)
next
  case (Cons x xs)
  let ?x = "if trivial_dtor T then x else None"
  let ?h = "set_cells b (pre @ ?x # xs @ rest) h"
  have "destroy_cell T b (length pre) h = (Inr (), ?h)"
    using Cons.prems destroy_cell_run [of h b sb pre x "xs @ rest" T] by auto
  moreover have "do_destroy T b (length (pre @ [?x])) (length xs) ?h = (Inr (), set_cells b ((pre @ [?x]) @ destroyed T xs @ rest) ?h)"
    by (rule Cons.IH [of _ "sb\<lparr>cells := pre @ ?x # xs @ rest\<rparr>" "pre @ [?x]"]) (use Cons.prems in simp_all)
  ultimately show ?case by (simp add: seqS_def bindS_def)
qed

lemma copy_within:
  assumes "bufs h b = Some sb" and "cells sb = pre @ x # mid @ c # rest" and "copyable T [x]" and "trivial_dtor T \<or> c = None"
  shows "copy_cell T b (length (pre @ x # mid)) (InBuffer b) (length pre) h = (Inr (), set_cells b (pre @ x # mid @ x # rest) h)"
proof -
  have "fetch (InBuffer b) (length pre) h = (Inr x, h)" using assms(1,2) by (simp add: bindS_def retS_def)
  then show ?thesis using assms put_cell_run [of h b sb "pre @ x # mid" c rest T x] by (auto simp: copy_cell_def bindS_def)
qed

lemma copy_within_down:
  assumes "bufs h b = Some sb" and "cells sb = pre @ c # mid @ x # rest" and "copyable T [x]" and "trivial_dtor T \<or> c = None"
  shows "copy_cell T b (length pre) (InBuffer b) (length (pre @ c # mid)) h = (Inr (), set_cells b (pre @ x # mid @ x # rest) h)"
proof -
  have "(pre @ c # mid @ x # rest) ! length (pre @ c # mid) = x" using nth_append_length [of "pre @ c # mid" x rest] by simp
  then have "fetch (InBuffer b) (length (pre @ c # mid)) h = (Inr x, h)" using assms(1,2) by (simp add: bindS_def retS_def)
  then show ?thesis using assms put_cell_run [of h b sb pre c "mid @ x # rest" T x] by (auto simp: copy_cell_def bindS_def)
qed

lemma move_up_run:
  assumes "bufs h b = Some sb" and "cells sb = pre @ xs @ gap @ rest" and "gap \<noteq> []" and "no_item T gap" and "values_ok T xs"
  obtains gap' where "length gap' = length gap" and "no_item T gap'"
    and "move_up T b (length pre + length gap) (length pre) (length xs) h = (Inr (), set_cells b (pre @ gap' @ xs @ rest) h)"
proof -
  have "\<exists>gap'. length gap' = length gap \<and> no_item T gap' \<and>
    move_up T b (length pre + length gap) (length pre) (length xs) h = (Inr (), set_cells b (pre @ gap' @ xs @ rest) h)"
    using assms
  proof (induction xs arbitrary: h sb gap rest rule: rev_induct)
    case Nil
    then show ?case using set_cells_same [OF Nil(1)] by (auto simp: retS_def intro: exI [of _ gap])
  next
    case (snoc x xs)
    obtain gap0 c where gap: "gap = gap0 @ [c]" using snoc.prems(3) by (cases gap rule: rev_cases) auto
    define x' where "x' = (if trivial_dtor T then x else None)"
    then have x': "trivial_dtor T \<or> x' = None" by simp
    let ?h1 = "set_cells b (pre @ xs @ x # gap0 @ x # rest) h" and ?h2 = "set_cells b (pre @ xs @ x' # gap0 @ x # rest) h"
    have 1: "copy_cell T b (length pre + length gap + length xs) (InBuffer b) (length pre + length xs) h = (Inr (), ?h1)"
      using copy_within [of h b sb "pre @ xs" x gap0 c rest T] snoc.prems gap values_ok_copyable [of T "[x]"]
      by (simp add: ac_simps)
    have 2: "destroy_cell T b (length pre + length xs) ?h1 = (Inr (), ?h2)"
      using destroy_cell_run [of ?h1 b "sb\<lparr>cells := pre @ xs @ x # gap0 @ x # rest\<rparr>" "pre @ xs" x "gap0 @ x # rest" T] snoc.prems x'_def
      by simp
    obtain gap' where g: "length gap' = length (x' # gap0)" "no_item T gap'"
      "move_up T b (length pre + length (x' # gap0)) (length pre) (length xs) ?h2 = (Inr (), set_cells b (pre @ gap' @ xs @ x # rest) ?h2)"
      using snoc.IH [of ?h2 "sb\<lparr>cells := pre @ xs @ x' # gap0 @ x # rest\<rparr>" "x' # gap0" "x # rest"] snoc.prems gap x' by auto
    show ?case using 1 2 g gap by (intro exI [of _ gap']) (simp add: seqS_def bindS_def)
  qed
  then show thesis using that by blast
qed

lemma move_down_run:
  assumes "bufs h b = Some sb" and "cells sb = pre @ gap @ xs @ rest" and "gap \<noteq> []" and "no_item T gap" and "values_ok T xs"
  obtains gap' where "length gap' = length gap" and "no_item T gap'"
    and "move_down T b (length pre) (length pre + length gap) (length xs) h = (Inr (), set_cells b (pre @ xs @ gap' @ rest) h)"
proof -
  have "\<exists>gap'. length gap' = length gap \<and> no_item T gap' \<and>
    move_down T b (length pre) (length pre + length gap) (length xs) h = (Inr (), set_cells b (pre @ xs @ gap' @ rest) h)"
    using assms
  proof (induction xs arbitrary: h sb gap pre)
    case Nil
    then show ?case using set_cells_same [OF Nil(1)] by (auto simp: retS_def intro: exI [of _ gap])
  next
    case (Cons x xs)
    obtain c gap0 where gap: "gap = c # gap0" using Cons.prems(3) by (cases gap) auto
    define x' where "x' = (if trivial_dtor T then x else None)"
    then have x': "trivial_dtor T \<or> x' = None" by simp
    let ?h1 = "set_cells b (pre @ x # gap0 @ x # xs @ rest) h" and ?h2 = "set_cells b (pre @ x # gap0 @ x' # xs @ rest) h"
    have 1: "copy_cell T b (length pre) (InBuffer b) (length pre + length gap) h = (Inr (), ?h1)"
      using copy_within_down [of h b sb pre c gap0 x "xs @ rest" T] Cons.prems gap values_ok_copyable [of T "[x]"] by simp
    have 2: "destroy_cell T b (length pre + length gap) ?h1 = (Inr (), ?h2)"
      using destroy_cell_run [of ?h1 b "sb\<lparr>cells := pre @ x # gap0 @ x # xs @ rest\<rparr>" "pre @ x # gap0" x "xs @ rest" T] Cons.prems gap x'_def
      by simp
    obtain gap' where g: "length gap' = length (gap0 @ [x'])" "no_item T gap'"
      "move_down T b (length (pre @ [x])) (length (pre @ [x]) + length (gap0 @ [x'])) (length xs) ?h2 =
        (Inr (), set_cells b ((pre @ [x]) @ xs @ gap' @ rest) ?h2)"
      using Cons.IH [of ?h2 "sb\<lparr>cells := pre @ x # gap0 @ x' # xs @ rest\<rparr>" "pre @ [x]" "gap0 @ [x']"] Cons.prems gap x' by auto
    show ?case using 1 2 g gap by (intro exI [of _ gap']) (simp add: seqS_def bindS_def)
  qed
  then show thesis using that by blast
qed

text \<open>\<^verbatim>\<open>memmove\<close> over a gap, upwards and downwards.\<close>

lemma memmove_up:
  assumes "bufs h b = Some sb" and "cells sb = pre @ xs @ gap @ rest" and "no_item T gap"
  obtains gap' where "length gap' = length gap" and "no_item T gap'"
    and "do_memmove T b (length pre + length gap) (length pre) (length xs) h = (Inr (), set_cells b (pre @ gap' @ xs @ rest) h)"
proof -
  let ?cs = "pre @ xs @ gap @ rest" and ?d = "length pre + length gap" and ?s = "length pre" and ?n = "length xs"
  define cs' where "cs' = map (\<lambda>i. if ?d \<le> i \<and> i < ?d + ?n then ?cs ! (i - ?d + ?s)
      else if ?s \<le> i \<and> i < ?s + ?n \<and> \<not> trivial_dtor T then None else ?cs ! i) [0..<length ?cs]"
  define gap' where "gap' = take (length gap) (drop ?s cs')"
  have len: "length cs' = length ?cs" by (simp add: cs'_def)
  have "cs' = pre @ gap' @ xs @ rest"
  proof (rule nth_equalityI)
    show "length cs' = length (pre @ gap' @ xs @ rest)" by (simp add: len gap'_def)
    fix i assume i: "i < length cs'"
    consider "i < ?s" | "?s \<le> i" "i < ?d" | "?d \<le> i" "i < ?d + ?n" | "?d + ?n \<le> i" by linarith
    then show "cs' ! i = (pre @ gap' @ xs @ rest) ! i"
      by cases (use i len in \<open>auto simp: cs'_def gap'_def nth_append ac_simps\<close>)
  qed
  moreover have "no_item T gap'"
  proof -
    have "gap' ! i = None" if "i < length gap'" "\<not> trivial_dtor T" for i
    proof -
      have "i < length gap" using that(1) len by (simp add: gap'_def)
      moreover have "gap ! j = None" if "j < length gap" for j
        using assms(3) \<open>\<not> trivial_dtor T\<close> nth_mem [OF that] by (auto simp: no_item_def)
      ultimately show ?thesis using that(2) len by (auto simp: gap'_def cs'_def nth_append)
    qed
    then show ?thesis by (auto simp: no_item_def in_set_conv_nth)
  qed
  moreover have "do_memmove T b ?d ?s ?n h = (Inr (), set_cells b cs' h)"
    unfolding cs'_def assms(2) [symmetric] using assms(1) arg_cong [OF assms(2), of length]
    by (simp add: do_memmove_def bindS_def Let_def set_buf_cells)
  moreover have "length gap' = length gap" by (simp add: gap'_def len)
  ultimately show thesis using that by blast
qed

lemma memmove_down:
  assumes "bufs h b = Some sb" and "cells sb = pre @ gap @ xs @ rest" and "no_item T gap"
  obtains gap' where "length gap' = length gap" and "no_item T gap'"
    and "do_memmove T b (length pre) (length pre + length gap) (length xs) h = (Inr (), set_cells b (pre @ xs @ gap' @ rest) h)"
proof -
  let ?cs = "pre @ gap @ xs @ rest" and ?s = "length pre + length gap" and ?d = "length pre" and ?n = "length xs"
  define cs' where "cs' = map (\<lambda>i. if ?d \<le> i \<and> i < ?d + ?n then ?cs ! (i - ?d + ?s)
      else if ?s \<le> i \<and> i < ?s + ?n \<and> \<not> trivial_dtor T then None else ?cs ! i) [0..<length ?cs]"
  define gap' where "gap' = take (length gap) (drop (?d + ?n) cs')"
  have len: "length cs' = length ?cs" by (simp add: cs'_def)
  have "cs' = pre @ xs @ gap' @ rest"
  proof (rule nth_equalityI)
    show "length cs' = length (pre @ xs @ gap' @ rest)" by (simp add: len gap'_def)
    fix i assume i: "i < length cs'"
    consider "i < ?d" | "?d \<le> i" "i < ?d + ?n" | "?d + ?n \<le> i" "i < ?s + ?n" | "?s + ?n \<le> i" by linarith
    then show "cs' ! i = (pre @ xs @ gap' @ rest) ! i"
      by cases (use i len in \<open>auto simp: cs'_def gap'_def nth_append ac_simps\<close>)
  qed
  moreover have "no_item T gap'"
  proof -
    have "gap' ! i = None" if "i < length gap'" "\<not> trivial_dtor T" for i
    proof -
      have i: "i < length gap" using that(1) len by (simp add: gap'_def)
      have "gap ! j = None" if "j < length gap" for j
        using assms(3) \<open>\<not> trivial_dtor T\<close> nth_mem [OF that] by (auto simp: no_item_def)
      then show ?thesis using that(2) len i by (auto simp: gap'_def cs'_def nth_append)
    qed
    then show ?thesis by (auto simp: no_item_def in_set_conv_nth)
  qed
  moreover have "do_memmove T b ?d ?s ?n h = (Inr (), set_cells b cs' h)"
    unfolding cs'_def assms(2) [symmetric] using assms(1) arg_cong [OF assms(2), of length]
    by (simp add: do_memmove_def bindS_def Let_def set_buf_cells)
  moreover have "length gap' = length gap" by (simp add: gap'_def len)
  ultimately show thesis using that by blast
qed

lemma move_forward_run:
  assumes "bufs h b = Some sb" and "cells sb = pre @ xs @ gap @ rest" and "gap \<noteq> []" and "no_item T gap" and "values_ok T xs"
  obtains gap' where "length gap' = length gap" and "no_item T gap'"
    and "do_move_forward T b (length pre + length gap) (length pre) (length xs) h = (Inr (), set_cells b (pre @ gap' @ xs @ rest) h)"
proof (cases "by_memmove T")
  case True
  show thesis by (rule memmove_up [OF assms(1,2,4)]) (simp add: that do_move_forward_def True)
next
  case False
  show thesis by (rule move_up_run [OF assms]) (simp add: that do_move_forward_def False)
qed

lemma move_backward_run:
  assumes "bufs h b = Some sb" and "cells sb = pre @ gap @ xs @ rest" and "gap \<noteq> []" and "no_item T gap" and "values_ok T xs"
  obtains gap' where "length gap' = length gap" and "no_item T gap'"
    and "do_move_backward T b (length pre) (length pre + length gap) (length xs) h = (Inr (), set_cells b (pre @ xs @ gap' @ rest) h)"
proof (cases "by_memmove T")
  case True
  show thesis by (rule memmove_down [OF assms(1,2,4)]) (simp add: that do_move_backward_def True)
next
  case False
  show thesis by (rule move_down_run [OF assms]) (simp add: that do_move_backward_def False)
qed

section \<open>Storage\<close>

lemma store_next: "vectors_in T h M \<Longrightarrow> vectors_in T (h\<lparr>next_buf := Suc (next_buf h)\<rparr>) M"
  by (rule storeI) (auto dest: store_size store_item store_buf intro: holding_frame less_SucI)

definition plenty :: "build \<Rightarrow> bool" where
  "plenty B \<longleftrightarrow> (\<forall>n. grants B n)"

lemma alloc_run:
  assumes "vectors_in T h M" and "plenty B" and "n < size_max - buffer_header_size"
  obtains b sb h' where "SB_alloc B T n h = (Inr (Some b), h')" and "owned T h' b sb M" and "mSize sb = n"
    and "cells sb = replicate (n div item_size T) None" and "\<And>c. c \<noteq> b \<Longrightarrow> bufs h' c = bufs h c" and "bufs h b = None"
proof -
  let ?b = "next_buf h" and ?sb = "\<lparr>mRefs = 1, mSize = n, cells = replicate (n div item_size T) None\<rparr>"
  let ?h = "h\<lparr>bufs := (bufs h)(?b \<mapsto> ?sb), next_buf := Suc ?b\<rparr>"
  have new: "bufs h ?b = None" using store_buf(1) [OF assms(1), of ?b] by (cases "bufs h ?b") auto
  then have "without ?b ?h = h\<lparr>next_buf := Suc ?b\<rparr>" by (simp add: without_def fun_upd_idem)
  then have "owned T ?h ?b ?sb M" using assms store_next [OF assms(1)] by (simp add: owned_def buffer_ok_def)
  moreover have "SB_alloc B T n h = (Inr (Some ?b), ?h)" using assms by (simp add: SB_alloc_def new_buf_def plenty_def)
  ultimately show thesis using that [of ?b ?h ?sb] new by simp
qed

text \<open>The heap after a vector has given up its storage.\<close>

definition released :: "vector \<Rightarrow> 'a vec_heap \<Rightarrow> 'a vec_heap" where
  "released v h =
     (case mStorage v of
        None \<Rightarrow> h
      | Some b \<Rightarrow>
          (case bufs h b of
             None \<Rightarrow> h
           | Some sb \<Rightarrow> if mRefs sb = 1 then without b h else h\<lparr>bufs := (bufs h)(b \<mapsto> sb\<lparr>mRefs := mRefs sb - 1\<rparr>)\<rparr>))"

lemma released_other: "mStorage v \<noteq> Some c \<Longrightarrow> bufs (released v h) c = bufs h c" "next_buf (released v h) = next_buf h"
  by (auto simp: released_def split: option.splits)

lemma released_without: "mStorage v \<noteq> Some b \<Longrightarrow> without b (released v h) = released v (without b h)"
  by (auto simp: released_def without_def fun_upd_twist split: option.splits)

lemma release_storage_run:
  assumes "holding_ok T h (v, xs)" and "\<And>b sb. mStorage v = Some b \<Longrightarrow> bufs h b = Some sb \<Longrightarrow> mRefs sb > 0"
  shows "release_storage T v h = (Inr (), released v h)"
proof (cases "mStorage v")
  case None
  then show ?thesis by (simp add: release_storage_def released_def retS_def)
next
  case (Some b)
  then obtain sb where sb: "bufs h b = Some sb" "holds_items T sb xs" "values_ok T xs" "mCount v = length xs"
    using assms(1) by (auto split: option.splits)
  show ?thesis
  proof (cases "mRefs sb = 1")
    case True
    let ?rest = "drop (length xs) (cells sb)" and ?h = "h\<lparr>bufs := (bufs h)(b \<mapsto> sb\<lparr>mRefs := 0\<rparr>)\<rparr>"
    have rest: "no_item T ?rest" and cs: "cells sb = [] @ xs @ ?rest"
      using sb(2) append_take_drop_id [of "length xs" "cells sb"] by (auto simp: holds_items_def no_item_def)
    have d: "do_destroy T b 0 (length xs) ?h = (Inr (), set_cells b (destroyed T xs @ ?rest) ?h)"
      using do_destroy_run [of ?h b "sb\<lparr>mRefs := 0\<rparr>" "[]" xs ?rest T] cs sb(3) by simp
    have "no_item T (destroyed T xs @ ?rest)" using rest by simp
    then have "SB_dealloc T b (set_cells b (destroyed T xs @ ?rest) ?h) = (Inr (), without b h)"
      by (auto simp: SB_dealloc_def bindS_def modS_def without_def set_cells_def no_item_def list_all_iff)
    with d show ?thesis using Some sb True
      by (simp add: release_storage_def released_def SB_release_def bindS_def seqS_def set_buf_def modS_def retS_def)
  next
    case False
    then show ?thesis using Some sb
      by (simp add: release_storage_def released_def SB_release_def bindS_def seqS_def set_buf_def modS_def retS_def)
  qed
qed

lemma released_store:
  assumes st: "vectors_in T h (add_mset (v, xs) M)"
  shows "vectors_in T (released v h) M"
proof (cases "mStorage v")
  case None
  show ?thesis
    by (rule storeI) (use None store_size [OF st] store_item [OF st] store_buf [OF st] in \<open>auto simp: released_def owners_add\<close>)
next
  case (Some b)
  have "holding_ok T h (v, xs)" by (rule store_item [OF st]) simp
  then obtain sb where sb: "bufs h b = Some sb" using Some by (auto split: option.splits)
  show ?thesis
  proof (cases "mRefs sb = 1")
    case True
    then show ?thesis using store_owned(1) [OF st Some sb True] Some sb by (simp add: owned_def released_def)
  next
    case False
    let ?h = "h\<lparr>bufs := (bufs h)(b \<mapsto> sb\<lparr>mRefs := mRefs sb - 1\<rparr>)\<rparr>"
    have "vectors_in T ?h M"
    proof (rule storeI)
      show "item_size T > 0" by (rule store_size [OF st])
      show "holding_ok T ?h p" if "p \<in># M" for p
      proof -
        have "holding_ok T h p" using that by (intro store_item [OF st]) simp
        then show ?thesis using sb by (cases p) (auto simp: holds_items_def split: option.splits)
      qed
      show "c < next_buf ?h \<and> buffer_ok T s \<and> mRefs s = owners c M \<and> mRefs s > 0" if "bufs ?h c = Some s" for c s
      proof (cases "c = b")
        case True
        then show ?thesis using store_buf [OF st sb] that Some False by (auto simp: owners_add buffer_ok_def)
      next
        case neq: False
        then show ?thesis using store_buf [OF st, of c s] that Some by (simp add: owners_add)
      qed
    qed
    then show ?thesis using Some sb False by (simp add: released_def)
  qed
qed

text \<open>A vector gives up its storage while another buffer is worked on.\<close>

lemma owned_release:
  assumes own: "owned T h b sb (add_mset (v, xs) M)"
  shows "release_storage T v h = (Inr (), released v h)" and "owned T (released v h) b sb M"
proof -
  have st: "vectors_in T (without b h) (add_mset (v, xs) M)" using own by (simp add: owned_def)
  have nb: "mStorage v \<noteq> Some b" using owned_not [OF own, of "(v, xs)"] by simp
  have "holding_ok T h (v, xs)"
    by (rule holding_frame [OF store_item [OF st, of "(v, xs)"]]) (use nb in auto)
  moreover have "mRefs s > 0" if "mStorage v = Some c" "bufs h c = Some s" for c s
    using store_buf(4) [OF st, of c s] that nb by auto
  ultimately show "release_storage T v h = (Inr (), released v h)" by (rule release_storage_run)
  show "owned T (released v h) b sb M"
    using own released_store [OF st] nb by (simp add: owned_def released_other released_without)
qed

lemma acquire_run:
  assumes st: "vectors_in T h (add_mset (v, xs) M)" and b: "mStorage v = Some b"
  obtains h' where "SB_acquire b h = (Inr (), h')" and "vectors_in T h' (add_mset (v, xs) (add_mset (v, xs) M))"
proof -
  have "holding_ok T h (v, xs)" by (rule store_item [OF st]) simp
  then obtain sb where sb: "bufs h b = Some sb" using b by (auto split: option.splits)
  let ?h = "h\<lparr>bufs := (bufs h)(b \<mapsto> sb\<lparr>mRefs := mRefs sb + 1\<rparr>)\<rparr>"
  have "vectors_in T ?h (add_mset (v, xs) (add_mset (v, xs) M))"
  proof (rule storeI)
    show "item_size T > 0" by (rule store_size [OF st])
    show "holding_ok T ?h p" if "p \<in># add_mset (v, xs) (add_mset (v, xs) M)" for p
    proof -
      have "holding_ok T h p" using that by (intro store_item [OF st]) auto
      then show ?thesis using sb by (cases p) (auto simp: holds_items_def split: option.splits)
    qed
    show "c < next_buf ?h \<and> buffer_ok T s \<and> mRefs s = owners c (add_mset (v, xs) (add_mset (v, xs) M)) \<and> mRefs s > 0"
      if "bufs ?h c = Some s" for c s
    proof (cases "c = b")
      case True
      then show ?thesis using store_buf [OF st sb] that b by (auto simp: owners_add buffer_ok_def)
    next
      case neq: False
      then show ?thesis using store_buf [OF st, of c s] that b by (simp add: owners_add)
    qed
  qed
  moreover have "SB_acquire b h = (Inr (), ?h)" using sb by (simp add: SB_acquire_def bindS_def set_buf_def modS_def)
  ultimately show thesis using that by blast
qed

text \<open>The buffer of a vector in the heap.\<close>

lemma store_buffer:
  assumes st: "vectors_in T h (add_mset (v, xs) M)" and "mStorage v = Some b"
  obtains sb where "bufs h b = Some sb" and "holds_items T sb xs" and "buffer_ok T sb" and "mRefs sb > 0"
proof -
  have "holding_ok T h (v, xs)" by (rule store_item [OF st]) simp
  then obtain sb where "bufs h b = Some sb" "holds_items T sb xs" using assms(2) by (auto split: option.splits)
  then show thesis using that store_buf [OF st] by blast
qed

lemma store_facts:
  assumes "vectors_in T h (add_mset (v, xs) M)"
  shows "mCount v = length xs" and "values_ok T xs" and "mStorage v = None \<Longrightarrow> xs = []"
  using store_item [OF assms, of "(v, xs)"] by (auto split: option.splits)

definition cap_of :: "'a elem_type \<Rightarrow> 'a vec_heap \<Rightarrow> vector \<Rightarrow> nat" where
  "cap_of T h v =
     (case mStorage v of
        None \<Rightarrow> 0
      | Some b \<Rightarrow> (case bufs h b of None \<Rightarrow> 0 | Some sb \<Rightarrow> mSize sb div item_size T))"

lemma capacity_run:
  assumes "vectors_in T h (add_mset (v, xs) M)"
  shows "vec_capacity T v h = (Inr (cap_of T h v), h)" and "length xs \<le> cap_of T h v"
proof -
  show "vec_capacity T v h = (Inr (cap_of T h v), h)"
    by (cases "mStorage v") (use store_buffer [OF assms] in \<open>fastforce simp: vec_capacity_def cap_of_def bindS_def retS_def\<close>)+
  show "length xs \<le> cap_of T h v"
    by (cases "mStorage v") (use store_facts(3) [OF assms] store_buffer [OF assms] in
        \<open>fastforce simp: cap_of_def holds_items_def buffer_ok_def\<close>)+
qed

text \<open>Copying what a vector holds into a new buffer.\<close>

lemma copy_items:
  assumes own: "owned T h b sb N" and v: "(v, xs) \<in># N" and cs: "cells sb = pre @ gap @ rest" "no_item T gap"
    and n: "length gap = n" "k + n \<le> length xs" and b: "b \<notin> {c. mStorage v = Some c}"
  shows "do_copy T b (length pre) (arrayImpl v) k n h = (Inr (), set_cells b (pre @ take n (drop k xs) @ rest) h)"
proof (cases "mStorage v")
  case None
  have "holding_ok T (without b h) (v, xs)" using own v store_item unfolding owned_def by blast
  then have "n = 0" using None n by simp
  then show ?thesis using own cs n set_cells_same [of h b sb] by (simp add: owned_def retS_def)
next
  case (Some c)
  have st: "vectors_in T (without b h) N" and sb: "bufs h b = Some sb" using own by (simp_all add: owned_def)
  have "holding_ok T (without b h) (v, xs)" using st v by (rule store_item)
  then obtain s where s: "bufs h c = Some s" "c \<noteq> b" "holds_items T s xs" "values_ok T xs"
    using Some by (auto split: option.splits if_splits)
  have "take n (drop k (cells s)) = take n (drop k (take (length xs) (cells s)))"
    using n by (simp add: drop_take)
  then have "provides b h (InBuffer c) k (take n (drop k xs))"
    using s n by (intro provides_items [OF s(1)]) (auto simp: holds_items_def)
  moreover have "copyable T (take n (drop k xs))"
    by (rule values_ok_copyable, rule values_ok_mono [OF s(4)]) (meson in_set_dropD in_set_takeD subsetI)
  moreover have "length (take n (drop k xs)) = n" using n by simp
  ultimately show ?thesis
    using do_copy_run [OF sb cs(1) _ cs(2), of "take n (drop k xs)" "InBuffer c" k] n Some by (simp add: arrayImpl_def)
qed

lemma editArrayImpl_run:
  assumes st: "vectors_in T h (add_mset (v, xs) M)" and B: "plenty B" and b: "mStorage v = Some b"
  obtains v' h' b' sb' where "editArrayImpl B T v h = (Inr v', h')" and "mStorage v' = Some b'" and "mCount v' = mCount v"
    and "owned T h' b' sb' M" and "holds_items T sb' xs" and "length (cells sb') = cap_of T h v"
proof -
  obtain sb where sb: "bufs h b = Some sb" "holds_items T sb xs" "buffer_ok T sb" by (rule store_buffer [OF st b])
  have cap: "cap_of T h v = length (cells sb)" using b sb by (simp add: cap_of_def buffer_ok_def)
  show thesis
  proof (cases "mRefs sb = 1")
    case True
    have "editArrayImpl B T v h = (Inr v, h)"
      using b sb True by (simp add: editArrayImpl_def SB_attemptEdit_def onlyOwner_def bindS_def retS_def)
    then show thesis using that b sb cap store_owned(1) [OF st b sb(1) True] by auto
  next
    case False
    have lim: "mSize sb < size_max - buffer_header_size" using sb(3) by (simp add: buffer_ok_def)
    obtain b' sb' h1 where al: "SB_alloc B T (mSize sb) h = (Inr (Some b'), h1)" "owned T h1 b' sb' (add_mset (v, xs) M)"
        "mSize sb' = mSize sb" "cells sb' = replicate (mSize sb div item_size T) None" "\<And>c. c \<noteq> b' \<Longrightarrow> bufs h1 c = bufs h c" "bufs h b' = None"
      by (rule alloc_run [OF st B lim]) blast
    define n m where "n = length xs" and "m = length (cells sb)"
    have nm: "n \<le> m" "cells sb' = [] @ replicate n None @ replicate (m - n) None"
      using sb al(4) by (simp_all add: holds_items_def buffer_ok_def n_def m_def flip: replicate_add)
    have nb: "b' \<noteq> b" using sb(1) al(6) by auto
    let ?cs = "xs @ replicate (m - n) None"
    have "do_copy T b' 0 (InBuffer b) 0 n h1 = (Inr (), set_cells b' ?cs h1)"
      using copy_items [OF al(2), of v xs "[]" "replicate n None" "replicate (m - n) None" n 0] nm b nb
      by (simp add: arrayImpl_def n_def)
    moreover have own: "owned T (set_cells b' ?cs h1) b' (sb'\<lparr>cells := ?cs\<rparr>) (add_mset (v, xs) M)"
      using owned_set_cells [OF al(2), of ?cs] nm by (simp add: n_def)
    ultimately have "editArrayImpl B T v h = (Inr (v\<lparr>mStorage := Some b'\<rparr>), released v (set_cells b' ?cs h1))"
      using b sb False al(1) owned_release(1) [OF own] store_facts(1) [OF st]
      by (simp add: editArrayImpl_def SB_attemptEdit_def onlyOwner_def bindS_def seqS_def retS_def n_def)
    moreover have "holds_items T (sb'\<lparr>cells := ?cs\<rparr>) xs" by (auto simp: holds_items_def)
    ultimately show thesis using that owned_release(2) [OF own] cap nm by (simp add: n_def m_def)
  qed
qed

lemma holds_items_take: "holds_items T sb xs \<Longrightarrow> n \<le> length xs \<Longrightarrow> take n (cells sb) = take n xs"
  by (metis holds_items_def min.absorb1 take_take)

lemma resized_length [simp]: "length (resized T n cs) = n div item_size T"
  by (simp add: resized_def Let_def)

lemma resized_take: "m \<le> n div item_size T \<Longrightarrow> m \<le> length cs \<Longrightarrow> take m (resized T n cs) = take m cs"
  by (simp add: resized_def Let_def min_def)

lemma editResize_run:
  assumes st: "vectors_in T h (add_mset (v, xs) M)" and B: "plenty B" and b: "mStorage v = Some b"
    and triv: "trivial_dtor T" and n: "n < size_max - buffer_header_size"
  obtains b' sb' h' where "SB_editResize B T b n h = (Inr (Some b'), h')" and "owned T h' b' sb' M" and "mSize sb' = n"
    and "\<And>m. m \<le> n div item_size T \<Longrightarrow> m \<le> length xs \<Longrightarrow> take m (cells sb') = take m xs"
proof -
  obtain sb where sb: "bufs h b = Some sb" "holds_items T sb xs" "buffer_ok T sb" by (rule store_buffer [OF st b])
  have tk: "take m (resized T n (cells sb)) = take m xs" if "m \<le> n div item_size T" "m \<le> length xs" for m
    using resized_take [OF that(1), of "cells sb"] holds_items_take [OF sb(2) that(2)] that(2) sb(2) by (simp add: holds_items_def)
  show thesis
  proof (cases "mRefs sb = 1")
    case one: True
    note own = store_owned(1) [OF st b sb(1) one]
    show thesis
    proof (cases "mSize sb = n")
      case True
      then have "SB_editResize B T b n h = (Inr (Some b), h)" using sb one by (simp add: SB_editResize_def bindS_def retS_def)
      then show thesis using that [OF _ own True] holds_items_take [OF sb(2)] by blast
    next
      case False
      let ?h = "without b h" and ?b = "next_buf h"
      let ?sb = "\<lparr>mRefs = 1, mSize = n, cells = resized T n (cells sb)\<rparr>"
      let ?h' = "?h\<lparr>bufs := (bufs ?h)(?b \<mapsto> ?sb), next_buf := Suc ?b\<rparr>"
      have "vectors_in T ?h M" using own by (simp add: owned_def)
      moreover have "bufs ?h ?b = None" using store_buf(1) [OF st, of ?b] by (cases "bufs h ?b") auto
      then have "without ?b ?h' = ?h\<lparr>next_buf := Suc (next_buf ?h)\<rparr>" by (simp add: without_def fun_upd_idem)
      ultimately have "owned T ?h' ?b ?sb M" using n store_next [of T ?h M] by (simp add: owned_def buffer_ok_def)
      moreover have "SB_editResize B T b n h = (Inr (Some ?b), ?h')"
        using sb one False n B by (simp add: SB_editResize_def bindS_def seqS_def modS_def new_buf_def plenty_def without_def)
      ultimately show thesis using that [of ?b ?h' ?sb] tk by simp
    qed
  next
    case False
    obtain b' sb' h1 where al: "SB_alloc B T n h = (Inr (Some b'), h1)" "owned T h1 b' sb' (add_mset (v, xs) M)"
        "mSize sb' = n" "cells sb' = replicate (n div item_size T) None" "\<And>c. c \<noteq> b' \<Longrightarrow> bufs h1 c = bufs h c" "bufs h b' = None"
      by (rule alloc_run [OF st B n]) blast
    let ?cs = "resized T n (cells sb)"
    have sb': "bufs h1 b' = Some sb'" using al(2) by (simp add: owned_def)
    have own: "owned T (set_cells b' ?cs h1) b' (sb'\<lparr>cells := ?cs\<rparr>) (add_mset (v, xs) M)"
      by (rule owned_set_cells [OF al(2)]) (simp add: al(4))
    have nb: "b \<noteq> b'" using sb(1) al(6) by auto
    then have sb1: "bufs h1 b = Some sb" using sb(1) al(5) [of b] by simp
    have "SB_release T False b (set_cells b' ?cs h1) = (Inr 0, released v (set_cells b' ?cs h1))"
      using nb sb1 False b by (simp add: SB_release_def bindS_def seqS_def set_buf_def modS_def retS_def released_def)
    then have "SB_editResize B T b n h = (Inr (Some b'), released v (set_cells b' ?cs h1))"
      using sb(1) False al(1) sb' by (simp add: SB_editResize_def bindS_def seqS_def set_buf_cells retS_def)
    then show thesis using that [OF _ owned_release(2) [OF own]] al(3) tk by simp
  qed
qed

lemma relocate_run:
  assumes st: "vectors_in T h (add_mset (v, xs) M)" and B: "plenty B" and n: "bytes < size_max - buffer_header_size"
    and wh: "wh \<le> dest" "from + m = length xs" "wh \<le> length xs" "dest + m \<le> bytes div item_size T"
  obtains b sb rest h' where "relocate B T bytes wh dest from m v h = (Inr (Some (v\<lparr>mStorage := Some b\<rparr>)), h')"
    and "owned T h' b sb M" and "mSize sb = bytes" and "cells sb = take wh xs @ replicate (dest - wh) None @ drop from xs @ rest"
    and "no_item T rest"
proof -
  obtain b sb h1 where al: "SB_alloc B T bytes h = (Inr (Some b), h1)" "owned T h1 b sb (add_mset (v, xs) M)"
      "mSize sb = bytes" "cells sb = replicate (bytes div item_size T) None" "bufs h b = None"
    by (rule alloc_run [OF st B n]) blast
  define k where "k = bytes div item_size T - (dest + m)"
  have len: "wh + (dest - wh + m + k) = bytes div item_size T" using wh by (simp add: k_def)
  have nv: "b \<notin> {c. mStorage v = Some c}" using owned_not [OF al(2), of "(v, xs)"] by simp
  have cs: "cells sb = [] @ replicate wh None @ replicate (dest - wh + m + k) None" using al(4) len by (simp flip: replicate_add)
  let ?c1 = "take wh xs @ replicate (dest - wh + m + k) None"
  have 1: "do_copy T b 0 (arrayImpl v) 0 wh h1 = (Inr (), set_cells b ?c1 h1)"
    using copy_items [OF al(2) _ cs _ _ _ nv, of xs wh 0] wh by simp
  have own1: "owned T (set_cells b ?c1 h1) b (sb\<lparr>cells := ?c1\<rparr>) (add_mset (v, xs) M)"
    by (rule owned_set_cells [OF al(2)]) (use cs wh in simp)
  let ?c2 = "(take wh xs @ replicate (dest - wh) None) @ drop from xs @ replicate k None"
  have c1: "cells (sb\<lparr>cells := ?c1\<rparr>) = (take wh xs @ replicate (dest - wh) None) @ replicate m None @ replicate k None"
    by (simp add: replicate_add)
  have 2: "do_copy T b dest (arrayImpl v) from m (set_cells b ?c1 h1) = (Inr (), set_cells b ?c2 h1)"
    using copy_items [OF own1 _ c1 _ _ _ nv, of xs m "from"] wh by simp
  have own2: "owned T (set_cells b ?c2 (set_cells b ?c1 h1)) b (sb\<lparr>cells := ?c1, cells := ?c2\<rparr>) (add_mset (v, xs) M)"
    by (rule owned_set_cells [OF own1]) (use wh in simp)
  have "relocate B T bytes wh dest from m v h = (Inr (Some (v\<lparr>mStorage := Some b\<rparr>)), released v (set_cells b ?c2 h1))"
    using al(1) 1 2 owned_release(1) [OF own2] by (simp add: relocate_def bindS_def seqS_def retS_def)
  then show thesis using that [OF _ owned_release(2) [OF own2, simplified set_cells_twice], of "replicate k None"] al(3) by simp
qed

section \<open>Growing and shrinking\<close>

text \<open>There is room for \<open>n\<close> elements and what growing reserves in addition, and every index is a \<^verbatim>\<open>ssize_t\<close>.\<close>

definition fits_memory :: "'a elem_type \<Rightarrow> nat \<Rightarrow> bool" where
  "fits_memory T n \<longleftrightarrow> n < 2 ^ 63 \<and> (n + n div 2 + 4) * item_size T < size_max - buffer_header_size"

lemma size_t_id: "n < 2 ^ 64 \<Longrightarrow> size_t n = n"
  by (simp add: size_t_def)

lemma fits_grown:
  assumes "fits_memory T n" and "item_size T > 0"
  shows "size_t (grown_capacity n * item_size T) = grown_capacity n * item_size T"
    and "grown_capacity n * item_size T < size_max - buffer_header_size" and "n < grown_capacity n" and "n < 2 ^ 63"
proof -
  have lim: "(n + n div 2 + 4) * item_size T < 2 ^ 64 - 25"
    using assms(1) by (simp add: fits_memory_def size_max_def buffer_header_size_def)
  moreover have "n + n div 2 + 4 \<le> (n + n div 2 + 4) * item_size T" using assms(2) by simp
  ultimately have n: "n + n div 2 + 4 < 2 ^ 64 - 25" by (rule le_less_trans [rotated])
  then have gc: "grown_capacity n = max 4 (n + n div 2 + 1)"
    by (simp add: grown_capacity_def kMinVectorCapacity_def size_t_id)
  then have "grown_capacity n \<le> n + n div 2 + 4" "n < grown_capacity n" by auto
  then have "grown_capacity n * item_size T \<le> (n + n div 2 + 4) * item_size T" by (intro mult_le_mono1)
  from le_less_trans [OF this lim] have gl: "grown_capacity n * item_size T < 2 ^ 64 - 25" .
  then show "size_t (grown_capacity n * item_size T) = grown_capacity n * item_size T" by (intro size_t_id) linarith
  show "grown_capacity n * item_size T < size_max - buffer_header_size" using gl by (simp add: size_max_def buffer_header_size_def)
  show "n < grown_capacity n" by fact
  show "n < 2 ^ 63" using assms(1) by (simp add: fits_memory_def)
qed

text \<open>A vector with a gap of \<open>n\<close> raw places behind its first \<open>wh\<close> elements.\<close>

definition gapped :: "'a elem_type \<Rightarrow> 'a vec_heap \<Rightarrow> vector \<Rightarrow> nat \<Rightarrow> 'a option list \<Rightarrow> nat \<Rightarrow> 'a option list \<Rightarrow> 'a holding multiset \<Rightarrow> bool" where
  "gapped T h v b pre n post M \<longleftrightarrow> mStorage v = Some b \<and> mCount v = length pre + n + length post \<and>
     (\<exists>sb gap rest. owned T h b sb M \<and> cells sb = pre @ gap @ post @ rest \<and> length gap = n \<and> no_item T gap \<and> no_item T rest)"

lemma gappedI:
  assumes "mStorage v = Some b" and "mCount v = length pre + n + length post" and "owned T h b sb M"
    and "cells sb = pre @ gap @ post @ rest" and "length gap = n" and "no_item T gap" and "no_item T rest"
  shows "gapped T h v b pre n post M"
  using assms unfolding gapped_def by blast

lemma gapped_location:
  assumes "gapped T h v b pre n post M" and "0 < n"
  shows "itemLocation B T (length pre) v h = (Inr (Some b), h)"
proof -
  obtain sb gap rest where sb: "mStorage v = Some b" "owned T h b sb M" "cells sb = pre @ gap @ post @ rest" "length gap = n"
    using assms(1) unfolding gapped_def by blast
  have "length pre < length (cells sb)" using sb(3,4) assms(2) by simp
  moreover have "length (cells sb) = mSize sb div item_size T" "bufs h b = Some sb"
    using sb(2) by (simp_all add: owned_def buffer_ok_def)
  ultimately show ?thesis using sb(1) by (simp add: itemLocation_def vec_capacity_def bindS_def retS_def)
qed

lemma grow_storage_run:
  assumes st: "vectors_in T h (add_mset (v, xs) M)" and B: "plenty B" and wh: "wh \<le> length xs" and am: "0 < amount"
    and fit: "fits_memory T (length xs + amount)"
  obtains b v1 h1 where "grow_storage B T wh amount (cap_of T h v) (length xs + amount) v h = (Inr (Some v1), h1)"
    and "gapped T h1 (v1\<lparr>mCount := length xs + amount\<rparr>) b (take wh xs) amount (drop wh xs) M"
proof -
  let ?n = "length xs + amount"
  note sz = store_size [OF st] and v = store_facts [OF st] and g = fits_grown [OF fit store_size [OF st]]
  have nt: "size_t (wh + amount) = wh + amount" using g(4) wh by (simp add: size_t_id)
  show thesis
  proof (cases "cap_of T h v < ?n")
    case True
    show thesis
    proof (cases "mStorage v \<noteq> None \<and> mCount v = wh \<and> trivial_copy T \<and> trivial_dtor T")
      case res: True
      then obtain c where c: "mStorage v = Some c" by auto
      obtain b sb h1 where e: "SB_editResize B T c (grown_capacity ?n * item_size T) h = (Inr (Some b), h1)" "owned T h1 b sb M"
          "mSize sb = grown_capacity ?n * item_size T" "\<And>m. m \<le> grown_capacity ?n \<Longrightarrow> m \<le> length xs \<Longrightarrow> take m (cells sb) = take m xs"
        by (rule editResize_run [OF st B c _ g(2)]) (use res sz in auto)
      have len: "length (cells sb) = grown_capacity ?n" using e(2,3) sz by (simp add: owned_def buffer_ok_def)
      have "cells sb = xs @ take amount (drop (length xs) (cells sb)) @ drop ?n (cells sb)"
        using e(4) [of "length xs"] g(3) append_take_drop_id [of "length xs" "cells sb"]
          append_take_drop_id [of amount "drop (length xs) (cells sb)"] by (simp add: add.commute)
      then have "gapped T h1 (v\<lparr>mStorage := Some b, mCount := ?n\<rparr>) b (take wh xs) amount (drop wh xs) M"
        using e(2) len g(3) res v(1)
        by (intro gappedI [where sb = sb and gap = "take amount (drop (length xs) (cells sb))" and rest = "drop ?n (cells sb)"])
          (auto simp: no_item_def)
      moreover have "grow_storage B T wh amount (cap_of T h v) ?n v h = (Inr (Some (v\<lparr>mStorage := Some b\<rparr>)), h1)"
        using True res e(1) c g(1) by (simp add: grow_storage_def Let_def resize_storage_def bindS_def retS_def)
      ultimately show thesis using that [of "v\<lparr>mStorage := Some b\<rparr>" h1 b] by simp
    next
      case False
      obtain b sb rest h1 where r: "relocate B T (grown_capacity ?n * item_size T) wh (wh + amount) wh (length xs - wh) v h =
          (Inr (Some (v\<lparr>mStorage := Some b\<rparr>)), h1)" "owned T h1 b sb M"
          "cells sb = take wh xs @ replicate (wh + amount - wh) None @ drop wh xs @ rest" "no_item T rest"
        by (rule relocate_run [OF st B g(2), of wh "wh + amount" wh "length xs - wh"]) (use wh g(3) sz in auto)
      have "gapped T h1 (v\<lparr>mStorage := Some b, mCount := ?n\<rparr>) b (take wh xs) amount (drop wh xs) M"
        by (rule gappedI [OF _ _ r(2,3)]) (use wh r(4) in simp_all)
      moreover have "grow_storage B T wh amount (cap_of T h v) ?n v h = (Inr (Some (v\<lparr>mStorage := Some b\<rparr>)), h1)"
        using r(1) unfolding grow_storage_def Let_def if_P [OF True] if_not_P [OF False] g(1) nt by (simp add: v(1))
      ultimately show thesis using that [of "v\<lparr>mStorage := Some b\<rparr>" h1 b] by simp
    qed
  next
    case False
    then have "cap_of T h v \<noteq> 0" using am by simp
    then obtain c where c: "mStorage v = Some c" by (cases "mStorage v") (auto simp: cap_of_def)
    obtain v1 h1 b sb where e: "editArrayImpl B T v h = (Inr v1, h1)" "mStorage v1 = Some b" "mCount v1 = mCount v"
        "owned T h1 b sb M" "holds_items T sb xs" "length (cells sb) = cap_of T h v"
      by (rule editArrayImpl_run [OF st B c])
    define gap where "gap = take amount (drop (length xs) (cells sb))"
    define rest where "rest = drop (length xs + amount) (cells sb)"
    have "gap @ rest = drop (length xs) (cells sb)"
      using append_take_drop_id [of amount "drop (length xs) (cells sb)"] by (simp add: gap_def rest_def add.commute)
    then have cs: "cells sb = take wh xs @ drop wh xs @ gap @ rest"
      using e(5) append_take_drop_id [of "length xs" "cells sb"] by (simp add: holds_items_def) (metis append_assoc append_take_drop_id)
    have gap: "length gap = amount" "no_item T gap" "no_item T rest"
    proof -
      show "length gap = amount" using e(6) False by (simp add: gap_def)
      have "no_item T (drop (length xs) (cells sb))" using e(5) by (auto simp: holds_items_def no_item_def)
      then have "no_item T (gap @ rest)" by (simp add: gap_def rest_def add.commute flip: drop_drop)
      then show "no_item T gap" "no_item T rest" by simp_all
    qed
    show thesis
    proof (cases "wh = length xs")
      case True
      then have "gapped T h1 (v1\<lparr>mCount := ?n\<rparr>) b (take wh xs) amount (drop wh xs) M"
        using e(2,4) cs gap by (intro gappedI [where sb = sb and gap = gap and rest = rest]) simp_all
      then show thesis using that False e(1,3) v(1) True by (simp add: grow_storage_def bindS_def seqS_def retS_def)
    next
      case neq: False
      have "values_ok T (drop wh xs)" by (rule values_ok_mono [OF v(2)]) (meson in_set_dropD subsetI)
      moreover have "bufs h1 b = Some sb" "gap \<noteq> []" using e(4) gap am by (auto simp: owned_def)
      ultimately obtain gap' where m: "length gap' = length gap" "no_item T gap'"
        "do_move_forward T b (length (take wh xs) + length gap) (length (take wh xs)) (length (drop wh xs)) h1 =
          (Inr (), set_cells b (take wh xs @ gap' @ drop wh xs @ rest) h1)"
        using move_forward_run [OF _ cs _ gap(2)] by metis
      have own: "owned T (set_cells b (take wh xs @ gap' @ drop wh xs @ rest) h1) b (sb\<lparr>cells := take wh xs @ gap' @ drop wh xs @ rest\<rparr>) M"
        by (rule owned_set_cells [OF e(4)]) (use m cs in simp)
      then have "gapped T (set_cells b (take wh xs @ gap' @ drop wh xs @ rest) h1) (v1\<lparr>mCount := ?n\<rparr>) b (take wh xs) amount (drop wh xs) M"
        by (intro gappedI [OF _ _ own, where gap = gap' and rest = rest]) (use e(2) m gap wh in simp_all)
      then show thesis using that False e(1,2,3) v(1) neq m gap wh nt
          by (simp add: grow_storage_def bindS_def seqS_def retS_def min_absorb2)
    qed
  qed
qed

lemma vec_grow_run:
  assumes st: "vectors_in T h (add_mset (v, xs) M)" and B: "plenty B" and wh: "wh \<le> length xs" and am: "0 < amount"
    and fit: "fits_memory T (length xs + amount)"
  obtains b v' h' where "vec_grow B T wh amount v h = (Inr (Some b, v'), h')" and "gapped T h' v' b (take wh xs) amount (drop wh xs) M"
proof -
  let ?n = "length xs + amount"
  have nt: "size_t ?n = ?n" using fits_grown(4) [OF fit store_size [OF st]] by (simp add: size_t_id)
  obtain b v1 h1 where 1: "grow_storage B T wh amount (cap_of T h v) ?n v h = (Inr (Some v1), h1)"
      "gapped T h1 (v1\<lparr>mCount := ?n\<rparr>) b (take wh xs) amount (drop wh xs) M"
    by (rule grow_storage_run [OF assms])
  have "itemLocation B T wh (v1\<lparr>mCount := ?n\<rparr>) h1 = (Inr (Some b), h1)"
    using gapped_location [OF 1(2) am] wh by simp
  then have "vec_grow B T wh amount v h = (Inr (Some b, v1\<lparr>mCount := ?n\<rparr>), h1)"
    using 1(1) capacity_run(1) [OF st] nt wh store_facts(1) [OF st] by (simp add: vec_grow_def Let_def bindS_def retS_def)
  then show thesis using that 1(2) by blast
qed

lemma fits_mono: "fits_memory T n \<Longrightarrow> m \<le> n \<Longrightarrow> fits_memory T m"
  unfolding fits_memory_def by (meson add_le_mono div_le_mono le_less_trans le_refl mult_le_mono1)

lemma size_sub_id:
  assumes "n \<le> m" and "m < 2 ^ 64"
  shows "size_sub m n = m - n"
proof -
  define w :: nat where "w = 2 ^ 64"
  have "m + (w - n) = (m - n) + w" using assms by (simp add: w_def)
  moreover have "n mod w = n" "(m - n) mod w = m - n" using assms by (simp_all add: w_def)
  ultimately show ?thesis unfolding size_sub_def size_t_def w_def [symmetric] by simp
qed

text \<open>Shrinking leaves the elements before \<open>wh\<close> and those behind the removed ones.\<close>

lemma shrink_storage_run:
  assumes st: "vectors_in T h (add_mset (v, xs) M)" and B: "plenty B" and wh: "wh + amount \<le> length xs"
    and am: "0 < amount \<or> wh = length xs" and fit: "fits_memory T (length xs)" and Some: "mStorage v = Some c"
  obtains b v1 sb h1 where "shrink_storage B T c wh amount (cap_of T h v) (length xs - amount) v h = (Inr (Some v1), h1)"
    and "mStorage v1 = Some b" and "owned T h1 b sb M" and "holds_items T sb (take wh xs @ drop (wh + amount) xs)"
proof -
  let ?ys = "take wh xs @ drop (wh + amount) xs" and ?n = "length xs - amount"
  note sz = store_size [OF st] and v = store_facts [OF st] and g = fits_grown [OF fit store_size [OF st]] and cap = capacity_run [OF st]
  have nt: "size_t (wh + amount) = wh + amount" "size_t (?n * 2) = ?n * 2"
    using g(4) wh by (simp_all add: size_t_id)
  have sub: "size_sub (length xs) amount = ?n" "size_sub ?n wh = ?n - wh"
    using g(4) wh by (simp_all add: size_sub_id)
  have ys: "values_ok T ?ys" by (rule values_ok_mono [OF v(2)]) (auto dest: in_set_takeD in_set_dropD)
  have lys: "length ?ys = ?n" using wh by simp
  let ?bytes = "max kMinVectorCapacity (?n * 2) * item_size T"
  have new: "size_t ?bytes = ?bytes" "?bytes < size_max - buffer_header_size" "?n \<le> ?bytes div item_size T"
    if less: "?n < cap_of T h v div 2"
  proof -
    obtain sb where sb: "bufs h c = Some sb" "buffer_ok T sb" by (rule store_buffer [OF st Some])
    have "?n * 2 \<le> mSize sb div item_size T" using less Some sb by (simp add: cap_of_def)
    then have "?n * 2 * item_size T \<le> mSize sb div item_size T * item_size T" by (rule mult_le_mono1)
    also have "\<dots> \<le> mSize sb" by (rule div_times_less_eq_dividend)
    finally have "?n * 2 * item_size T < size_max - buffer_header_size" using sb(2) by (simp add: buffer_ok_def)
    moreover have "kMinVectorCapacity * item_size T < size_max - buffer_header_size"
      using fit by (auto simp: fits_memory_def kMinVectorCapacity_def elim: le_less_trans [rotated])
    ultimately show "?bytes < size_max - buffer_header_size" by (simp add: max_def)
    then show "size_t ?bytes = ?bytes" by (intro size_t_id) (simp add: size_max_def buffer_header_size_def)
    show "?n \<le> ?bytes div item_size T" using sz by simp
  qed
  show thesis
  proof (cases "?n < cap_of T h v div 2")
    case True
    show thesis
    proof (cases "wh = ?n \<and> trivial_copy T \<and> trivial_dtor T")
      case res: True
      obtain b sb h1 where e: "SB_editResize B T c ?bytes h = (Inr (Some b), h1)" "owned T h1 b sb M" "mSize sb = ?bytes"
          "\<And>m. m \<le> ?bytes div item_size T \<Longrightarrow> m \<le> length xs \<Longrightarrow> take m (cells sb) = take m xs"
        by (rule editResize_run [OF st B Some _ new(2) [OF True]]) (use res in auto)
      have "length (cells sb) = ?bytes div item_size T" using e(2,3) by (simp add: owned_def buffer_ok_def)
      moreover have "?ys = take ?n xs" using res wh by simp
      ultimately have "holds_items T sb ?ys" using e(4) [of ?n] new(3) [OF True] res by (simp add: holds_items_def)
      moreover have "shrink_storage B T c wh amount (cap_of T h v) ?n v h = (Inr (Some (v\<lparr>mStorage := Some b\<rparr>)), h1)"
        using e(1) unfolding shrink_storage_def Let_def if_P [OF True] if_P [OF res] nt new(1) [OF True]
        by (simp add: resize_storage_def bindS_def retS_def)
      ultimately show thesis using that [of "v\<lparr>mStorage := Some b\<rparr>" h1 b sb] e(2) by simp
    next
      case False
      obtain b sb rest h1 where r: "relocate B T ?bytes wh wh (wh + amount) (?n - wh) v h = (Inr (Some (v\<lparr>mStorage := Some b\<rparr>)), h1)"
          "owned T h1 b sb M" "cells sb = take wh xs @ replicate (wh - wh) None @ drop (wh + amount) xs @ rest" "no_item T rest"
        by (rule relocate_run [OF st B new(2) [OF True], of wh wh "wh + amount" "?n - wh"]) (use wh new(3) [OF True] in auto)
      have "holds_items T sb ?ys" by (rule holds_itemsI [OF _ r(4)]) (simp add: r(3))
      moreover have "shrink_storage B T c wh amount (cap_of T h v) ?n v h = (Inr (Some (v\<lparr>mStorage := Some b\<rparr>)), h1)"
        using r(1) unfolding shrink_storage_def Let_def if_P [OF True] if_not_P [OF False] nt sub new(1) [OF True] by simp
      ultimately show thesis using that [of "v\<lparr>mStorage := Some b\<rparr>" h1 b sb] r(2) by simp
    qed
  next
    case False
    obtain v1 h1 b sb where e: "editArrayImpl B T v h = (Inr v1, h1)" "mStorage v1 = Some b"
        "owned T h1 b sb M" "holds_items T sb xs"
      by (rule editArrayImpl_run [OF st B Some])
    define pre mid post rest where "pre = take wh xs" and "mid = take amount (drop wh xs)" and "post = drop (wh + amount) xs"
      and "rest = drop (length xs) (cells sb)"
    have xs: "xs = pre @ mid @ post"
      using append_take_drop_id [of amount "drop wh xs"] by (simp add: pre_def mid_def post_def add.commute)
    have len: "length pre = wh" "length mid = amount" using wh by (simp_all add: pre_def mid_def)
    have cs: "cells sb = pre @ mid @ (post @ rest)" and rest: "no_item T rest"
      using e(4) append_take_drop_id [of "length xs" "cells sb"] xs by (auto simp: holds_items_def no_item_def rest_def)
    have vm: "values_ok T mid" "values_ok T post" using v(2) xs by simp_all
    have sb: "bufs h1 b = Some sb" using e(3) by (simp add: owned_def)
    let ?c2 = "pre @ destroyed T mid @ post @ rest"
    have d: "do_destroy T b wh amount h1 = (Inr (), set_cells b ?c2 h1)"
      using do_destroy_run [OF sb cs vm(1)] len by simp
    have own: "owned T (set_cells b ?c2 h1) b (sb\<lparr>cells := ?c2\<rparr>) M" by (rule owned_set_cells [OF e(3)]) (use cs in simp)
    show thesis
    proof (cases "wh = ?n")
      case True
      then have "post = []" using wh unfolding post_def by simp
      then have "holds_items T (sb\<lparr>cells := ?c2\<rparr>) ?ys" using rest
        by (intro holds_itemsI [where rest = "destroyed T mid @ rest"]) (simp_all flip: pre_def post_def)
      then show thesis using that [OF _ e(2) own] False e(1,2) d True by (simp add: shrink_storage_def bindS_def seqS_def retS_def)
    next
      case neq: False
      have "mid \<noteq> []" using am neq len wh by auto
      then have "destroyed T mid \<noteq> []" by (cases mid) simp_all
      moreover have "bufs (set_cells b ?c2 h1) b = Some (sb\<lparr>cells := ?c2\<rparr>)" using sb by simp
      ultimately obtain gap where m: "length gap = length (destroyed T mid)" "no_item T gap"
          "do_move_backward T b (length pre) (length pre + length (destroyed T mid)) (length post) (set_cells b ?c2 h1) =
            (Inr (), set_cells b (pre @ post @ gap @ rest) (set_cells b ?c2 h1))"
        using move_backward_run [of "set_cells b ?c2 h1" b "sb\<lparr>cells := ?c2\<rparr>" pre "destroyed T mid" post rest T] vm(2) by auto
      have own3: "owned T (set_cells b (pre @ post @ gap @ rest) (set_cells b ?c2 h1)) b (sb\<lparr>cells := ?c2, cells := pre @ post @ gap @ rest\<rparr>) M"
        by (rule owned_set_cells [OF own]) (use m in simp)
      have "length post = ?n - wh" using wh by (simp add: post_def)
      moreover have "holds_items T (sb\<lparr>cells := ?c2, cells := pre @ post @ gap @ rest\<rparr>) ?ys"
        using rest m(2) by (intro holds_itemsI [where rest = "gap @ rest"]) (simp_all flip: pre_def post_def)
      ultimately show thesis using that [OF _ e(2) own3] False e(1,2) d neq m(3) len nt sub by (simp add: shrink_storage_def bindS_def seqS_def retS_def)
    qed
  qed
qed

lemma vec_shrink_run:
  assumes st: "vectors_in T h (add_mset (v, xs) M)" and B: "plenty B" and wh: "wh + amount \<le> length xs"
    and am: "0 < amount \<or> wh = length xs" and fit: "fits_memory T (length xs)"
  obtains v' h' where "vec_shrink B T wh amount v h = (Inr v', h')"
    and "vectors_in T h' (add_mset (v', take wh xs @ drop (wh + amount) xs) M)"
proof (cases "mStorage v")
  case None
  then have "xs = []" by (rule store_facts(3) [OF st])
  then show thesis using that [of v h] st None by (simp add: vec_shrink_def retS_def)
next
  case (Some c)
  let ?ys = "take wh xs @ drop (wh + amount) xs" and ?n = "length xs - amount"
  note v = store_facts [OF st] and g = fits_grown(4) [OF fit store_size [OF st]]
  have nt: "size_t (wh + amount) = wh + amount" "size_sub (length xs) amount = ?n"
    using g wh by (simp_all add: size_t_id size_sub_id)
  obtain b v1 sb h1 where 1: "shrink_storage B T c wh amount (cap_of T h v) ?n v h = (Inr (Some v1), h1)"
      "mStorage v1 = Some b" "owned T h1 b sb M" "holds_items T sb ?ys"
    by (rule shrink_storage_run [OF assms Some])
  have "values_ok T ?ys" by (rule values_ok_mono [OF v(2)]) (auto dest: in_set_takeD in_set_dropD)
  then have "vectors_in T h1 (add_mset (v1\<lparr>mCount := ?n\<rparr>, ?ys) M)"
    by (intro owned_store [OF 1(3)]) (use 1(2,4) wh in simp_all)
  moreover have "vec_shrink B T wh amount v h = (Inr (v1\<lparr>mCount := ?n\<rparr>), h1)"
    using 1(1) capacity_run(1) [OF st] nt wh v(1) Some by (simp add: vec_shrink_def Let_def bindS_def retS_def)
  ultimately show thesis by (rule that [rotated])
qed

end
