(* ===== verification/Vector_Lists.thy ===== *)
theory Vector_Lists
  imports Vector_Contents
begin

text \<open>
  The operations of vectors as operations on lists: one lemma for each operation, and the refinement of whole programs
  that work with any number of vectors, copy and assign them, and share storage all the time without seeing it.
\<close>

section \<open>Single operations\<close>

lemma ssize_t_id: "n < 2 ^ 63 \<Longrightarrow> ssize_t n = int n"
  by (simp add: ssize_t_def size_t_id)

lemma gap_filled:
  assumes "gapped T h v b pre (length ys) post M" and "values_ok T (pre @ ys @ post)"
  obtains sb gap rest where "bufs h b = Some sb" and "cells sb = pre @ gap @ post @ rest" and "length gap = length ys" and "no_item T gap"
    and "vectors_in T (set_cells b (pre @ ys @ post @ rest) h) (add_mset (v, pre @ ys @ post) M)"
proof -
  obtain sb gap rest where sb: "mStorage v = Some b" "owned T h b sb M" "cells sb = pre @ gap @ post @ rest" "length gap = length ys"
      "no_item T gap" "no_item T rest" "mCount v = length pre + length ys + length post"
    using assms(1) unfolding gapped_def by blast
  have "owned T (set_cells b (pre @ ys @ post @ rest) h) b (sb\<lparr>cells := pre @ ys @ post @ rest\<rparr>) M"
    by (rule owned_set_cells [OF sb(2)]) (simp add: sb)
  moreover have "holds_items T (sb\<lparr>cells := pre @ ys @ post @ rest\<rparr>) (pre @ ys @ post)"
    by (rule holds_itemsI [OF _ sb(6)]) simp
  ultimately have "vectors_in T (set_cells b (pre @ ys @ post @ rest) h) (add_mset (v, pre @ ys @ post) M)"
    using sb assms(2) by (intro owned_store) auto
  then show thesis using that sb by (auto simp: owned_def)
qed

lemma values_ok_parts: "values_ok T xs \<Longrightarrow> values_ok T (take n xs)" "values_ok T xs \<Longrightarrow> values_ok T (drop n xs)"
  by (auto elim!: values_ok_mono dest: in_set_takeD in_set_dropD)

lemma values_ok_replicate: "values_ok T (replicate n (Some x))"
  by (auto simp: values_ok_def)

text \<open>\<open>ys\<close> is put in before the element number \<open>i\<close>.\<close>

definition inserted :: "nat \<Rightarrow> 'b list \<Rightarrow> 'b list \<Rightarrow> 'b list" where
  "inserted i ys xs = take i xs @ ys @ drop i xs"

definition removed :: "nat \<Rightarrow> nat \<Rightarrow> 'b list \<Rightarrow> 'b list" where
  "removed i n xs = take i xs @ drop (i + n) xs"

lemma insertAt_run:
  assumes st: "vectors_in T h (add_mset (v, xs) M)" and B: "plenty B" and i: "i \<le> length xs" and n: "0 < n" and fit: "fits_memory T (length xs + n)"
    and item: "item = Some (Given [x], 0) \<or> (item = None \<and> \<not> trivial_ctor T \<and> x = default_item T)"
  obtains v' h' where "insertAt B T item i n v h = (Inr (int i, v'), h')"
    and "vectors_in T h' (add_mset (v', inserted i (replicate n (Some x)) xs) M)"
proof -
  note v = store_facts [OF st]
  have iz: "ssize_t i = int i" using i fit by (intro ssize_t_id) (auto simp: fits_memory_def)
  let ?ys = "replicate n (Some x)"
  obtain b v' h1 where g: "vec_grow B T i n v h = (Inr (Some b, v'), h1)" "gapped T h1 v' b (take i xs) n (drop i xs) M"
    by (rule vec_grow_run [OF st B i n fit])
  obtain sb gap rest where f: "bufs h1 b = Some sb" "cells sb = take i xs @ gap @ drop i xs @ rest" "length gap = n" "no_item T gap"
      "vectors_in T (set_cells b (take i xs @ ?ys @ drop i xs @ rest) h1) (add_mset (v', take i xs @ ?ys @ drop i xs) M)"
    by (rule gap_filled [of T h1 v' b "take i xs" ?ys "drop i xs" M])
      (use g(2) values_ok_parts [OF v(2)] in \<open>auto simp: values_ok_replicate\<close>)
  have li: "length (take i xs) = i" using i by simp
  have "do_splat T b i (Given [x]) 0 n h1 = (Inr (), set_cells b (take i xs @ ?ys @ drop i xs @ rest) h1)"
    using do_splat_run [OF f(1) f(2) f(3) f(4), of "Some x" "Given [x]" 0] unfolding li by (simp add: provides_def cell_at_def)
  moreover have "do_construct T b i n h1 = (Inr (), set_cells b (take i xs @ ?ys @ drop i xs @ rest) h1)" if "\<not> trivial_ctor T" "x = default_item T"
    using do_construct_run [OF f(1) f(2) f(3) f(4) that(1)] that(2) unfolding li by simp
  ultimately have "insertAt B T item i n v h = (Inr (int i, v'), set_cells b (take i xs @ ?ys @ drop i xs @ rest) h1)"
    using item g(1) i v(1) iz by (auto simp: insertAt_def bindS_def seqS_def retS_def)
  then show thesis using that f(5) by (simp add: inserted_def)
qed

lemma insertVectorAt_run:
  assumes st: "vectors_in T h (add_mset (v, xs) M)" and B: "plenty B" and i: "i \<le> length xs" and w: "(w, ys) \<in># M" "ys \<noteq> []"
    and fit: "fits_memory T (length xs + length ys)"
  obtains v' h' where "insertVectorAt B T w i v h = (Inr (int i, v'), h')" and "vectors_in T h' (add_mset (v', inserted i ys xs) M)"
proof -
  note v = store_facts [OF st]
  have w': "mCount w = length ys" "values_ok T ys" using store_item [OF st, of "(w, ys)"] w(1) by auto
  have iz: "ssize_t i = int i" using i fit by (intro ssize_t_id) (auto simp: fits_memory_def)
  obtain b v' h1 where g: "vec_grow B T i (length ys) v h = (Inr (Some b, v'), h1)" "gapped T h1 v' b (take i xs) (length ys) (drop i xs) M"
    by (rule vec_grow_run [OF st B i _ fit]) (use w(2) in auto)
  obtain sb gap rest where f: "bufs h1 b = Some sb" "cells sb = take i xs @ gap @ drop i xs @ rest" "length gap = length ys" "no_item T gap"
      "vectors_in T (set_cells b (take i xs @ ys @ drop i xs @ rest) h1) (add_mset (v', take i xs @ ys @ drop i xs) M)"
    by (rule gap_filled [of T h1 v' b "take i xs" ys "drop i xs" M]) (use g(2) values_ok_parts [OF v(2)] w' in auto)
  have li: "length (take i xs) = i" using i by simp
  obtain sb' where own: "owned T h1 b sb' M" using g(2) unfolding gapped_def by blast
  then have "b \<notin> {c. mStorage w = Some c}" "bufs h1 b = Some sb'" using owned_not [OF own w(1)] by (auto simp: owned_def)
  then have "do_copy T b (length (take i xs)) (arrayImpl w) 0 (length ys) h1 = (Inr (), set_cells b (take i xs @ take (length ys) (drop 0 ys) @ drop i xs @ rest) h1)"
    using f by (intro copy_items [OF own w(1), where gap = gap]) auto
  then have "insertVectorAt B T w i v h = (Inr (int i, v'), set_cells b (take i xs @ ys @ drop i xs @ rest) h1)"
    using g(1) i v(1) iz w' li by (simp add: insertVectorAt_def insertArrayAt_def bindS_def seqS_def retS_def)
  then show thesis using that f(5) by (simp add: inserted_def)
qed

lemma removeItemsAt_run:
  assumes st: "vectors_in T h (add_mset (v, xs) M)" and B: "plenty B" and i: "i + n \<le> length xs" "0 < n \<or> i = length xs"
    and fit: "fits_memory T (length xs)"
  obtains v' h' where "removeItemsAt B T i n v h = (Inr (int i, v'), h')" and "vectors_in T h' (add_mset (v', removed i n xs) M)"
proof -
  obtain v' h' where "vec_shrink B T i n v h = (Inr v', h')" "vectors_in T h' (add_mset (v', removed i n xs) M)"
    using vec_shrink_run [OF st B i fit] unfolding removed_def by metis
  moreover have "ssize_t i = int i" "size_t (i + n) = i + n" using i fit by (auto simp: fits_memory_def intro!: ssize_t_id size_t_id)
  ultimately show thesis using that i store_facts(1) [OF st] by (simp add: removeItemsAt_def bindS_def retS_def)
qed

lemma vec_clear_run:
  assumes st: "vectors_in T h (add_mset (v, xs) M)" and B: "plenty B" and fit: "fits_memory T (length xs)"
  obtains v' h' where "vec_clear B T v h = (Inr v', h')" and "vectors_in T h' (add_mset (v', []) M)"
  using vec_shrink_run [OF st B, of 0 "length xs"] fit store_facts(1) [OF st] unfolding vec_clear_def by auto

text \<open>Only a type with a constructor gives the new elements of a vector that grows a value.\<close>

definition resized :: "nat \<Rightarrow> 'b \<Rightarrow> 'b list \<Rightarrow> 'b list" where
  "resized n x xs = take n xs @ replicate (n - length xs) x"

lemma vec_resize_run:
  assumes st: "vectors_in T h (add_mset (v, xs) M)" and B: "plenty B" and fit: "fits_memory T (max n (length xs))"
    and ctor: "length xs < n \<Longrightarrow> \<not> trivial_ctor T"
  obtains v' h' where "vec_resize B T n v h = (Inr (int n, v'), h')"
    and "vectors_in T h' (add_mset (v', resized n (Some (default_item T)) xs) M)"
proof -
  have m: "mCount v = length xs" by (rule store_facts(1) [OF st])
  have nz: "ssize_t n = int n" using fit by (intro ssize_t_id) (auto simp: fits_memory_def max_def split: if_splits)
  consider "n < length xs" | "n = length xs" | "length xs < n" by linarith
  then show thesis
  proof cases
    case 1
    have "fits_memory T (length xs)" using fit 1 by (simp add: max_def)
    then obtain v' h' where "removeItemsAt B T n (length xs - n) v h = (Inr (int n, v'), h')"
        "vectors_in T h' (add_mset (v', removed n (length xs - n) xs) M)"
      using removeItemsAt_run [OF st B, of n "length xs - n"] 1 by auto
    then show thesis using that 1 m nz by (simp add: vec_resize_def resized_def removed_def bindS_def retS_def)
  next
    case 2
    then show thesis using that [of v h] st m nz by (simp add: vec_resize_def resized_def bindS_def retS_def)
  next
    case 3
    have "fits_memory T (length xs + (n - length xs))" using fit 3 by (simp add: max_def)
    then obtain v' h' where "insertAt B T None (length xs) (n - length xs) v h = (Inr (int (length xs), v'), h')"
        "vectors_in T h' (add_mset (v', inserted (length xs) (replicate (n - length xs) (Some (default_item T))) xs) M)"
      using insertAt_run [OF st B, of "length xs" "n - length xs" None "default_item T"] ctor 3 by auto
    then show thesis using that 3 m nz by (simp add: vec_resize_def resized_def inserted_def bindS_def retS_def)
  qed
qed

text \<open>A place for an element is written to: the vector is the only owner of its buffer then.\<close>

lemma editItemLocation_run:
  assumes st: "vectors_in T h (add_mset (v, xs) M)" and B: "plenty B" and i: "i < length xs"
  obtains v' h' b sb where "editItemLocation B T i v h = (Inr (Some b, v'), h')" and "mStorage v' = Some b" and "mCount v' = length xs"
    and "owned T h' b sb M" and "holds_items T sb xs" and "i < length (cells sb)"
proof -
  note cap = capacity_run [OF st] and v = store_facts [OF st]
  obtain c where c: "mStorage v = Some c" using v(3) i by (cases "mStorage v") auto
  obtain v' h' b sb where e: "editArrayImpl B T v h = (Inr v', h')" "mStorage v' = Some b" "mCount v' = mCount v"
      "owned T h' b sb M" "holds_items T sb xs"
    by (rule editArrayImpl_run [OF st B c])
  then have "editItemLocation B T i v h = (Inr (Some b, v'), h')" using cap i by (simp add: editItemLocation_def bindS_def retS_def)
  then show thesis using that [of b v' h' sb] e v(1) i by (simp add: holds_items_def)
qed

lemma owned_update:
  assumes own: "owned T h b sb M" and items: "holds_items T sb xs" and i: "i < length xs" and ok: "values_ok T (xs[i := c])"
    and v: "mStorage v = Some b" "mCount v = length xs"
  shows "vectors_in T (set_cells b ((cells sb)[i := c]) h) (add_mset (v, xs[i := c]) M)"
proof (rule owned_store)
  show "owned T (set_cells b ((cells sb)[i := c]) h) b (sb\<lparr>cells := (cells sb)[i := c]\<rparr>) M"
    by (rule owned_set_cells [OF own]) simp
  have "take (length xs) ((cells sb)[i := c]) = (take (length xs) (cells sb))[i := c]" by (simp add: take_update_swap)
  moreover have "drop (length xs) ((cells sb)[i := c]) = drop (length xs) (cells sb)" using i by simp
  ultimately show "holds_items T (sb\<lparr>cells := (cells sb)[i := c]\<rparr>) (xs[i := c])"
    using items by (simp add: holds_items_def)
qed (use v ok in simp_all)

lemma values_ok_update: "values_ok T xs \<Longrightarrow> values_ok T (xs[i := Some x])"
  unfolding values_ok_def by (auto dest: set_update_subset_insert [THEN subsetD])

lemma replaceAt_run:
  assumes st: "vectors_in T h (add_mset (v, xs) M)" and B: "plenty B" and i: "i < length xs" and fit: "fits_memory T (length xs)"
  obtains v' h' where "replaceAt B T (Some (Given [x], 0)) i v h = (Inr (int i, v'), h')"
    and "vectors_in T h' (add_mset (v', xs[i := Some x]) M)"
proof -
  note v = store_facts [OF st]
  have iz: "ssize_t i = int i" using i fit by (intro ssize_t_id) (auto simp: fits_memory_def)
  obtain v' h1 b sb where e: "editItemLocation B T i v h = (Inr (Some b, v'), h1)" "mStorage v' = Some b" "mCount v' = length xs"
      "owned T h1 b sb M" "holds_items T sb xs" "i < length (cells sb)"
    by (rule editItemLocation_run [OF st B i])
  let ?d = "if trivial_dtor T then cells sb ! i else None"
  let ?pre = "take i (cells sb)" and ?rest = "drop (Suc i) (cells sb)" and ?x = "Some x"
  have cs: "cells sb = ?pre @ cells sb ! i # ?rest" "length ?pre = i" using e(6) by (simp_all add: id_take_nth_drop)
  have sb: "bufs h1 b = Some sb" using e(4) by (simp add: owned_def)
  have "cells sb ! i = xs ! i" using e(5) i by (metis holds_items_def nth_take)
  then have ok: "values_ok T [cells sb ! i]" using v(2) i by (auto simp: values_ok_def in_set_conv_nth)
  have 1: "do_destroy T b i 1 h1 = (Inr (), set_cells b (?pre @ ?d # ?rest) h1)"
    using destroy_cell_run [OF sb cs(1) ok] cs(2) by (simp add: seqS_def bindS_def retS_def)
  have 2: "do_copy T b i (Given [x]) 0 1 (set_cells b (?pre @ ?d # ?rest) h1) = (Inr (), set_cells b (?pre @ ?x # ?rest) h1)"
    using do_copy_run [of "set_cells b (?pre @ ?d # ?rest) h1" b "sb\<lparr>cells := ?pre @ ?d # ?rest\<rparr>" ?pre "[?d]" ?rest "[?x]" T "Given [x]" 0]
      cs(2) sb by (simp add: provides_def cell_at_def)
  have "?pre @ ?x # ?rest = (cells sb)[i := ?x]" using e(6) by (simp add: upd_conv_take_nth_drop)
  then have "replaceAt B T (Some (Given [x], 0)) i v h = (Inr (int i, v'), set_cells b ((cells sb)[i := ?x]) h1)"
    using e(1) 1 2 i v(1) iz by (simp add: replaceAt_def bindS_def seqS_def retS_def)
  then show thesis using that owned_update [OF e(4,5) i values_ok_update [OF v(2)] e(2,3)] by blast
qed

lemma editItemAt_run:
  assumes st: "vectors_in T h (add_mset (v, xs) M)" and B: "plenty B" and i: "i < length xs"
  obtains v' h' where "editItemAt B T i f v h = (Inr v', h')" and "vectors_in T h' (add_mset (v', xs[i := Some (f (xs ! i))]) M)"
proof -
  note v = store_facts [OF st]
  obtain v' h1 b sb where e: "editItemLocation B T i v h = (Inr (Some b, v'), h1)" "mStorage v' = Some b" "mCount v' = length xs"
      "owned T h1 b sb M" "holds_items T sb xs" "i < length (cells sb)"
    by (rule editItemLocation_run [OF st B i])
  have sb: "bufs h1 b = Some sb" using e(4) by (simp add: owned_def)
  have "cells sb ! i = xs ! i" using e(5) i by (metis holds_items_def nth_take)
  then have "editItemAt B T i f v h = (Inr v', set_cells b ((cells sb)[i := Some (f (xs ! i))]) h1)"
    using e(1,6) sb by (simp add: editItemAt_def bindS_def seqS_def retS_def set_buf_cells)
  then show thesis using that owned_update [OF e(4,5) i values_ok_update [OF v(2)] e(2,3)] by blast
qed

lemma setCapacity_run:
  assumes st: "vectors_in T h (add_mset (v, xs) M)" and B: "plenty B" and n: "n * item_size T < size_max - buffer_header_size"
  obtains r v' h' where "setCapacity B T n v h = (Inr (r, v'), h')" and "vectors_in T h' (add_mset (v', xs) M)"
    and "length xs < n \<Longrightarrow> r = ssize_t n"
proof (cases "n \<le> length xs")
  case True
  then have "setCapacity B T n v h = (Inr (ssize_t (cap_of T h v), v), h)"
    using capacity_run(1) [OF st] store_facts(1) [OF st] by (simp add: setCapacity_def bindS_def retS_def)
  then show thesis using that st True by simp
next
  case False
  let ?bytes = "n * item_size T"
  note v = store_facts [OF st]
  have b: "size_t ?bytes = ?bytes" using n by (intro size_t_id) (simp add: size_max_def buffer_header_size_def)
  obtain b sb rest h1 where r: "relocate B T ?bytes (length xs) (length xs) (length xs) 0 v h = (Inr (Some (v\<lparr>mStorage := Some b\<rparr>)), h1)"
      "owned T h1 b sb M" "cells sb = take (length xs) xs @ replicate (length xs - length xs) None @ drop (length xs) xs @ rest" "no_item T rest"
    by (rule relocate_run [OF st B n, of "length xs" "length xs" "length xs" 0]) (use False store_size [OF st] in auto)
  have "setCapacity B T n v h = (Inr (ssize_t n, v\<lparr>mStorage := Some b\<rparr>), h1)"
    using r(1) False v(1) b
    by (auto simp: setCapacity_def relocate_def bindS_def seqS_def retS_def split: prod.splits sum.splits option.splits)
  moreover have "vectors_in T h1 (add_mset (v\<lparr>mStorage := Some b\<rparr>, xs) M)"
    by (rule owned_store [OF r(2)]) (use v r(3,4) in \<open>auto intro: holds_itemsI\<close>)
  ultimately show thesis using that by blast
qed

lemma copy_run:
  assumes st: "vectors_in T h M" and w: "(w, ys) \<in># M"
  obtains h' where "VectorImpl_copy w h = (Inr w, h')" and "vectors_in T h' (add_mset (w, ys) M)"
proof -
  obtain N where M: "M = add_mset (w, ys) N" using w by (meson mset_add)
  show thesis
  proof (cases "mStorage w")
    case None
    have "vectors_in T h (add_mset (w, ys) M)"
      by (rule storeI) (use st w None store_item [OF st] store_size [OF st] store_buf [OF st] in \<open>auto simp: owners_add\<close>)
    then show thesis using that None by (simp add: VectorImpl_copy_def seqS_def bindS_def retS_def)
  next
    case (Some b)
    obtain h' where "SB_acquire b h = (Inr (), h')" "vectors_in T h' (add_mset (w, ys) M)"
      using acquire_run [OF st [unfolded M] Some] M by metis
    then show thesis using that Some by (simp add: VectorImpl_copy_def seqS_def bindS_def retS_def)
  qed
qed

lemma release_run:
  assumes st: "vectors_in T h (add_mset (v, xs) M)"
  shows "release_storage T v h = (Inr (), released v h)" and "vectors_in T (released v h) M"
  using release_storage_run [OF store_item [OF st]] store_buf(4) [OF st] released_store [OF st] by auto

lemma store_empty: "vectors_in T h M \<Longrightarrow> vectors_in T h (add_mset (VectorImpl, []) M)"
  by (rule storeI) (auto simp: owners_add VectorImpl_def dest: store_size store_item store_buf)

lemma assign_run:
  assumes st: "vectors_in T h (add_mset (v, xs) M)" and w: "(w, ys) \<in># M"
  obtains v' h' where "VectorImpl_assign T w v h = (Inr v', h')" and "vectors_in T h' (add_mset (v', ys) M)"
proof -
  note rel = release_run [OF st]
  have w': "holding_ok T (released v h) (w, ys)" by (rule store_item [OF rel(2) w])
  show thesis
  proof (cases "ys = []")
    case True
    then have "VectorImpl_assign T w v h = (Inr VectorImpl, released v h)"
      using rel(1) w' by (simp add: VectorImpl_assign_def seqS_def bindS_def retS_def)
    then show thesis using that store_empty [OF rel(2)] True by simp
  next
    case False
    then obtain b where b: "mStorage w = Some b" using w' by (auto split: option.splits)
    obtain h' where c: "VectorImpl_copy w (released v h) = (Inr w, h')" "vectors_in T h' (add_mset (w, ys) M)"
      by (rule copy_run [OF rel(2) w])
    have "VectorImpl_assign T w v h = (Inr w, h')"
      using rel(1) c(1) w' b False
      by (auto simp: VectorImpl_assign_def VectorImpl_copy_def seqS_def bindS_def retS_def split: prod.splits sum.splits)
    then show thesis using that c(2) by blast
  qed
qed

lemma finish_run:
  assumes st: "vectors_in T h (add_mset (v, xs) M)"
  obtains v' h' where "finish_vector T v h = (Inr v', h')" and "vectors_in T h' (add_mset (v', []) M)"
proof -
  note rel = release_run [OF st]
  have "finish_vector T v h = (Inr VectorImpl, released v h)"
    using rel(1) by (simp add: finish_vector_def VectorImpl_def seqS_def bindS_def retS_def)
  then show thesis using that store_empty [OF rel(2)] by blast
qed

section \<open>Sequences of operations\<close>

text \<open>Commands are carried out one after the other; their results are collected.\<close>

primrec run_commands :: "('c \<Rightarrow> 's \<Rightarrow> ('h, 'r \<times> 's) comp) \<Rightarrow> 'c list \<Rightarrow> 's \<Rightarrow> ('h, 'r list \<times> 's) comp" where
  "run_commands step [] s = retS ([], s)"
| "run_commands step (c # cs) s =
     bindS (step c s) (\<lambda>(r, s). bindS (run_commands step cs s) (\<lambda>(rs, s). retS (r # rs, s)))"

primrec spec_commands :: "('c \<Rightarrow> 'a \<Rightarrow> 'r \<times> 'a) \<Rightarrow> 'c list \<Rightarrow> 'a \<Rightarrow> 'r list \<times> 'a" where
  "spec_commands spec [] a = ([], a)"
| "spec_commands spec (c # cs) a =
     (let (r, a) = spec c a; (rs, a) = spec_commands spec cs a in (r # rs, a))"

primrec all_allowed :: "('c \<Rightarrow> 'a \<Rightarrow> bool) \<Rightarrow> ('c \<Rightarrow> 'a \<Rightarrow> 'r \<times> 'a) \<Rightarrow> 'c list \<Rightarrow> 'a \<Rightarrow> bool" where
  "all_allowed ok spec [] a \<longleftrightarrow> True"
| "all_allowed ok spec (c # cs) a \<longleftrightarrow> ok c a \<and> all_allowed ok spec cs (snd (spec c a))"

text \<open>An implementation of commands over a heap and their specification: each allowed command gives the specified result and keeps
  the relation.\<close>

locale command_refinement =
  fixes step :: "'c \<Rightarrow> 's \<Rightarrow> ('h, 'r \<times> 's) comp" and spec :: "'c \<Rightarrow> 'a \<Rightarrow> 'r \<times> 'a"
    and rel :: "'h \<Rightarrow> 's \<Rightarrow> 'a \<Rightarrow> bool" and ok :: "'c \<Rightarrow> 'a \<Rightarrow> bool"
  assumes step_refines: "rel h s a \<Longrightarrow> ok c a \<Longrightarrow> \<exists>s' h'. step c s h = (Inr (fst (spec c a), s'), h') \<and> rel h' s' (snd (spec c a))"
begin

lemma commands_refine:
  "rel h s a \<Longrightarrow> all_allowed ok spec cs a \<Longrightarrow>
   \<exists>s' h'. run_commands step cs s h = (Inr (fst (spec_commands spec cs a), s'), h') \<and> rel h' s' (snd (spec_commands spec cs a))"
proof (induction cs arbitrary: h s a)
  case Nil
  then show ?case by (simp add: retS_def)
next
  case (Cons c cs)
  then obtain s1 h1 where "step c s h = (Inr (fst (spec c a), s1), h1)" "rel h1 s1 (snd (spec c a))"
    using step_refines [of h s a c] by auto
  moreover from Cons.IH [OF this(2)] Cons.prems obtain s2 h2 where
    "run_commands step cs s1 h1 = (Inr (fst (spec_commands spec cs (snd (spec c a))), s2), h2)"
    "rel h2 s2 (snd (spec_commands spec cs (snd (spec c a))))" by auto
  ultimately show ?case by (auto simp: bindS_def retS_def split: prod.split)
qed

end

text \<open>A program with numbered vectors.\<close>

datatype 'a vec_command =
    Make
  | CopyOf nat
  | AssignFrom nat nat
  | Put nat nat nat 'a
  | PutDefault nat nat nat
  | PutVector nat nat nat
  | Remove nat nat nat
  | Replace nat nat 'a
  | Edit nat nat 'a
  | Clear nat
  | Reserve nat nat
  | Resize nat nat
  | Finish nat

definition on_vec :: "nat \<Rightarrow> vector list \<Rightarrow> ('a, int \<times> vector) vec_op \<Rightarrow> ('a, int \<times> vector list) vec_op" where
  "on_vec i vs m = bindS m (\<lambda>(r, v). retS (r, vs[i := v]))"

definition no_result :: "('a, vector) vec_op \<Rightarrow> ('a, int \<times> vector) vec_op" where
  "no_result m = bindS m (\<lambda>v. retS (0, v))"

primrec vec_step :: "build \<Rightarrow> 'a elem_type \<Rightarrow> 'a vec_command \<Rightarrow> vector list \<Rightarrow> ('a, int \<times> vector list) vec_op" where
  "vec_step B T Make vs = retS (0, vs @ [VectorImpl])"
| "vec_step B T (CopyOf j) vs = bindS (VectorImpl_copy (vs ! j)) (\<lambda>v. retS (0, vs @ [v]))"
| "vec_step B T (AssignFrom i j) vs = on_vec i vs (no_result (VectorImpl_assign T (vs ! j) (vs ! i)))"
| "vec_step B T (Put i k n x) vs = on_vec i vs (insertAt B T (Some (Given [x], 0)) k n (vs ! i))"
| "vec_step B T (PutDefault i k n) vs = on_vec i vs (insertAt B T None k n (vs ! i))"
| "vec_step B T (PutVector i j k) vs = on_vec i vs (insertVectorAt B T (vs ! j) k (vs ! i))"
| "vec_step B T (Remove i k n) vs = on_vec i vs (removeItemsAt B T k n (vs ! i))"
| "vec_step B T (Replace i k x) vs = on_vec i vs (replaceAt B T (Some (Given [x], 0)) k (vs ! i))"
| "vec_step B T (Edit i k x) vs = on_vec i vs (no_result (editItemAt B T k (\<lambda>_. x) (vs ! i)))"
| "vec_step B T (Clear i) vs = on_vec i vs (no_result (vec_clear B T (vs ! i)))"
| "vec_step B T (Reserve i n) vs = on_vec i vs (bindS (setCapacity B T n (vs ! i)) (\<lambda>(_, v). retS (0, v)))"
| "vec_step B T (Resize i n) vs = on_vec i vs (vec_resize B T n (vs ! i))"
| "vec_step B T (Finish i) vs = on_vec i vs (no_result (finish_vector T (vs ! i)))"

text \<open>The same with lists, of which none shares anything.\<close>

primrec list_step :: "'a elem_type \<Rightarrow> 'a vec_command \<Rightarrow> 'a option list list \<Rightarrow> int \<times> 'a option list list" where
  "list_step T Make xss = (0, xss @ [[]])"
| "list_step T (CopyOf j) xss = (0, xss @ [xss ! j])"
| "list_step T (AssignFrom i j) xss = (0, xss[i := xss ! j])"
| "list_step T (Put i k n x) xss = (int k, xss[i := inserted k (replicate n (Some x)) (xss ! i)])"
| "list_step T (PutDefault i k n) xss = (int k, xss[i := inserted k (replicate n (Some (default_item T))) (xss ! i)])"
| "list_step T (PutVector i j k) xss = (int k, xss[i := inserted k (xss ! j) (xss ! i)])"
| "list_step T (Remove i k n) xss = (int k, xss[i := removed k n (xss ! i)])"
| "list_step T (Replace i k x) xss = (int k, xss[i := (xss ! i)[k := Some x]])"
| "list_step T (Edit i k x) xss = (0, xss[i := (xss ! i)[k := Some x]])"
| "list_step T (Clear i) xss = (0, xss[i := []])"
| "list_step T (Reserve i n) xss = (0, xss)"
| "list_step T (Resize i n) xss = (int n, xss[i := resized n (Some (default_item T)) (xss ! i)])"
| "list_step T (Finish i) xss = (0, xss[i := []])"

text \<open>Indices are in range, something is inserted or removed, no vector is inserted into itself, and sizes fit.\<close>

primrec vec_allowed :: "'a elem_type \<Rightarrow> 'a vec_command \<Rightarrow> 'a option list list \<Rightarrow> bool" where
  "vec_allowed T Make xss \<longleftrightarrow> True"
| "vec_allowed T (CopyOf j) xss \<longleftrightarrow> j < length xss"
| "vec_allowed T (AssignFrom i j) xss \<longleftrightarrow> i < length xss \<and> j < length xss \<and> i \<noteq> j"
| "vec_allowed T (Put i k n x) xss \<longleftrightarrow> i < length xss \<and> k \<le> length (xss ! i) \<and> 0 < n \<and> fits_memory T (length (xss ! i) + n)"
| "vec_allowed T (PutDefault i k n) xss \<longleftrightarrow> i < length xss \<and> k \<le> length (xss ! i) \<and> 0 < n \<and> fits_memory T (length (xss ! i) + n) \<and> \<not> trivial_ctor T"
| "vec_allowed T (PutVector i j k) xss \<longleftrightarrow> i < length xss \<and> j < length xss \<and> i \<noteq> j \<and> k \<le> length (xss ! i) \<and> xss ! j \<noteq> [] \<and>
     fits_memory T (length (xss ! i) + length (xss ! j))"
| "vec_allowed T (Remove i k n) xss \<longleftrightarrow> i < length xss \<and> k + n \<le> length (xss ! i) \<and> 0 < n \<and> fits_memory T (length (xss ! i))"
| "vec_allowed T (Replace i k x) xss \<longleftrightarrow> i < length xss \<and> k < length (xss ! i) \<and> fits_memory T (length (xss ! i))"
| "vec_allowed T (Edit i k x) xss \<longleftrightarrow> i < length xss \<and> k < length (xss ! i)"
| "vec_allowed T (Clear i) xss \<longleftrightarrow> i < length xss \<and> fits_memory T (length (xss ! i))"
| "vec_allowed T (Reserve i n) xss \<longleftrightarrow> i < length xss \<and> n * item_size T < size_max - buffer_header_size"
| "vec_allowed T (Resize i n) xss \<longleftrightarrow> i < length xss \<and> fits_memory T (max n (length (xss ! i))) \<and>
     (length (xss ! i) < n \<longrightarrow> \<not> trivial_ctor T)"
| "vec_allowed T (Finish i) xss \<longleftrightarrow> i < length xss"

definition vec_rel :: "'a elem_type \<Rightarrow> 'a vec_heap \<Rightarrow> vector list \<Rightarrow> 'a option list list \<Rightarrow> bool" where
  "vec_rel T h vs xss \<longleftrightarrow> length vs = length xss \<and> vectors_in T h (mset (zip vs xss))"

lemma mset_nth_split:
  assumes "i < length zs"
  obtains M where "mset zs = add_mset (zs ! i) M" and "\<And>z. mset (zs[i := z]) = add_mset z M"
    and "\<And>j. j < length zs \<Longrightarrow> i \<noteq> j \<Longrightarrow> zs ! j \<in># M"
proof -
  let ?ws = "take i zs @ drop (Suc i) zs"
  have 1: "mset zs = add_mset (zs ! i) (mset ?ws)" by (subst id_take_nth_drop [OF assms]) simp
  have 2: "mset (zs[i := z]) = add_mset z (mset ?ws)" for z by (simp add: upd_conv_take_nth_drop [OF assms])
  have 3: "zs ! j \<in># mset ?ws" if j: "j < length zs" "i \<noteq> j" for j
  proof (cases "j < i")
    case True
    then have "zs ! j = take i zs ! j" "j < length (take i zs)" using assms by simp_all
    then show ?thesis by (metis Un_iff nth_mem set_append set_mset_mset)
  next
    case False
    then have "zs ! j = drop (Suc i) zs ! (j - Suc i)" "j - Suc i < length (drop (Suc i) zs)" using j by simp_all
    then show ?thesis by (metis Un_iff nth_mem set_append set_mset_mset)
  qed
  show thesis using that [OF 1 2 3] .
qed

lemma vec_rel_split:
  assumes "vec_rel T h vs xss" and "i < length xss"
  obtains M where "vectors_in T h (add_mset (vs ! i, xss ! i) M)"
    and "\<And>h' v xs. vectors_in T h' (add_mset (v, xs) M) \<Longrightarrow> vec_rel T h' (vs[i := v]) (xss[i := xs])"
    and "\<And>j. j < length xss \<Longrightarrow> i \<noteq> j \<Longrightarrow> (vs ! j, xss ! j) \<in># M"
proof -
  have len: "length vs = length xss" using assms(1) by (simp add: vec_rel_def)
  obtain M where M: "mset (zip vs xss) = add_mset (zip vs xss ! i) M" "\<And>z. mset ((zip vs xss)[i := z]) = add_mset z M"
      "\<And>j. j < length (zip vs xss) \<Longrightarrow> i \<noteq> j \<Longrightarrow> zip vs xss ! j \<in># M"
    using mset_nth_split [of i "zip vs xss"] assms(2) len by auto
  show thesis
    by (rule that [of M]) (use assms M len in \<open>simp_all add: vec_rel_def zip_update\<close>)
qed

lemma on_vec_refines:
  assumes "vec_rel T h vs xss" and "i < length xss"
    and "\<And>M. vectors_in T h (add_mset (vs ! i, xss ! i) M) \<Longrightarrow> (\<And>j. j < length xss \<Longrightarrow> i \<noteq> j \<Longrightarrow> (vs ! j, xss ! j) \<in># M) \<Longrightarrow>
      \<exists>v' h'. m h = (Inr (r, v'), h') \<and> vectors_in T h' (add_mset (v', ys) M)"
  shows "\<exists>vs' h'. on_vec i vs m h = (Inr (r, vs'), h') \<and> vec_rel T h' vs' (xss[i := ys])"
proof -
  obtain M where M: "vectors_in T h (add_mset (vs ! i, xss ! i) M)"
      "\<And>h' v xs. vectors_in T h' (add_mset (v, xs) M) \<Longrightarrow> vec_rel T h' (vs[i := v]) (xss[i := xs])"
      "\<And>j. j < length xss \<Longrightarrow> i \<noteq> j \<Longrightarrow> (vs ! j, xss ! j) \<in># M"
    by (rule vec_rel_split [OF assms(1,2)]) blast
  obtain v' h' where "m h = (Inr (r, v'), h')" "vectors_in T h' (add_mset (v', ys) M)" using assms(3) [OF M(1,3)] by blast
  then show ?thesis using M(2) by (auto simp: on_vec_def bindS_def retS_def)
qed

lemma no_result_run: "m h = (Inr v, h') \<Longrightarrow> no_result m h = (Inr (0, v), h')"
  by (simp add: no_result_def bindS_def retS_def)

lemma vec_step_refines:
  assumes rel: "vec_rel T h vs xss" and ok: "vec_allowed T c xss" and B: "plenty B"
  shows "\<exists>vs' h'. vec_step B T c vs h = (Inr (fst (list_step T c xss), vs'), h') \<and> vec_rel T h' vs' (snd (list_step T c xss))"
proof (cases c)
  case Make
  have "vec_rel T h (vs @ [VectorImpl]) (xss @ [[]])" using rel store_empty by (auto simp: vec_rel_def)
  then show ?thesis using Make by (simp add: retS_def)
next
  case (CopyOf j)
  have len: "length vs = length xss" and st: "vectors_in T h (mset (zip vs xss))" using rel by (simp_all add: vec_rel_def)
  have "(vs ! j, xss ! j) \<in> set (zip vs xss)" using CopyOf ok len by (auto simp: set_zip)
  then obtain h' where "VectorImpl_copy (vs ! j) h = (Inr (vs ! j), h')" "vectors_in T h' (add_mset (vs ! j, xss ! j) (mset (zip vs xss)))"
    using copy_run [OF st, of "vs ! j" "xss ! j"] by auto
  then show ?thesis using CopyOf len by (simp add: vec_rel_def bindS_def retS_def)
next
  case (AssignFrom i j)
  have "\<exists>vs' h'. on_vec i vs (no_result (VectorImpl_assign T (vs ! j) (vs ! i))) h = (Inr (0, vs'), h') \<and> vec_rel T h' vs' (xss[i := xss ! j])"
  proof (rule on_vec_refines [OF rel])
    fix M assume st: "vectors_in T h (add_mset (vs ! i, xss ! i) M)" and others: "\<And>k. k < length xss \<Longrightarrow> i \<noteq> k \<Longrightarrow> (vs ! k, xss ! k) \<in># M"
    have "(vs ! j, xss ! j) \<in># M" using others [of j] AssignFrom ok by simp
    then show "\<exists>v' h'. no_result (VectorImpl_assign T (vs ! j) (vs ! i)) h = (Inr (0, v'), h') \<and> vectors_in T h' (add_mset (v', xss ! j) M)"
      by (rule assign_run [OF st]) (auto intro: no_result_run)
  qed (use AssignFrom ok in simp)
  then show ?thesis using AssignFrom by simp
next
  case (Put i k n x)
  have "\<exists>vs' h'. on_vec i vs (insertAt B T (Some (Given [x], 0)) k n (vs ! i)) h = (Inr (int k, vs'), h') \<and>
      vec_rel T h' vs' (xss[i := inserted k (replicate n (Some x)) (xss ! i)])"
    by (rule on_vec_refines [OF rel]) (use Put ok in simp, rule insertAt_run [OF _ B, where item = "Some (Given [x], 0)" and x = x], use Put ok in auto)
  then show ?thesis using Put by simp
next
  case (PutDefault i k n)
  have "\<exists>vs' h'. on_vec i vs (insertAt B T None k n (vs ! i)) h = (Inr (int k, vs'), h') \<and>
      vec_rel T h' vs' (xss[i := inserted k (replicate n (Some (default_item T))) (xss ! i)])"
    by (rule on_vec_refines [OF rel]) (use PutDefault ok in simp, rule insertAt_run [OF _ B, where item = None and x = "default_item T"], use PutDefault ok in auto)
  then show ?thesis using PutDefault by simp
next
  case (PutVector i j k)
  have "\<exists>vs' h'. on_vec i vs (insertVectorAt B T (vs ! j) k (vs ! i)) h = (Inr (int k, vs'), h') \<and>
      vec_rel T h' vs' (xss[i := inserted k (xss ! j) (xss ! i)])"
    by (rule on_vec_refines [OF rel]) (use PutVector ok in simp, rule insertVectorAt_run [OF _ B], use PutVector ok in auto)
  then show ?thesis using PutVector by simp
next
  case (Remove i k n)
  have "\<exists>vs' h'. on_vec i vs (removeItemsAt B T k n (vs ! i)) h = (Inr (int k, vs'), h') \<and> vec_rel T h' vs' (xss[i := removed k n (xss ! i)])"
    by (rule on_vec_refines [OF rel]) (use Remove ok in simp, rule removeItemsAt_run [OF _ B], use Remove ok in auto)
  then show ?thesis using Remove by simp
next
  case (Replace i k x)
  have "\<exists>vs' h'. on_vec i vs (replaceAt B T (Some (Given [x], 0)) k (vs ! i)) h = (Inr (int k, vs'), h') \<and>
      vec_rel T h' vs' (xss[i := (xss ! i)[k := Some x]])"
    by (rule on_vec_refines [OF rel]) (use Replace ok in simp, rule replaceAt_run [OF _ B], use Replace ok in auto)
  then show ?thesis using Replace by simp
next
  case (Edit i k x)
  have "\<exists>vs' h'. on_vec i vs (no_result (editItemAt B T k (\<lambda>_. x) (vs ! i))) h = (Inr (0, vs'), h') \<and>
      vec_rel T h' vs' (xss[i := (xss ! i)[k := Some x]])"
    by (rule on_vec_refines [OF rel]) (use Edit ok in simp, rule editItemAt_run [OF _ B, where f = "\<lambda>_. x"], use Edit ok in \<open>auto intro: no_result_run\<close>)
  then show ?thesis using Edit by simp
next
  case (Clear i)
  have "\<exists>vs' h'. on_vec i vs (no_result (vec_clear B T (vs ! i))) h = (Inr (0, vs'), h') \<and> vec_rel T h' vs' (xss[i := []])"
    by (rule on_vec_refines [OF rel]) (use Clear ok in simp, rule vec_clear_run [OF _ B], use Clear ok in \<open>auto intro: no_result_run\<close>)
  then show ?thesis using Clear by simp
next
  case (Reserve i n)
  have "\<exists>vs' h'. on_vec i vs (bindS (setCapacity B T n (vs ! i)) (\<lambda>(_, v). retS (0, v))) h = (Inr (0, vs'), h') \<and> vec_rel T h' vs' (xss[i := xss ! i])"
    by (rule on_vec_refines [OF rel]) (use Reserve ok in simp, rule setCapacity_run [OF _ B, where n = n], use Reserve ok in \<open>auto simp: bindS_def retS_def\<close>)
  then show ?thesis using Reserve by simp
next
  case (Resize i n)
  have "\<exists>vs' h'. on_vec i vs (vec_resize B T n (vs ! i)) h = (Inr (int n, vs'), h') \<and>
      vec_rel T h' vs' (xss[i := resized n (Some (default_item T)) (xss ! i)])"
    by (rule on_vec_refines [OF rel]) (use Resize ok in simp, rule vec_resize_run [OF _ B, where n = n], use Resize ok in auto)
  then show ?thesis using Resize by simp
next
  case (Finish i)
  have "\<exists>vs' h'. on_vec i vs (no_result (finish_vector T (vs ! i))) h = (Inr (0, vs'), h') \<and> vec_rel T h' vs' (xss[i := []])"
    by (rule on_vec_refines [OF rel]) (use Finish ok in simp, rule finish_run, use Finish ok in \<open>auto intro: no_result_run\<close>)
  then show ?thesis using Finish by simp
qed

definition no_vectors :: "'a vec_heap" where
  "no_vectors = \<lparr>bufs = Map.empty, next_buf = 0\<rparr>"

lemma vec_rel_empty: "item_size T > 0 \<Longrightarrow> vec_rel T no_vectors [] []"
  by (auto simp: vec_rel_def no_vectors_def intro: storeI)

text \<open>The vectors implement the lists, whatever the element type.\<close>

locale vectors_of =
  fixes B :: build and T :: "'a elem_type"
  assumes memory: "plenty B" and size: "item_size T > 0"

sublocale vectors_of \<subseteq> command_refinement "vec_step B T" "list_step T" "vec_rel T" "vec_allowed T"
  by unfold_locales (rule vec_step_refines [OF _ _ memory])

context vectors_of
begin

lemma programs_refine:
  "all_allowed (vec_allowed T) (list_step T) cs [] \<Longrightarrow>
   \<exists>vs h. run_commands (vec_step B T) cs [] no_vectors = (Inr (fst (spec_commands (list_step T) cs []), vs), h) \<and>
     vec_rel T h vs (snd (spec_commands (list_step T) cs []))"
  by (rule commands_refine [OF vec_rel_empty [OF size]])

end

text \<open>An allocator that never refuses, a type that is copied bit by bit and a type without any traits. A vector of numbers
  is one of those of the libraries; the table of handles of a process is another (\<open>Handle_Table\<close>).\<close>

definition plain_build :: build where
  "plain_build = \<lparr>grants = \<lambda>_. True, fill = \<lambda>_. 0, asserts = True\<rparr>"

definition plain_type :: "nat \<Rightarrow> 'a \<Rightarrow> 'a elem_type" where
  "plain_type n x = \<lparr>trivial_ctor = True, trivial_dtor = True, trivial_copy = True, trivial_move = True, item_size = n, default_item = x\<rparr>"

definition class_type :: "nat \<Rightarrow> 'a \<Rightarrow> 'a elem_type" where
  "class_type n x = \<lparr>trivial_ctor = False, trivial_dtor = False, trivial_copy = False, trivial_move = False, item_size = n, default_item = x\<rparr>"

lemma plenty_plain: "plenty plain_build"
  by (simp add: plenty_def plain_build_def)

interpretation int32s: vectors_of plain_build "plain_type 4 (0 :: u32)"
  by unfold_locales (simp_all add: plenty_plain plain_type_def)

lemma vec_rel_item:
  assumes "vec_rel T h vs xss" and "i < length xss" and "k < length (xss ! i)"
  shows "itemAt B k (vs ! i) h = (Inr (xss ! i ! k), h)" and "mCount (vs ! i) = length (xss ! i)"
proof -
  obtain M where st: "vectors_in T h (add_mset (vs ! i, xss ! i) M)" by (rule vec_rel_split [OF assms(1,2)]) blast
  show c: "mCount (vs ! i) = length (xss ! i)" by (rule store_facts(1) [OF st])
  obtain b where b: "mStorage (vs ! i) = Some b" using store_facts(3) [OF st] assms(3) by (cases "mStorage (vs ! i)") auto
  obtain sb where "bufs h b = Some sb" "holds_items T sb (xss ! i)" by (rule store_buffer [OF st b])
  moreover from this(2) have "k < length (cells sb)" "cells sb ! k = xss ! i ! k"
    using assms(3) nth_take [of k "length (xss ! i)" "cells sb"] by (auto simp: holds_items_def)
  ultimately show "itemAt B k (vs ! i) h = (Inr (xss ! i ! k), h)"
    using b c assms(3) by (simp add: itemAt_def arrayImpl_def bindS_def retS_def)
qed

text \<open>C13: a program that makes, copies, assigns, changes and destroys any number of vectors, in any order, gets from every operation
  the result that the same operation on lists gives, and afterwards every vector
  has the elements of its list: the shared buffers, their counts and the copies that are made before
  a change are not observable, no memory that was freed is used, and no element is
  lost without its destructor, whatever the element type. This holds as long as indices are in range, something
  is inserted or removed, a vector is not inserted into itself, and the sizes in bytes fit in memory.\<close>

theorem vectors_are_lists:
  assumes "plenty B" and "item_size T > 0" and "all_allowed (vec_allowed T) (list_step T) cs []"
    and "spec_commands (list_step T) cs [] = (rs, xss)"
  shows "\<exists>vs h. run_commands (vec_step B T) cs [] no_vectors = (Inr (rs, vs), h) \<and>
    length vs = length xss \<and> vectors_in T h (mset (zip vs xss)) \<and>
    (i < length xss \<and> k < length (xss ! i) \<longrightarrow> itemAt B k (vs ! i) h = (Inr (xss ! i ! k), h))"
proof -
  have "vectors_of B T" using assms(1,2) by unfold_locales
  from vectors_of.programs_refine [OF this assms(3)] obtain vs h where
    "run_commands (vec_step B T) cs [] no_vectors = (Inr (rs, vs), h)" "vec_rel T h vs xss"
    using assms(4) by auto
  moreover from this(2) have "i < length xss \<and> k < length (xss ! i) \<longrightarrow> itemAt B k (vs ! i) h = (Inr (xss ! i ! k), h)"
    using vec_rel_item(1) by blast
  ultimately show ?thesis unfolding vec_rel_def by blast
qed

text \<open>A vector, a copy of it that is changed, and the first one destroyed.\<close>

definition example_commands :: "u32 vec_command list" where
  "example_commands = [Make, Put 0 0 2 7, CopyOf 0, Put 1 1 1 9, PutVector 1 0 0, Replace 0 0 5, Remove 1 0 1, Resize 1 3, Finish 0]"

theorem vectors_are_lists_witness:
  "\<exists>vs h. run_commands (vec_step plain_build (class_type 16 0)) example_commands [] no_vectors =
      (Inr ([0, 0, 0, 1, 0, 0, 0, 3, 0], vs), h) \<and>
    vectors_in (class_type 16 0) h (mset (zip vs [[], [Some 7, Some 7, Some 9]])) \<and>
    itemAt plain_build 2 (vs ! 1) h = (Inr (Some 9), h)"
proof -
  have "all_allowed (vec_allowed (class_type 16 0)) (list_step (class_type 16 0)) example_commands []"
    by (simp add: example_commands_def fits_memory_def class_type_def size_max_def buffer_header_size_def inserted_def removed_def resized_def)
  moreover have "spec_commands (list_step (class_type 16 0)) example_commands [] =
      ([0, 0, 0, 1, 0, 0, 0, 3, 0], [[], [Some 7, Some 7, Some 9]])"
    by (simp add: example_commands_def inserted_def removed_def resized_def numeral_2_eq_2)
  ultimately show ?thesis
    using vectors_are_lists [of plain_build "class_type 16 0" example_commands _ "[[], [Some 7, Some 7, Some 9]]" 1 2] plenty_plain
    by (auto simp: class_type_def)
qed

lemma finish_all:
  "vectors_in T h (mset (zip vs xss) + M) \<Longrightarrow> length vs = length xss \<Longrightarrow>
   \<exists>h'. run_commands (vec_step B T) (map Finish [length us..<length us + length vs]) (us @ vs) h =
      (Inr (replicate (length vs) 0, us @ replicate (length vs) VectorImpl), h') \<and> vectors_in T h' M"
proof (induction vs arbitrary: us xss h)
  case Nil
  then show ?case by (simp add: retS_def)
next
  case (Cons v vs)
  obtain xs yss where xss: "xss = xs # yss" "length vs = length yss" using Cons.prems(2) by (cases xss) auto
  have "vectors_in T h (add_mset (v, xs) (mset (zip vs yss) + M))" using Cons.prems(1) xss by simp
  note rel = release_run [OF this]
  have "vec_step B T (Finish (length us)) (us @ v # vs) h = (Inr (0, (us @ [VectorImpl]) @ vs), released v h)"
    using rel(1) by (simp add: on_vec_def no_result_def finish_vector_def VectorImpl_def seqS_def bindS_def retS_def)
  moreover obtain h' where "run_commands (vec_step B T) (map Finish [length (us @ [VectorImpl])..<length (us @ [VectorImpl]) + length vs])
      ((us @ [VectorImpl]) @ vs) (released v h) =
      (Inr (replicate (length vs) 0, (us @ [VectorImpl]) @ replicate (length vs) VectorImpl), h')" "vectors_in T h' M"
    using Cons.IH [OF rel(2) xss(2), of "us @ [VectorImpl]"] by blast
  ultimately show ?case by (simp add: upt_conv_Cons bindS_def retS_def del: upt_Suc)
qed

text \<open>C16: when the last vector is destroyed nothing is left: after any program the destructors of all vectors run without
  touching freed memory, call the destructor of every element once, and free every buffer.\<close>

theorem storage_is_freed:
  assumes "vectors_in T h (mset (zip vs xss))" and "length vs = length xss"
  shows "\<exists>vs' h'. run_commands (vec_step B T) (map Finish [0..<length vs]) vs h = (Inr (replicate (length vs) 0, vs'), h') \<and>
    bufs h' = Map.empty"
proof -
  obtain h' where h': "run_commands (vec_step B T) (map Finish [0..<length vs]) vs h =
      (Inr (replicate (length vs) 0, replicate (length vs) VectorImpl), h')" "vectors_in T h' {#}"
    using finish_all [of T h vs xss "{#}" B "[]"] assms by auto
  have "bufs h' b = None" for b using store_buf [OF h'(2), of b] by (cases "bufs h' b") (auto simp: owners_def)
  then show ?thesis using h'(1) by auto
qed

theorem storage_is_freed_witness:
  "\<exists>vs h vs' h'. run_commands (vec_step plain_build (class_type 16 0)) example_commands [] no_vectors =
      (Inr ([0, 0, 0, 1, 0, 0, 0, 3, 0], vs), h) \<and> bufs h \<noteq> Map.empty \<and>
    run_commands (vec_step plain_build (class_type 16 0)) (map Finish [0..<length vs]) vs h = (Inr (replicate (length vs) 0, vs'), h') \<and>
    bufs h' = Map.empty"
proof -
  let ?T = "class_type 16 (0 :: u32)" and ?xss = "[[], [Some 7, Some 7, Some 9]] :: u32 option list list"
  have "spec_commands (list_step ?T) example_commands [] = ([0, 0, 0, 1, 0, 0, 0, 3, 0], ?xss)"
    by (simp add: example_commands_def inserted_def removed_def resized_def numeral_2_eq_2)
  moreover have "all_allowed (vec_allowed ?T) (list_step ?T) example_commands []"
    by (simp add: example_commands_def fits_memory_def class_type_def size_max_def buffer_header_size_def inserted_def removed_def resized_def)
  moreover have "vectors_of plain_build ?T" by unfold_locales (simp_all add: plenty_plain class_type_def)
  ultimately obtain vs h where r: "run_commands (vec_step plain_build ?T) example_commands [] no_vectors =
      (Inr ([0, 0, 0, 1, 0, 0, 0, 3, 0], vs), h)" "vec_rel ?T h vs ?xss"
    using vectors_of.programs_refine [of plain_build ?T example_commands] by auto
  have item: "itemAt plain_build 2 (vs ! 1) h = (Inr (Some 9), h)" using vec_rel_item(1) [OF r(2), of 1 2 plain_build] by simp
  have "bufs h \<noteq> Map.empty"
  proof
    assume "bufs h = Map.empty"
    then have "fetch (arrayImpl (vs ! 1)) 2 h = (Inl MemFault, h)"
      by (auto simp: arrayImpl_def bindS_def throwS_def get_buf_def split: option.split)
    then show False using item by (auto simp: itemAt_def throwS_def split: if_splits)
  qed
  moreover have "vectors_in ?T h (mset (zip vs ?xss))" "length vs = length ?xss" using r(2) by (simp_all add: vec_rel_def)
  ultimately show ?thesis using r(1) storage_is_freed by blast
qed

end
