(* ===== verification/Android_Bridge.thy ===== *)
theory Android_Bridge
  imports Android_Items Client Vector_Lists
begin

text \<open>
  The Android libraries on top of the client: \<^verbatim>\<open>src/external/android/binder/IPCThreadState.cpp\<close>,
  \<^verbatim>\<open>TransactionDataFromParcel.cpp\<close>, \<^verbatim>\<open>ProcessState.cpp\<close>, \<^verbatim>\<open>BpBinder.cpp\<close> and the base class of
  \<^verbatim>\<open>Binder.cpp\<close>. In the place of the kernel driver they call \<^verbatim>\<open>Client::Transact\<close>; objects of the
  application reach the client wrapped. What an application does with a transaction
  (\<^verbatim>\<open>onTransact\<close>) is a parameter.
\<close>

section \<open>The state of a thread\<close>

text \<open>\<^verbatim>\<open>pid_t\<close>, \<^verbatim>\<open>uid_t\<close> and \<^verbatim>\<open>int32_t\<close> as 32-bit words.\<close>

record ipc_thread =
  mLastError :: status
  mCallingPid :: u32
  mCallingUid :: u32
  mStrictModePolicy :: u32
  mLastTransactionBinderFlags :: u32

text \<open>\<open>pid\<close> and \<open>uid\<close> are what \<^verbatim>\<open>getpid\<close> and \<^verbatim>\<open>getuid\<close> return, \<open>err\<close> what the uninitialised \<^verbatim>\<open>mLastError\<close>
  holds.\<close>

definition clearCaller :: "u32 \<Rightarrow> u32 \<Rightarrow> ipc_thread \<Rightarrow> ipc_thread" where
  "clearCaller pid uid t = t\<lparr>mCallingPid := pid, mCallingUid := uid\<rparr>"

definition IPCThreadState :: "u32 \<Rightarrow> u32 \<Rightarrow> status \<Rightarrow> ipc_thread" where
  "IPCThreadState pid uid err =
     clearCaller pid uid \<lparr>mLastError = err, mCallingPid = 0, mCallingUid = 0, mStrictModePolicy = 0,
       mLastTransactionBinderFlags = 0\<rparr>"

definition clearLastError :: "ipc_thread \<Rightarrow> status \<times> ipc_thread" where
  "clearLastError t = (mLastError t, t\<lparr>mLastError := OK\<rparr>)"

text \<open>The process id is signed: it is extended with its sign before the two halves are joined.\<close>

definition clearCallingIdentity :: "u32 \<Rightarrow> u32 \<Rightarrow> ipc_thread \<Rightarrow> u64 \<times> ipc_thread" where
  "clearCallingIdentity pid uid t =
     (push_bit 32 (ucast (mCallingUid t)) OR scast (mCallingPid t), clearCaller pid uid t)"

definition restoreCallingIdentity :: "u64 \<Rightarrow> ipc_thread \<Rightarrow> ipc_thread" where
  "restoreCallingIdentity token t = t\<lparr>mCallingUid := ucast (drop_bit 32 token), mCallingPid := ucast token\<rparr>"

definition setStrictModePolicy :: "u32 \<Rightarrow> ipc_thread \<Rightarrow> ipc_thread" where
  "setStrictModePolicy policy t = t\<lparr>mStrictModePolicy := policy\<rparr>"

definition setLastTransactionBinderFlags :: "u32 \<Rightarrow> ipc_thread \<Rightarrow> ipc_thread" where
  "setLastTransactionBinderFlags flags t = t\<lparr>mLastTransactionBinderFlags := flags\<rparr>"

definition STRICT_MODE_PENALTY_GATHER :: u32 where
  "STRICT_MODE_PENALTY_GATHER = push_bit 16 0x40"

text \<open>\<^verbatim>\<open>Parcel::writeInterfaceToken\<close> and \<^verbatim>\<open>Parcel::enforceInterface\<close>, which use the state of the thread.\<close>

definition writeInterfaceToken :: "allocator \<Rightarrow> ipc_thread \<Rightarrow> u16 list \<Rightarrow> status parc" where
  "writeInterfaceToken a t interface =
     bindS (writeInt32 a (mStrictModePolicy t OR STRICT_MODE_PENALTY_GATHER)) (\<lambda>_.
     writeString16 a (Some interface))"

definition enforceInterface :: "u16 list \<Rightarrow> ipc_thread \<Rightarrow> (bool \<times> ipc_thread) parc" where
  "enforceInterface interface t =
     bindS readInt32 (\<lambda>strictPolicy.
     let t = (if mLastTransactionBinderFlags t AND 1 \<noteq> 0 then setStrictModePolicy 0 t
              else setStrictModePolicy strictPolicy t) in
     bindS readString16 (\<lambda>str. retS (str = interface, t)))"

section \<open>Parcels and transactions\<close>

text \<open>The array of 64-bit offsets that a block of bytes holds.\<close>

fun offsets_of_bytes :: "byte list \<Rightarrow> u64 list" where
  "offsets_of_bytes (b0 # b1 # b2 # b3 # b4 # b5 # b6 # b7 # bs) =
     le_word [b0, b1, b2, b3, b4, b5, b6, b7] # offsets_of_bytes bs"
| "offsets_of_bytes _ = []"

definition offset_bytes :: "u64 list \<Rightarrow> byte list" where
  "offset_bytes os = concat (map (le_bytes 8) os)"

text \<open>The parcel refers to the memory of the transaction.\<close>

definition InitParcelFromTransactionData :: "transaction_data \<Rightarrow> unit parc" where
  "InitParcelFromTransactionData td =
     bindS (liftS (GetObjectOffsets_bytes td)) (\<lambda>os.
     ipcSetDataReference (if td_readable td then Some (drop (td_base td) (td_block td)) else None) (td_size td)
       (Some (offsets_of_bytes os)) (td_count td))"

text \<open>One pass of the loop over the objects: \<open>data\<close> is the copy of the parcel's data.\<close>

definition wrap_object :: "nat \<Rightarrow> byte list \<Rightarrow> byte list cl" where
  "wrap_object offset data =
     bindS (liftS (flat_type offset data)) (\<lambda>t.
     if t = BINDER_TYPE_BINDER then
       bindS (liftS (flat_cookie offset data)) (\<lambda>binder_cookie.
       bindS (new_object (WrappedObject binder_cookie)) (\<lambda>cookie.
       bindS (liftS (set_flat_cookie offset cookie data)) (\<lambda>data.
       bindS (getS (\<lambda>c. Pool_Contains cookie (c_pool c))) (\<lambda>known.
       seqS (if known then retS () else on_pool (Pool_AdoptObject cookie)) (retS data)))))
     else retS data)"

text \<open>The offset is the one byte \<^verbatim>\<open>*current\<close>.\<close>

primrec wrap_loop :: "byte list \<Rightarrow> nat \<Rightarrow> nat \<Rightarrow> byte list \<Rightarrow> byte list cl" where
  "wrap_loop objects 0 i data = retS data"
| "wrap_loop objects (Suc n) i data =
     bindS (liftS (load (8 * i) 1 objects)) (\<lambda>offset.
     bindS (wrap_object (unat (offset :: byte)) data) (wrap_loop objects n (Suc i)))"

definition parcel_bytes :: "aparcel \<Rightarrow> byte list res" where
  "parcel_bytes parcel =
     (if ipcDataSize parcel = 0 then Inr []
      else case mData parcel of None \<Rightarrow> Inl MemFault | Some b \<Rightarrow> mem_read 0 (ipcDataSize parcel) b)"

definition TransactionDataFromParcel :: "bool \<Rightarrow> u32 \<Rightarrow> aparcel \<Rightarrow> bool \<Rightarrow> transaction_data cl" where
  "TransactionDataFromParcel has_client code parcel one_way =
     bindS (getS c_alloc) (\<lambda>a.
     bindS (liftS (CreateBufferWithSize a (ipcDataSize parcel))) (\<lambda>_.
     bindS (liftS (parcel_bytes parcel)) (\<lambda>data.
     bindS (liftS (CreateBufferWithSize a (ipcObjectsCount parcel * 8))) (\<lambda>_.
     bindS (liftS (array_part (ipcObjectsCount parcel) (mObjects parcel))) (\<lambda>os.
     let objects = offset_bytes os in
     bindS (if has_client then wrap_loop objects (length os) 0 data else retS data) (\<lambda>data.
     retS \<lparr>td_ptr = 0, td_cookie = 0, td_code = code, td_one_way = one_way, td_has_status = False,
       td_block = data, td_base = 0, td_size = length data, td_readable = (data \<noteq> []),
       td_writable = (data \<noteq> []), td_offsets = Separate objects, td_count = length objects div 8\<rparr>))))))"

section \<open>Calling\<close>

definition TF_ONE_WAY :: u32 where "TF_ONE_WAY = 1"

definition run_parcel :: "unit parc \<Rightarrow> aparcel \<Rightarrow> aparcel cl" where
  "run_parcel m p = (\<lambda>c. case m p of (Inl e, _) \<Rightarrow> (Inl e, c) | (Inr _, p') \<Rightarrow> (Inr p', c))"

text \<open>\<open>reply\<close> is \<open>None\<close> for a null pointer; the result is the status and the parcel \<open>reply\<close> leads to.\<close>

definition ipc_transact :: "u32 \<Rightarrow> u32 \<Rightarrow> aparcel \<Rightarrow> aparcel option \<Rightarrow> u32 \<Rightarrow> (status \<times> aparcel option) cl" where
  "ipc_transact handle code data reply flags =
     (if errorCheck data \<noteq> OK then
        (case reply of
           None \<Rightarrow> throwS MemFault
         | Some r \<Rightarrow> bindS (run_parcel (setError (errorCheck data)) r) (\<lambda>r. retS (errorCheck data, Some r)))
      else
        bindS (TransactionDataFromParcel True code data (flags AND TF_ONE_WAY \<noteq> 0)) (\<lambda>request.
        bindS (Transact (scast handle) (Some request) True) (\<lambda>(st, response).
        if st \<noteq> OK then
          (case reply of
             None \<Rightarrow> retS (st, None)
           | Some r \<Rightarrow> bindS (run_parcel (setError st) r) (\<lambda>r. retS (st, Some r)))
        else
          case response of
            None \<Rightarrow> retS (OK, reply)
          | Some td \<Rightarrow>
              (case reply of
                 None \<Rightarrow> throwS MemFault
               | Some r \<Rightarrow> bindS (run_parcel (InitParcelFromTransactionData td) r) (\<lambda>r. retS (OK, Some r))))))"

definition incStrongHandle :: "u32 \<Rightarrow> unit cl" where
  "incStrongHandle handle = bindS (AddReference (scast handle)) (\<lambda>_. retS ())"

definition decStrongHandle :: "u32 \<Rightarrow> unit cl" where
  "decStrongHandle handle = bindS (ReleaseReference (scast handle)) (\<lambda>_. retS ())"

text \<open>\<^verbatim>\<open>requestDeathNotification\<close>, \<^verbatim>\<open>clearDeathNotification\<close>, \<^verbatim>\<open>attemptIncStrongHandle\<close>: nothing is sent.\<close>

definition requestDeathNotification :: "u32 \<Rightarrow> status cl" where
  "requestDeathNotification handle = retS OK"

definition clearDeathNotification :: "u32 \<Rightarrow> status cl" where
  "clearDeathNotification handle = retS OK"

definition attemptIncStrongHandle :: "u32 \<Rightarrow> status cl" where
  "attemptIncStrongHandle handle = retS InvalidOperation"

text \<open>\<open>joinThreadPool\<close>: commands are executed until the client is told to end; \<open>n\<close> bounds their number.\<close>

primrec joinThreadPool :: "handler \<Rightarrow> nat \<Rightarrow> bool cl" where
  "joinThreadPool h 0 = retS False"
| "joinThreadPool h (Suc n) =
     bindS (ProcessAndExecuteCommand h) (\<lambda>more. if \<not> more then retS True else joinThreadPool h n)"

section \<open>Serving\<close>

text \<open>\<open>onTransact addr code data reply\<close>: what the object at \<open>addr\<close> makes of a transaction; the result is
  its status and the reply.\<close>

type_synonym on_transact = "u64 \<Rightarrow> u32 \<Rightarrow> aparcel \<Rightarrow> aparcel \<Rightarrow> (status \<times> aparcel) cl"

definition on_parcel :: "'a parc \<Rightarrow> aparcel \<Rightarrow> ('a \<times> aparcel) cl" where
  "on_parcel m p = (\<lambda>c. case m p of (Inl e, _) \<Rightarrow> (Inl e, c) | (Inr x, p') \<Rightarrow> (Inr (x, p'), c))"

definition BBinder_transact :: "on_transact \<Rightarrow> on_transact" where
  "BBinder_transact onTransact addr code data reply =
     bindS (on_parcel (setDataPosition 0) data) (\<lambda>(_, data).
     bindS (if code = kPingTransactionCode
            then bindS (getS c_alloc) (\<lambda>a.
                 bindS (on_parcel (writeInt32 a (status_code OK)) reply) (\<lambda>(_, reply). retS (OK, reply)))
            else onTransact addr code data reply) (\<lambda>(err, reply).
     bindS (on_parcel (setDataPosition 0) reply) (\<lambda>(_, reply).
     retS (err, reply))))"

text \<open>\<^verbatim>\<open>WrappedObject::Transact\<close>, for the object at the address \<open>cookie_\<close>.\<close>

definition WrappedObject_Transact :: "on_transact \<Rightarrow> u64 \<Rightarrow> transaction_data \<Rightarrow> (status \<times> transaction_data option) cl" where
  "WrappedObject_Transact binder_transact cookie request =
     bindS (run_parcel (InitParcelFromTransactionData request) Parcel_new) (\<lambda>data.
     bindS (binder_transact cookie (td_code request) data Parcel_new) (\<lambda>(st, response).
     bindS (TransactionDataFromParcel True (td_code request) response False) (\<lambda>reply.
     if errorCheck response \<noteq> OK then retS (errorCheck response, Some reply)
     else retS (st, Some reply))))"

text \<open>The handler of a client whose objects are wrapped ones.\<close>

definition wrapped_handler :: "on_transact \<Rightarrow> handler" where
  "wrapped_handler binder_transact ob request =
     bindS (getS (\<lambda>c. c_objects c ob)) (\<lambda>o'.
     case o' of
       Some (WrappedObject cookie) \<Rightarrow> WrappedObject_Transact binder_transact cookie request
     | _ \<Rightarrow> throwS MemFault)"

text \<open>What the pool's calls mean for a wrapped object: the class overrides
  \<^verbatim>\<open>OnReferenceAcquired\<close>, but the name of its other function is not that of a virtual function of its base
  class, whose empty \<^verbatim>\<open>OnReferenceReleased\<close> is called.\<close>

definition wrapped_call :: "(u64 \<Rightarrow> obj option) \<Rightarrow> pool_call \<Rightarrow> ref_call list" where
  "wrapped_call obs c =
     (case c of
        OnReferenceAcquired ob \<Rightarrow> (case obs ob of Some (WrappedObject cookie) \<Rightarrow> [IncStrong cookie] | _ \<Rightarrow> [])
      | OnReferenceReleased ob \<Rightarrow> [])"

section \<open>Proxies\<close>

text \<open>Recipients are numbers; \<open>None\<close> is a null reference.\<close>

record obituary =
  ob_recipient :: nat
  ob_cookie :: u64
  ob_flags :: u32

record bp_binder =
  mHandle :: u32
  mAlive :: bool
  mObitsSent :: bool
  mObituaries :: "obituary list option"

definition BpBinder :: "u32 \<Rightarrow> bp_binder" where
  "BpBinder handle = \<lparr>mHandle = handle, mAlive = True, mObitsSent = False, mObituaries = None\<rparr>"

text \<open>The operations of a proxy change it and the client; \<open>lift_cl\<close> runs an operation of the client.\<close>

type_synonym 'a prox = "(bp_binder \<times> client, 'a) comp"

definition lift_cl :: "'a cl \<Rightarrow> 'a prox" where
  "lift_cl m = (\<lambda>(b, c). let (r, c') = m c in (r, (b, c')))"

definition set_bp :: "(bp_binder \<Rightarrow> bp_binder) \<Rightarrow> unit prox" where
  "set_bp f = modS (\<lambda>(b, c). (f b, c))"

definition bp_transact :: "u32 \<Rightarrow> aparcel \<Rightarrow> aparcel option \<Rightarrow> u32 \<Rightarrow> (status \<times> aparcel option) prox" where
  "bp_transact code data reply flags =
     bindS (getS fst) (\<lambda>b.
     if mAlive b then
       bindS (lift_cl (ipc_transact (mHandle b) code data reply flags)) (\<lambda>(st, reply).
       seqS (if st = DeadObject then set_bp (\<lambda>b. b\<lparr>mAlive := False\<rparr>) else retS ()) (retS (st, reply)))
     else retS (DeadObject, reply))"

definition pingBinder :: "status prox" where
  "pingBinder =
     bindS (bp_transact kPingTransactionCode Parcel_new (Some Parcel_new) 0) (\<lambda>(err, reply).
     if err \<noteq> OK then retS err
     else
       case reply of
         None \<Rightarrow> throwS MemFault
       | Some reply \<Rightarrow>
           if dataSize reply < 4 then retS NotEnoughData
           else bindS (lift_cl (on_parcel readInt32 reply)) (\<lambda>(v, _). retS (status_of v)))"

text \<open>A null recipient ends the process.\<close>

definition linkToDeath :: "nat option \<Rightarrow> u64 \<Rightarrow> u32 \<Rightarrow> status prox" where
  "linkToDeath recipient cookie flags =
     (case recipient of
        None \<Rightarrow> throwS Aborted
      | Some r \<Rightarrow>
          bindS (getS fst) (\<lambda>b.
          if mObitsSent b then retS DeadObject
          else
            seqS (if mObituaries b = None
                  then seqS (set_bp (\<lambda>b. b\<lparr>mObituaries := Some []\<rparr>))
                      (bindS (lift_cl (requestDeathNotification (mHandle b))) (\<lambda>_. retS ()))
                  else retS ())
           (seqS (set_bp (\<lambda>b. b\<lparr>mObituaries :=
                    map_option (\<lambda>obs. obs @ [\<lparr>ob_recipient = r, ob_cookie = cookie, ob_flags = flags\<rparr>]) (mObituaries b)\<rparr>))
            (retS OK))))"

text \<open>The first entry that matches: the loop goes over the list in order.\<close>

primrec find_obituary :: "nat option \<Rightarrow> u64 \<Rightarrow> u32 \<Rightarrow> obituary list \<Rightarrow> nat option" where
  "find_obituary recipient cookie flags [] = None"
| "find_obituary recipient cookie flags (ob # obs) =
     (if (recipient = Some (ob_recipient ob) \<or> (recipient = None \<and> ob_cookie ob = cookie)) \<and> ob_flags ob = flags
      then Some 0 else map_option Suc (find_obituary recipient cookie flags obs))"

text \<open>The second result is what is stored through \<^verbatim>\<open>outRecipient\<close>.\<close>

definition unlinkToDeath :: "nat option \<Rightarrow> u64 \<Rightarrow> u32 \<Rightarrow> (status \<times> nat option) prox" where
  "unlinkToDeath recipient cookie flags =
     bindS (getS fst) (\<lambda>b.
     if mObitsSent b then retS (DeadObject, None)
     else
       let obs = (case mObituaries b of None \<Rightarrow> [] | Some obs \<Rightarrow> obs) in
       case find_obituary recipient cookie flags obs of
         None \<Rightarrow> retS (NameNotFound, None)
       | Some i \<Rightarrow>
           let rest = take i obs @ drop (Suc i) obs in
           seqS (if rest = []
                 then seqS (bindS (lift_cl (clearDeathNotification (mHandle b))) (\<lambda>_. retS ()))
                     (set_bp (\<lambda>b. b\<lparr>mObituaries := None\<rparr>))
                 else set_bp (\<lambda>b. b\<lparr>mObituaries := Some rest\<rparr>))
          (retS (OK, Some (ob_recipient (obs ! i)))))"

text \<open>The result lists the calls of \<^verbatim>\<open>binderDied\<close>: the recipients that \<open>promote\<close> says still exist.\<close>

definition bp_sendObituary :: "(nat \<Rightarrow> bool) \<Rightarrow> nat list prox" where
  "bp_sendObituary promote =
     seqS (set_bp (\<lambda>b. b\<lparr>mAlive := False\<rparr>))
    (bindS (getS fst) (\<lambda>b.
     if mObitsSent b then retS []
     else
       seqS (if mObituaries b \<noteq> None
             then bindS (lift_cl (clearDeathNotification (mHandle b))) (\<lambda>_. retS ()) else retS ())
      (seqS (set_bp (\<lambda>b. b\<lparr>mObituaries := None, mObitsSent := True\<rparr>))
       (retS (filter promote (map ob_recipient (case mObituaries b of None \<Rightarrow> [] | Some obs \<Rightarrow> obs)))))))"

section \<open>The process\<close>

text \<open>\<open>mHandleToObject\<close> is a vector that is indexed by handles, with its storage in \<open>handle_heap\<close>; an entry, and a reference of \<open>mContexts\<close>, is a
  proxy by its number, and \<open>None\<close> a null pointer. \<open>strong\<close> counts the strong references to a proxy.\<close>

record aprocess =
  ap_client :: client
  mHandleToObject :: vector
  handle_heap :: "nat option vec_heap"
  proxies :: "nat \<Rightarrow> bp_binder option"
  strong :: "nat \<Rightarrow> nat"
  next_proxy :: nat
  mManagesContexts :: bool
  mThreadPoolStarted :: bool
  mThreadPoolSeq :: nat
  mContexts :: "(u16 list, nat) um"

type_synonym 'a aproc = "(aprocess, 'a) comp"

definition on_ap_client :: "'a cl \<Rightarrow> 'a aproc" where
  "on_ap_client m = (\<lambda>s. let (r, c) = m (ap_client s) in (r, s\<lparr>ap_client := c\<rparr>))"

definition ProcessState :: "client \<Rightarrow> aprocess" where
  "ProcessState c =
     \<lparr>ap_client = c, mHandleToObject = VectorImpl, handle_heap = no_vectors, proxies = Map.empty, strong = (\<lambda>_. 0), next_proxy = 0,
      mManagesContexts = False, mThreadPoolStarted = False, mThreadPoolSeq = 1, mContexts = []\<rparr>"

text \<open>A \<^verbatim>\<open>handle_entry\<close> is two pointers, and a type without traits.\<close>

definition handle_entry :: "nat option elem_type" where
  "handle_entry =
     \<lparr>trivial_ctor = False, trivial_dtor = False, trivial_copy = False, trivial_move = False, item_size = 16, default_item = None\<rparr>"

definition on_handle_heap :: "(nat option, 'a) vec_op \<Rightarrow> 'a aproc" where
  "on_handle_heap m = (\<lambda>s. let (r, h) = m (handle_heap s) in (r, s\<lparr>handle_heap := h\<rparr>))"

definition on_handles :: "(vector \<Rightarrow> (nat option, 'a \<times> vector) vec_op) \<Rightarrow> 'a aproc" where
  "on_handles m =
     bindS (getS mHandleToObject) (\<lambda>v.
     bindS (on_handle_heap (m v)) (\<lambda>(r, v).
     seqS (modS (\<lambda>s. s\<lparr>mHandleToObject := v\<rparr>)) (retS r)))"

text \<open>The conversions of \<^verbatim>\<open>int32_t\<close> to \<^verbatim>\<open>size_t\<close> and of \<^verbatim>\<open>ssize_t\<close> to \<^verbatim>\<open>status_t\<close>.\<close>

definition handle_size :: "u32 \<Rightarrow> nat" where
  "handle_size handle = unat (scast handle :: u64)"

definition to_status_t :: "int \<Rightarrow> int" where
  "to_status_t r = sint (word_of_int r :: 32 word)"

text \<open>The pointer to an entry is the buffer and the index in it; \<open>None\<close> is a null pointer.\<close>

definition lookupHandleLocked :: "build \<Rightarrow> u32 \<Rightarrow> (nat \<times> nat) option aproc" where
  "lookupHandleLocked B handle =
     bindS (getS (\<lambda>s. mCount (mHandleToObject s))) (\<lambda>N.
     bindS (if N \<le> handle_size handle
            then bindS (on_handles (insertAt B handle_entry (Some (Given [None], 0)) N (size_sub (handle_size (handle + 1)) N)))
                   (\<lambda>r. retS (to_status_t r))
            else retS 0) (\<lambda>err.
     if err < 0 then retS None
     else
       bindS (on_handles (editItemLocation B handle_entry (handle_size handle))) (\<lambda>p.
       case p of None \<Rightarrow> throwS MemFault | Some b \<Rightarrow> retS (Some (b, handle_size handle)))))"

definition get_entry :: "nat \<times> nat \<Rightarrow> nat option aproc" where
  "get_entry e =
     on_handle_heap (bindS (fetch (InBuffer (fst e)) (snd e)) (\<lambda>c. case c of None \<Rightarrow> throwS MemFault | Some b \<Rightarrow> retS b))"

definition set_entry :: "nat \<times> nat \<Rightarrow> nat option \<Rightarrow> unit aproc" where
  "set_entry e b =
     on_handle_heap (bindS (get_buf (fst e)) (\<lambda>sb.
       if snd e < length (cells sb) then set_buf (fst e) (sb\<lparr>cells := (cells sb)[snd e := Some b]\<rparr>) else throwS MemFault))"

text \<open>The first strong reference to a proxy acquires the handle, the last gives it back.\<close>

definition inc_strong :: "nat \<Rightarrow> u32 \<Rightarrow> unit aproc" where
  "inc_strong k handle =
     bindS (getS (\<lambda>s. strong s k)) (\<lambda>n.
     seqS (modS (\<lambda>s. s\<lparr>strong := (strong s)(k := n + 1)\<rparr>))
     (if n = 0 then on_ap_client (incStrongHandle handle) else retS ()))"

definition dec_strong :: "nat \<Rightarrow> u32 \<Rightarrow> unit aproc" where
  "dec_strong k handle =
     bindS (getS (\<lambda>s. strong s k)) (\<lambda>n.
     seqS (modS (\<lambda>s. s\<lparr>strong := (strong s)(k := n - 1)\<rparr>))
     (if n = 1 then on_ap_client (decStrongHandle handle) else retS ()))"

definition new_BpBinder :: "u32 \<Rightarrow> nat aproc" where
  "new_BpBinder handle =
     (\<lambda>s. (Inr (next_proxy s), s\<lparr>proxies := (proxies s)(next_proxy s \<mapsto> BpBinder handle), next_proxy := next_proxy s + 1\<rparr>))"

text \<open>\<open>weak_ok k\<close>: a weak reference to proxy \<open>k\<close> can be taken. The result is the proxy, \<open>None\<close> for a
  null reference.\<close>

definition getStrongProxyForHandle :: "build \<Rightarrow> (nat \<Rightarrow> bool) \<Rightarrow> u32 \<Rightarrow> nat option aproc" where
  "getStrongProxyForHandle B weak_ok handle =
     bindS (lookupHandleLocked B handle) (\<lambda>e.
     case e of
       None \<Rightarrow> retS None
     | Some i \<Rightarrow>
         bindS (get_entry i) (\<lambda>b.
         case (case b of None \<Rightarrow> None | Some k \<Rightarrow> if weak_ok k then Some k else None) of
           None \<Rightarrow>
             bindS (if handle = 0
                    then bindS (on_ap_client (ipc_transact 0 kPingTransactionCode Parcel_new None 0)) (\<lambda>(st, _).
                         retS (st = DeadObject))
                    else retS False) (\<lambda>gone.
             if gone then retS None
             else
               bindS (new_BpBinder handle) (\<lambda>k.
               seqS (set_entry i (Some k))
              (seqS (inc_strong k handle) (retS (Some k)))))
         | Some k \<Rightarrow> seqS (inc_strong k handle) (retS (Some k))))"

definition getWeakProxyForHandle :: "build \<Rightarrow> (nat \<Rightarrow> bool) \<Rightarrow> u32 \<Rightarrow> nat option aproc" where
  "getWeakProxyForHandle B weak_ok handle =
     bindS (lookupHandleLocked B handle) (\<lambda>e.
     case e of
       None \<Rightarrow> retS None
     | Some i \<Rightarrow>
         bindS (get_entry i) (\<lambda>b.
         case (case b of None \<Rightarrow> None | Some k \<Rightarrow> if weak_ok k then Some k else None) of
           None \<Rightarrow> bindS (new_BpBinder handle) (\<lambda>k. seqS (set_entry i (Some k)) (retS (Some k)))
         | Some k \<Rightarrow> retS (Some k)))"

definition expungeHandle :: "build \<Rightarrow> u32 \<Rightarrow> nat \<Rightarrow> unit aproc" where
  "expungeHandle B handle binder_no =
     bindS (lookupHandleLocked B handle) (\<lambda>e.
     case e of
       None \<Rightarrow> retS ()
     | Some i \<Rightarrow>
         bindS (get_entry i) (\<lambda>b.
         if b = Some binder_no then set_entry i None else retS ()))"

definition isContextManager :: "aprocess \<Rightarrow> bool" where
  "isContextManager s = mManagesContexts s"

text \<open>The call of the driver is commented out; the result is always that it succeeded.\<close>

definition becomeContextManager :: "bool aproc" where
  "becomeContextManager =
     seqS (modS (\<lambda>s. if \<not> mManagesContexts s then s\<lparr>mManagesContexts := True\<rparr> else s)) (getS mManagesContexts)"

definition setContextObject :: "nat \<Rightarrow> u16 list \<Rightarrow> unit aproc" where
  "setContextObject ob name = modS (\<lambda>s. s\<lparr>mContexts := um_store name ob (um_insert name ob (mContexts s))\<rparr>)"

text \<open>\<open>startThreadPool\<close>: the result is the sequence number in the name of the thread that is started.\<close>

definition makeBinderThreadName :: "nat aproc" where
  "makeBinderThreadName = (\<lambda>s. (Inr (mThreadPoolSeq s), s\<lparr>mThreadPoolSeq := mThreadPoolSeq s + 1\<rparr>))"

definition spawnPooledThread :: "nat option aproc" where
  "spawnPooledThread =
     bindS (getS mThreadPoolStarted) (\<lambda>started.
     if started then bindS makeBinderThreadName (\<lambda>k. retS (Some k)) else retS None)"

definition startThreadPool :: "nat option aproc" where
  "startThreadPool =
     bindS (getS mThreadPoolStarted) (\<lambda>started.
     if \<not> started then seqS (modS (\<lambda>s. s\<lparr>mThreadPoolStarted := True\<rparr>)) spawnPooledThread else retS None)"

section \<open>Properties of the thread and of proxies\<close>

lemma scast_bits: "bit (scast (w :: u32) :: u64) n \<longleftrightarrow> n < 64 \<and> bit w (min 31 n)"
  by (simp add: bit_simps)

lemma sign_bit: "w <s (0 :: u32) \<longleftrightarrow> bit w 31"
  using bit_last_iff [of w] by (simp add: word_sless_alt)

text \<open>C36: giving up and restoring the identity of the caller leaves the thread as it was exactly when the
  process id is not negative or all bits of the user id are set: the sign of the process id is
  spread over the half of the token that holds the user id.\<close>

theorem calling_identity_restored:
  "restoreCallingIdentity (fst (clearCallingIdentity pid uid t)) (snd (clearCallingIdentity pid uid t)) = t \<longleftrightarrow>
   0 \<le>s mCallingPid t \<or> mCallingUid t = - 1"
proof -
  let ?tok = "push_bit 32 (ucast (mCallingUid t)) OR scast (mCallingPid t) :: u64"
  have p: "(ucast ?tok :: u32) = mCallingPid t"
  proof (rule bit_word_eqI)
    fix n assume "n < LENGTH(32)"
    then have "min 31 n = n" by simp
    then show "bit (ucast ?tok :: u32) n \<longleftrightarrow> bit (mCallingPid t) n"
      using \<open>n < LENGTH(32)\<close> by (simp add: bit_simps scast_bits)
  qed
  have b: "bit (ucast (drop_bit 32 ?tok) :: u32) n \<longleftrightarrow> n < 32 \<and> (bit (mCallingUid t) n \<or> bit (mCallingPid t) 31)" for n
    by (auto simp: bit_simps scast_bits min_def)
  have u: "(ucast (drop_bit 32 ?tok) :: u32) = mCallingUid t \<longleftrightarrow> 0 \<le>s mCallingPid t \<or> mCallingUid t = - 1"
  proof (cases "bit (mCallingPid t) 31")
    case True
    then have "(ucast (drop_bit 32 ?tok) :: u32) = - 1" by (intro bit_word_eqI) (simp only: b, simp)
    then show ?thesis using True sign_bit [of "mCallingPid t"] by (auto simp: word_sless_alt word_sle_eq)
  next
    case False
    then have "(ucast (drop_bit 32 ?tok) :: u32) = mCallingUid t"
      by (intro bit_word_eqI) (simp only: b, simp)
    then show ?thesis using False sign_bit [of "mCallingPid t"] by (auto simp: word_sless_alt word_sle_eq)
  qed
  have "restoreCallingIdentity ?tok (clearCaller pid uid t) =
      t\<lparr>mCallingUid := ucast (drop_bit 32 ?tok), mCallingPid := mCallingPid t\<rparr>"
    using p by (simp add: restoreCallingIdentity_def clearCaller_def)
  moreover have "t\<lparr>mCallingUid := v, mCallingPid := mCallingPid t\<rparr> = t \<longleftrightarrow> v = mCallingUid t" for v
    by (cases t) auto
  ultimately show ?thesis using u by (simp add: clearCallingIdentity_def)
qed

text \<open>The recipients that are linked to a proxy, one after the other.\<close>

primrec link_all :: "nat list \<Rightarrow> status prox" where
  "link_all [] = retS OK"
| "link_all (r # rs) = bindS (linkToDeath (Some r) 0 0) (\<lambda>st. if st = OK then link_all rs else retS st)"

definition obit :: "nat \<Rightarrow> obituary" where
  "obit r = \<lparr>ob_recipient = r, ob_cookie = 0, ob_flags = 0\<rparr>"

lemma link_all_run:
  assumes "\<not> mObitsSent b" and "mObituaries b = (if done = [] then None else Some (map obit done))"
  shows "\<exists>b'. link_all rs (b, c) = (Inr OK, (b', c)) \<and> \<not> mObitsSent b' \<and>
    mObituaries b' = (if done @ rs = [] then None else Some (map obit (done @ rs)))"
  using assms
proof (induction rs arbitrary: b "done")
  case Nil
  then show ?case by (simp add: retS_def)
next
  case (Cons r rs)
  let ?b = "b\<lparr>mObituaries := Some (map obit (done @ [r]))\<rparr>"
  have "linkToDeath (Some r) 0 0 (b, c) = (Inr OK, (?b, c))"
    using Cons.prems
    by (auto simp: linkToDeath_def set_bp_def lift_cl_def requestDeathNotification_def obit_def bindS_def seqS_def
        getS_def modS_def retS_def)
  moreover obtain b' where "link_all rs (?b, c) = (Inr OK, (b', c))" "\<not> mObitsSent b'"
    "mObituaries b' = Some (map obit ((done @ [r]) @ rs))"
    using Cons.IH [of ?b "done @ [r]"] Cons.prems(1) by auto
  ultimately show ?case by (simp add: bindS_def)
qed

text \<open>the recipients linked to a proxy are told of the death of the object once, in their order, as far as
  they still exist; afterwards nobody is told again, nobody can be linked, and no transaction is
  tried. In all this the client is not used: the server is never asked to report the death.\<close>

theorem obituaries_sent_once:
  "\<exists>b b'. link_all rs (BpBinder handle, c) = (Inr OK, (b, c)) \<and>
    bp_sendObituary promote (b, c) = (Inr (filter promote rs), (b', c)) \<and>
    bp_sendObituary promote (b', c) = (Inr [], (b', c)) \<and>
    linkToDeath (Some r) cookie flags (b', c) = (Inr DeadObject, (b', c)) \<and>
    bp_transact code data reply flags (b', c) = (Inr (DeadObject, reply), (b', c))"
proof -
  obtain b where b: "link_all rs (BpBinder handle, c) = (Inr OK, (b, c))" "\<not> mObitsSent b"
    "mObituaries b = (if rs = [] then None else Some (map obit rs))"
    using link_all_run [of "BpBinder handle" "[]" rs c] by (auto simp: BpBinder_def)
  let ?b = "b\<lparr>mAlive := False, mObituaries := None, mObitsSent := True\<rparr>"
  have "map ob_recipient (case mObituaries b of None \<Rightarrow> [] | Some obs \<Rightarrow> obs) = rs"
    using b(3) by (simp add: obit_def comp_def)
  then have "bp_sendObituary promote (b, c) = (Inr (filter promote rs), (?b, c))"
    using b(2) by (simp add: bp_sendObituary_def set_bp_def lift_cl_def clearDeathNotification_def bindS_def seqS_def
        getS_def modS_def retS_def)
  moreover have "bp_sendObituary promote (?b, c) = (Inr [], (?b, c))"
    by (simp add: bp_sendObituary_def set_bp_def bindS_def seqS_def getS_def modS_def retS_def)
  ultimately show ?thesis
    using b(1) by (intro exI [of _ b] exI [of _ ?b])
      (simp add: linkToDeath_def bp_transact_def bindS_def getS_def retS_def)
qed

end
