(* ===== verification/Handle_Table.thy ===== *)
theory Handle_Table
  imports Android_Bridge
begin

text \<open>
  The table of handles of a process (\<^verbatim>\<open>src/external/android/binder/ProcessState.cpp\<close>), which is kept in a vector with shared
  storage, is a partial map from handles to proxies.
\<close>

interpretation handle_entries: vectors_of plain_build handle_entry
  by unfold_locales (simp_all add: plenty_plain handle_entry_def)

section \<open>Looking up an entry\<close>

text \<open>The entries of the table, and the table as a map.\<close>

definition handles_are :: "aprocess \<Rightarrow> nat option list \<Rightarrow> bool" where
  "handles_are s tbl \<longleftrightarrow> vectors_in handle_entry (handle_heap s) {#(mHandleToObject s, map Some tbl)#}"

definition entry_of :: "nat option list \<Rightarrow> nat \<rightharpoonup> nat" where
  "entry_of tbl n = (if n < length tbl then tbl ! n else None)"

definition enlarged :: "nat \<Rightarrow> nat option list \<Rightarrow> nat option list" where
  "enlarged n tbl = tbl @ replicate (Suc n - length tbl) None"

lemma enlarged_simps [simp]:
  "n < length (enlarged n tbl)" "entry_of (enlarged n tbl) = entry_of tbl" "enlarged n tbl ! n = entry_of tbl n"
  "n < length tbl \<Longrightarrow> enlarged n tbl = tbl"
  by (auto simp: enlarged_def entry_of_def nth_append fun_eq_iff)

lemma entry_of_update: "n < length tbl \<Longrightarrow> entry_of (tbl[n := b]) = (entry_of tbl)(n := b)"
  by (auto simp: entry_of_def fun_eq_iff nth_list_update)

lemma handles_empty: "handles_are (ProcessState c) []"
  using vec_rel_empty [of handle_entry]
  by (simp add: handles_are_def ProcessState_def vectors_in_def no_vectors_def VectorImpl_def handle_entry_def values_ok_def)

text \<open>A handle that is not negative as a signed number, and is not the largest one.\<close>

definition small_handle :: "u32 \<Rightarrow> bool" where
  "small_handle handle \<longleftrightarrow> unat handle < 2 ^ 31 - 1"

lemma scast_small:
  assumes w: "unat (w :: u32) < 2 ^ 31"
  shows "handle_size w = unat w"
proof -
  have "uint w < 2 ^ 31" using w unfolding unat_eq_nat_uint nat_less_iff [OF uint_ge_0] by simp
  then have "sint w = uint w" unfolding sint_uint by (intro signed_take_bit_int_eq_self) (auto intro: order_trans [OF _ uint_ge_0])
  then have "(scast w :: u64) = ucast w" by (simp only: scast_eq ucast_eq)
  then show ?thesis using w by (simp add: handle_size_def unsigned_ucast_eq take_bit_nat_eq_self)
qed

lemma small_sizes:
  assumes "small_handle handle"
  shows "handle_size handle = unat handle" and "handle_size (handle + 1) = Suc (unat handle)"
proof -
  have "unat (handle + 1) = Suc (unat handle)" using assms by (simp add: small_handle_def unat_word_ariths)
  then show "handle_size handle = unat handle" "handle_size (handle + 1) = Suc (unat handle)"
    using assms scast_small [of handle] scast_small [of "handle + 1"] by (simp_all add: small_handle_def)
qed

lemma to_status_small: "n < 2 ^ 31 \<Longrightarrow> 0 \<le> to_status_t (int n)"
  by (simp add: to_status_t_def sint_uint signed_take_bit_int_eq_self unsigned_of_nat take_bit_nat_eq_self)

lemma on_handles_run:
  "m (mHandleToObject s) (handle_heap s) = (Inr (r, v), h) \<Longrightarrow> on_handles m s = (Inr r, s\<lparr>mHandleToObject := v, handle_heap := h\<rparr>)"
  by (simp add: on_handles_def on_handle_heap_def bindS_def seqS_def getS_def modS_def retS_def)

text \<open>A pointer to an entry of the table.\<close>

definition points_to :: "aprocess \<Rightarrow> nat \<times> nat \<Rightarrow> nat option list \<Rightarrow> bool" where
  "points_to s e tbl \<longleftrightarrow> handles_are s tbl \<and> mStorage (mHandleToObject s) = Some (fst e) \<and> snd e < length tbl"

lemma fits_handles: "n < 2 ^ 31 \<Longrightarrow> fits_memory handle_entry n"
  by (simp add: fits_memory_def handle_entry_def size_max_def buffer_header_size_def)

lemma table_grows:
  assumes tab: "handles_are s tbl" and B: "plenty B" and small: "small_handle handle" and le: "length tbl \<le> unat handle"
  obtains v h where "on_handles (insertAt B handle_entry (Some (Given [None], 0)) (length tbl) (size_sub (handle_size (handle + 1)) (length tbl))) s =
      (Inr (int (length tbl)), s\<lparr>mHandleToObject := v, handle_heap := h\<rparr>)"
    and "handles_are (s\<lparr>mHandleToObject := v, handle_heap := h\<rparr>) (enlarged (unat handle) tbl)"
proof -
  let ?n = "unat handle" and ?k = "Suc (unat handle) - length tbl"
  have k: "size_sub (handle_size (handle + 1)) (length tbl) = ?k" "0 < ?k" "length tbl + ?k = Suc ?n"
    using small small_sizes [OF small] le by (simp_all add: small_handle_def size_sub_id)
  have fit: "fits_memory handle_entry (length (map Some tbl) + ?k)" using k(3) small by (simp add: small_handle_def fits_handles)
  obtain v h where "insertAt B handle_entry (Some (Given [None], 0)) (length tbl) ?k (mHandleToObject s) (handle_heap s) = (Inr (int (length tbl), v), h)"
      "vectors_in handle_entry h (add_mset (v, inserted (length tbl) (replicate ?k (Some None)) (map Some tbl)) {#})"
    by (rule insertAt_run [where i = "length tbl" and item = "Some (Given [None], 0)" and x = None, OF tab [unfolded handles_are_def] B _ k(2) fit]) simp_all
  then show thesis using that [of h v] k(1) by (simp add: on_handles_run handles_are_def inserted_def enlarged_def)
qed

lemma lookup_run:
  assumes tab: "handles_are s tbl" and B: "plenty B" and small: "small_handle handle"
  obtains v h b where "lookupHandleLocked B handle s = (Inr (Some (b, unat handle)), s\<lparr>mHandleToObject := v, handle_heap := h\<rparr>)"
    and "points_to (s\<lparr>mHandleToObject := v, handle_heap := h\<rparr>) (b, unat handle) (enlarged (unat handle) tbl)"
proof -
  let ?n = "unat handle" and ?N = "length tbl"
  have N: "mCount (mHandleToObject s) = ?N" using store_facts(1) [OF tab [unfolded handles_are_def]] by simp
  let ?grow = "if ?N \<le> handle_size handle
            then bindS (on_handles (insertAt B handle_entry (Some (Given [None], 0)) ?N (size_sub (handle_size (handle + 1)) ?N)))
                   (\<lambda>r. retS (to_status_t r))
            else retS 0"
  obtain r v h where g: "?grow s = (Inr r, s\<lparr>mHandleToObject := v, handle_heap := h\<rparr>)" "0 \<le> r"
      "handles_are (s\<lparr>mHandleToObject := v, handle_heap := h\<rparr>) (enlarged ?n tbl)"
  proof (cases "?N \<le> ?n")
    case True
    obtain v h where "on_handles (insertAt B handle_entry (Some (Given [None], 0)) ?N (size_sub (handle_size (handle + 1)) ?N)) s =
          (Inr (int ?N), s\<lparr>mHandleToObject := v, handle_heap := h\<rparr>)"
        "handles_are (s\<lparr>mHandleToObject := v, handle_heap := h\<rparr>) (enlarged ?n tbl)"
      by (rule table_grows [OF tab B small True])
    moreover have "0 \<le> to_status_t (int ?N)" using True small by (intro to_status_small) (simp add: small_handle_def)
    ultimately show thesis using that True small_sizes [OF small] by (simp add: bindS_def retS_def)
  next
    case False
    then show thesis using that [of 0 "handle_heap s" "mHandleToObject s"] tab small_sizes [OF small] by (simp add: retS_def)
  qed
  have st: "vectors_in handle_entry h (add_mset (v, map Some (enlarged ?n tbl)) {#})" and n: "?n < length (map Some (enlarged ?n tbl))"
    using g(3) by (simp_all add: handles_are_def)
  obtain v' h' b sb where e: "editItemLocation B handle_entry ?n v h = (Inr (Some b, v'), h')" "mStorage v' = Some b"
      "mCount v' = length (map Some (enlarged ?n tbl))" "owned handle_entry h' b sb {#}" "holds_items handle_entry sb (map Some (enlarged ?n tbl))"
    by (rule editItemLocation_run [OF st B n])
  have "vectors_in handle_entry h' (add_mset (v', map Some (enlarged ?n tbl)) {#})"
    by (rule owned_store [OF e(4,2)]) (use e(3,5) in \<open>simp_all add: values_ok_def\<close>)
  then have "points_to (s\<lparr>mHandleToObject := v', handle_heap := h'\<rparr>) (b, ?n) (enlarged ?n tbl)"
    using e(2) by (simp add: points_to_def handles_are_def)
  moreover have "lookupHandleLocked B handle s = (Inr (Some (b, ?n)), s\<lparr>mHandleToObject := v', handle_heap := h'\<rparr>)"
  proof -
    have get: "getS (\<lambda>s. mCount (mHandleToObject s)) s = (Inr ?N, s)" using N by (simp add: getS_def)
    have "on_handles (editItemLocation B handle_entry ?n) (s\<lparr>mHandleToObject := v, handle_heap := h\<rparr>) =
        (Inr (Some b), s\<lparr>mHandleToObject := v', handle_heap := h'\<rparr>)"
      using on_handles_run [of "editItemLocation B handle_entry ?n" "s\<lparr>mHandleToObject := v, handle_heap := h\<rparr>" "Some b" v' h'] e(1) by simp
    then show ?thesis unfolding lookupHandleLocked_def bindS_run(1) [where m = "getS (\<lambda>s. mCount (mHandleToObject s))" and s = s, OF get]
        bindS_run(1) [where m = ?grow and s = s, OF g(1)]
      using g(2) small_sizes(1) [OF small] by (simp add: bindS_run(1) retS_def)
  qed
  ultimately show thesis by (rule that [rotated])
qed

lemma entry_access:
  assumes "points_to s e tbl"
  shows "get_entry e s = (Inr (tbl ! snd e), s)"
    and "\<exists>h. set_entry e b s = (Inr (), s\<lparr>handle_heap := h\<rparr>) \<and> handles_are (s\<lparr>handle_heap := h\<rparr>) (tbl[snd e := b])"
proof -
  have st: "vectors_in handle_entry (handle_heap s) (add_mset (mHandleToObject s, map Some tbl) {#})"
    and c: "mStorage (mHandleToObject s) = Some (fst e)" and n: "snd e < length tbl"
    using assms by (simp_all add: points_to_def handles_are_def)
  obtain sb where sb: "bufs (handle_heap s) (fst e) = Some sb" "holds_items handle_entry sb (map Some tbl)" by (rule store_buffer [OF st c])
  have i: "snd e < length (cells sb)" "cells sb ! snd e = Some (tbl ! snd e)"
    using sb(2) n nth_take [of "snd e" "length tbl" "cells sb"] by (auto simp: holds_items_def)
  show "get_entry e s = (Inr (tbl ! snd e), s)"
    using sb(1) i by (simp add: get_entry_def on_handle_heap_def bindS_def retS_def)
  have "mRefs sb = 1" using store_buf [OF st sb(1)] c by (simp add: owners_def)
  note own = store_owned(1) [OF st c sb(1) this]
  let ?h = "set_cells (fst e) ((cells sb)[snd e := Some b]) (handle_heap s)"
  have "vectors_in handle_entry ?h (add_mset (mHandleToObject s, (map Some tbl)[snd e := Some b]) {#})"
    by (rule owned_update [OF own sb(2)]) (use n c store_facts(1) [OF st] in \<open>auto simp: values_ok_def simp flip: map_update\<close>)
  moreover have "set_entry e b s = (Inr (), s\<lparr>handle_heap := ?h\<rparr>)"
    using sb(1) i by (simp add: set_entry_def on_handle_heap_def bindS_def set_buf_cells)
  ultimately show "\<exists>h. set_entry e b s = (Inr (), s\<lparr>handle_heap := h\<rparr>) \<and> handles_are (s\<lparr>handle_heap := h\<rparr>) (tbl[snd e := b])"
    by (auto simp: handles_are_def map_update)
qed

section \<open>The table is a map\<close>

text \<open>What the library does with the table: it asks for the proxy of a handle, where \<open>weak_ok\<close> says of which proxies a weak reference can still
  be taken, and it takes a proxy out of the table that is being destroyed.\<close>

datatype handle_command = AskProxy u32 "nat \<Rightarrow> bool" | Expunge u32 nat

primrec handle_of :: "handle_command \<Rightarrow> u32" where
  "handle_of (AskProxy handle weak_ok) = handle"
| "handle_of (Expunge handle k) = handle"

primrec handle_step :: "build \<Rightarrow> handle_command \<Rightarrow> unit \<Rightarrow> (aprocess, nat option \<times> unit) comp" where
  "handle_step B (AskProxy handle weak_ok) u = bindS (getWeakProxyForHandle B weak_ok handle) (\<lambda>k. retS (k, ()))"
| "handle_step B (Expunge handle k) u = bindS (expungeHandle B handle k) (\<lambda>_. retS (None, ()))"

text \<open>The same on a map and the number of the next proxy.\<close>

type_synonym proxy_map = "(nat \<rightharpoonup> nat) \<times> nat"

definition live :: "(nat \<Rightarrow> bool) \<Rightarrow> nat option \<Rightarrow> nat option" where
  "live weak_ok b = (case b of None \<Rightarrow> None | Some k \<Rightarrow> if weak_ok k then Some k else None)"

primrec proxy_step :: "handle_command \<Rightarrow> proxy_map \<Rightarrow> nat option \<times> proxy_map" where
  "proxy_step (AskProxy handle weak_ok) a =
     (case live weak_ok (fst a (unat handle)) of
        None \<Rightarrow> (Some (snd a), (fst a)(unat handle \<mapsto> snd a), Suc (snd a))
      | Some k \<Rightarrow> (Some k, a))"
| "proxy_step (Expunge handle k) a =
     (None, (if fst a (unat handle) = Some k then (fst a)(unat handle := None) else fst a), snd a)"

text \<open>A proxy in the table is a proxy for its handle.\<close>

definition proxies_ok :: "aprocess \<Rightarrow> (nat \<rightharpoonup> nat) \<Rightarrow> bool" where
  "proxies_ok s m \<longleftrightarrow> (\<forall>n k. m n = Some k \<longrightarrow> k < next_proxy s \<and> (\<exists>b. proxies s k = Some b \<and> unat (mHandle b) = n))"

definition proxy_rel :: "aprocess \<Rightarrow> unit \<Rightarrow> proxy_map \<Rightarrow> bool" where
  "proxy_rel s u a \<longleftrightarrow> proxies_ok s (fst a) \<and> snd a = next_proxy s \<and> (\<exists>tbl. handles_are s tbl \<and> fst a = entry_of tbl)"

lemma getWeak_run:
  assumes "handles_are s tbl" and "plenty B" and "small_handle handle" and "proxies_ok s (entry_of tbl)"
  shows "\<exists>s'. getWeakProxyForHandle B weak_ok handle s = (Inr (fst (proxy_step (AskProxy handle weak_ok) (entry_of tbl, next_proxy s))), s') \<and>
    proxy_rel s' () (snd (proxy_step (AskProxy handle weak_ok) (entry_of tbl, next_proxy s)))"
proof -
  let ?n = "unat handle" and ?tbl = "enlarged (unat handle) tbl"
  obtain v h b where l: "lookupHandleLocked B handle s = (Inr (Some (b, ?n)), s\<lparr>mHandleToObject := v, handle_heap := h\<rparr>)"
      "points_to (s\<lparr>mHandleToObject := v, handle_heap := h\<rparr>) (b, ?n) ?tbl"
    by (rule lookup_run [OF assms(1-3)])
  let ?s = "s\<lparr>mHandleToObject := v, handle_heap := h\<rparr>"
  have get: "get_entry (b, ?n) ?s = (Inr (entry_of tbl ?n), ?s)" using entry_access(1) [OF l(2)] by simp
  show ?thesis
  proof (cases "live weak_ok (entry_of tbl ?n)")
    case (Some k)
    then have "getWeakProxyForHandle B weak_ok handle s = (Inr (Some k), ?s)"
      using l(1) get by (simp add: getWeakProxyForHandle_def bindS_def live_def retS_def)
    moreover have "proxy_rel ?s () (entry_of tbl, next_proxy s)"
      using l(2) assms(4) by (auto simp: proxy_rel_def proxies_ok_def points_to_def intro!: exI [of _ ?tbl])
    ultimately show ?thesis using Some by simp
  next
    case None
    let ?t = "?s\<lparr>proxies := (proxies s)(next_proxy s \<mapsto> BpBinder handle), next_proxy := next_proxy s + 1\<rparr>"
    have "points_to ?t (b, ?n) ?tbl" using l(2) by (simp add: points_to_def handles_are_def)
    then obtain h' where set: "set_entry (b, ?n) (Some (next_proxy s)) ?t = (Inr (), ?t\<lparr>handle_heap := h'\<rparr>)"
        "handles_are (?t\<lparr>handle_heap := h'\<rparr>) (?tbl[?n := Some (next_proxy s)])"
      using entry_access(2) [of ?t "(b, ?n)" ?tbl "Some (next_proxy s)"] by auto
    have "getWeakProxyForHandle B weak_ok handle s = (Inr (Some (next_proxy s)), ?t\<lparr>handle_heap := h'\<rparr>)"
      using l(1) get None set(1) by (simp add: getWeakProxyForHandle_def new_BpBinder_def bindS_def seqS_def live_def retS_def)
    moreover have "proxy_rel (?t\<lparr>handle_heap := h'\<rparr>) () ((entry_of tbl)(?n \<mapsto> next_proxy s), Suc (next_proxy s))"
      using set(2) assms(4) unfolding proxy_rel_def
      by (auto simp: proxies_ok_def BpBinder_def entry_of_update less_Suc_eq intro!: exI [of _ "?tbl[?n := Some (next_proxy s)]"])
    ultimately show ?thesis using None by simp
  qed
qed

lemma expunge_run:
  assumes "handles_are s tbl" and "plenty B" and "small_handle handle" and "proxies_ok s (entry_of tbl)"
  shows "\<exists>s'. expungeHandle B handle k s = (Inr (), s') \<and> proxy_rel s' () (snd (proxy_step (Expunge handle k) (entry_of tbl, next_proxy s)))"
proof -
  let ?n = "unat handle" and ?tbl = "enlarged (unat handle) tbl"
  obtain v h b where l: "lookupHandleLocked B handle s = (Inr (Some (b, ?n)), s\<lparr>mHandleToObject := v, handle_heap := h\<rparr>)"
      "points_to (s\<lparr>mHandleToObject := v, handle_heap := h\<rparr>) (b, ?n) ?tbl"
    by (rule lookup_run [OF assms(1-3)])
  let ?s = "s\<lparr>mHandleToObject := v, handle_heap := h\<rparr>"
  have get: "get_entry (b, ?n) ?s = (Inr (entry_of tbl ?n), ?s)" using entry_access(1) [OF l(2)] by simp
  show ?thesis
  proof (cases "entry_of tbl ?n = Some k")
    case True
    obtain h' where set: "set_entry (b, ?n) None ?s = (Inr (), ?s\<lparr>handle_heap := h'\<rparr>)" "handles_are (?s\<lparr>handle_heap := h'\<rparr>) (?tbl[?n := None])"
      using entry_access(2) [OF l(2), of None] by auto
    have "expungeHandle B handle k s = (Inr (), ?s\<lparr>handle_heap := h'\<rparr>)"
      using l(1) get True set(1) by (simp add: expungeHandle_def bindS_def)
    moreover have "proxy_rel (?s\<lparr>handle_heap := h'\<rparr>) () ((entry_of tbl)(?n := None), next_proxy s)"
      using set(2) assms(4) unfolding proxy_rel_def
      by (auto simp: proxies_ok_def entry_of_update split: if_splits intro!: exI [of _ "?tbl[?n := None]"])
    ultimately show ?thesis using True by simp
  next
    case False
    then have "expungeHandle B handle k s = (Inr (), ?s)" using l(1) get by (simp add: expungeHandle_def bindS_def retS_def)
    moreover have "proxy_rel ?s () (entry_of tbl, next_proxy s)"
      using l(2) assms(4) by (auto simp: proxy_rel_def proxies_ok_def points_to_def intro!: exI [of _ ?tbl])
    ultimately show ?thesis using False by simp
  qed
qed

lemma handle_step_refines:
  assumes "proxy_rel s u a" and "small_handle (handle_of c)" and "plenty B"
  shows "\<exists>u' s'. handle_step B c u s = (Inr (fst (proxy_step c a), u'), s') \<and> proxy_rel s' u' (snd (proxy_step c a))"
proof -
  obtain tbl where tbl: "proxies_ok s (entry_of tbl)" "handles_are s tbl" and a: "a = (entry_of tbl, next_proxy s)"
    using assms(1) by (cases a) (auto simp: proxy_rel_def)
  show ?thesis
  proof (cases c)
    case (AskProxy handle weak_ok)
    then show ?thesis using getWeak_run [OF tbl(2) assms(3) _ tbl(1), of handle weak_ok] assms(2) a
      by (auto simp: bindS_def retS_def simp del: proxy_step.simps)
  next
    case (Expunge handle k)
    then show ?thesis using expunge_run [OF tbl(2) assms(3) _ tbl(1), of handle k] assms(2) a by (auto simp: bindS_def retS_def)
  qed
qed

locale proxy_tables =
  fixes B :: build
  assumes memory: "plenty B"

sublocale proxy_tables \<subseteq> command_refinement "handle_step B" proxy_step proxy_rel "\<lambda>c a. small_handle (handle_of c)"
  by unfold_locales (rule handle_step_refines [OF _ _ memory])

context proxy_tables
begin

lemma small_allowed: "list_all (\<lambda>c. small_handle (handle_of c)) cs \<Longrightarrow> all_allowed (\<lambda>c a. small_handle (handle_of c)) proxy_step cs a"
  by (induction cs arbitrary: a) auto

lemma table_refines:
  "list_all (\<lambda>c. small_handle (handle_of c)) cs \<Longrightarrow>
   \<exists>u s. run_commands (handle_step B) cs () (ProcessState c) = (Inr (fst (spec_commands proxy_step cs (Map.empty, 0)), u), s) \<and>
     proxy_rel s u (snd (spec_commands proxy_step cs (Map.empty, 0)))"
proof (rule commands_refine [OF _ small_allowed])
  show "proxy_rel (ProcessState c) () (Map.empty, 0)"
    using handles_empty [of c] by (auto simp: proxy_rel_def proxies_ok_def ProcessState_def entry_of_def fun_eq_iff intro!: exI [of _ "[]"])
qed

end

interpretation processes: proxy_tables plain_build
  by unfold_locales (rule plenty_plain)

text \<open>C4: the table of handles of a process is a map from handles to proxies. Asking for the proxy of a handle gives the one that the table holds, as long as a
  reference to it can be taken, and otherwise a new one, which the table holds from then on; a proxy that is destroyed is taken out only if the table still holds it. The
  vector that holds the table grows as needed, with entries that are null. A proxy that the table holds under a handle is a proxy for this handle.\<close>

theorem handle_table_is_map:
  assumes "plenty B" and "list_all (\<lambda>c. small_handle (handle_of c)) cs" and "spec_commands proxy_step cs (Map.empty, 0) = (ks, m, next)"
  shows "\<exists>s tbl. run_commands (handle_step B) cs () (ProcessState c) = (Inr (ks, ()), s) \<and> handles_are s tbl \<and> entry_of tbl = m \<and>
    (m n = Some k \<longrightarrow> (\<exists>b. proxies s k = Some b \<and> unat (mHandle b) = n))"
proof -
  have "proxy_tables B" using assms(1) by unfold_locales
  from proxy_tables.table_refines [OF this assms(2), of c] obtain u s where
    run: "run_commands (handle_step B) cs () (ProcessState c) = (Inr (ks, u), s)" and rel: "proxy_rel s u (m, next)"
    using assms(3) by auto
  then obtain tbl where "handles_are s tbl" "entry_of tbl = m" "proxies_ok s m" by (auto simp: proxy_rel_def)
  then show ?thesis using run by (intro exI [of _ s] exI [of _ tbl]) (auto simp: proxies_ok_def)
qed

definition example_handles :: "handle_command list" where
  "example_handles = [AskProxy 5 (\<lambda>_. True), AskProxy 5 (\<lambda>_. True), AskProxy 3 (\<lambda>_. True), Expunge 5 0, AskProxy 5 (\<lambda>_. True)]"

theorem handle_table_is_map_witness:
  "\<exists>s tbl b. run_commands (handle_step plain_build) example_handles () (ProcessState (connected_client [])) =
      (Inr ([Some 0, Some 0, Some 1, None, Some 2], ()), s) \<and>
    handles_are s tbl \<and> entry_of tbl 5 = Some 2 \<and> proxies s 2 = Some b \<and> unat (mHandle b) = 5"
proof -
  let ?m = "[5 \<mapsto> 2, 3 \<mapsto> 1] :: nat \<rightharpoonup> nat"
  have "list_all (\<lambda>c. small_handle (handle_of c)) example_handles" by (simp add: example_handles_def small_handle_def)
  moreover have "spec_commands proxy_step example_handles (Map.empty, 0) = ([Some 0, Some 0, Some 1, None, Some 2], ?m, 3)"
    by (simp add: example_handles_def live_def fun_eq_iff)
  ultimately obtain s tbl where "run_commands (handle_step plain_build) example_handles () (ProcessState (connected_client [])) =
        (Inr ([Some 0, Some 0, Some 1, None, Some 2], ()), s)" "handles_are s tbl" "entry_of tbl = ?m"
      "?m 5 = Some 2 \<longrightarrow> (\<exists>b. proxies s 2 = Some b \<and> unat (mHandle b) = 5)"
    using handle_table_is_map [OF plenty_plain, of example_handles "[Some 0, Some 0, Some 1, None, Some 2]" ?m 3 "connected_client []" 5 2] by blast
  moreover from this(4) obtain b where "proxies s 2 = Some b" "unat (mHandle b) = 5" by auto
  ultimately show ?thesis by (intro exI [of _ s] exI [of _ tbl] exI [of _ b]) simp
qed

section \<open>Handles that are no handles\<close>

text \<open>C39: a negative handle is not refused: the number of entries to be added is computed as a size, and for the handle -2 the size in bytes of the
  enlarged table ends the process.\<close>

theorem negative_handle_aborts:
  assumes "handles_are s tbl" and "length tbl < 2 ^ 32"
  shows "fst (lookupHandleLocked B (- 2) s) = Inl Aborted"
proof -
  have st: "vectors_in handle_entry (handle_heap s) (add_mset (mHandleToObject s, map Some tbl) {#})" using assms(1) by (simp add: handles_are_def)
  have sz: "handle_size (- 2) = 2 ^ 64 - 2" "handle_size (- 1) = 2 ^ 64 - 1"
    by (simp_all add: handle_size_def unsigned_minus_1_eq_mask mask_eq_exp_minus_1)
  let ?N = "length tbl" and ?amount = "2 ^ 64 - 1 - length tbl"
  have N: "mCount (mHandleToObject s) = ?N" using store_facts(1) [OF st] by simp
  have amount: "size_sub (2 ^ 64 - 1) ?N = ?amount" "size_t (?N + ?amount) = 2 ^ 64 - 1"
    using assms(2) by (simp_all add: size_sub_id size_t_def)
  have cap: "cap_of handle_entry (handle_heap s) (mHandleToObject s) < 2 ^ 64 - 1"
  proof (cases "mStorage (mHandleToObject s)")
    case (Some b)
    obtain sb where sb: "bufs (handle_heap s) b = Some sb" "buffer_ok handle_entry sb" by (rule store_buffer [OF st Some])
    have "mSize sb div item_size handle_entry \<le> mSize sb" by simp
    also have "\<dots> < 2 ^ 64 - 1" using sb(2) by (simp add: buffer_ok_def size_max_def buffer_header_size_def)
    finally show ?thesis using Some sb(1) by (simp add: cap_of_def)
  qed (simp add: cap_of_def)
  have "SB_alloc B handle_entry (size_t (grown_capacity (2 ^ 64 - 1) * item_size handle_entry)) (handle_heap s) = (Inl Aborted, handle_heap s)"
    by (simp add: SB_alloc_def grown_capacity_def kMinVectorCapacity_def size_t_def handle_entry_def size_max_def buffer_header_size_def throwS_def)
  then have "grow_storage B handle_entry ?N ?amount (cap_of handle_entry (handle_heap s) (mHandleToObject s)) (2 ^ 64 - 1) (mHandleToObject s) (handle_heap s) =
      (Inl Aborted, handle_heap s)"
    using cap by (simp add: grow_storage_def relocate_def Let_def handle_entry_def bindS_def)
  then have "insertAt B handle_entry (Some (Given [None], 0)) ?N ?amount (mHandleToObject s) (handle_heap s) = (Inl Aborted, handle_heap s)"
    using capacity_run(1) [OF st] N amount(2) by (simp add: insertAt_def vec_grow_def Let_def bindS_def)
  then show ?thesis
    using N sz amount(1) assms(2)
    by (simp add: lookupHandleLocked_def on_handles_def on_handle_heap_def bindS_def getS_def)
qed

theorem negative_handle_aborts_witness: "fst (lookupHandleLocked plain_build (- 2) (ProcessState (connected_client []))) = Inl Aborted"
  by (rule negative_handle_aborts [OF handles_empty]) simp

end
