(* ===== verification/Socket_Messenger.thy ===== *)
theory Socket_Messenger
  imports Buffer
begin

text \<open>
  \<^verbatim>\<open>src/src/binderd/socket_messenger.cpp\<close>: messages travel over a stream socket, each
  after a two-byte length. The socket itself is asio's: \<open>writes\<close> lists the frames that are given to
  \<^verbatim>\<open>async_write\<close>, and the events are its completions, with or without an error. A frame lies in a buffer that only a local variable
  of \<^verbatim>\<open>WriteNext\<close> owns; \<open>frame_alive\<close> says whether it still exists. What the peer gets while it does not is up to the
  memory, so nothing is said about the bytes that arrive.
\<close>

unbundle bit_operations_syntax

record messenger =
  write_queue :: "byte list list"
  m_exit :: bool
  writes :: "byte list list"
  in_flight :: bool
  frame_alive :: bool
  shut_down :: bool

type_synonym 'a msgr = "(messenger, 'a) comp"

definition SocketMessenger :: messenger where
  "SocketMessenger = \<lparr>write_queue = [], m_exit = False, writes = [], in_flight = False, frame_alive = False, shut_down = False\<rparr>"

abbreviation (input) header_size :: nat where "header_size \<equiv> 2"

text \<open>The two header bytes: \<^verbatim>\<open>size >> 8\<close> and \<^verbatim>\<open>size\<close>, each cut to eight bits.\<close>

definition whole_message :: "byte list \<Rightarrow> byte list" where
  "whole_message item =
     (let sz = of_nat (length item) :: u64 in
      [ucast (drop_bit 8 sz AND 0xff), ucast (sz AND 0xff)] @ item)"

definition WriteNext :: "unit msgr" where
  "WriteNext =
     bindS (getS (\<lambda>m. (m_exit m, write_queue m))) (\<lambda>(ex, q).
     if ex then retS ()
     else case q of
        [] \<Rightarrow> throwS MemFault
      | item # _ \<Rightarrow>
          seqS (modS (\<lambda>m. m\<lparr>frame_alive := True\<rparr>))
         (seqS (modS (\<lambda>m. m\<lparr>writes := writes m @ [whole_message item], in_flight := True\<rparr>))
          (modS (\<lambda>m. m\<lparr>frame_alive := False\<rparr>))))"

definition Messenger_WriteData :: "byte list \<Rightarrow> unit msgr" where
  "Messenger_WriteData d =
     seqS (modS (\<lambda>m. m\<lparr>write_queue := write_queue m @ [d]\<rparr>))
    (bindS (getS write_queue) (\<lambda>q. if length q > 1 then retS () else WriteNext))"

text \<open>\<open>OnMessageSent err\<close>: the completion handler of \<^verbatim>\<open>async_write\<close>.\<close>

definition OnMessageSent :: "bool \<Rightarrow> unit msgr" where
  "OnMessageSent err =
     seqS (modS (\<lambda>m. m\<lparr>in_flight := False\<rparr>))
    (if err then retS ()
     else
       bindS (getS write_queue) (\<lambda>q.
       case q of
         [] \<Rightarrow> throwS MemFault
       | _ # q' \<Rightarrow>
           seqS (modS (\<lambda>m. m\<lparr>write_queue := q'\<rparr>))
          (seqS (if length q' > 0 then WriteNext else retS ())
           (modS (\<lambda>m. if m_exit m then m\<lparr>shut_down := True\<rparr> else m)))))"

definition Messenger_Close :: "unit msgr" where
  "Messenger_Close = modS (\<lambda>m. m\<lparr>m_exit := True\<rparr>)"

section \<open>Reading\<close>

text \<open>
  \<open>ReadMessage a s\<close>: what the handler given to \<^verbatim>\<open>ReadMessageAsync\<close> is called with when
  the stream holds the bytes \<open>s\<close> and then ends: \<open>Inr (Some b, rest)\<close> is a message,
  \<open>Inr (None, [])\<close> an error. Whether the body has arrived already or is waited for, the
  handler gets the same bytes.
\<close>

definition body_size :: "byte \<Rightarrow> byte \<Rightarrow> nat" where
  "body_size h0 h1 = unat h0 * 2 ^ 8 + unat h1"

definition ReadMessage :: "allocator \<Rightarrow> buffer \<Rightarrow> byte list \<Rightarrow> (buffer option \<times> byte list) res" where
  "ReadMessage a body s =
     (case s of
        h0 # h1 # rest \<Rightarrow>
          bindR (buffer_Resize a (body_size h0 h1) body) (\<lambda>body.
          if length rest \<ge> body_size h0 h1
          then Inr (Some (body\<lparr>bdata := take (body_size h0 h1) rest\<rparr>), drop (body_size h0 h1) rest)
          else Inr (None, []))
      | _ \<Rightarrow> Inr (None, []))"

text \<open>\<open>ReadBuffer sz answers\<close>: the loop that fills a buffer of \<open>sz\<close> bytes. An answer of
  \<^verbatim>\<open>asio::read\<close> is the number of bytes it read and its error code; the result is the
  error code the loop returns with and the bytes it read, or \<open>None\<close> while it waits for
  a further answer.\<close>

datatype io_error = NoError | WouldBlockError | OtherError

primrec ReadBuffer_loop :: "nat \<Rightarrow> nat \<Rightarrow> io_error \<Rightarrow> (nat \<times> io_error) list \<Rightarrow> (io_error \<times> nat) option" where
  "ReadBuffer_loop sz nread err [] = (if nread < sz then None else Some (err, nread))"
| "ReadBuffer_loop sz nread err (a # as) =
     (if nread < sz then
        (let nread = nread + fst a; err = snd a in
         if err \<noteq> NoError \<and> err \<noteq> WouldBlockError then Some (err, nread)
         else ReadBuffer_loop sz nread err as)
      else Some (err, nread))"

definition ReadBuffer :: "nat \<Rightarrow> (nat \<times> io_error) list \<Rightarrow> (io_error \<times> nat) option" where
  "ReadBuffer sz answers = ReadBuffer_loop sz 0 NoError answers"

section \<open>Frames\<close>

lemma length_whole_message [simp]: "length (whole_message d) = length d + 2"
  by (simp add: whole_message_def Let_def)

lemma header_high: "unat (ucast (drop_bit 8 (w :: u64) AND 0xff) :: byte) = unat w div 256 mod 256"
proof -
  have "(ucast (drop_bit 8 w AND 0xff) :: byte) = ucast (drop_bit 8 w)"
    by (rule bit_word_eqI) (auto simp: bit_simps bit_numeral_rec numeral_eq_Suc less_Suc_eq_0_disj)
  moreover have "unat (ucast (drop_bit 8 w) :: byte) = unat w div 256 mod 256"
    by (simp add: unat_ucast_mod unat_drop_bit_eq drop_bit_eq_div unat_div)
  ultimately show ?thesis by simp
qed

lemma header_low: "unat (ucast ((w :: u64) AND 0xff) :: byte) = unat w mod 256"
proof -
  have "(ucast (w AND 0xff) :: byte) = ucast w"
    by (rule bit_word_eqI) (auto simp: bit_simps bit_numeral_rec numeral_eq_Suc less_Suc_eq_0_disj)
  then show ?thesis by (simp add: unat_ucast_mod)
qed

text \<open>The header carries the length modulo 65536.\<close>

lemma body_size_header:
  assumes "whole_message d = h0 # h1 # d"
  shows "body_size h0 h1 = length d mod 65536"
proof -
  have h: "h0 = ucast (drop_bit 8 (of_nat (length d) :: u64) AND 0xff)"
      "h1 = ucast ((of_nat (length d) :: u64) AND 0xff)"
    using assms by (simp_all add: whole_message_def Let_def)
  let ?n = "length d"
  have "?n mod 2 ^ 64 = 256 * (?n div 256 mod 2 ^ 56) + ?n mod 256"
    using mod_mult2_eq [of ?n 256 "2 ^ 56"] by simp
  then have "?n mod 2 ^ 64 div 256 mod 256 = ?n div 256 mod 2 ^ 56 mod 256" by simp
  also have "\<dots> = ?n div 256 mod 256" by (rule mod_mod_cancel) simp
  finally have "unat h0 = ?n div 256 mod 256"
    unfolding h header_high by (simp add: unat_of_nat)
  moreover have "unat h1 = ?n mod 256"
    unfolding h header_low by (simp add: unat_of_nat mod_mod_cancel)
  ultimately show ?thesis unfolding body_size_def by (simp add: mod_mult2_eq [of ?n 256 256, simplified])
qed

text \<open>The messages a reader takes from a stream until it ends.\<close>

function ReadAll :: "allocator \<Rightarrow> buffer \<Rightarrow> byte list \<Rightarrow> byte list list res" where
  "ReadAll a body s =
     (case ReadMessage a body s of
        Inl e \<Rightarrow> Inl e
      | Inr (None, _) \<Rightarrow> Inr []
      | Inr (Some b, rest) \<Rightarrow> bindR (ReadAll a b rest) (\<lambda>ms. Inr (bdata b # ms)))"
  by pat_completeness auto
termination
proof (relation "measure (\<lambda>(a, body, s). length s)")
  fix a body s r n rest b
  assume "ReadMessage a body s = Inr r" and "(n, rest) = r" and "n = Some b"
  then have "ReadMessage a body s = Inr (Some b, rest)" by simp
  then have "length rest < length s"
    by (auto simp: ReadMessage_def bindR_Inr_iff split: list.splits if_splits)
  then show "((a, b, rest), (a, body, s)) \<in> measure (\<lambda>(a, body, s). length s)" by simp
qed simp

declare ReadAll.simps [simp del]

lemma ReadMessage_frame:
  assumes a: "total_alloc a" and body: "\<not> immutable body" and d: "length d < 65536"
  shows "ReadMessage a body (whole_message d @ s) = Inr (Some \<lparr>bdata = d, immutable = False\<rparr>, s)"
proof -
  obtain h0 h1 where h: "whole_message d = h0 # h1 # d" by (simp add: whole_message_def Let_def)
  then have sz: "body_size h0 h1 = length d" using body_size_header [OF h] d by simp
  show ?thesis
    unfolding h using a body sz by (simp add: ReadMessage_def buffer_Resize_def)
qed

lemma ReadAll_frames:
  assumes "total_alloc a" and "\<not> immutable body" and "\<forall>d\<in>set ds. length d < 65536"
  shows "ReadAll a body (concat (map whole_message ds)) = Inr ds"
  using assms
proof (induction ds arbitrary: body)
  case Nil
  then show ?case by (subst ReadAll.simps) (simp add: ReadMessage_def)
next
  case (Cons d ds)
  then have "ReadMessage a body (whole_message d @ concat (map whole_message ds)) =
      Inr (Some \<lparr>bdata = d, immutable = False\<rparr>, concat (map whole_message ds))"
    by (intro ReadMessage_frame) simp_all
  then show ?case
    using Cons by (subst ReadAll.simps) simp
qed

section \<open>The write queue\<close>

text \<open>Messages are handed over, writes complete with or without an error, and the messenger is closed, in any order the source
  allows: a write completes only while one is in flight. \<open>failed\<close> is the number of writes that had been started when one of
  them failed.\<close>

inductive messenger_run :: "byte list list \<Rightarrow> nat option \<Rightarrow> messenger \<Rightarrow> bool" where
  created: "messenger_run [] None SocketMessenger"
| handed: "messenger_run ds failed m \<Longrightarrow> Messenger_WriteData d m = (Inr (), m') \<Longrightarrow> messenger_run (ds @ [d]) failed m'"
| completed: "messenger_run ds failed m \<Longrightarrow> in_flight m \<Longrightarrow> OnMessageSent False m = (Inr (), m') \<Longrightarrow> messenger_run ds failed m'"
| broken: "messenger_run ds failed m \<Longrightarrow> in_flight m \<Longrightarrow> OnMessageSent True m = (Inr (), m') \<Longrightarrow>
    messenger_run ds (Some (length (writes m))) m'"
| closed: "messenger_run ds failed m \<Longrightarrow> Messenger_Close m = (Inr (), m') \<Longrightarrow> messenger_run ds failed m'"

text \<open>\<open>rest\<close>: the messages that were handed over and not yet given to the socket. After an error or when the messenger is closed
  they stay in the queue.\<close>

definition queue_ok :: "byte list list \<Rightarrow> nat option \<Rightarrow> messenger \<Rightarrow> bool" where
  "queue_ok ds failed m \<longleftrightarrow> \<not> frame_alive m \<and>
     (\<exists>rest. writes m @ map whole_message rest = map whole_message ds \<and>
       (case failed of
          Some n \<Rightarrow> \<not> in_flight m \<and> write_queue m \<noteq> [] \<and> length (writes m) = n
        | None \<Rightarrow>
            if in_flight m then \<exists>d. write_queue m = d # rest
            else write_queue m = rest \<and> (m_exit m \<or> rest = [])))"

lemma queue_ok_none:
  assumes "queue_ok ds None m"
  obtains rest where "writes m @ map whole_message rest = map whole_message ds" and "\<not> frame_alive m"
    and "if in_flight m then \<exists>d. write_queue m = d # rest else write_queue m = rest \<and> (m_exit m \<or> rest = [])"
  using assms by (auto simp: queue_ok_def)

lemma WriteData_run:
  assumes "queue_ok ds failed m"
  shows "\<exists>m'. Messenger_WriteData d m = (Inr (), m') \<and> queue_ok (ds @ [d]) failed m'"
proof (cases failed)
  case None
  obtain rest where rest: "writes m @ map whole_message rest = map whole_message ds" "\<not> frame_alive m"
      "if in_flight m then \<exists>d. write_queue m = d # rest else write_queue m = rest \<and> (m_exit m \<or> rest = [])"
    using assms None queue_ok_none by blast
  show ?thesis
  proof (cases "in_flight m \<or> m_exit m")
    case True
    then show ?thesis using None rest
      by (auto simp: Messenger_WriteData_def WriteNext_def run_simps queue_ok_def split: if_splits intro!: exI [of _ "rest @ [d]"])
  next
    case False
    then show ?thesis using None rest
      by (auto simp: Messenger_WriteData_def WriteNext_def run_simps queue_ok_def intro!: exI [of _ "[]"])
  qed
next
  case (Some n)
  then obtain rest where rest: "writes m @ map whole_message rest = map whole_message ds" "write_queue m \<noteq> []"
      "\<not> frame_alive m" "\<not> in_flight m" "length (writes m) = n"
    using assms by (auto simp: queue_ok_def)
  then show ?thesis using Some
    by (auto simp: Messenger_WriteData_def run_simps queue_ok_def neq_Nil_conv intro!: exI [of _ "rest @ [d]"])
qed

lemma OnMessageSent_run:
  assumes "queue_ok ds failed m" and "in_flight m"
  shows "\<exists>m'. OnMessageSent False m = (Inr (), m') \<and> queue_ok ds failed m'"
    and "\<exists>m'. OnMessageSent True m = (Inr (), m') \<and> queue_ok ds (Some (length (writes m))) m'"
proof -
  have "failed = None" using assms by (auto simp: queue_ok_def split: option.splits)
  with assms obtain d rest where r: "writes m @ map whole_message rest = map whole_message ds" "\<not> frame_alive m"
      "write_queue m = d # rest"
    by (auto simp: queue_ok_def)
  show "\<exists>m'. OnMessageSent True m = (Inr (), m') \<and> queue_ok ds (Some (length (writes m))) m'"
    using r by (auto simp: OnMessageSent_def run_simps queue_ok_def)
  show "\<exists>m'. OnMessageSent False m = (Inr (), m') \<and> queue_ok ds failed m'"
  proof (cases "rest = [] \<or> m_exit m")
    case True
    then show ?thesis using r \<open>failed = None\<close>
      by (auto simp: OnMessageSent_def WriteNext_def run_simps queue_ok_def)
  next
    case False
    then obtain e es where "rest = e # es" by (cases rest) auto
    then show ?thesis using r False \<open>failed = None\<close>
      by (auto simp: OnMessageSent_def WriteNext_def run_simps queue_ok_def)
  qed
qed

lemma queue_okI:
  "\<not> frame_alive m \<Longrightarrow> writes m @ map whole_message rest = map whole_message ds \<Longrightarrow>
   (case failed of
      Some n \<Rightarrow> \<not> in_flight m \<and> write_queue m \<noteq> [] \<and> length (writes m) = n
    | None \<Rightarrow> if in_flight m then \<exists>d. write_queue m = d # rest else write_queue m = rest \<and> (m_exit m \<or> rest = [])) \<Longrightarrow>
   queue_ok ds failed m"
  unfolding queue_ok_def by blast

lemma queue_okE:
  assumes "queue_ok ds failed m"
  obtains rest where "\<not> frame_alive m" and "writes m @ map whole_message rest = map whole_message ds"
    and "case failed of
      Some n \<Rightarrow> \<not> in_flight m \<and> write_queue m \<noteq> [] \<and> length (writes m) = n
    | None \<Rightarrow> if in_flight m then \<exists>d. write_queue m = d # rest else write_queue m = rest \<and> (m_exit m \<or> rest = [])"
  using assms unfolding queue_ok_def by blast

lemma Close_run:
  assumes "queue_ok ds failed m" and "Messenger_Close m = (Inr (), m')"
  shows "queue_ok ds failed m'"
  using assms(1)
proof (rule queue_okE)
  fix rest assume "\<not> frame_alive m" "writes m @ map whole_message rest = map whole_message ds"
    "case failed of
      Some n \<Rightarrow> \<not> in_flight m \<and> write_queue m \<noteq> [] \<and> length (writes m) = n
    | None \<Rightarrow> if in_flight m then \<exists>d. write_queue m = d # rest else write_queue m = rest \<and> (m_exit m \<or> rest = [])"
  then show ?thesis using assms(2)
    by (intro queue_okI [of m' rest]) (auto simp: Messenger_Close_def modS_def split: option.split)
qed

lemma queue_ok_run: "messenger_run ds failed m \<Longrightarrow> queue_ok ds failed m"
proof (induction rule: messenger_run.induct)
  case created
  then show ?case by (simp add: queue_ok_def SocketMessenger_def)
next
  case (handed ds failed m d m')
  then show ?case using WriteData_run [of ds failed m d] by auto
next
  case (completed ds failed m m')
  then show ?case using OnMessageSent_run(1) [of ds failed m] by auto
next
  case (broken ds failed m m')
  then show ?case using OnMessageSent_run(2) [of ds failed m] by auto
next
  case (closed ds failed m m')
  then show ?case using Close_run by blast
qed

section \<open>Properties\<close>

text \<open>C29: a reader that gets the frames of any sequence of messages, each shorter than
  65536 bytes, on its stream takes exactly these messages from it, in order.\<close>

theorem frames_round_trip:
  assumes "total_alloc a" and "\<forall>d\<in>set ds. length d < 65536"
  shows "ReadAll a empty_buffer (concat (map whole_message ds)) = Inr ds"
  using assms by (intro ReadAll_frames) simp_all

theorem frames_round_trip_witness:
  "ReadAll plain_alloc empty_buffer (concat (map whole_message [[1, 2], [], [3]])) = Inr [[1, 2], [], [3]]"
  using frames_round_trip [of plain_alloc "[[1, 2], [], [3]]"] by simp

text \<open>C30: whatever is handed over, completes, fails or is closed: the frames that are given to the socket are those of the
  first messages handed over, in their order and each once, and never two at a time. While nothing failed and nobody closed the
  messenger none is forgotten: when no write is in flight, all of them were given to the socket. After a write that
  failed no further one is started. The buffer of the frame is gone as long as its write is in flight.\<close>

theorem messages_written_in_order:
  assumes "messenger_run ds failed m"
  shows "writes m = map whole_message (take (length (writes m)) ds) \<and>
    (failed = None \<and> \<not> m_exit m \<and> \<not> in_flight m \<longrightarrow> length (writes m) = length ds) \<and>
    (failed = Some n \<longrightarrow> \<not> in_flight m \<and> length (writes m) = n) \<and> \<not> frame_alive m"
proof -
  have ok: "queue_ok ds failed m" using assms by (rule queue_ok_run)
  then obtain rest where alive: "\<not> frame_alive m" and eq': "writes m @ map whole_message rest = map whole_message ds"
      and case_failed: "case failed of
        Some n \<Rightarrow> \<not> in_flight m \<and> write_queue m \<noteq> [] \<and> length (writes m) = n
      | None \<Rightarrow> if in_flight m then \<exists>d. write_queue m = d # rest else write_queue m = rest \<and> (m_exit m \<or> rest = [])"
    by (rule queue_okE)
  note eq = eq' [symmetric]
  have last: "failed = None \<and> \<not> m_exit m \<and> \<not> in_flight m \<longrightarrow> rest = []"
    and fail: "failed = Some n \<longrightarrow> \<not> in_flight m \<and> length (writes m) = n"
    using case_failed by auto
  have w: "writes m = map whole_message (take (length (writes m)) ds)"
    using eq by (metis append_eq_conv_conj take_map)
  have "length ds = length (writes m) + length rest" using arg_cong [OF eq, of length] by simp
  then show ?thesis using w last fail alive by simp
qed

definition example_messenger :: messenger where
  "example_messenger = \<lparr>write_queue = [[1], [2]], m_exit = False, writes = [whole_message [1]], in_flight = False,
     frame_alive = False, shut_down = False\<rparr>"

theorem messages_written_in_order_witness:
  "messenger_run [[1], [2]] (Some 1) example_messenger \<and> length (writes example_messenger) = 1"
proof -
  let ?m1 = "example_messenger\<lparr>write_queue := [[1]], in_flight := True\<rparr>"
  let ?m2 = "example_messenger\<lparr>in_flight := True\<rparr>"
  have "Messenger_WriteData [1] SocketMessenger = (Inr (), ?m1)"
    by (simp add: Messenger_WriteData_def WriteNext_def run_simps SocketMessenger_def example_messenger_def)
  then have "messenger_run [[1]] None ?m1" using messenger_run.handed [OF messenger_run.created] by simp
  moreover have "Messenger_WriteData [2] ?m1 = (Inr (), ?m2)"
    by (simp add: Messenger_WriteData_def run_simps example_messenger_def)
  ultimately have r: "messenger_run [[1], [2]] None ?m2" using messenger_run.handed [of "[[1]]" None ?m1 "[2]" ?m2] by simp
  have "OnMessageSent True ?m2 = (Inr (), example_messenger)"
    by (simp add: OnMessageSent_def run_simps example_messenger_def)
  then have "messenger_run [[1], [2]] (Some 1) example_messenger"
    using messenger_run.broken [OF r] by (simp add: example_messenger_def)
  then show ?thesis using messages_written_in_order [of "[[1], [2]]" "Some 1" example_messenger 1] by simp
qed

text \<open>the header holds the length of a message modulo 65536, so of a longer message
  the peer takes only a first part for the message and reads on in its middle.\<close>

theorem long_frame_is_cut:
  assumes "total_alloc a"
  shows "ReadMessage a empty_buffer (whole_message d) =
    Inr (Some \<lparr>bdata = take (length d mod 65536) d, immutable = False\<rparr>, drop (length d mod 65536) d)"
proof -
  obtain h0 h1 where h: "whole_message d = h0 # h1 # d" by (simp add: whole_message_def Let_def)
  show ?thesis
    unfolding h using assms body_size_header [OF h] by (simp add: ReadMessage_def buffer_Resize_def)
qed

theorem long_frame_is_cut_witness:
  "ReadMessage plain_alloc empty_buffer (whole_message (replicate 65537 7)) =
    Inr (Some \<lparr>bdata = [7], immutable = False\<rparr>, replicate 65536 7)"
  using long_frame_is_cut [of plain_alloc "replicate 65537 7"] by simp

text \<open>closing a messenger that has nothing to send neither closes the socket nor lets
  later messages out: they stay in the queue.\<close>

theorem close_only_sets_flag:
  "\<exists>m'. seqS Messenger_Close (Messenger_WriteData d) SocketMessenger = (Inr (), m') \<and>
     \<not> shut_down m' \<and> writes m' = [] \<and> write_queue m' = [d] \<and> \<not> in_flight m'"
  by (simp add: Messenger_Close_def Messenger_WriteData_def WriteNext_def SocketMessenger_def run_simps)

lemma ReadBuffer_loop_result:
  "ReadBuffer_loop sz nread err answers = Some (e, n) \<Longrightarrow> sz \<le> n \<or> e = OtherError"
proof (induction answers arbitrary: nread err)
  case Nil
  then show ?case by (auto split: if_splits)
next
  case (Cons a as)
  show ?case
  proof (cases "nread < sz \<and> snd a \<noteq> NoError \<and> snd a \<noteq> WouldBlockError")
    case True
    then show ?thesis using Cons.prems by (cases "snd a") (auto simp: Let_def)
  next
    case False
    then show ?thesis using Cons by (auto simp: Let_def split: if_splits)
  qed
qed

text \<open>the loop that fills a buffer returns only with all bytes read or with an error
  other than \<open>would_block\<close>.\<close>

theorem ReadBuffer_complete:
  assumes "ReadBuffer sz answers = Some (e, n)"
  shows "sz \<le> n \<or> e = OtherError"
  using assms unfolding ReadBuffer_def by (rule ReadBuffer_loop_result)

theorem ReadBuffer_complete_witness:
  "ReadBuffer 5 [(2, WouldBlockError), (3, NoError)] = Some (NoError, 5) \<and> (5 :: nat) \<le> 5"
  using ReadBuffer_complete [of 5 "[(2, WouldBlockError), (3, NoError)]" NoError 5]
  by (simp add: ReadBuffer_def)

end
