(* ===== verification/End_To_End.thy ===== *)
theory End_To_End
  imports Server_Behaviour Client Socket_Messenger
begin

text \<open>
  The parts together: a call of one client to the context object of another, over the
  sockets and through the server, from \<^verbatim>\<open>ClientImpl::Transact\<close> of the caller to
  \<^verbatim>\<open>HandleContextObjectMessage\<close> of the callee and back.
\<close>

section \<open>Messages without objects\<close>

text \<open>Transaction data without object references, whose bytes are \<open>d\<close>.\<close>

definition plain_data :: "transaction_data \<Rightarrow> byte list \<Rightarrow> bool" where
  "plain_data td d \<longleftrightarrow> GetData_bytes td = Inr d \<and> GetObjectOffsets_bytes td = Inr [] \<and> td_count td = 0 \<and>
     \<not> td_has_status td \<and> (td_readable td \<longleftrightarrow> d \<noteq> [])"

text \<open>The data of a message that carries it; the bound keeps it under 256 bytes with its
  header and padding.\<close>

definition carried :: "transaction_data \<Rightarrow> byte list \<Rightarrow> byte list" where
  "carried td d = padded_bytes True (td_packed (td_ptr td) (td_cookie td) (td_code td) (td_flags td) d [])"

lemma length_padded_td: "length d \<le> 220 \<Longrightarrow> length (padded_bytes True (td_packed p c code fl d [])) < 256"
  by (simp add: padded_len_def)

lemma padded_prefix: "\<exists>xs. padded_bytes True bs = bs @ xs"
  by (simp add: padded_bytes_def)

lemma length_carried: "length d \<le> 220 \<Longrightarrow> length (carried td d) < 256"
  unfolding carried_def by (rule length_padded_td)

lemma carried_prefix:
  "\<exists>xs. carried td d = td_packed (td_ptr td) (td_cookie td) (td_code td) (td_flags td) d [] @ xs"
  by (simp add: carried_def padded_prefix)

lemma Pack_plain:
  assumes "total_alloc a" and "plain_data td d" and "length d \<le> 220"
  shows "bindR (TransactionData_Pack a td) (\<lambda>b. Message_write (WriteData a (bdata b)) (fresh_message t c ds [])) =
    Inr (fresh_message t c ds (carried td d))"
  using assms by (simp add: plain_data_def TransactionData_Pack_eq [where d = d and os = "[]"]
      Message_write_run carried_def)

lemma TransactionDataFromMessage_plain:
  assumes "bdata (mdata msg) = td_packed p c code fl d [] @ xs" and "length d \<le> 220"
    and "(low_byte fl :: u32) AND flag_HasStatus = 0"
  obtains td where "TransactionDataFromMessage msg = Inr td" and "plain_data td d" and "td_code td = low_byte code"
    and "td_one_way td \<longleftrightarrow> (low_byte fl :: u32) AND flag_OneWay \<noteq> 0"
proof (rule that)
  show "TransactionDataFromMessage msg = Inr \<lparr>td_ptr = low_byte p, td_cookie = low_byte c, td_code = low_byte code,
      td_one_way = ((low_byte fl :: u32) AND flag_OneWay \<noteq> 0), td_has_status = False, td_block = bdata (mdata msg),
      td_base = 28, td_size = length d, td_readable = (d \<noteq> []), td_writable = (d \<noteq> []),
      td_offsets = InBlock (32 + length d), td_count = 0\<rparr>" (is "_ = Inr ?td")
    using TransactionDataFromMessage_packed [OF assms(1)] assms(2,3) by simp
  show "plain_data ?td d"
    using assms(1) by (simp add: plain_data_def GetData_bytes_def GetObjectOffsets_bytes_def mem_read_def td_packed_def)
qed simp_all

section \<open>The caller\<close>

text \<open>\<^verbatim>\<open>Transact\<close> takes a cookie that \<^verbatim>\<open>StartCall\<close> replaces by the next one.\<close>

definition call_cookie :: "client \<Rightarrow> u64" where
  "call_cookie c = next_cookie c + 1"

definition ready_to_call :: "client \<Rightarrow> bool" where
  "ready_to_call c \<longleftrightarrow> ready (c\<lparr>next_cookie := call_cookie c\<rparr>) \<and> unat (call_cookie c) < 256"

definition request_message :: "client \<Rightarrow> u64 \<Rightarrow> transaction_data \<Rightarrow> byte list \<Rightarrow> message" where
  "request_message c handle td d =
     fresh_message TTransaction (call_cookie c) (scast (ucast handle :: u32)) (carried td d)"

lemma Transact_caller:
  assumes c: "ready_to_call c" and td: "plain_data td d" "\<not> td_one_way td" "length d \<le> 220"
    and frames: "incoming c = ack # answer # later" "bdata ack = packed (status_reply (call_cookie c) OK)"
      "bdata answer = packed reply"
    and reply: "mcookie reply = call_cookie c" "mtype reply = TTransactionReply" "unat (mdestination reply) < 256"
      "bdata (mdata reply) = td_packed p q code fl rd [] @ xs" "length (bdata (mdata reply)) < 256"
      "(low_byte fl :: u32) AND flag_HasStatus = 0" "length rd \<le> 220"
  shows "\<exists>c' res. Transact handle (Some td) True c = (Inr (OK, Some res), c') \<and> plain_data res rd \<and>
    c_outbox c' = c_outbox c @ [packed (request_message c handle td d)] \<and> incoming c' = later"
proof -
  let ?c = "c\<lparr>next_cookie := call_cookie c\<rparr>" and ?h = "scast (ucast handle :: u32) :: u64"
  let ?msg = "fresh_message TTransaction (next_cookie c) ?h (carried td d)"
  have a: "total_alloc (c_alloc c)" using c by (simp add: ready_to_call_def ready_def)
  have "fits ?msg" using length_carried [OF td(3), of td] by (simp add: fits_def)
  then obtain c' where c': "Transact_message ?msg False ?c = (Inr (Some (truncated reply)), c')"
    "c_outbox c' = c_outbox c @ [packed (request_message c handle td d)]" "incoming c' = later"
    using two_way_call [of ?c ?msg ack answer later reply] c frames reply
    by (auto simp: ready_to_call_def request_message_def)
  have tr: "mtype (truncated reply) = TTransactionReply" "bdata (mdata (truncated reply)) = td_packed p q code fl rd [] @ xs"
    using truncated_id [of reply] reply c by (simp_all add: known_types_def ready_to_call_def)
  obtain res where res: "TransactionDataFromMessage (truncated reply) = Inr res" "plain_data res rd"
    using TransactionDataFromMessage_plain [OF tr(2) reply(7,6)] by blast
  have new: "NewCookie c = (Inr (next_cookie c), ?c)" by (simp add: NewCookie_def call_cookie_def)
  have pt: "on_translator (ProcessTransaction dir x) y = (Inr (OK, x), y)" if "td_count x = 0" for dir x y
    using that by (simp add: on_translator_def ProcessTransaction_def retS_def)
  have "Transact handle (Some td) True c = (Inr (OK, Some res), c')"
    using td new pt [of td] pt [of res] Pack_plain [OF a td(1,3)] c' tr(1) res
    by (simp add: Transact_def plain_data_def bindS_def getS_def liftS_def retS_def Let_def Message_Create_fresh)
  then show ?thesis using c' res by blast
qed

section \<open>The server\<close>

text \<open>A session that is not the monitor finds what was delivered to it, and nothing else.\<close>

lemma sess_deliver:
  assumes "monitor (reg s) \<noteq> Some z"
  shows "sess (deliver x msg s) z =
    (if z = x then map_option (\<lambda>y. y\<lparr>outbox := outbox y @ [packed msg]\<rparr>) (sess s z) else sess s z)"
  using assms by (auto simp: deliver_def put_def upd_sess_def split: option.splits)

lemma sess_upd_sess: "sess (upd_sess x f s) z = (if z = x then map_option f (sess s z) else sess s z)"
  by (simp add: upd_sess_def)

lemma upd_sess_frame [simp]:
  "reg (upd_sess x f s) = reg s" "alloc (upd_sess x f s) = alloc s"
  by (simp_all add: upd_sess_def)

lemma OnRead_request:
  assumes a: "total_alloc (alloc s)" and xt: "x \<noteq> t" and x: "sess s x = Some yx" and t: "sess s t = Some yt"
    and mgr: "context_mgr (reg s) = Some t" "monitor (reg s) \<noteq> Some x" "monitor (reg s) \<noteq> Some t"
    and ob: "um_find 0 (objects yt) = None"
    and b: "bdata b = packed msg" "mtype msg = TTransaction" "mdestination msg = 0" "unat (mcookie msg) < 256"
      "bdata (mdata msg) = td_packed p c code fl d [] @ xs" "length (bdata (mdata msg)) < 256" "length d \<le> 220"
  shows "\<exists>s'. OnRead x (Some b) s = (Inr (), s') \<and> reg s' = reg s \<and> alloc s' = alloc s \<and>
    sess s' x = Some (yx\<lparr>outbox := outbox yx @ [packed (status_reply (mcookie msg) OK)], reading := True\<rparr>) \<and>
    sess s' t = Some (add_pending (next_transaction_cookie yt)
        \<lparr>tr_caller = x, tr_reply_cookie = mcookie msg, tr_message = truncated msg\<rparr>
        (yt\<lparr>outbox := outbox yt @ [packed (posted (next_transaction_cookie yt) 0 0 0 (low_byte code) d [])]\<rparr>))"
proof -
  let ?s = "upd_sess x (\<lambda>y. y\<lparr>reading := False\<rparr>) s" and ?m = "truncated msg"
  have m: "mtype ?m = TTransaction" "mcookie ?m = mcookie msg" "mdestination ?m = 0"
    "bdata (mdata ?m) = td_packed p c code fl d [] @ xs"
    using truncated_id [of msg] b by (simp_all add: known_types_def)
  have "FindSessionByHandle (mdestination ?m) (reg ?s) = Some t" "target_object (mdestination ?m) yt = Some (0, 0)"
    "sess ?s t = Some yt"
    using mgr ob t xt m by (simp_all add: FindSessionByHandle_def target_object_def sess_upd_sess)
  note run = OnTransaction_run [where s = ?s, OF _ m(4) _ this(1,3,2), of x]
  let ?s' = "deliver x (status_reply (mcookie msg) OK)
      (deliver t (posted (next_transaction_cookie yt) 0 0 0 (low_byte code) d [])
        (upd_sess t (add_pending (next_transaction_cookie yt)
            \<lparr>tr_caller = x, tr_reply_cookie = mcookie msg, tr_message = ?m\<rparr>) ?s))"
  have "ProcessMessage x ?m ?s = (Inr (), ?s')"
    using run a b(7) m by (simp add: ProcessMessage_def)
  then have "OnRead x (Some b) s = (Inr (), upd_sess x (\<lambda>y. y\<lparr>reading := True\<rparr>) ?s')"
    by (rule OnRead_frame [OF b(1,6)])
  moreover have "sess (upd_sess x (\<lambda>y. y\<lparr>reading := True\<rparr>) ?s') x =
      Some (yx\<lparr>outbox := outbox yx @ [packed (status_reply (mcookie msg) OK)], reading := True\<rparr>)"
    using mgr x xt by (simp add: sess_upd_sess sess_deliver)
  moreover have "sess (upd_sess x (\<lambda>y. y\<lparr>reading := True\<rparr>) ?s') t =
      Some (add_pending (next_transaction_cookie yt) \<lparr>tr_caller = x, tr_reply_cookie = mcookie msg, tr_message = ?m\<rparr>
        (yt\<lparr>outbox := outbox yt @ [packed (posted (next_transaction_cookie yt) 0 0 0 (low_byte code) d [])]\<rparr>))"
    using mgr t xt by (simp add: sess_upd_sess sess_deliver add_pending_def)
  ultimately show ?thesis by (intro exI conjI) (assumption | simp)+
qed

lemma OnRead_reply:
  assumes a: "total_alloc (alloc s)" and xt: "x \<noteq> t" and x: "sess s x = Some yx" and t: "sess s t = Some yt"
    and mon: "monitor (reg s) \<noteq> Some x"
    and tr: "um_find (mcookie msg) (pending_transactions yt) = Some tr" "tr_caller tr = x"
    and b: "bdata b = packed msg" "mtype msg = TTransactionReply" "unat (mcookie msg) < 256"
      "unat (mdestination msg) < 256" "length (bdata (mdata msg)) < 256"
  shows "\<exists>s'. OnRead t (Some b) s = (Inr (), s') \<and>
    sess s' x = Some (yx\<lparr>outbox := outbox yx @ [packed (SetCookie (tr_reply_cookie tr) (truncated msg))]\<rparr>)"
proof -
  let ?s = "upd_sess t (\<lambda>y. y\<lparr>reading := False\<rparr>) s" and ?m = "truncated msg"
  have m: "mtype ?m = TTransactionReply" "mcookie ?m = mcookie msg" "bdata (mdata ?m) = bdata (mdata msg)"
    using truncated_id [of msg] b by (simp_all add: known_types_def)
  have "fits ?m" using b(5) m(3) by (simp add: fits_def)
  note run = OnReply_run [of ?s ?m t "yt\<lparr>reading := False\<rparr>" tr]
  let ?s' = "deliver x (SetCookie (tr_reply_cookie tr) ?m)
      (upd_sess t (\<lambda>y. y\<lparr>pending_transactions := um_erase (mcookie ?m) (pending_transactions y)\<rparr>) ?s)"
  have "ProcessMessage t ?m ?s = (Inr (), ?s')"
    using run a \<open>fits ?m\<close> m t tr by (simp add: ProcessMessage_def sess_upd_sess)
  then have "OnRead t (Some b) s = (Inr (), upd_sess t (\<lambda>y. y\<lparr>reading := True\<rparr>) ?s')"
    by (rule OnRead_frame [OF b(1,5)])
  moreover have "sess (upd_sess t (\<lambda>y. y\<lparr>reading := True\<rparr>) ?s') x =
      Some (yx\<lparr>outbox := outbox yx @ [packed (SetCookie (tr_reply_cookie tr) (truncated msg))]\<rparr>)"
    using mon x xt by (simp add: sess_upd_sess sess_deliver)
  ultimately show ?thesis by blast
qed

section \<open>The callee\<close>

text \<open>What the application promises of its context object: a request with code \<open>code\<close> and
  the data \<open>d\<close> is answered with the data \<open>rd\<close>, and nothing else is sent meanwhile.\<close>

definition serves :: "handler \<Rightarrow> u64 \<Rightarrow> client \<Rightarrow> u32 \<Rightarrow> byte list \<Rightarrow> byte list \<Rightarrow> bool" where
  "serves h ob c code d rd \<longleftrightarrow>
     (\<forall>request. plain_data request d \<longrightarrow> td_code request = code \<longrightarrow>
        (\<exists>r c'. h ob request c = (Inr (OK, Some r), c') \<and> plain_data r rd \<and>
           c_alloc c' = c_alloc c \<and> c_outbox c' = c_outbox c))"

text \<open>The callee is connected, has nothing to do and offers the object \<open>ob\<close>.\<close>

definition idle_service :: "client \<Rightarrow> u64 \<Rightarrow> bool" where
  "idle_service c ob \<longleftrightarrow> total_alloc (c_alloc c) \<and> strand c = [] \<and> pending_calls c = [] \<and> c_reading c \<and>
     context_obj c = Some ob \<and> (c_objects c ob = Some LocalObject \<or> (\<exists>cookie. c_objects c ob = Some (WrappedObject cookie)))"

lemma special_codes:
  "256 \<le> unat kInterfaceTransactionCode" "256 \<le> unat kDumpTransactionCode"
  "256 \<le> unat kShellCommandTransactionCode" "256 \<le> unat kSysPropsTransactionCode"
  by (simp_all add: kInterfaceTransactionCode_def kDumpTransactionCode_def kShellCommandTransactionCode_def
      kSysPropsTransactionCode_def PACK_CHARS_def)

lemma callee_replies:
  assumes c: "idle_service c ob" and h: "serves h ob c code d rd" and code: "unat code < 256"
    and k: "unat k < 256" and b: "bdata b = packed (posted k 0 0 0 code d [])" and d: "length d \<le> 220" "length rd \<le> 220"
  shows "\<exists>c1 c' r. OnNewMessage (Some b) c = (Inr (), c1) \<and> run_strand h c1 = (Inr (), c') \<and> plain_data r rd \<and>
    c_outbox c' = c_outbox c @ [packed (fresh_message TTransactionReply k 0 (carried r rd))]"
proof -
  let ?p = "posted k 0 0 0 code d []" and ?m = "truncated (posted k 0 0 0 code d [])"
  have l: "length (bdata (mdata ?p)) < 256" using length_padded_td [OF d(1)] by (simp add: posted_def)
  obtain xs where xs: "bdata (mdata ?p) = td_packed 0 0 code 0x10 d [] @ xs"
    using padded_prefix by (auto simp: posted_def)
  have m: "mtype ?m = TTransaction" "mcookie ?m = k" "bdata (mdata ?m) = td_packed 0 0 code 0x10 d [] @ xs"
    using truncated_id [of ?p] k l xs by (simp_all add: posted_def known_types_def)
  let ?c1 = "c\<lparr>strand := [TaskContextMessage ?m]\<rparr>"
  have "dispatch ?m (c\<lparr>c_reading := False\<rparr>) = (Inr (), ?c1\<lparr>c_reading := False\<rparr>)"
    using dispatch_unrelated [of ?m "c\<lparr>c_reading := False\<rparr>"] m c by (simp add: idle_service_def)
  then have on: "OnNewMessage (Some b) c = (Inr (), ?c1\<lparr>c_reading := False\<rparr>\<lparr>c_reading := True\<rparr>)"
    by (rule OnNewMessage_frame [OF b l])
  have c1: "?c1\<lparr>c_reading := False\<rparr>\<lparr>c_reading := True\<rparr> = ?c1" using c by (simp add: idle_service_def)
  have flags: "(low_byte (0x10 :: u32) :: u32) AND flag_HasStatus = 0" by (simp add: low_byte_def)
  obtain req where req: "TransactionDataFromMessage ?m = Inr req" "plain_data req d" "td_code req = code"
    using TransactionDataFromMessage_plain [OF m(3) d(1) flags] code by (metis low_byte_id)
  obtain r c2 where r: "h ob req c = (Inr (OK, Some r), c2)" "plain_data r rd" "c_alloc c2 = c_alloc c"
    "c_outbox c2 = c_outbox c"
    using h req(2,3) unfolding serves_def by blast
  let ?reply = "fresh_message TTransactionReply k 0 (carried r rd)"
  have a: "total_alloc (c_alloc c2)" using c r(3) by (simp add: idle_service_def)
  have rep: "reply_message (c_alloc c2) ?m r = Inr ?reply"
    using Pack_plain [OF a r(2) d(2)] m(2) by (simp add: reply_message_def Message_Create_fresh)
  have send: "client_send ?reply c2 = (Inr (), c2\<lparr>c_outbox := c_outbox c @ [packed ?reply]\<rparr>)"
    using client_send_run [OF a, of ?reply] length_carried [OF d(2), of r] r(4) by (simp add: fits_def)
  have nsp: "code \<noteq> kInterfaceTransactionCode" "code \<noteq> kDumpTransactionCode"
    "code \<noteq> kShellCommandTransactionCode" "code \<noteq> kSysPropsTransactionCode"
    using special_codes code by auto
  have s0: "?c1\<lparr>strand := []\<rparr> = c" using c by (simp add: idle_service_def)
  have "HandleContextObjectMessage h ?m c = (Inr (), c2\<lparr>c_outbox := c_outbox c @ [packed ?reply]\<rparr>)"
    using c m(1) req r(1) nsp rep send
    by (auto simp: HandleContextObjectMessage_def Object_Transact_def LocalObject_Transact_def idle_service_def
        bindS_def getS_def liftS_def)
  then have "run_strand h ?c1 = (Inr (), c2\<lparr>c_outbox := c_outbox c @ [packed ?reply]\<rparr>)"
    using s0 by (simp add: run_strand_def bindS_def getS_def seqS_def modS_def)
  then show ?thesis using on c1 r(2) by (intro exI [of _ ?c1] exI [of _ "c2\<lparr>c_outbox := c_outbox c @ [packed ?reply]\<rparr>"]
        exI [of _ r]) simp
qed

section \<open>The whole call\<close>

text \<open>\<open>b\<close> is the buffer the other end's read handler gets for the message \<open>q\<close>.\<close>

definition travels :: "allocator \<Rightarrow> byte list \<Rightarrow> buffer \<Rightarrow> bool" where
  "travels a q b \<longleftrightarrow> ReadMessage a empty_buffer (whole_message q) = Inr (Some b, [])"

lemma packed_travels:
  assumes "total_alloc a" and "length (bdata (mdata m)) < 256"
  obtains b where "travels a (packed m) b" and "bdata b = packed m"
proof (rule that)
  have "padded_len (length (bdata (mdata m))) < 260"
    using padded_len_bounds(2) [of "length (bdata (mdata m))"] assms(2) by simp
  then show "travels a (packed m) \<lparr>bdata = packed m, immutable = False\<rparr>"
    using ReadMessage_frame [of a empty_buffer "packed m" "[]"] assms(1) by (simp add: travels_def length_packed)
qed simp

text \<open>What is assumed of the server: the sessions \<open>x\<close> and \<open>t\<close> of the caller and the callee,
  the second the context manager, with cookies that fit in a byte.\<close>

definition serving :: "server \<Rightarrow> sid \<Rightarrow> session \<Rightarrow> sid \<Rightarrow> session \<Rightarrow> bool" where
  "serving s x yx t yt \<longleftrightarrow> total_alloc (alloc s) \<and> x \<noteq> t \<and> sess s x = Some yx \<and> sess s t = Some yt \<and>
     context_mgr (reg s) = Some t \<and> monitor (reg s) \<noteq> Some x \<and> monitor (reg s) \<noteq> Some t \<and>
     um_find 0 (objects yt) = None \<and> unat (next_transaction_cookie yt) < 256 \<and>
     um_find (next_transaction_cookie yt) (pending_transactions yt) = None"

lemma td_flags_no_status: "\<not> td_has_status td \<Longrightarrow> (low_byte (td_flags td) :: u32) AND flag_HasStatus = 0"
  using td_flags_bits(2) [of td] by simp

lemma server_call:
  assumes a: "total_alloc a" and caller: "ready_to_call ca" "plain_data td d" "\<not> td_one_way td" "length d \<le> 220"
      "unat (td_code td) < 256"
    and server: "serving s x yx t yt"
    and callee: "idle_service cb ob" "serves h ob cb (td_code td) d rd" "length rd \<le> 220"
  shows "\<exists>q1 q2 q3 q4 q5 b1 b2 b3 b4 b5 s1 s2 cb1 cb2 ca' res.
    travels a q1 b1 \<and> OnRead x (Some b1) s = (Inr (), s1) \<and>
    outbox (the (sess s1 t)) = outbox yt @ [q2] \<and> travels a q2 b2 \<and>
    OnNewMessage (Some b2) cb = (Inr (), cb1) \<and> run_strand h cb1 = (Inr (), cb2) \<and>
    c_outbox cb2 = c_outbox cb @ [q3] \<and> travels a q3 b3 \<and>
    OnRead t (Some b3) s1 = (Inr (), s2) \<and>
    outbox (the (sess s2 x)) = outbox yx @ [q4, q5] \<and> travels a q4 b4 \<and> travels a q5 b5 \<and>
    Transact 0 (Some td) True (ca\<lparr>incoming := [b4, b5]\<rparr>) = (Inr (OK, Some res), ca') \<and>
    c_outbox ca' = c_outbox ca @ [q1] \<and> plain_data res rd"
proof -
  let ?k = "call_cookie ca" and ?n = "next_transaction_cookie yt"
  let ?m1 = "request_message ca 0 td d" and ?m2 = "posted ?n 0 0 0 (td_code td) d []"
  have k: "unat ?k < 256" using caller(1) by (simp add: ready_to_call_def)
  have m1: "mtype ?m1 = TTransaction" "mdestination ?m1 = 0" "mcookie ?m1 = ?k" "length (bdata (mdata ?m1)) < 256"
    using length_carried [OF caller(4), of td] by (simp_all add: request_message_def)
  obtain xs1 where xs1: "bdata (mdata ?m1) =
      td_packed (td_ptr td) (td_cookie td) (td_code td) (td_flags td) d [] @ xs1"
    using carried_prefix [of td d] by (auto simp: request_message_def)
  obtain b1 where b1: "travels a (packed ?m1) b1" "bdata b1 = packed ?m1" using packed_travels [OF a m1(4)] by blast
  note sv = server [unfolded serving_def]
  obtain s1 where s1: "OnRead x (Some b1) s = (Inr (), s1)" "reg s1 = reg s" "alloc s1 = alloc s"
    "sess s1 x = Some (yx\<lparr>outbox := outbox yx @ [packed (status_reply ?k OK)], reading := True\<rparr>)"
    "sess s1 t = Some (add_pending ?n \<lparr>tr_caller = x, tr_reply_cookie = ?k, tr_message = truncated ?m1\<rparr>
        (yt\<lparr>outbox := outbox yt @ [packed ?m2]\<rparr>))"
    using OnRead_request [of s x t yx yt b1 ?m1, OF _ _ _ _ _ _ _ _ b1(2) m1(1,2) _ xs1 m1(4) caller(4)] sv k m1(3)
      low_byte_id [OF caller(5)] by auto
  have l2: "length (bdata (mdata ?m2)) < 256" using length_padded_td [OF caller(4)] by (simp add: posted_def)
  obtain b2 where b2: "travels a (packed ?m2) b2" "bdata b2 = packed ?m2" using packed_travels [OF a l2] by blast
  obtain cb1 cb2 r where cb: "OnNewMessage (Some b2) cb = (Inr (), cb1)" "run_strand h cb1 = (Inr (), cb2)"
    "plain_data r rd" "c_outbox cb2 = c_outbox cb @ [packed (fresh_message TTransactionReply ?n 0 (carried r rd))]"
    using callee_replies [OF callee(1,2) caller(5) _ b2(2) caller(4) callee(3)] sv by blast
  let ?m3 = "fresh_message TTransactionReply ?n 0 (carried r rd)"
  have l3: "length (bdata (mdata ?m3)) < 256" using length_carried [OF callee(3), of r] by simp
  obtain b3 where b3: "travels a (packed ?m3) b3" "bdata b3 = packed ?m3" using packed_travels [OF a l3] by blast
  let ?m5 = "SetCookie ?k (truncated ?m3)"
  obtain s2 where s2: "OnRead t (Some b3) s1 = (Inr (), s2)"
    "sess s2 x = Some (yx\<lparr>outbox := outbox yx @ [packed (status_reply ?k OK), packed ?m5], reading := True\<rparr>)"
    using OnRead_reply [of s1 x t _ _ ?m3 _ b3, OF _ _ s1(4,5) _ _ _ b3(2)] sv s1(2,3) l3
    by (auto simp: add_pending_def um_find_simps)
  have m5: "mcookie ?m5 = ?k" "mtype ?m5 = TTransactionReply" "mdestination ?m5 = 0" "bdata (mdata ?m5) = carried r rd"
    using truncated_id [of ?m3] l3 sv by (simp_all add: known_types_def SetCookie_def)
  obtain b4 where b4: "travels a (packed (status_reply ?k OK)) b4" "bdata b4 = packed (status_reply ?k OK)"
    using packed_travels [OF a, of "status_reply ?k OK"] by (auto simp: status_reply_def)
  obtain b5 where b5: "travels a (packed ?m5) b5" "bdata b5 = packed ?m5"
    using packed_travels [OF a, of ?m5] l3 m5(4) by auto
  obtain xs5 where xs5: "bdata (mdata ?m5) = td_packed (td_ptr r) (td_cookie r) (td_code r) (td_flags r) rd [] @ xs5"
    using carried_prefix [of r rd] m5(4) by auto
  have fl: "(low_byte (td_flags r) :: u32) AND flag_HasStatus = 0"
    using cb(3) by (intro td_flags_no_status) (simp add: plain_data_def)
  let ?ca = "ca\<lparr>incoming := [b4, b5]\<rparr>"
  have "ready_to_call ?ca" "call_cookie ?ca = ?k" "request_message ?ca 0 td d = ?m1"
    using caller(1) by (simp_all add: ready_to_call_def ready_def call_cookie_def request_message_def)
  then have "\<exists>ca' res. Transact 0 (Some td) True ?ca = (Inr (OK, Some res), ca') \<and> plain_data res rd \<and>
      c_outbox ca' = c_outbox ca @ [packed ?m1]"
    using Transact_caller [of ?ca td d b4 b5 "[]" ?m5, OF _ caller(2,3,4) _ _ b5(2) _ m5(2) _ xs5 _ fl callee(3), of 0]
      b4(2) m5 l3 by auto
  then obtain ca' res where "Transact 0 (Some td) True ?ca = (Inr (OK, Some res), ca')" "plain_data res rd"
    "c_outbox ca' = c_outbox ca @ [packed ?m1]" by blast
  then show ?thesis
    using b1(1) s1(1,5) b2(1) cb b3(1) s2 b4(1) b5(1)
    by (intro exI conjI) (assumption | simp add: add_pending_def)+
qed

text \<open>C1: a call of one client to the context manager, through the sockets and the server:
  the request the caller sends reaches the callee with its code and data, the answer of the
  callee's object is sent back, and the caller's \<^verbatim>\<open>Transact\<close> returns \<open>OK\<close> with the data of that
  answer. Each \<open>q\<close> is a message handed to a messenger and each \<open>b\<close> the buffer the other end
  reads. The bounds come from the byte-wide numbers the reader delivers.\<close>

theorem call_through_server:
  assumes a: "total_alloc a" and caller: "ready_to_call ca" "plain_data td d" "\<not> td_one_way td" "length d \<le> 220"
      "unat (td_code td) < 256"
    and server: "serving s x yx t yt"
    and callee: "idle_service cb ob" "serves h ob cb (td_code td) d rd" "length rd \<le> 220"
  shows "\<exists>q1 q2 q3 q4 q5 b1 b2 b3 b4 b5 s1 s2 cb1 cb2 ca' res.
    travels a q1 b1 \<and> OnRead x (Some b1) s = (Inr (), s1) \<and>
    outbox (the (sess s1 t)) = outbox yt @ [q2] \<and> travels a q2 b2 \<and>
    OnNewMessage (Some b2) cb = (Inr (), cb1) \<and> run_strand h cb1 = (Inr (), cb2) \<and>
    c_outbox cb2 = c_outbox cb @ [q3] \<and> travels a q3 b3 \<and>
    OnRead t (Some b3) s1 = (Inr (), s2) \<and>
    outbox (the (sess s2 x)) = outbox yx @ [q4, q5] \<and> travels a q4 b4 \<and> travels a q5 b5 \<and>
    Transact 0 (Some td) True (ca\<lparr>incoming := [b4, b5]\<rparr>) = (Inr (OK, Some res), ca') \<and>
    c_outbox ca' = c_outbox ca @ [q1] \<and> plain_data res rd"
  by (rule server_call [OF assms])

text \<open>An object that answers with its data twice, and a client that offers it.\<close>

definition doubling :: handler where
  "doubling ob request c =
     (case GetData_bytes request of
        Inl e \<Rightarrow> (Inl e, c)
      | Inr d \<Rightarrow> (Inr (OK, Some (WritableTransactionData 0 0 0 False (Some (Buffer_view (d @ d))) None)), c))"

definition doubling_client :: client where
  "doubling_client = (connected_client [])\<lparr>context_obj := Some 0x1000, c_objects := [0x1000 \<mapsto> LocalObject]\<rparr>"

lemma plain_Writable: "plain_data (WritableTransactionData p c code ow (Some (Buffer_view d)) None) d"
  by (simp add: plain_data_def WritableTransactionData_def GetData_bytes_def GetObjectOffsets_bytes_def
      mem_read_def Buffer_view_def buffer_GetSize_def)

lemma doubling_serves: "serves doubling ob c code d (d @ d)"
  using plain_Writable by (auto simp: serves_def plain_data_def doubling_def)

theorem call_through_server_witness:
  "\<exists>b1 b3 b4 b5 s1 s2 ca' res.
     OnRead 1 (Some b1) two_clients = (Inr (), s1) \<and> OnRead 0 (Some b3) s1 = (Inr (), s2) \<and>
     Transact 0 (Some (WritableTransactionData 0 0 2 False (Some (Buffer_view [7, 8])) None)) True
       (connected_client [b4, b5]) = (Inr (OK, Some res), ca') \<and> plain_data res [7, 8, 7, 8]"
proof -
  let ?td = "WritableTransactionData 0 0 2 False (Some (Buffer_view [7, 8])) None"
  have r: "ready_to_call (connected_client [])"
    by (simp add: ready_to_call_def ready_def call_cookie_def connected_client_def ClientImpl_def)
  have sv: "serving two_clients 1 ((new_session 1)\<lparr>reading := True\<rparr>) 0 ((new_session 0)\<lparr>reading := True\<rparr>)"
    by (simp add: serving_def SetContextManager_def Registry_Create_def)
  have i: "idle_service doubling_client 0x1000"
    by (simp add: idle_service_def doubling_client_def connected_client_def ClientImpl_def)
  have inc: "(connected_client [])\<lparr>incoming := fs\<rparr> = connected_client fs" for fs
    by (simp add: connected_client_def)
  have td: "\<not> td_one_way ?td" "length [7, 8 :: byte] \<le> 220" "unat (td_code ?td) < 256" "length ([7, 8] @ [7, 8 :: byte]) \<le> 220"
    by (simp_all add: WritableTransactionData_def)
  from call_through_server [OF total_plain_alloc r plain_Writable td(1,2,3) sv i doubling_serves td(4)]
  show ?thesis unfolding inc append_Cons append_Nil by blast
qed

end
