(* ===== verification/Android_Calls.thy ===== *)
theory Android_Calls
  imports Handle_Table End_To_End
begin

text \<open>
  Calls between applications of the Android libraries: a parcel becomes transaction data, travels
  through the client and the server, and becomes a parcel again.
\<close>

section \<open>Parcels without references\<close>

definition carries :: "aparcel \<Rightarrow> byte list \<Rightarrow> bool" where
  "carries p d \<longleftrightarrow> ipcDataSize p = length d \<and> ipcObjectsCount p = 0 \<and> (d \<noteq> [] \<longrightarrow> (\<exists>b. mData p = Some (d @ b)))"

lemma carries_written:
  assumes "has_data p d" and "holds_objects p []"
  shows "carries p d" and "carries (p\<lparr>mDataPos := 0, mNextObjectHint := h\<rparr>) d"
proof -
  have "\<exists>b. mData p = Some (d @ b)" if d: "d \<noteq> []"
  proof -
    obtain b where b: "mData p = Some b" "take (length d) b = d"
      using assms(1) d by (auto simp: has_data_def split: option.splits)
    then have "b = d @ drop (length d) b" by (metis append_take_drop_id)
    then show ?thesis using b(1) by metis
  qed
  then show "carries p d" "carries (p\<lparr>mDataPos := 0, mNextObjectHint := h\<rparr>) d"
    using assms by (auto simp: carries_def has_data_def holds_objects_def ipcDataSize_def ipcObjectsCount_def)
qed

lemma array_part_0 [simp]: "array_part 0 os = Inr []"
  by (simp add: array_part_def split: option.split)

lemma TransactionDataFromParcel_plain:
  assumes "carries p d"
  shows "\<exists>td. plain_data td d \<and> td_code td = code \<and> td_one_way td = one_way \<and> (td_writable td \<longleftrightarrow> d \<noteq> []) \<and>
    (\<forall>c. total_alloc (c_alloc c) \<longrightarrow> TransactionDataFromParcel has_client code p one_way c = (Inr td, c))"
proof -
  let ?td = "\<lparr>td_ptr = 0, td_cookie = 0, td_code = code, td_one_way = one_way, td_has_status = False,
       td_block = d, td_base = 0, td_size = length d, td_readable = (d \<noteq> []),
       td_writable = (d \<noteq> []), td_offsets = Separate [], td_count = 0\<rparr>"
  have "parcel_bytes p = Inr d"
    using assms by (cases "d = []") (auto simp: parcel_bytes_def carries_def mem_read_def)
  then have "TransactionDataFromParcel has_client code p one_way c = (Inr ?td, c)" if "total_alloc (c_alloc c)" for c
    using assms that
    by (simp add: TransactionDataFromParcel_def carries_def offset_bytes_def CreateBufferWithSize_def Buffer_sized_def
        buffer_allocate_def bindS_def getS_def liftS_def retS_def)
  moreover have "plain_data ?td d"
    by (simp add: plain_data_def GetData_bytes_def GetObjectOffsets_bytes_def mem_read_def)
  ultimately show ?thesis by (intro exI [of _ ?td]) simp
qed

lemma InitParcel_plain:
  assumes "plain_data td d" and "length d \<le> PARCEL_INT32_MAX" and "mOwner p \<or> mObjectsSize p = 0"
  shows "\<exists>p'. InitParcelFromTransactionData td p = (Inr (), p') \<and> (d \<noteq> [] \<longrightarrow> unread p' [] d) \<and>
    objects_ok p' \<and> object_places p' = [] \<and> errorCheck p' = OK \<and> mOwner p' \<and>
    p'\<lparr>mDataPos := 0, mNextObjectHint := 0\<rparr> = p'"
proof -
  obtain zs where b: "td_size td = length d" "d \<noteq> [] \<longrightarrow> drop (td_base td) (td_block td) = d @ zs"
  proof (rule that)
    show "td_size td = length d" using assms(1) by (auto simp: plain_data_def GetData_bytes_def dest: mem_read_length)
    show "d \<noteq> [] \<longrightarrow> drop (td_base td) (td_block td) = d @ drop (td_size td) (drop (td_base td) (td_block td))"
      using assms(1) append_take_drop_id [of "td_size td" "drop (td_base td) (td_block td)"]
      by (simp add: plain_data_def GetData_bytes_def mem_read_def split: if_splits)
  qed
  define m where "m = (if td_readable td then Some (drop (td_base td) (td_block td)) else None)"
  have free: "\<exists>g. freeDataNoInit p = (Inr (), g) \<and> mAllowFds g = mAllowFds p"
    using assms(3) by (auto simp: freeDataNoInit_def releaseObjects_def bindS_def seqS_def getS_def modS_def retS_def)
  then obtain g where g: "freeDataNoInit p = (Inr (), g)" by blast
  let ?p = "g\<lparr>mError := OK, mData := m, mDataSize := length d, mDataCapacity := length d, mDataPos := 0,
       mObjects := Some [], mObjectsSize := 0, mObjectsCapacity := 0, mNextObjectHint := 0,
       mOwner := True, mHasFds := False, mFdsKnown := True\<rparr>"
  have "InitParcelFromTransactionData td p = (Inr (), ?p)"
    using g assms(1) b by (simp add: InitParcelFromTransactionData_def ipcSetDataReference_def scanForFds_def plain_data_def m_def
        bindS_def seqS_def getS_def modS_def liftS_def retS_def)
  moreover have "unread ?p [] d" if "d \<noteq> []"
    using that assms b by (auto simp: unread_def m_def plain_data_def)
  ultimately show ?thesis
    by (intro exI [of _ ?p]) (simp add: objects_ok_def object_places_def errorCheck_def)
qed


lemma noted_offsets_none: "\<forall>i\<in>set is. \<not> noted i \<Longrightarrow> noted_offsets n is = []"
  by (induction "is" arbitrary: n) simp_all

text \<open>Values without references that are not null.\<close>

definition plain_items :: "item list \<Rightarrow> bool" where
  "plain_items is \<longleftrightarrow> (\<forall>i\<in>set is. item_ok i \<and> \<not> noted i) \<and> length (items_bytes is) + 4 \<le> grow_limit"

lemma write_plain_items:
  assumes "total_alloc a" and "plain_items is"
  obtains p where "write_items a is Parcel_new = (Inr OK, p)" and "has_data p (items_bytes is)" and "holds_objects p []"
  using write_items_holds [OF assms(1) has_data_new holds_objects_new, of "is"] assms(2) noted_offsets_none [of "is"]
  by (auto simp: plain_items_def)

lemma read_plain_items:
  assumes "plain_items is" and "items_bytes is \<noteq> [] \<longrightarrow> unread p [] (items_bytes is)" and "objects_ok p"
    and "object_places p = []"
  shows "\<exists>p'. read_items is p = (Inr (map value_of is), p')"
proof (cases "is = []")
  case True
  then show ?thesis by (simp add: retS_def)
next
  case False
  then show ?thesis
    using read_items_unread [of p "[]" "is" "[]"] assms items_bytes_nonempty [OF False] noted_offsets_none [of "is"]
    by (simp add: items_bytes_def plain_items_def)
qed

lemma grow_limit_int32: "n + 4 \<le> grow_limit \<Longrightarrow> n \<le> PARCEL_INT32_MAX"
  by (simp add: grow_limit_def PARCEL_INT32_MAX_def)

lemma new_parcel_empty: "mObjectsSize Parcel_new = 0"
  by (simp add: Parcel_new_def)

lemma InitParcel_items:
  assumes "plain_data td (items_bytes is)" and "plain_items is" and "mOwner p \<or> mObjectsSize p = 0"
  obtains p1 p2 where "InitParcelFromTransactionData td p = (Inr (), p1)" and "errorCheck p1 = OK"
    and "read_items is p1 = (Inr (map value_of is), p2)"
proof -
  have "length (items_bytes is) \<le> PARCEL_INT32_MAX" using assms(2) by (simp add: plain_items_def grow_limit_int32)
  from InitParcel_plain [OF assms(1) this assms(3)] obtain p1 where
    p1: "InitParcelFromTransactionData td p = (Inr (), p1)" "items_bytes is \<noteq> [] \<longrightarrow> unread p1 [] (items_bytes is)"
      "objects_ok p1" "object_places p1 = []" "errorCheck p1 = OK" by blast
  then show ?thesis using that read_plain_items [OF assms(2) p1(2-4)] by blast
qed

section \<open>Calls through the server\<close>

text \<open>C2: an application of the Android libraries calls the context manager: what it wrote into its
  parcel travels through the client, the sockets and the server to the service, and the
  values the service answers with are read from the reply in their order.\<close>

theorem android_call_through_server:
  assumes a: "total_alloc a" and caller: "ready_to_call ca" "plain_items items" "length (items_bytes items) \<le> 220"
      "flags AND TF_ONE_WAY = 0" "unat code < 256"
    and server: "serving s x yx t yt"
    and callee: "idle_service cb ob" "serves h ob cb code (items_bytes items) (items_bytes answers)"
      "plain_items answers" "length (items_bytes answers) \<le> 220"
  shows "\<exists>data q1 q2 q3 q4 q5 b1 b2 b3 b4 b5 s1 s2 cb1 cb2 ca' reply reply'.
    write_items a items Parcel_new = (Inr OK, data) \<and>
    travels a q1 b1 \<and> OnRead x (Some b1) s = (Inr (), s1) \<and>
    outbox (the (sess s1 t)) = outbox yt @ [q2] \<and> travels a q2 b2 \<and>
    OnNewMessage (Some b2) cb = (Inr (), cb1) \<and> run_strand h cb1 = (Inr (), cb2) \<and>
    c_outbox cb2 = c_outbox cb @ [q3] \<and> travels a q3 b3 \<and>
    OnRead t (Some b3) s1 = (Inr (), s2) \<and>
    outbox (the (sess s2 x)) = outbox yx @ [q4, q5] \<and> travels a q4 b4 \<and> travels a q5 b5 \<and>
    ipc_transact 0 code data (Some Parcel_new) flags (ca\<lparr>incoming := [b4, b5]\<rparr>) = (Inr (OK, Some reply), ca') \<and>
    c_outbox ca' = c_outbox ca @ [q1] \<and> read_items answers reply = (Inr (map value_of answers), reply')"
proof -
  obtain p where p: "write_items a items Parcel_new = (Inr OK, p)" "has_data p (items_bytes items)" "holds_objects p []"
    by (rule write_plain_items [OF a caller(2)])
  have err: "errorCheck p = OK" using p(2) by (simp add: errorCheck_def has_data_def)
  obtain td where td: "plain_data td (items_bytes items)" "td_code td = code" "\<not> td_one_way td"
    "\<And>c. total_alloc (c_alloc c) \<Longrightarrow> TransactionDataFromParcel True code p False c = (Inr td, c)"
    using TransactionDataFromParcel_plain [OF carries_written(1) [OF p(2,3)], of code False True] by blast
  have code: "unat (td_code td) < 256" "serves h ob cb (td_code td) (items_bytes items) (items_bytes answers)"
    using caller(5) callee(2) td(2) by simp_all
  from server_call [OF a caller(1) td(1,3) caller(3) code(1) server callee(1) code(2) callee(4)]
  obtain q1 q2 q3 q4 q5 b1 b2 b3 b4 b5 s1 s2 cb1 cb2 ca' res where call:
    "travels a q1 b1" "OnRead x (Some b1) s = (Inr (), s1)" "outbox (the (sess s1 t)) = outbox yt @ [q2]" "travels a q2 b2"
    "OnNewMessage (Some b2) cb = (Inr (), cb1)" "run_strand h cb1 = (Inr (), cb2)" "c_outbox cb2 = c_outbox cb @ [q3]"
    "travels a q3 b3" "OnRead t (Some b3) s1 = (Inr (), s2)" "outbox (the (sess s2 x)) = outbox yx @ [q4, q5]"
    "travels a q4 b4" "travels a q5 b5" "c_outbox ca' = c_outbox ca @ [q1]"
    and res: "Transact 0 (Some td) True (ca\<lparr>incoming := [b4, b5]\<rparr>) = (Inr (OK, Some res), ca')"
      "plain_data res (items_bytes answers)" by blast
  obtain r r' where r: "InitParcelFromTransactionData res Parcel_new = (Inr (), r)"
    "read_items answers r = (Inr (map value_of answers), r')"
    using InitParcel_items [OF res(2) callee(3), of Parcel_new] new_parcel_empty by blast
  have "total_alloc (c_alloc (ca\<lparr>incoming := [b4, b5]\<rparr>))" using caller(1) by (simp add: ready_to_call_def ready_def)
  then have "ipc_transact 0 code p (Some Parcel_new) flags (ca\<lparr>incoming := [b4, b5]\<rparr>) = (Inr (OK, Some r), ca')"
    using err caller(4) td(4) res(1) r(1) by (simp add: ipc_transact_def run_parcel_def bindS_def retS_def)
  then show ?thesis using p(1) call r(2) by blast
qed

section \<open>Services\<close>

text \<open>An implementation of \<^verbatim>\<open>onTransact\<close> that reads \<open>items\<close> from the parcel it is given and answers with \<open>answers\<close>.\<close>

definition answers_with :: "on_transact \<Rightarrow> u64 \<Rightarrow> u32 \<Rightarrow> client \<Rightarrow> item list \<Rightarrow> item list \<Rightarrow> bool" where
  "answers_with onT addr code c items answers \<longleftrightarrow>
     (\<forall>data data'. read_items items data = (Inr (map value_of items), data') \<longrightarrow>
        (\<exists>reply. onT addr code data Parcel_new c = (Inr (OK, reply), c) \<and>
           write_items (c_alloc c) answers Parcel_new = (Inr OK, reply)))"

lemma WrappedObject_reply:
  assumes c: "total_alloc (c_alloc c)" and req: "plain_data request (items_bytes items)" "plain_items items"
    and ans: "plain_items answers"
    and served: "\<And>data data'. read_items items data = (Inr (map value_of items), data') \<Longrightarrow>
      data\<lparr>mDataPos := 0, mNextObjectHint := 0\<rparr> = data \<Longrightarrow>
      \<exists>reply h. binder_transact addr (td_code request) data Parcel_new c =
          (Inr (OK, reply\<lparr>mDataPos := 0, mNextObjectHint := h\<rparr>), c) \<and>
        write_items (c_alloc c) answers Parcel_new = (Inr OK, reply)"
  shows "\<exists>reply. WrappedObject_Transact binder_transact addr request c = (Inr (OK, Some reply), c) \<and>
    plain_data reply (items_bytes answers)"
proof -
  have "length (items_bytes items) \<le> PARCEL_INT32_MAX" using req(2) by (simp add: plain_items_def grow_limit_int32)
  from InitParcel_plain [OF req(1) this, of Parcel_new] obtain p1 where
    p1: "InitParcelFromTransactionData request Parcel_new = (Inr (), p1)"
      "items_bytes items \<noteq> [] \<longrightarrow> unread p1 [] (items_bytes items)"
      "objects_ok p1" "object_places p1 = []" "p1\<lparr>mDataPos := 0, mNextObjectHint := 0\<rparr> = p1"
    using new_parcel_empty by blast
  obtain p2 where "read_items items p1 = (Inr (map value_of items), p2)"
    using read_plain_items [OF req(2) p1(2-4)] by blast
  then obtain r h where r: "binder_transact addr (td_code request) p1 Parcel_new c =
      (Inr (OK, r\<lparr>mDataPos := 0, mNextObjectHint := h\<rparr>), c)"
    "write_items (c_alloc c) answers Parcel_new = (Inr OK, r)"
    using served p1(5) by blast
  have d: "has_data r (items_bytes answers)" "holds_objects r []"
    using write_plain_items [OF c ans] r(2) by (metis prod.inject)+
  have err: "errorCheck (r\<lparr>mDataPos := 0, mNextObjectHint := h\<rparr>) = OK"
    using d(1) by (simp add: errorCheck_def has_data_def)
  obtain td where "plain_data td (items_bytes answers)"
    "TransactionDataFromParcel True (td_code request) (r\<lparr>mDataPos := 0, mNextObjectHint := h\<rparr>) False c = (Inr td, c)"
    using TransactionDataFromParcel_plain [OF carries_written(2) [OF d], of "td_code request" False True] c by blast
  then show ?thesis
    using p1(1) r(1) err by (simp add: WrappedObject_Transact_def run_parcel_def bindS_def retS_def)
qed

lemma BBinder_transact_code:
  assumes "code \<noteq> kPingTransactionCode" and "data\<lparr>mDataPos := 0, mNextObjectHint := 0\<rparr> = data"
    and "onT addr code data reply c = (Inr (OK, reply'), c)"
  shows "BBinder_transact onT addr code data reply c = (Inr (OK, reply'\<lparr>mDataPos := 0, mNextObjectHint := 0\<rparr>), c)"
  using assms by (simp add: BBinder_transact_def on_parcel_def setDataPosition_def bindS_def modS_def retS_def)

lemma BBinder_transact_ping:
  assumes "writeInt32 (c_alloc c) 0 reply = (Inr OK, reply')"
  shows "BBinder_transact onT addr kPingTransactionCode data reply c =
    (Inr (OK, reply'\<lparr>mDataPos := 0, mNextObjectHint := 0\<rparr>), c)"
  using assms by (simp add: BBinder_transact_def on_parcel_def setDataPosition_def bindS_def modS_def getS_def retS_def)

text \<open>A client whose context object is an application's object that answers a number with the number twice.\<close>

definition twice :: on_transact where
  "twice addr code data reply =
     bindS (on_parcel readInt32 data) (\<lambda>(v, _).
     bindS (getS c_alloc) (\<lambda>a.
     bindS (on_parcel (write_items a [Int32_item v, Int32_item v]) reply) (\<lambda>(st, reply).
     retS (st, reply))))"

definition twice_client :: client where
  "twice_client = (connected_client [])\<lparr>context_obj := Some 0x1000, c_objects := [0x1000 \<mapsto> WrappedObject 0x5000]\<rparr>"

lemma plain_numbers: "plain_items [Int32_item v]" "plain_items [Int32_item v, Int32_item w]"
  by (simp_all add: plain_items_def noted_def items_bytes_def grow_limit_def)

lemma twice_alloc: "c_alloc twice_client = plain_alloc"
  by (simp add: twice_client_def connected_client_def ClientImpl_def)

lemma twice_answers: "answers_with twice addr code twice_client [Int32_item v] [Int32_item v, Int32_item v]"
  unfolding answers_with_def
proof (intro allI impI)
  fix data data'
  assume "read_items [Int32_item v] data = (Inr (map value_of [Int32_item v]), data')"
  then have r: "readInt32 data = (Inr v, data')"
    by (auto simp: bindS_def retS_def split: prod.splits sum.splits)
  obtain p where "write_items plain_alloc [Int32_item v, Int32_item v] Parcel_new = (Inr OK, p)"
    using write_plain_items [OF total_plain_alloc plain_numbers(2)] by blast
  then show "\<exists>reply. twice addr code data Parcel_new twice_client = (Inr (OK, reply), twice_client) \<and>
      write_items (c_alloc twice_client) [Int32_item v, Int32_item v] Parcel_new = (Inr OK, reply)"
    using r twice_alloc
    by (simp add: twice_def on_parcel_def bindS_def getS_def retS_def del: write_items.simps)
qed

text \<open>C3: an object of an application, wrapped for the client, serves calls: its \<^verbatim>\<open>onTransact\<close> reads the
  values the caller wrote, and the values it writes are those of the reply. A ping is answered
  with the status 0 without a call of \<^verbatim>\<open>onTransact\<close>.\<close>

theorem wrapped_object_serves:
  assumes "total_alloc (c_alloc c)" and "c_objects c ob = Some (WrappedObject addr)" and "plain_items items"
    and "plain_items answers"
    and "if code = kPingTransactionCode then answers = [Int32_item 0] else answers_with onT addr code c items answers"
  shows "serves (wrapped_handler (BBinder_transact onT)) ob c code (items_bytes items) (items_bytes answers)"
proof -
  have one: "\<exists>r. WrappedObject_Transact (BBinder_transact onT) addr request c = (Inr (OK, Some r), c) \<and>
      plain_data r (items_bytes answers)"
    if request: "plain_data request (items_bytes items)" "td_code request = code" for request
  proof (rule WrappedObject_reply [OF assms(1) request(1) assms(3,4)])
    fix data data'
    assume r: "read_items items data = (Inr (map value_of items), data')" "data\<lparr>mDataPos := 0, mNextObjectHint := 0\<rparr> = data"
    show "\<exists>reply h. BBinder_transact onT addr (td_code request) data Parcel_new c =
          (Inr (OK, reply\<lparr>mDataPos := 0, mNextObjectHint := h\<rparr>), c) \<and>
        write_items (c_alloc c) answers Parcel_new = (Inr OK, reply)"
    proof (cases "code = kPingTransactionCode")
      case True
      then have ans: "answers = [Int32_item 0]" using assms(5) by simp
      obtain reply where reply: "write_items (c_alloc c) answers Parcel_new = (Inr OK, reply)"
        using write_plain_items [OF assms(1,4)] by blast
      then have "writeInt32 (c_alloc c) 0 Parcel_new = (Inr OK, reply)"
        by (auto simp: ans bindS_def retS_def split: prod.splits sum.splits if_splits)
      then have "BBinder_transact onT addr kPingTransactionCode data Parcel_new c =
          (Inr (OK, reply\<lparr>mDataPos := 0, mNextObjectHint := 0\<rparr>), c)" by (rule BBinder_transact_ping)
      then show ?thesis using reply True request(2) by auto
    next
      case False
      then obtain reply where reply: "onT addr code data Parcel_new c = (Inr (OK, reply), c)"
        "write_items (c_alloc c) answers Parcel_new = (Inr OK, reply)"
        using assms(5) r(1) by (auto simp: answers_with_def)
      then have "BBinder_transact onT addr code data Parcel_new c =
          (Inr (OK, reply\<lparr>mDataPos := 0, mNextObjectHint := 0\<rparr>), c)"
        by (intro BBinder_transact_code [OF False r(2)])
      then show ?thesis using reply(2) request(2) by auto
    qed
  qed
  show ?thesis
    unfolding serves_def
  proof (intro allI impI)
    fix request
    assume "plain_data request (items_bytes items)" "td_code request = code"
    then obtain r where "WrappedObject_Transact (BBinder_transact onT) addr request c = (Inr (OK, Some r), c)"
      "plain_data r (items_bytes answers)" using one by blast
    then show "\<exists>r c'. wrapped_handler (BBinder_transact onT) ob request c = (Inr (OK, Some r), c') \<and>
        plain_data r (items_bytes answers) \<and> c_alloc c' = c_alloc c \<and> c_outbox c' = c_outbox c"
      using assms(2) by (simp add: wrapped_handler_def bindS_def getS_def)
  qed
qed

theorem wrapped_object_serves_witness:
  "serves (wrapped_handler (BBinder_transact twice)) 0x1000 twice_client 2 (le_bytes 4 (7 :: u32))
     (le_bytes 4 (7 :: u32) @ le_bytes 4 (7 :: u32))"
  using wrapped_object_serves [of twice_client "0x1000" "0x5000" "[Int32_item 7]" "[Int32_item 7, Int32_item 7]" 2 twice]
    plain_numbers twice_answers total_plain_alloc twice_alloc
  by (simp add: items_bytes_def twice_client_def kPingTransactionCode_def PACK_CHARS_def)

theorem android_call_through_server_witness:
  "\<exists>data b1 b3 b4 b5 s1 s2 ca' reply reply'.
     write_items plain_alloc [Int32_item 7] Parcel_new = (Inr OK, data) \<and>
     OnRead 1 (Some b1) two_clients = (Inr (), s1) \<and> OnRead 0 (Some b3) s1 = (Inr (), s2) \<and>
     ipc_transact 0 2 data (Some Parcel_new) 0 (connected_client [b4, b5]) = (Inr (OK, Some reply), ca') \<and>
     read_items [Int32_item 7, Int32_item 7] reply = (Inr [Int32_value 7, Int32_value 7], reply')"
proof -
  have r: "ready_to_call (connected_client [])"
    by (simp add: ready_to_call_def ready_def call_cookie_def connected_client_def ClientImpl_def)
  have sv: "serving two_clients 1 ((new_session 1)\<lparr>reading := True\<rparr>) 0 ((new_session 0)\<lparr>reading := True\<rparr>)"
    by (simp add: serving_def SetContextManager_def Registry_Create_def)
  have i: "idle_service doubling_client 0x1000"
    by (simp add: idle_service_def doubling_client_def connected_client_def ClientImpl_def)
  have inc: "(connected_client [])\<lparr>incoming := fs\<rparr> = connected_client fs" for fs
    by (simp add: connected_client_def)
  have s: "serves doubling 0x1000 doubling_client 2 (items_bytes [Int32_item 7]) (items_bytes [Int32_item 7, Int32_item 7])"
    using doubling_serves [of "0x1000" doubling_client 2 "le_bytes 4 (7 :: u32)"] by (simp add: items_bytes_def)
  have l: "length (items_bytes [Int32_item 7]) \<le> 220" "length (items_bytes [Int32_item 7, Int32_item 7]) \<le> 220"
    "(0 :: u32) AND TF_ONE_WAY = 0" "unat (2 :: u32) < 256"
    by (simp_all add: items_bytes_def)
  from android_call_through_server [OF total_plain_alloc r plain_numbers(1) l(1,3,4) sv i s plain_numbers(2) l(2)]
  have "\<exists>data b1 b3 b4 b5 s1 s2 ca' reply reply'.
     write_items plain_alloc [Int32_item 7] Parcel_new = (Inr OK, data) \<and>
     OnRead 1 (Some b1) two_clients = (Inr (), s1) \<and> OnRead 0 (Some b3) s1 = (Inr (), s2) \<and>
     ipc_transact 0 2 data (Some Parcel_new) 0 (connected_client [b4, b5]) = (Inr (OK, Some reply), ca') \<and>
     read_items [Int32_item 7, Int32_item 7] reply = (Inr (map value_of [Int32_item 7, Int32_item 7]), reply')"
    unfolding inc by blast
  then show ?thesis by (simp only: list.map value_of.simps)
qed



end
