(* ===== verification/Unicode.thy ===== *)
theory Unicode
  imports Utils
begin

text \<open>
  \<^verbatim>\<open>src/external/android/utils/Unicode.cpp\<close>: strings of 16-bit characters and the conversions between
  UTF-8, UTF-16 and UTF-32 that the string classes of the Android libraries use. Memory a function
  reads is the list of what a pointer leads to, and reading behind its end is a fault; a
  function that writes returns what it wrote.
\<close>

section \<open>UTF-32\<close>

definition kByteMask :: u32 where "kByteMask = 0xBF"
definition kByteMark :: u32 where "kByteMark = 0x80"
definition kUnicodeSurrogateStart :: u32 where "kUnicodeSurrogateStart = 0xD800"
definition kUnicodeSurrogateEnd :: u32 where "kUnicodeSurrogateEnd = 0xDFFF"
definition kUnicodeMaxCodepoint :: u32 where "kUnicodeMaxCodepoint = 0x10FFFF"

definition kFirstByteMark :: "u32 list" where
  "kFirstByteMark = [0, 0, 0xC0, 0xE0, 0xF0]"

definition utf32_codepoint_utf8_length :: "u32 \<Rightarrow> nat" where
  "utf32_codepoint_utf8_length srcChar =
     (if srcChar < 0x80 then 1
      else if srcChar < 0x800 then 2
      else if srcChar < 0x10000 then
        (if srcChar < kUnicodeSurrogateStart \<or> srcChar > kUnicodeSurrogateEnd then 3 else 0)
      else if srcChar \<le> kUnicodeMaxCodepoint then 4
      else 0)"

text \<open>The bytes are written from the last to the first; \<open>following n c\<close> are the \<open>n\<close> bytes behind the first
  one and what is left of the character for it.\<close>

primrec following :: "nat \<Rightarrow> u32 \<Rightarrow> u32 \<times> byte list" where
  "following 0 c = (c, [])"
| "following (Suc n) c =
     (let (h, bs) = following n (drop_bit 6 c) in (h, bs @ [ucast ((c OR kByteMark) AND kByteMask)]))"

definition utf32_codepoint_to_utf8 :: "u32 \<Rightarrow> nat \<Rightarrow> byte list" where
  "utf32_codepoint_to_utf8 srcChar bytes =
     (if 1 \<le> bytes \<and> bytes \<le> 4
      then let (h, bs) = following (bytes - 1) srcChar in ucast (h OR kFirstByteMark ! bytes) # bs
      else [])"

fun strlen32 :: "u32 list \<Rightarrow> nat res" where
  "strlen32 [] = Inl MemFault"
| "strlen32 (c # s) = (if c \<noteq> 0 then bindR (strlen32 s) (\<lambda>n. Inr (Suc n)) else Inr 0)"

fun strnlen32 :: "u32 list \<Rightarrow> nat \<Rightarrow> nat res" where
  "strnlen32 s 0 = Inr 0"
| "strnlen32 [] (Suc n) = Inl MemFault"
| "strnlen32 (c # s) (Suc n) = (if c \<noteq> 0 then bindR (strnlen32 s n) (\<lambda>k. Inr (Suc k)) else Inr 0)"

text \<open>\<^verbatim>\<open>utf32_at_internal\<close>: \<^verbatim>\<open>char\<close> is signed, and the first byte is extended with its sign. The loop ends when
  the mask finds a bit that is not set, or is 0; \<open>n\<close> is \<^verbatim>\<open>num_to_read\<close>. A
  shift by more than 31 bits has no meaning.\<close>

function at_loop :: "byte \<Rightarrow> u32 \<Rightarrow> u32 \<Rightarrow> nat \<Rightarrow> u32 \<Rightarrow> byte list \<Rightarrow> (u32 \<times> nat) res" where
  "at_loop first msk ignored n utf32 cur =
     (if (scast first AND msk) \<noteq> 0 then
        case cur of
          [] \<Rightarrow> Inl MemFault
        | b # bs \<Rightarrow> at_loop first (drop_bit 1 msk) (ignored OR msk) (Suc n) (push_bit 6 utf32 + (scast b AND 0x3F)) bs
      else if 6 * (n - 1) \<ge> 32 then Inl MemFault
      else Inr (utf32 AND NOT (push_bit (6 * (n - 1)) (ignored OR msk)), n))"
  by pat_completeness auto
termination by (relation "measure (\<lambda>(_, _, _, _, _, cur). length cur)") auto

declare at_loop.simps [simp del]

definition utf32_at_internal :: "byte list \<Rightarrow> (u32 \<times> nat) res" where
  "utf32_at_internal cur =
     (case cur of
        [] \<Rightarrow> Inl MemFault
      | b # bs \<Rightarrow>
          if b AND 0x80 = 0 then Inr (scast b, 1)
          else at_loop b 0x40 0xFFFFFF80 1 (scast b) bs)"

text \<open>The result and what is stored through \<^verbatim>\<open>next_index\<close>.\<close>

definition utf32_from_utf8_at :: "byte list \<Rightarrow> nat \<Rightarrow> nat \<Rightarrow> (u32 \<times> nat option) res" where
  "utf32_from_utf8_at src src_len index =
     (if index \<ge> src_len then Inr (- 1, None)
      else
        bindR (utf32_at_internal (drop index src)) (\<lambda>(ret, num_read).
        Inr (ret, if 0 \<le>s ret then Some (index + num_read) else None)))"

definition utf32_to_utf8_length :: "u32 list \<Rightarrow> int" where
  "utf32_to_utf8_length src =
     (if src = [] then - 1 else int (\<Sum>c\<leftarrow>src. utf32_codepoint_utf8_length c))"

text \<open>A destination that is too small ends the process. Nothing is written for an empty source.\<close>

fun utf32_to_utf8_loop :: "u32 list \<Rightarrow> nat \<Rightarrow> byte list res" where
  "utf32_to_utf8_loop [] dst_len = (if dst_len < 1 then Inl Aborted else Inr [0])"
| "utf32_to_utf8_loop (c # cs) dst_len =
     (let len = utf32_codepoint_utf8_length c in
      if dst_len < len then Inl Aborted
      else bindR (utf32_to_utf8_loop cs (dst_len - len)) (\<lambda>bs. Inr (utf32_codepoint_to_utf8 c len @ bs)))"

definition utf32_to_utf8 :: "u32 list \<Rightarrow> nat \<Rightarrow> byte list res" where
  "utf32_to_utf8 src dst_len = (if src = [] then Inr [] else utf32_to_utf8_loop src dst_len)"

section \<open>UTF-16\<close>

definition chars_diff :: "u16 \<Rightarrow> u16 \<Rightarrow> int" where
  "chars_diff a b = uint a - uint b"

fun strcmp16 :: "u16 list \<Rightarrow> u16 list \<Rightarrow> int res" where
  "strcmp16 (a # s1) (b # s2) =
     (if chars_diff a b \<noteq> 0 \<or> a = 0 then Inr (chars_diff a b) else strcmp16 s1 s2)"
| "strcmp16 _ _ = Inl MemFault"

fun strncmp16 :: "u16 list \<Rightarrow> u16 list \<Rightarrow> nat \<Rightarrow> int res" where
  "strncmp16 s1 s2 0 = Inr 0"
| "strncmp16 (a # s1) (b # s2) (Suc n) =
     (if chars_diff a b \<noteq> 0 \<or> a = 0 then Inr (chars_diff a b) else strncmp16 s1 s2 n)"
| "strncmp16 _ _ (Suc n) = Inl MemFault"

fun strcpy16 :: "u16 list \<Rightarrow> u16 list res" where
  "strcpy16 [] = Inl MemFault"
| "strcpy16 (c # s) = (if c \<noteq> 0 then bindR (strcpy16 s) (\<lambda>q. Inr (c # q)) else Inr [c])"

fun strlen16 :: "u16 list \<Rightarrow> nat res" where
  "strlen16 [] = Inl MemFault"
| "strlen16 (c # s) = (if c \<noteq> 0 then bindR (strlen16 s) (\<lambda>n. Inr (Suc n)) else Inr 0)"

text \<open>\<^verbatim>\<open>ch\<close> is a \<^verbatim>\<open>char\<close>: the character is reduced to its lowest byte, and the reduced one is stored.\<close>

fun strncpy16 :: "u16 list \<Rightarrow> nat \<Rightarrow> u16 list res" where
  "strncpy16 s 0 = Inr [0]"
| "strncpy16 [] (Suc n) = Inl MemFault"
| "strncpy16 (c # s) (Suc n) =
     (let ch = (ucast c :: byte) in
      if ch = 0 then Inr [scast ch, 0] else bindR (strncpy16 s n) (\<lambda>q. Inr (scast ch # q)))"

fun strnlen16 :: "u16 list \<Rightarrow> nat \<Rightarrow> nat res" where
  "strnlen16 s 0 = Inr 0"
| "strnlen16 [] (Suc n) = Inl MemFault"
| "strnlen16 (c # s) (Suc n) = (if c \<noteq> 0 then bindR (strnlen16 s n) (\<lambda>k. Inr (Suc k)) else Inr 0)"

text \<open>\<^verbatim>\<open>strstr16\<close>: \<open>None\<close> for a null pointer, else the offset of the result. \<open>target\<close> is what follows the first
  character.\<close>

function strstr16_loop :: "u16 \<Rightarrow> u16 list \<Rightarrow> nat \<Rightarrow> u16 list \<Rightarrow> nat \<Rightarrow> nat option res" where
  "strstr16_loop needle target target_len src pos =
     (case src of
        [] \<Rightarrow> Inl MemFault
      | c # rest \<Rightarrow>
          if c = 0 then Inr None
          else if c \<noteq> needle then strstr16_loop needle target target_len rest (Suc pos)
          else
            bindR (strncmp16 rest target target_len) (\<lambda>d.
            if d \<noteq> 0 then strstr16_loop needle target target_len rest (Suc pos) else Inr (Some pos)))"
  by pat_completeness auto
termination by (relation "measure (\<lambda>(_, _, _, src, _). length src)") auto

declare strstr16_loop.simps [simp del]

definition strstr16 :: "u16 list \<Rightarrow> u16 list \<Rightarrow> nat option res" where
  "strstr16 src target =
     (case target of
        [] \<Rightarrow> Inl MemFault
      | needle # target' \<Rightarrow>
          bindR (strlen16 target') (\<lambda>n.
          if needle \<noteq> 0 then strstr16_loop needle target' n src 0 else Inr (Some 0)))"

text \<open>Arrays with their lengths; the shorter one is compared as if a 0 followed.\<close>

fun strzcmp16 :: "u16 list \<Rightarrow> u16 list \<Rightarrow> int" where
  "strzcmp16 [] [] = 0"
| "strzcmp16 [] (b # s2) = 0 - uint b"
| "strzcmp16 (a # s1) [] = uint a - 0"
| "strzcmp16 (a # s1) (b # s2) = (if chars_diff a b \<noteq> 0 then chars_diff a b else strzcmp16 s1 s2)"

definition swap16 :: "u16 \<Rightarrow> u16" where
  "swap16 c = push_bit 8 c OR drop_bit 8 c"

definition strzcmp16_h_n :: "u16 list \<Rightarrow> u16 list \<Rightarrow> int" where
  "strzcmp16_h_n s1H s2N = strzcmp16 s1H (map swap16 s2N)"

text \<open>The next character of a UTF-16 text: a pair of surrogates or a single character.\<close>

definition is_high :: "u16 \<Rightarrow> bool" where "is_high c \<longleftrightarrow> c AND 0xFC00 = 0xD800"
definition is_low :: "u16 \<Rightarrow> bool" where "is_low c \<longleftrightarrow> c AND 0xFC00 = 0xDC00"

fun utf16_to_utf8_loop :: "u16 list \<Rightarrow> nat \<Rightarrow> byte list res" where
  "utf16_to_utf8_loop [] dst_len = (if dst_len < 1 then Inl Aborted else Inr [0])"
| "utf16_to_utf8_loop (a # s) dst_len =
     (case s of
        b # s' \<Rightarrow>
          if is_high a \<and> is_low b then
            let utf32 = (push_bit 10 (ucast a - 0xD800) OR (ucast b - 0xDC00)) + 0x10000;
                len = utf32_codepoint_utf8_length utf32 in
            if dst_len < len then Inl Aborted
            else bindR (utf16_to_utf8_loop s' (dst_len - len)) (\<lambda>bs. Inr (utf32_codepoint_to_utf8 utf32 len @ bs))
          else
            let len = utf32_codepoint_utf8_length (ucast a) in
            if dst_len < len then Inl Aborted
            else bindR (utf16_to_utf8_loop s (dst_len - len)) (\<lambda>bs. Inr (utf32_codepoint_to_utf8 (ucast a) len @ bs))
      | [] \<Rightarrow>
          let len = utf32_codepoint_utf8_length (ucast a) in
          if dst_len < len then Inl Aborted
          else bindR (utf16_to_utf8_loop s (dst_len - len)) (\<lambda>bs. Inr (utf32_codepoint_to_utf8 (ucast a) len @ bs)))"

definition utf16_to_utf8 :: "u16 list \<Rightarrow> nat \<Rightarrow> byte list res" where
  "utf16_to_utf8 src dst_len = (if src = [] then Inr [] else utf16_to_utf8_loop src dst_len)"

fun utf16_to_utf8_len :: "u16 list \<Rightarrow> nat" where
  "utf16_to_utf8_len [] = 0"
| "utf16_to_utf8_len (a # s) =
     (case s of
        b # s' \<Rightarrow> if is_high a \<and> is_low b then 4 + utf16_to_utf8_len s'
                   else utf32_codepoint_utf8_length (ucast a) + utf16_to_utf8_len s
      | [] \<Rightarrow> utf32_codepoint_utf8_length (ucast a) + utf16_to_utf8_len s)"

definition utf16_to_utf8_length :: "u16 list \<Rightarrow> int" where
  "utf16_to_utf8_length src = (if src = [] then - 1 else int (utf16_to_utf8_len src))"

section \<open>UTF-8\<close>

text \<open>\<^verbatim>\<open>utf8_length\<close> of a text that ends with 0.\<close>

function utf8_length_loop :: "byte \<Rightarrow> u32 \<Rightarrow> u32 \<Rightarrow> nat \<Rightarrow> u32 \<Rightarrow> byte list \<Rightarrow> (nat \<times> byte list) option res" where
  "utf8_length_loop first msk ignored n utf32 cur =
     (if n < 5 \<and> (scast first AND msk) \<noteq> 0 then
        case cur of
          [] \<Rightarrow> Inl MemFault
        | b # bs \<Rightarrow>
            if b AND 0xC0 \<noteq> 0x80 then Inr None
            else utf8_length_loop first (drop_bit 1 msk) (ignored OR msk) (Suc n) (push_bit 6 utf32 + (scast b AND 0x3F)) bs
      else if n = 5 then Inr None
      else
        let utf32 = utf32 OR push_bit (6 * (n - 1)) (NOT (ignored OR msk) AND scast first) in
        if utf32 > kUnicodeMaxCodepoint then Inr None else Inr (Some (n, cur)))"
  by pat_completeness auto
termination by (relation "measure (\<lambda>(_, _, _, _, _, cur). length cur)") auto

declare utf8_length_loop.simps [simp del]

lemma utf8_length_loop_rest:
  "utf8_length_loop first msk ignored n utf32 cur = Inr (Some (k, rest)) \<Longrightarrow> length rest \<le> length cur"
  by (induction first msk ignored n utf32 cur rule: utf8_length_loop.induct)
    (subst (asm) (2) utf8_length_loop.simps, fastforce simp: Let_def split: if_splits list.splits)

function utf8_length_from :: "byte list \<Rightarrow> nat \<Rightarrow> int res" where
  "utf8_length_from [] ret = Inl MemFault"
| "utf8_length_from (first # cur) ret =
     (if first = 0 then Inr (int ret)
      else if first AND 0x80 = 0 then utf8_length_from cur (ret + 1)
      else if first AND 0x40 = 0 then Inr (- 1)
      else
        case utf8_length_loop first 0x40 0x80 1 0 cur of
          Inl e \<Rightarrow> Inl e
        | Inr None \<Rightarrow> Inr (- 1)
        | Inr (Some (n, rest)) \<Rightarrow> utf8_length_from rest (ret + n))"
  by pat_completeness auto
termination
  by (relation "measure (\<lambda>(cur, _). length cur)") (auto dest: utf8_length_loop_rest simp: less_Suc_eq_le)

definition utf8_length :: "byte list \<Rightarrow> int res" where
  "utf8_length src = utf8_length_from src 0"

definition utf8_codepoint_len :: "byte \<Rightarrow> nat" where
  "utf8_codepoint_len ch = unat ((drop_bit (unat (drop_bit 3 ch AND 0x1e)) 0xe5000000 AND 3) + 1 :: u32)"

definition utf8_shift_and_mask :: "u32 \<Rightarrow> byte \<Rightarrow> u32" where
  "utf8_shift_and_mask codePoint b = push_bit 6 codePoint OR (0x3F AND ucast b)"

text \<open>The number of leading ones of a byte that is not ASCII.\<close>

definition num_to_skip :: "byte \<Rightarrow> nat" where
  "num_to_skip first = (if first AND 0x80 = 0 then 1 else length (takeWhile (\<lambda>k. bit first k) (rev [0..<7])) + 1)"

function utf8_to_utf32_len :: "byte list \<Rightarrow> nat" where
  "utf8_to_utf32_len [] = 0"
| "utf8_to_utf32_len (b # bs) = Suc (utf8_to_utf32_len (drop (num_to_skip b) (b # bs)))"
  by pat_completeness auto
termination by (relation "measure length") (auto simp: num_to_skip_def)

definition utf8_to_utf32_length :: "byte list \<Rightarrow> nat" where
  "utf8_to_utf32_length src = utf8_to_utf32_len src"

text \<open>In the following \<open>n\<close> bytes are left of the text that begins at \<open>cur\<close>, and more memory may follow.\<close>

lemma at_loop_positive: "at_loop first msk ignored n utf32 cur = Inr (c, k) \<Longrightarrow> n \<le> k"
proof (induction first msk ignored n utf32 cur rule: at_loop.induct)
  case (1 first msk ignored n utf32 cur)
  then show ?case
    by (subst (asm) at_loop.simps [of first]) (fastforce split: if_splits list.splits)
qed

function utf8_to_utf32_from :: "byte list \<Rightarrow> nat \<Rightarrow> u32 list res" where
  "utf8_to_utf32_from cur n =
     (if n = 0 then Inr [0]
      else
        case utf32_at_internal cur of
          Inl e \<Rightarrow> Inl e
        | Inr (c, num_read) \<Rightarrow>
            bindR (utf8_to_utf32_from (drop num_read cur) (n - num_read)) (\<lambda>cs. Inr (c # cs)))"
  by pat_completeness auto
termination
  by (relation "measure snd")
    (auto simp: utf32_at_internal_def dest: at_loop_positive split: list.splits if_splits)

declare utf8_to_utf32_from.simps [simp del]

definition utf8_to_utf32 :: "byte list \<Rightarrow> nat \<Rightarrow> u32 list res" where
  "utf8_to_utf32 src src_len = (if src_len = 0 then Inr [] else utf8_to_utf32_from src src_len)"

definition utf8_to_utf32_codepoint :: "byte list \<Rightarrow> nat \<Rightarrow> u32 res" where
  "utf8_to_utf32_codepoint src len =
     (if len = 1 then bindR (mem_read 0 1 src) (\<lambda>s. Inr (ucast (s ! 0)))
      else if len = 2 then
        bindR (mem_read 0 2 src) (\<lambda>s. Inr (utf8_shift_and_mask (ucast (s ! 0) AND 0x1f) (s ! 1)))
      else if len = 3 then
        bindR (mem_read 0 3 src) (\<lambda>s.
        Inr (utf8_shift_and_mask (utf8_shift_and_mask (ucast (s ! 0) AND 0x0f) (s ! 1)) (s ! 2)))
      else if len = 4 then
        bindR (mem_read 0 4 src) (\<lambda>s.
        Inr (utf8_shift_and_mask (utf8_shift_and_mask (utf8_shift_and_mask (ucast (s ! 0) AND 0x07) (s ! 1)) (s ! 2)) (s ! 3)))
      else Inr 0xffff)"

text \<open>The result is \<^verbatim>\<open>u16measuredLen\<close>, or -1 when the last character goes beyond the end.\<close>

lemma utf8_codepoint_len_table:
  "utf8_codepoint_len ch = (if unat ch < 0xc0 then 1 else if unat ch < 0xe0 then 2 else if unat ch < 0xf0 then 3 else 4)"
proof -
  have m: "\<forall>m\<in>set [0..<32]. m AND 30 = (2 * (m div 2) :: nat)" by code_simp
  have t: "\<forall>k\<in>set [0..<16]. unat ((drop_bit (2 * k) 0xe5000000 AND 3) + 1 :: u32) =
      (if k < 12 then 1 else if k < 14 then 2 else if k < 15 then 3 else 4)" by code_simp
  have ch: "unat ch < 256" using unsigned_less [of ch] by simp
  have "unat (drop_bit 3 ch AND 0x1e) = unat ch div 8 AND 30"
    by (simp add: unsigned_and_eq unsigned_drop_bit_eq drop_bit_eq_div unat_div_distrib)
  also have "\<dots> = 2 * (unat ch div 16)"
  proof -
    have "unat ch div 8 < 32" "unat ch div 16 = unat ch div 8 div 2"
      using ch div_mult2_eq [of "unat ch" 8 2] by linarith+
    then show ?thesis using m by simp
  qed
  finally have "unat (drop_bit 3 ch AND 0x1e) = 2 * (unat ch div 16)" .
  moreover have "unat ch div 16 < 16" using ch by linarith
  ultimately show ?thesis
    using t by (auto simp: utf8_codepoint_len_def less_eq_div_iff_mult_less_eq div_less_iff_less_mult)
qed

lemma utf8_codepoint_len_positive: "0 < utf8_codepoint_len ch"
  by (simp add: utf8_codepoint_len_table)

function utf8_to_utf16_len :: "byte list \<Rightarrow> nat \<Rightarrow> nat \<Rightarrow> int res" where
  "utf8_to_utf16_len cur n measured =
     (if n = 0 then Inr (int measured)
      else
        case cur of
          [] \<Rightarrow> Inl MemFault
        | b # _ \<Rightarrow>
            let u8charLen = utf8_codepoint_len b in
            bindR (utf8_to_utf32_codepoint cur u8charLen) (\<lambda>codepoint.
            let measured = measured + (if codepoint > 0xFFFF then 2 else 1) in
            if n < u8charLen then Inr (- 1)
            else utf8_to_utf16_len (drop u8charLen cur) (n - u8charLen) measured))"
  by pat_completeness auto
termination by (relation "measure (\<lambda>(_, n, _). n)") (auto simp: utf8_codepoint_len_positive)

declare utf8_to_utf16_len.simps [simp del]

definition utf8_to_utf16_length :: "byte list \<Rightarrow> nat \<Rightarrow> int res" where
  "utf8_to_utf16_length u8str u8len = utf8_to_utf16_len u8str u8len 0"

text \<open>The characters for one code point.\<close>

definition utf16_chars :: "u32 \<Rightarrow> u16 list" where
  "utf16_chars codepoint =
     (if codepoint \<le> 0xFFFF then [ucast codepoint]
      else
        let codepoint = codepoint - 0x10000 in
        [ucast (drop_bit 10 codepoint + 0xD800), ucast ((codepoint AND 0x3FF) + 0xDC00)])"

function utf8_to_utf16_no_null_terminator :: "byte list \<Rightarrow> nat \<Rightarrow> u16 list res" where
  "utf8_to_utf16_no_null_terminator cur n =
     (if n = 0 then Inr []
      else
        case cur of
          [] \<Rightarrow> Inl MemFault
        | b # _ \<Rightarrow>
            let u8len = utf8_codepoint_len b in
            bindR (utf8_to_utf32_codepoint cur u8len) (\<lambda>codepoint.
            bindR (utf8_to_utf16_no_null_terminator (drop u8len cur) (n - u8len)) (\<lambda>cs.
            Inr (utf16_chars codepoint @ cs))))"
  by pat_completeness auto
termination by (relation "measure snd") (auto simp: utf8_codepoint_len_positive)

declare utf8_to_utf16_no_null_terminator.simps [simp del]

definition utf8_to_utf16 :: "byte list \<Rightarrow> nat \<Rightarrow> u16 list res" where
  "utf8_to_utf16 u8str u8len = bindR (utf8_to_utf16_no_null_terminator u8str u8len) (\<lambda>cs. Inr (cs @ [0]))"

text \<open>With room for \<open>room\<close> characters; a pair of surrogates is not split.\<close>

function utf8_to_utf16_n :: "byte list \<Rightarrow> nat \<Rightarrow> nat \<Rightarrow> u16 list res" where
  "utf8_to_utf16_n cur n room =
     (if n = 0 \<or> room = 0 then Inr []
      else
        case cur of
          [] \<Rightarrow> Inl MemFault
        | b # _ \<Rightarrow>
            let u8len = utf8_codepoint_len b in
            bindR (utf8_to_utf32_codepoint cur u8len) (\<lambda>codepoint.
            let cs = utf16_chars codepoint in
            if room < length cs then Inr []
            else
              bindR (utf8_to_utf16_n (drop u8len cur) (n - u8len) (room - length cs)) (\<lambda>rest. Inr (cs @ rest))))"
  by pat_completeness auto
termination by (relation "measure (\<lambda>(_, n, _). n)") (auto simp: utf8_codepoint_len_positive)

declare utf8_to_utf16_n.simps [simp del]

section \<open>Words as numbers\<close>

lemma unat_small: "n < 2 ^ 32 \<Longrightarrow> unat (of_nat n :: u32) = n"
  by (simp add: unat_of_nat)

lemma drop_bit_of_nat: "n < 2 ^ 32 \<Longrightarrow> drop_bit k (of_nat n :: u32) = of_nat (n div 2 ^ k)"
proof -
  assume n: "n < 2 ^ 32"
  then have "n div 2 ^ k < 2 ^ 32" using div_le_dividend [of n "2 ^ k"] by linarith
  then have "unat (drop_bit k (of_nat n :: u32)) = unat (of_nat (n div 2 ^ k) :: u32)"
    using n by (simp only: unat_drop_bit_eq unat_small drop_bit_nat_def)
  then show ?thesis by (simp only: word_unat_eq_iff)
qed

lemma or_high:
  fixes h :: u32
  assumes "unat h < 2 ^ k"
  shows "h OR push_bit k x = h + push_bit k x"
proof -
  have h: "h = take_bit k h"
    using assms by (simp add: word_unat_eq_iff unsigned_take_bit_eq take_bit_nat_eq_self)
  have "\<not> bit h n \<or> \<not> bit (push_bit k x) n" for n
    by (subst h) (auto simp: bit_take_bit_iff bit_push_bit_iff)
  then show ?thesis using disjunctive_add [of h "push_bit k x"] by simp
qed

lemma ucast_nat: "(ucast (of_nat n :: u32) :: byte) = of_nat n" "(ucast (of_nat n :: u32) :: u16) = of_nat n"
  by (simp_all add: word_unat_eq_iff unsigned_of_nat unat_of_nat take_bit_eq_mod mod_mod_cancel)

lemma mask_bits: "bit (0x80 :: u32) n \<longleftrightarrow> n = 7" "bit (0xBF :: u32) n \<longleftrightarrow> n < 8 \<and> n \<noteq> 6"
proof -
  have t: "take_bit 8 (0x80 :: u32) = 0x80" "take_bit 8 (0xBF :: u32) = 0xBF" by code_simp+
  have s: "\<forall>n\<in>set [0..<8]. bit (0x80 :: u32) n = (n = 7)" "\<forall>n\<in>set [0..<8]. bit (0xBF :: u32) n = (n \<noteq> 6)"
    by code_simp+
  show "bit (0x80 :: u32) n \<longleftrightarrow> n = 7"
    using bit_take_bit_iff [of 8 "0x80 :: u32" n] s(1) unfolding t by auto
  show "bit (0xBF :: u32) n \<longleftrightarrow> n < 8 \<and> n \<noteq> 6"
    using bit_take_bit_iff [of 8 "0xBF :: u32" n] s(2) unfolding t by auto
qed

lemma cont_byte: "ucast ((c OR kByteMark) AND kByteMask) = (of_nat (0x80 + unat c mod 64) :: byte)" for c :: u32
proof -
  have "(c OR kByteMark) AND kByteMask = take_bit 6 c OR 0x80"
    unfolding kByteMark_def kByteMask_def
    by (rule bit_word_eqI) (simp only: bit_and_iff bit_or_iff bit_take_bit_iff mask_bits, auto)
  also have "\<dots> = of_nat (0x80 + unat c mod 64)"
  proof -
    have "unat (take_bit 6 c) = unat c mod 64" by (simp add: take_bit_eq_mod unat_mod_distrib)
    moreover from this have "unat (take_bit 6 c) < 2 ^ 7" by simp
    ultimately show ?thesis
      using or_high [of "take_bit 6 c" 7 1] by (simp add: word_unat_eq_iff unat_of_nat unat_word_ariths)
  qed
  finally show ?thesis by (simp only: ucast_nat)
qed

lemma first_byte:
  assumes "h < 2 ^ k" and "h + m * 2 ^ k < 2 ^ 32"
  shows "ucast ((of_nat h :: u32) OR of_nat (m * 2 ^ k)) = (of_nat (m * 2 ^ k + h) :: byte)"
proof -
  have h: "h < 2 ^ 32" "m * 2 ^ k < 2 ^ 32" using assms(2) by linarith+
  have "unat (of_nat h :: u32) < 2 ^ k" using assms(1) unat_small [OF h(1)] by simp
  from or_high [OF this, of "of_nat m"]
  have "(of_nat h :: u32) OR of_nat (m * 2 ^ k) = of_nat (m * 2 ^ k + h)"
    by (simp add: push_bit_eq_mult mult.commute add.commute)
  then show ?thesis by (simp only: ucast_nat)
qed

section \<open>One character\<close>

lemma codepoint_length:
  assumes "scalar c"
  shows "utf32_codepoint_utf8_length (of_nat c) = length (utf8_encode c)"
proof -
  have c: "c < 2 ^ 32" using assms by (simp add: scalar_def)
  show ?thesis
    using assms
    by (auto simp: utf32_codepoint_utf8_length_def utf8_encode_def word_less_nat_alt word_le_nat_alt unat_small [OF c]
        kUnicodeSurrogateStart_def kUnicodeSurrogateEnd_def kUnicodeMaxCodepoint_def scalar_def)
qed

lemma codepoint_bytes:
  assumes "scalar c"
  shows "utf32_codepoint_to_utf8 (of_nat c) (length (utf8_encode c)) = utf8_encode c"
proof -
  have c: "c < 0x110000" "c < 2 ^ 32" using assms by (simp_all add: scalar_def)
  have d: "c div 64 < 2 ^ 32" "c div 64 div 64 < 2 ^ 32" using c(1) by simp_all
  note db = drop_bit_of_nat [OF c(2), of 6] drop_bit_of_nat [OF d(1), of 6] drop_bit_of_nat [OF d(2), of 6]
  consider "c < 0x80" | "0x80 \<le> c" "c < 0x800" | "0x800 \<le> c" "c < 0x10000" | "0x10000 \<le> c" by linarith
  then show ?thesis
  proof cases
    case 1
    then show ?thesis
      by (simp add: utf32_codepoint_to_utf8_def utf8_encode_def kFirstByteMark_def ucast_nat)
  next
    case 2
    then show ?thesis
      using first_byte [of "c div 64" 5 6] c db
      by (simp add: utf32_codepoint_to_utf8_def utf8_encode_def kFirstByteMark_def cont_byte unat_small numeral_2_eq_2 [symmetric])
  next
    case 3
    then show ?thesis
      using first_byte [of "c div 64 div 64" 4 14] c db
      by (simp add: utf32_codepoint_to_utf8_def utf8_encode_def kFirstByteMark_def cont_byte unat_small div_mult2_eq [of c 64 64, simplified])
  next
    case 4
    then show ?thesis
      using first_byte [of "c div 64 div 64 div 64" 3 30] c db
      by (simp add: utf32_codepoint_to_utf8_def utf8_encode_def kFirstByteMark_def cont_byte unat_small
          div_mult2_eq [symmetric])
  qed
qed

lemma and_masks:
  "(w :: u32) AND 0x1f = take_bit 5 w" "w AND 0x0f = take_bit 4 w" "w AND 0x07 = take_bit 3 w"
  "w AND 0x3FF = take_bit 10 w" "0x3F AND w = take_bit 6 w"
  by (simp_all add: take_bit_eq_mask mask_eq_exp_minus_1 and.commute)

lemma unat_take_bit: "unat (take_bit k (w :: u32)) = unat w mod 2 ^ k"
  by (simp only: unsigned_take_bit_eq take_bit_nat_def)

lemma surrogate_bits: "unat (w AND 0xFC00 :: u16) = 1024 * (unat w div 1024)"
proof -
  have t: "take_bit 16 (0xFC00 :: u16) = 0xFC00" by code_simp
  have s: "\<forall>n\<in>set [0..<16]. bit (0xFC00 :: u16) n = (10 \<le> n)" by code_simp
  have b: "bit (0xFC00 :: u16) n \<longleftrightarrow> 10 \<le> n \<and> n < 16" for n
    using bit_take_bit_iff [of 16 "0xFC00 :: u16" n] s unfolding t by auto
  have "w AND 0xFC00 = push_bit 10 (drop_bit 10 w)"
    by (rule bit_word_eqI) (simp only: bit_and_iff bit_push_bit_iff bit_drop_bit_eq b, auto)
  moreover have "unat w < 65536" using unsigned_less [of w] by simp
  then have "unat w div 1024 * 1024 < 65536" by linarith
  ultimately show ?thesis
    by (simp add: push_bit_eq_mult drop_bit_eq_div unat_word_ariths unat_div_distrib)
qed

lemma in_block: "1024 * (n div 1024) = 1024 * k \<longleftrightarrow> 1024 * k \<le> n \<and> n < 1024 * k + 1024" for n :: nat
proof
  assume "1024 * (n div 1024) = 1024 * k"
  moreover have "n = 1024 * (n div 1024) + n mod 1024" "n mod 1024 < 1024" by simp_all
  ultimately show "1024 * k \<le> n \<and> n < 1024 * k + 1024" by linarith
next
  assume "1024 * k \<le> n \<and> n < 1024 * k + 1024"
  then have "n div 1024 = k" by (intro div_nat_eqI) simp_all
  then show "1024 * (n div 1024) = 1024 * k" by simp
qed

lemma is_high_iff: "is_high w \<longleftrightarrow> 0xD800 \<le> unat w \<and> unat w < 0xDC00"
proof -
  have "is_high w \<longleftrightarrow> 1024 * (unat w div 1024) = 0xD800"
    using surrogate_bits [of w] by (simp add: is_high_def word_unat_eq_iff)
  then show ?thesis using in_block [of "unat w" 54] by simp
qed

lemma is_low_iff: "is_low w \<longleftrightarrow> 0xDC00 \<le> unat w \<and> unat w < 0xE000"
proof -
  have "is_low w \<longleftrightarrow> 1024 * (unat w div 1024) = 0xDC00"
    using surrogate_bits [of w] by (simp add: is_low_def word_unat_eq_iff)
  then show ?thesis using in_block [of "unat w" 55] by simp
qed

lemma unat_char: "n < 65536 \<Longrightarrow> unat (of_nat n :: u16) = n" "n < 65536 \<Longrightarrow> (ucast (of_nat n :: u16) :: u32) = of_nat n"
  by (simp_all add: unat_of_nat unsigned_of_nat take_bit_nat_eq_self)

lemma surrogate_pair:
  assumes "h < 1024" and "l < 1024"
  shows "(push_bit 10 (ucast (of_nat (0xd800 + h) :: u16) - 0xD800) OR (ucast (of_nat (0xdc00 + l) :: u16) - 0xDC00)) + 0x10000 =
    (of_nat (0x10000 + h * 1024 + l) :: u32)"
proof -
  have "unat (of_nat l :: u32) < 2 ^ 10" using assms(2) by (simp add: unat_small)
  from or_high [OF this, of "of_nat h"] have "push_bit 10 (of_nat h) OR of_nat l = (of_nat (h * 1024 + l) :: u32)"
    by (simp add: push_bit_eq_mult or.commute add.commute)
  moreover have "ucast (of_nat (0xd800 + h) :: u16) - 0xD800 = (of_nat h :: u32)"
    "ucast (of_nat (0xdc00 + l) :: u16) - 0xDC00 = (of_nat l :: u32)"
    using assms by (simp_all add: unat_char(2) del: of_nat_add) (simp_all)
  ultimately show ?thesis by simp
qed

lemma utf16_encode_single:
  assumes "scalar c" and "c < 0x10000"
  shows "\<not> is_high (of_nat c)" and "ucast (of_nat c :: u16) = (of_nat c :: u32)"
  using assms by (auto simp: is_high_iff unat_char scalar_def)

lemma utf16_encode_pair:
  assumes "scalar c" and "0x10000 \<le> c"
  obtains h l where "utf16_encode c = [of_nat (0xd800 + h), of_nat (0xdc00 + l)]" and "h < 1024" and "l < 1024"
    and "c = 0x10000 + h * 1024 + l"
proof
  show "utf16_encode c = [of_nat (0xd800 + (c - 0x10000) div 1024), of_nat (0xdc00 + (c - 0x10000) mod 1024)]"
    using assms(2) by (simp add: utf16_encode_def)
  show "(c - 0x10000) div 1024 < 1024" using assms(1) by (auto simp: scalar_def)
  show "c = 0x10000 + (c - 0x10000) div 1024 * 1024 + (c - 0x10000) mod 1024" using assms(2) by simp
qed simp

lemma utf16_loop_step:
  assumes "scalar c"
  shows "utf16_to_utf8_loop (utf16_encode c @ s) d =
      (if d < length (utf8_encode c) then Inl Aborted
       else bindR (utf16_to_utf8_loop s (d - length (utf8_encode c))) (\<lambda>bs. Inr (utf8_encode c @ bs)))"
    and "utf16_to_utf8_len (utf16_encode c @ s) = length (utf8_encode c) + utf16_to_utf8_len s"
proof -
  have "utf16_to_utf8_loop (utf16_encode c @ s) d =
      (if d < length (utf8_encode c) then Inl Aborted
       else bindR (utf16_to_utf8_loop s (d - length (utf8_encode c))) (\<lambda>bs. Inr (utf8_encode c @ bs))) \<and>
    utf16_to_utf8_len (utf16_encode c @ s) = length (utf8_encode c) + utf16_to_utf8_len s"
  proof (cases "c < 0x10000")
    case True
    then have e: "utf16_encode c = [of_nat c]" by (simp add: utf16_encode_def)
    show ?thesis
      using utf16_encode_single [OF assms True] codepoint_length [OF assms] codepoint_bytes [OF assms]
      by (simp add: e Let_def split: list.split)
  next
    case False
    then obtain h l where p: "utf16_encode c = [of_nat (0xd800 + h), of_nat (0xdc00 + l)]" "h < 1024" "l < 1024"
      "c = 0x10000 + h * 1024 + l"
      using utf16_encode_pair [OF assms] by (metis not_less)
    have hl: "is_high (of_nat (0xd800 + h))" "is_low (of_nat (0xdc00 + l))"
      using p(2,3) by (simp_all add: is_high_iff is_low_iff unat_char(1) del: of_nat_add)
    have "length (utf8_encode c) = 4" using False by (simp add: utf8_encode_def)
    moreover note surrogate_pair [OF p(2,3), folded p(4)]
    ultimately show ?thesis
      using hl codepoint_length [OF assms] codepoint_bytes [OF assms]
      unfolding p(1) by (simp add: Let_def del: of_nat_add)
  qed
  then show "utf16_to_utf8_loop (utf16_encode c @ s) d =
      (if d < length (utf8_encode c) then Inl Aborted
       else bindR (utf16_to_utf8_loop s (d - length (utf8_encode c))) (\<lambda>bs. Inr (utf8_encode c @ bs)))"
    and "utf16_to_utf8_len (utf16_encode c @ s) = length (utf8_encode c) + utf16_to_utf8_len s" by blast+
qed

lemma utf16_loop_all:
  assumes "\<forall>c\<in>set cs. scalar c"
  shows "utf16_to_utf8_len (concat (map utf16_encode cs)) = length (concat (map utf8_encode cs))"
    and "utf16_to_utf8_loop (concat (map utf16_encode cs)) d =
      (if d < length (concat (map utf8_encode cs)) + 1 then Inl Aborted else Inr (concat (map utf8_encode cs) @ [0]))"
  using assms
proof (induction cs arbitrary: d)
  case (Cons c cs)
  { case 1 then show ?case using Cons.IH(1) utf16_loop_step(2) [of c] by simp }
  { case 2 then show ?case using Cons.IH(2) utf16_loop_step(1) [of c] by (auto simp: less_diff_conv2) }
qed simp_all

section \<open>From UTF-8\<close>

lemma unat_byte: "unat (ucast (b :: byte) :: u32) = unat b"
proof -
  have b: "unat b < 2 ^ 8" using unsigned_less [of b, where 'a = nat] by simp
  have "take_bit 32 (unat b) = unat b" by (intro take_bit_nat_eq_self order.strict_trans2 [OF b]) simp
  then show ?thesis by (simp add: unsigned_ucast_eq)
qed

lemma shift_and_mask:
  assumes "n < 2 ^ 26"
  shows "utf8_shift_and_mask (of_nat n) b = of_nat (n * 64 + unat b mod 64)"
proof -
  have u: "unat (ucast b :: u32) = unat b" by (rule unat_byte)
  have "unat (take_bit 6 (ucast b) :: u32) < 2 ^ 6" by (simp add: unat_take_bit)
  from or_high [OF this, of "of_nat n"]
  have "utf8_shift_and_mask (of_nat n) b = take_bit 6 (ucast b) + of_nat (n * 64)"
    by (simp add: utf8_shift_and_mask_def and_masks push_bit_eq_mult or.commute)
  moreover have "take_bit 6 (ucast b :: u32) = of_nat (unat b mod 64)"
    by (simp add: word_unat_eq_iff unat_take_bit u unat_of_nat)
  ultimately show ?thesis by (simp add: add.commute)
qed

lemma masked_first:
  assumes "h < 2 ^ k" and "m * 2 ^ k + h < 256" and "k \<le> 8"
  shows "take_bit k (ucast (of_nat (m * 2 ^ k + h) :: byte) :: u32) = of_nat h"
proof -
  have "unat (of_nat (m * 2 ^ k + h) :: byte) = m * 2 ^ k + h"
    using assms(2) by (simp only: unat_of_nat) simp
  then have "unat (take_bit k (ucast (of_nat (m * 2 ^ k + h) :: byte) :: u32)) = h"
    using assms by (simp only: unat_take_bit unat_byte) simp
  moreover have "h < 2 ^ 32" using assms(2) by simp
  ultimately show ?thesis by (simp add: word_unat_eq_iff unat_small)
qed

lemma unat_of_byte: "n < 256 \<Longrightarrow> unat (of_nat n :: byte) = n"
  by (simp add: unat_of_nat)

text \<open>The bytes of a character are measured and decoded, whatever follows them.\<close>

lemma decode_character:
  assumes "scalar c"
  shows "\<exists>b bs. utf8_encode c = b # bs \<and> utf8_codepoint_len b = length (utf8_encode c) \<and>
    utf8_to_utf32_codepoint (utf8_encode c @ rest) (length (utf8_encode c)) = Inr (of_nat c)"
proof -
  have c: "c < 0x110000" using assms by (simp add: scalar_def)
  have cont: "unat (of_nat (0x80 + k mod 64) :: byte) mod 64 = k mod 64" for k
  proof -
    have "(k mod 64 + 2 * 64) mod 64 = k mod 64" by (simp only: mod_mult_self1 mod_mod_trivial)
    then have "(0x80 + k mod 64) mod 64 = k mod 64" by (simp add: add.commute)
    then show ?thesis using unat_of_byte [of "0x80 + k mod 64"] by (simp del: of_nat_add)
  qed
  consider "c < 0x80" | "0x80 \<le> c" "c < 0x800" | "0x800 \<le> c" "c < 0x10000" | "0x10000 \<le> c" by linarith
  then show ?thesis
  proof cases
    case 1
    then show ?thesis
      by (simp add: utf8_encode_def utf8_codepoint_len_table unat_of_byte utf8_to_utf32_codepoint_def mem_read_def
          unsigned_of_nat take_bit_nat_eq_self)
  next
    case 2
    define h where "h = c div 64"
    have h: "h < 2 ^ 5" "h * 64 + c mod 64 = c" using 2 by (simp_all add: h_def)
    have e: "utf8_encode c = [of_nat (6 * 2 ^ 5 + h), of_nat (0x80 + c mod 64)]"
      using 2 by (simp add: utf8_encode_def h_def)
    have "unat (of_nat (6 * 2 ^ 5 + h) :: byte) = 6 * 2 ^ 5 + h" using h(1) by (intro unat_of_byte) simp
    then show ?thesis
      using masked_first [OF h(1), of 6] shift_and_mask [of h "of_nat (0x80 + c mod 64)"] cont [of c] h
      unfolding e by (simp add: utf8_codepoint_len_table utf8_to_utf32_codepoint_def mem_read_def and_masks del: of_nat_add)
  next
    case 3
    define h m where "h = c div 4096" and "m = c div 64"
    have h: "h < 2 ^ 4" "h * 64 + c div 64 mod 64 = m" "m * 64 + c mod 64 = c" "m < 2 ^ 26"
      using 3 by (simp_all add: h_def m_def)  (simp add: div_mult2_eq [of c 64 64, simplified])
    have e: "utf8_encode c = [of_nat (14 * 2 ^ 4 + h), of_nat (0x80 + c div 64 mod 64), of_nat (0x80 + c mod 64)]"
      using 3 by (simp add: utf8_encode_def h_def)
    have "unat (of_nat (14 * 2 ^ 4 + h) :: byte) = 14 * 2 ^ 4 + h" using h(1) by (intro unat_of_byte) simp
    then show ?thesis
      using masked_first [OF h(1), of 14] shift_and_mask [of h "of_nat (0x80 + c div 64 mod 64)"]
        shift_and_mask [of m "of_nat (0x80 + c mod 64)"] cont [of c] cont [of "c div 64"] h
      unfolding e by (simp add: utf8_codepoint_len_table utf8_to_utf32_codepoint_def mem_read_def and_masks del: of_nat_add)
  next
    case 4
    define h m l where "h = c div 262144" and "m = c div 4096" and "l = c div 64"
    have h: "h < 2 ^ 3" "h * 64 + c div 4096 mod 64 = m" "m * 64 + c div 64 mod 64 = l" "l * 64 + c mod 64 = c"
        "m < 2 ^ 26" "l < 2 ^ 26"
      using c by (simp_all add: h_def m_def l_def)
        (simp_all add: div_mult2_eq [of c 64 64, simplified] div_mult2_eq [of c 4096 64, simplified])
    have e: "utf8_encode c = [of_nat (30 * 2 ^ 3 + h), of_nat (0x80 + c div 4096 mod 64), of_nat (0x80 + c div 64 mod 64),
        of_nat (0x80 + c mod 64)]"
      using 4 by (simp add: utf8_encode_def h_def)
    have "unat (of_nat (30 * 2 ^ 3 + h) :: byte) = 30 * 2 ^ 3 + h" using h(1) by (intro unat_of_byte) simp
    then show ?thesis
      using masked_first [OF h(1), of 30] shift_and_mask [of h "of_nat (0x80 + c div 4096 mod 64)"]
        shift_and_mask [of m "of_nat (0x80 + c div 64 mod 64)"]
        shift_and_mask [of l "of_nat (0x80 + c mod 64)"] cont [of c] cont [of "c div 64"] cont [of "c div 4096"] h
      unfolding e by (simp add: utf8_codepoint_len_table utf8_to_utf32_codepoint_def mem_read_def and_masks del: of_nat_add)
  qed
qed

lemma utf16_chars_encode:
  assumes "scalar c"
  shows "utf16_chars (of_nat c) = utf16_encode c"
proof -
  have c: "c < 0x110000" "c < 2 ^ 32" using assms by (simp_all add: scalar_def)
  show ?thesis
  proof (cases "c < 0x10000")
    case True
    then show ?thesis by (simp add: utf16_chars_def utf16_encode_def word_le_nat_alt unat_small ucast_nat)
  next
    case False
    let ?d = "c - 0x10000"
    have d: "(of_nat c :: u32) - 0x10000 = of_nat ?d" "?d < 2 ^ 32" using False c(2) by (simp_all add: of_nat_diff)
    have "drop_bit 10 (of_nat ?d) + 0xD800 = (of_nat (0xd800 + ?d div 1024) :: u32)"
      using drop_bit_of_nat [OF d(2), of 10] by simp
    moreover have "take_bit 10 (of_nat ?d :: u32) = of_nat (?d mod 1024)"
    proof -
      have "unat (of_nat (?d mod 1024) :: u32) = ?d mod 1024" by (rule unat_small) (rule order.strict_trans1 [OF mod_less_eq_dividend d(2)])
      then show ?thesis by (simp only: word_unat_eq_iff unat_take_bit unat_small [OF d(2)]) simp
    qed
    then have "(of_nat ?d AND 0x3FF) + 0xDC00 = (of_nat (0xdc00 + ?d mod 1024) :: u32)" by (simp add: and_masks)
    ultimately show ?thesis
      using False c d(1)
      by (simp add: utf16_chars_def utf16_encode_def word_le_nat_alt unat_small Let_def ucast_nat del: of_nat_add of_nat_diff)
  qed
qed

lemma length_utf16: "scalar c \<Longrightarrow> length (utf16_encode c) = (if (of_nat c :: u32) > 0xFFFF then 2 else 1)"
  by (auto simp: utf16_encode_def word_less_nat_alt unat_small scalar_def)

lemma utf8_to_utf16_all:
  assumes "\<forall>c\<in>set cs. scalar c"
  shows "utf8_to_utf16_len (concat (map utf8_encode cs) @ rest) (length (concat (map utf8_encode cs))) k =
      Inr (int (k + length (concat (map utf16_encode cs))))"
    and "utf8_to_utf16_no_null_terminator (concat (map utf8_encode cs) @ rest) (length (concat (map utf8_encode cs))) =
      Inr (concat (map utf16_encode cs))"
  using assms
proof (induction cs arbitrary: k)
  case Nil
  { case 1 show ?case by (simp add: utf8_to_utf16_len.simps) }
  { case 2 show ?case by (simp add: utf8_to_utf16_no_null_terminator.simps) }
next
  case (Cons c cs)
  let ?u = "concat (map utf8_encode cs)"
  have "\<exists>b bs. utf8_encode c = b # bs \<and> utf8_codepoint_len b = length (utf8_encode c) \<and>
      utf8_to_utf32_codepoint (utf8_encode c @ (?u @ rest)) (length (utf8_encode c)) = Inr (of_nat c)" if "scalar c"
    by (rule decode_character [OF that])
  then obtain b bs where d: "utf8_encode c = b # bs" "utf8_codepoint_len b = length (b # bs)"
    "utf8_to_utf32_codepoint ((b # bs) @ (?u @ rest)) (length (b # bs)) = Inr (of_nat c)"
    if "scalar c" by (metis)
  { case 1
    then show ?case
      using d Cons.IH(1) [of "k + length (utf16_encode c)"] length_utf16 [of c]
      by (subst utf8_to_utf16_len.simps) (simp add: Let_def)
  }
  { case 2
    then show ?case
      using d Cons.IH(2) utf16_chars_encode [of c]
      by (subst utf8_to_utf16_no_null_terminator.simps) (simp add: Let_def)
  }
qed

lemma utf32_loop_all:
  assumes "\<forall>c\<in>set cs. scalar c"
  shows "utf32_to_utf8_loop (map of_nat cs) d =
    (if d < length (concat (map utf8_encode cs)) + 1 then Inl Aborted else Inr (concat (map utf8_encode cs) @ [0]))"
  using assms
  by (induction cs arbitrary: d) (auto simp: Let_def codepoint_length codepoint_bytes less_diff_conv2)

lemma utf32_length_all:
  assumes "\<forall>c\<in>set cs. scalar c" and "cs \<noteq> []"
  shows "utf32_to_utf8_length (map of_nat cs) = int (length (concat (map utf8_encode cs)))"
proof -
  have "(\<Sum>c\<leftarrow>map of_nat cs. utf32_codepoint_utf8_length c) = length (concat (map utf8_encode cs))"
    using assms(1) by (induction cs) (simp_all add: codepoint_length)
  then show ?thesis using assms(2) by (simp add: utf32_to_utf8_length_def)
qed

section \<open>From UTF-8 to UTF-32\<close>

text \<open>The bytes of a character as numbers: the first one is extended with its sign, of the others six bits are kept.\<close>

lemma scast_high:
  assumes "128 \<le> n" and "n < 256"
  shows "(scast (of_nat n :: byte) :: u32) = of_nat (n + 0xFFFFFF00)"
proof -
  have "\<forall>n\<in>set [128..<256]. (scast (of_nat n :: byte) :: u32) = of_nat n + 0xFFFFFF00" by code_simp
  moreover have "n \<in> set [128..<256]" using assms by (simp only: set_upt atLeastLessThan_iff simp_thms)
  ultimately have "(scast (of_nat n :: byte) :: u32) = of_nat n + 0xFFFFFF00" by (rule bspec)
  then show ?thesis by simp
qed

lemma scast_low: "(scast (b :: byte) :: u32) AND 0x3F = of_nat (unat b mod 64)"
proof -
  have "\<forall>n\<in>set [0..<256]. (scast (of_nat n :: byte) :: u32) AND 0x3F = of_nat (n mod 64)" by code_simp
  moreover have "unat b \<in> set [0..<256]"
    using unsigned_less [of b, where 'a = nat] by (simp only: set_upt atLeastLessThan_iff) simp
  ultimately have "(scast (of_nat (unat b) :: byte) :: u32) AND 0x3F = of_nat (unat b mod 64)" by (rule bspec)
  then show ?thesis by simp
qed

lemma take_bit_nat32: "k \<le> 32 \<Longrightarrow> take_bit k (of_nat n :: u32) = of_nat (n mod 2 ^ k)"
proof -
  assume "k \<le> 32"
  then have d: "(2 :: nat) ^ k dvd 2 ^ 32" by (rule le_imp_power_dvd)
  have "n mod 2 ^ k < 2 ^ 32"
    using dvd_imp_le [OF d] by (meson mod_less_divisor order.strict_trans2 zero_less_numeral zero_less_power)
  then show ?thesis
    using d by (simp add: word_unat_eq_iff unat_take_bit unat_of_nat mod_mod_cancel)
qed

lemma lead_bit: "((scast (b :: byte) :: u32) AND 2 ^ k \<noteq> 0) = bit b k" if "k < 7"
  using that by (simp add: and_exp_eq_0_iff_not_bit bit_signed_iff min_def)

lemma at_loop_more:
  assumes "bit b k" and "k < 7"
  shows "at_loop b (2 ^ k) ig n u (x # xs) =
    at_loop b (drop_bit 1 (2 ^ k)) (ig OR 2 ^ k) (Suc n) (of_nat 64 * u + of_nat (unat x mod 64)) xs"
  by (subst at_loop.simps) (simp only: lead_bit [OF assms(2)] assms(1) if_True list.simps scast_low push_bit_eq_mult, simp add: mult.commute)

lemma at_loop_last:
  assumes "\<not> bit b k" and "k < 7" and "n \<le> 5" and "0 < n" and "NOT (push_bit (6 * (n - 1)) (ig OR 2 ^ k)) = mask j" "j \<le> 32"
  shows "at_loop b (2 ^ k) ig n (of_nat u) xs = Inr (of_nat (u mod 2 ^ j), n)"
proof -
  have "\<not> 32 \<le> 6 * (n - 1)" using assms(3) by linarith
  then show ?thesis
    by (subst at_loop.simps) (simp only: lead_bit [OF assms(2)] assms(1) assms(5) take_bit_nat32 [OF assms(6)]
        if_False simp_thms flip: take_bit_eq_mask)
qed

lemma lead_bits:
  "h < 32 \<Longrightarrow> bit (of_nat (6 * 2 ^ 5 + h) :: byte) 6 \<and> \<not> bit (of_nat (6 * 2 ^ 5 + h) :: byte) 5"
  "h < 16 \<Longrightarrow> bit (of_nat (14 * 2 ^ 4 + h) :: byte) 6 \<and> bit (of_nat (14 * 2 ^ 4 + h) :: byte) 5 \<and>
    \<not> bit (of_nat (14 * 2 ^ 4 + h) :: byte) 4"
  "h < 8 \<Longrightarrow> bit (of_nat (30 * 2 ^ 3 + h) :: byte) 6 \<and> bit (of_nat (30 * 2 ^ 3 + h) :: byte) 5 \<and>
    bit (of_nat (30 * 2 ^ 3 + h) :: byte) 4 \<and> \<not> bit (of_nat (30 * 2 ^ 3 + h) :: byte) 3"
proof -
  have "\<forall>h\<in>set [0..<32]. bit (of_nat (6 * 2 ^ 5 + h) :: byte) 6 \<and> \<not> bit (of_nat (6 * 2 ^ 5 + h) :: byte) 5" by code_simp
  then show "h < 32 \<Longrightarrow> bit (of_nat (6 * 2 ^ 5 + h) :: byte) 6 \<and> \<not> bit (of_nat (6 * 2 ^ 5 + h) :: byte) 5"
    by (simp del: of_nat_add of_nat_mult)
  have "\<forall>h\<in>set [0..<16]. bit (of_nat (14 * 2 ^ 4 + h) :: byte) 6 \<and> bit (of_nat (14 * 2 ^ 4 + h) :: byte) 5 \<and>
    \<not> bit (of_nat (14 * 2 ^ 4 + h) :: byte) 4" by code_simp
  then show "h < 16 \<Longrightarrow> bit (of_nat (14 * 2 ^ 4 + h) :: byte) 6 \<and> bit (of_nat (14 * 2 ^ 4 + h) :: byte) 5 \<and>
    \<not> bit (of_nat (14 * 2 ^ 4 + h) :: byte) 4" by (simp del: of_nat_add of_nat_mult)
  have "\<forall>h\<in>set [0..<8]. bit (of_nat (30 * 2 ^ 3 + h) :: byte) 6 \<and> bit (of_nat (30 * 2 ^ 3 + h) :: byte) 5 \<and>
    bit (of_nat (30 * 2 ^ 3 + h) :: byte) 4 \<and> \<not> bit (of_nat (30 * 2 ^ 3 + h) :: byte) 3" by code_simp
  then show "h < 8 \<Longrightarrow> bit (of_nat (30 * 2 ^ 3 + h) :: byte) 6 \<and> bit (of_nat (30 * 2 ^ 3 + h) :: byte) 5 \<and>
    bit (of_nat (30 * 2 ^ 3 + h) :: byte) 4 \<and> \<not> bit (of_nat (30 * 2 ^ 3 + h) :: byte) 3" by (simp del: of_nat_add of_nat_mult)
qed

lemma at_masks:
  "NOT (push_bit (6 * (2 - 1)) (0xFFFFFFC0 OR 2 ^ 5)) = (mask 11 :: u32)"
  "NOT (push_bit (6 * (3 - 1)) (0xFFFFFFE0 OR 2 ^ 4)) = (mask 16 :: u32)"
  "NOT (push_bit (6 * (4 - 1)) (0xFFFFFFF0 OR 2 ^ 3)) = (mask 21 :: u32)"
  by code_simp+

lemma at_steps:
  "drop_bit 1 (2 ^ 6) = (2 ^ 5 :: u32)" "drop_bit 1 (2 ^ 5) = (2 ^ 4 :: u32)" "drop_bit 1 (2 ^ 4) = (2 ^ 3 :: u32)"
  "0xFFFFFF80 OR 2 ^ 6 = (0xFFFFFFC0 :: u32)" "0xFFFFFFC0 OR 2 ^ 5 = (0xFFFFFFE0 :: u32)" "0xFFFFFFE0 OR 2 ^ 4 = (0xFFFFFFF0 :: u32)"
  by code_simp+

lemma ascii_first:
  assumes "n < 128"
  shows "(of_nat n :: byte) AND 0x80 = 0" and "(scast (of_nat n :: byte) :: u32) = of_nat n"
proof -
  have "\<forall>n\<in>set [0..<128]. (of_nat n :: byte) AND 0x80 = 0 \<and> (scast (of_nat n :: byte) :: u32) = of_nat n" by code_simp
  moreover have "n \<in> set [0..<128]" using assms by (simp only: set_upt atLeastLessThan_iff) simp
  ultimately show "(of_nat n :: byte) AND 0x80 = 0" and "(scast (of_nat n :: byte) :: u32) = of_nat n" by blast+
qed

lemma not_ascii_first:
  assumes "128 \<le> n" and "n < 256"
  shows "(of_nat n :: byte) AND 0x80 \<noteq> 0"
proof -
  have "\<forall>n\<in>set [128..<256]. (of_nat n :: byte) AND 0x80 \<noteq> 0" by code_simp
  moreover have "n \<in> set [128..<256]" using assms by (simp only: set_upt atLeastLessThan_iff simp_thms)
  ultimately show ?thesis by (rule bspec)
qed

lemma at_first:
  assumes "128 \<le> n" and "n < 256"
  shows "utf32_at_internal (of_nat n # bs) = at_loop (of_nat n) (2 ^ 6) 0xFFFFFF80 1 (of_nat (n + 0xFFFFFF00)) bs"
  unfolding scast_high [OF assms, symmetric] utf32_at_internal_def using not_ascii_first [OF assms] by simp

text \<open>What the following bytes add, written over natural numbers.\<close>

lemma at_loop_next:
  assumes "bit b k" and "k < 7"
  shows "at_loop b (2 ^ k) ig n (of_nat u) (of_nat (0x80 + j mod 64) # xs) =
    at_loop b (drop_bit 1 (2 ^ k)) (ig OR 2 ^ k) (Suc n) (of_nat (64 * u + j mod 64)) xs"
proof -
  have "(k mod 64 + 2 * 64) mod 64 = k mod 64" for k :: nat by (simp only: mod_mult_self1 mod_mod_trivial)
  then have "(0x80 + j mod 64) mod 64 = j mod 64" by (simp add: add.commute)
  then have "unat (of_nat (0x80 + j mod 64) :: byte) mod 64 = j mod 64"
    using unat_of_byte [of "0x80 + j mod 64"] by (simp del: of_nat_add)
  then show ?thesis
    unfolding at_loop_more [OF assms] by (simp only: of_nat_add of_nat_mult)
qed

lemma at_loop_2:
  assumes "bit b 6" and "\<not> bit b 5"
  shows "at_loop b (2 ^ 6) 0xFFFFFF80 1 (of_nat u) (of_nat (0x80 + j mod 64) # xs) =
    Inr (of_nat ((64 * u + j mod 64) mod 2 ^ 11), 2)"
proof -
  have "Suc 1 = (2 :: nat)" by simp
  then show ?thesis
    using at_loop_last [OF assms(2) _ _ _ at_masks(1)] by (simp only: at_loop_next [OF assms(1)] at_steps)
qed

lemma at_loop_3:
  assumes "bit b 6" and "bit b 5" and "\<not> bit b 4"
  shows "at_loop b (2 ^ 6) 0xFFFFFF80 1 (of_nat u) (of_nat (0x80 + j mod 64) # of_nat (0x80 + k mod 64) # xs) =
    Inr (of_nat ((64 * (64 * u + j mod 64) + k mod 64) mod 2 ^ 16), 3)"
proof -
  have "Suc (Suc 1) = (3 :: nat)" by simp
  then show ?thesis
    using at_loop_last [OF assms(3) _ _ _ at_masks(2)] by (simp only: at_loop_next [OF assms(1)] at_loop_next [OF assms(2)] at_steps)
qed

lemma at_loop_4:
  assumes "bit b 6" and "bit b 5" and "bit b 4" and "\<not> bit b 3"
  shows "at_loop b (2 ^ 6) 0xFFFFFF80 1 (of_nat u)
      (of_nat (0x80 + j mod 64) # of_nat (0x80 + k mod 64) # of_nat (0x80 + l mod 64) # xs) =
    Inr (of_nat ((64 * (64 * (64 * u + j mod 64) + k mod 64) + l mod 64) mod 2 ^ 21), 4)"
proof -
  have "Suc (Suc (Suc 1)) = (4 :: nat)" by simp
  then show ?thesis
    using at_loop_last [OF assms(4) _ _ _ at_masks(3)]
    by (simp only: at_loop_next [OF assms(1)] at_loop_next [OF assms(2)] at_loop_next [OF assms(3)] at_steps)
qed

lemma utf32_at_character:
  assumes "scalar c"
  shows "utf32_at_internal (utf8_encode c @ rest) = Inr (of_nat c, length (utf8_encode c))"
proof -
  have c: "c < 0x110000" using assms by (simp add: scalar_def)
  consider "c < 0x80" | "0x80 \<le> c" "c < 0x800" | "0x800 \<le> c" "c < 0x10000" | "0x10000 \<le> c" by linarith
  then show ?thesis
  proof cases
    case 1
    then show ?thesis using ascii_first [of c] by (simp add: utf8_encode_def utf32_at_internal_def)
  next
    case 2
    define h where "h = c div 64"
    let ?n = "6 * 2 ^ 5 + h"
    have h: "h < 32" "h * 64 + c mod 64 = c" using 2 by (simp_all add: h_def)
    have e: "utf8_encode c = [of_nat ?n, of_nat (0x80 + c mod 64)]"
      using 2 by (simp add: utf8_encode_def h_def)
    have n: "128 \<le> ?n" "?n < 256" using h(1) by simp_all
    have "64 * (?n + 0xFFFFFF00) + c mod 64 = c + 134217726 * 2 ^ 11" using h(2) by simp
    then have m: "(64 * (?n + 0xFFFFFF00) + c mod 64) mod 2 ^ 11 = c" using 2 by (simp only: mod_mult_self1) simp
    show ?thesis
      unfolding e append.simps at_first [OF n]
      using at_loop_2 [of "of_nat ?n"] lead_bits(1) [OF h(1)] m by (simp del: of_nat_add of_nat_mult)
  next
    case 3
    define h where "h = c div 4096"
    let ?n = "14 * 2 ^ 4 + h"
    have "h * 64 + c div 64 mod 64 = c div 64" by (simp add: h_def div_mult2_eq [of c 64 64, simplified])
    then have h: "(h * 64 + c div 64 mod 64) * 64 + c mod 64 = c" by (simp only: div_mult_mod_eq)
    have h1: "h < 16" using 3 by (simp add: h_def)
    have e: "utf8_encode c = [of_nat ?n, of_nat (0x80 + c div 64 mod 64), of_nat (0x80 + c mod 64)]"
      using 3 by (simp add: utf8_encode_def h_def)
    have n: "128 \<le> ?n" "?n < 256" using h1 by simp_all
    have "64 * (64 * (?n + 0xFFFFFF00) + c div 64 mod 64) + c mod 64 = c + 268435454 * 2 ^ 16" using h by simp
    then have m: "(64 * (64 * (?n + 0xFFFFFF00) + c div 64 mod 64) + c mod 64) mod 2 ^ 16 = c"
      using 3 by (simp only: mod_mult_self1) simp
    show ?thesis
      unfolding e append.simps at_first [OF n]
      using at_loop_3 [of "of_nat ?n"] lead_bits(2) [OF h1] m by (simp del: of_nat_add of_nat_mult)
  next
    case 4
    define h where "h = c div 262144"
    let ?n = "30 * 2 ^ 3 + h"
    have "h * 64 + c div 4096 mod 64 = c div 4096" "c div 4096 * 64 + c div 64 mod 64 = c div 64"
      by (simp_all add: h_def div_mult2_eq [of c 64 64, simplified] div_mult2_eq [of c 4096 64, simplified])
    then have h: "((h * 64 + c div 4096 mod 64) * 64 + c div 64 mod 64) * 64 + c mod 64 = c" by (simp only: div_mult_mod_eq)
    have h1: "h < 8" using c by (simp add: h_def)
    have e: "utf8_encode c = [of_nat ?n, of_nat (0x80 + c div 4096 mod 64), of_nat (0x80 + c div 64 mod 64),
        of_nat (0x80 + c mod 64)]"
      using 4 by (simp add: utf8_encode_def h_def)
    have n: "128 \<le> ?n" "?n < 256" using h1 by simp_all
    have "64 * (64 * (64 * (?n + 0xFFFFFF00) + c div 4096 mod 64) + c div 64 mod 64) + c mod 64 = c + 536870910 * 2 ^ 21"
      using h by simp
    then have m: "(64 * (64 * (64 * (?n + 0xFFFFFF00) + c div 4096 mod 64) + c div 64 mod 64) + c mod 64) mod 2 ^ 21 = c"
      using c by (simp only: mod_mult_self1) simp
    show ?thesis
      unfolding e append.simps at_first [OF n]
      using at_loop_4 [of "of_nat ?n"] lead_bits(3) [OF h1] m by (simp del: of_nat_add of_nat_mult)
  qed
qed

lemma skip_character:
  assumes "scalar c"
  shows "\<exists>b bs. utf8_encode c = b # bs \<and> num_to_skip b = length (utf8_encode c)"
proof -
  have c: "c < 0x110000" using assms by (simp add: scalar_def)
  have up: "rev [0..<7] = [6, 5, 4, 3, 2, 1, 0 :: nat]" by code_simp
  consider "c < 0x80" | "0x80 \<le> c" "c < 0x800" | "0x800 \<le> c" "c < 0x10000" | "0x10000 \<le> c" by linarith
  then show ?thesis
  proof cases
    case 1
    then show ?thesis using ascii_first [of c] by (simp add: utf8_encode_def num_to_skip_def)
  next
    case 2
    have h: "c div 64 < 32" using 2 by simp
    have "128 \<le> 6 * 2 ^ 5 + c div 64" "6 * 2 ^ 5 + c div 64 < 256" using h by simp_all
    from not_ascii_first [OF this] show ?thesis
      using 2 lead_bits(1) [OF h] unfolding num_to_skip_def up by (simp add: utf8_encode_def)
  next
    case 3
    have h: "c div 4096 < 16" using 3 by simp
    have "128 \<le> 14 * 2 ^ 4 + c div 4096" "14 * 2 ^ 4 + c div 4096 < 256" using h by simp_all
    from not_ascii_first [OF this] show ?thesis
      using 3 lead_bits(2) [OF h] unfolding num_to_skip_def up by (simp add: utf8_encode_def)
  next
    case 4
    have h: "c div 262144 < 8" using c by simp
    have "128 \<le> 30 * 2 ^ 3 + c div 262144" "30 * 2 ^ 3 + c div 262144 < 256" using h by simp_all
    from not_ascii_first [OF this] show ?thesis
      using 4 lead_bits(3) [OF h] unfolding num_to_skip_def up by (simp add: utf8_encode_def)
  qed
qed

lemma utf8_to_utf32_all:
  assumes "\<forall>c\<in>set cs. scalar c"
  shows "utf8_to_utf32_len (concat (map utf8_encode cs)) = length cs"
    and "utf8_to_utf32_from (concat (map utf8_encode cs) @ rest) (length (concat (map utf8_encode cs))) = Inr (map of_nat cs @ [0])"
  using assms
proof (induction cs)
  case Nil
  { case 1 show ?case by simp }
  { case 2 show ?case by (simp add: utf8_to_utf32_from.simps) }
next
  case (Cons c cs)
  { case 1
    then obtain b bs where "utf8_encode c = b # bs" "num_to_skip b = length (utf8_encode c)" using skip_character [of c] by auto
    then show ?case using 1 Cons.IH(1) by simp }
  { case 2
    have "utf8_encode c \<noteq> []" by (simp add: utf8_encode_def)
    then show ?case
      using 2 Cons.IH(2) utf32_at_character [of c "concat (map utf8_encode cs) @ rest"]
      by (subst utf8_to_utf32_from.simps) simp }
qed

section \<open>Signed characters\<close>

lemma scast_negative: "bit (b :: byte) 7 \<Longrightarrow> 8 \<le> n \<Longrightarrow> n < 32 \<Longrightarrow> bit (scast b :: u32) n"
  by (auto simp: bit_simps min_def)

lemma utf8_length_loop_fails:
  assumes "bit first 7" and "\<And>m. 8 \<le> m \<Longrightarrow> \<not> bit msk m" and "\<And>m. 8 \<le> m \<Longrightarrow> \<not> bit ignored m" and "n \<le> 5"
  shows "utf8_length_loop first msk ignored n utf32 cur \<in> {Inr None, Inl MemFault}"
  using assms
proof (induction first msk ignored n utf32 cur rule: utf8_length_loop.induct)
  case (1 first msk ignored n utf32 cur)
  show ?case
  proof (cases "n < 5 \<and> (scast first AND msk) \<noteq> 0")
    case True
    then have loop: "utf8_length_loop first msk ignored n utf32 cur = (case cur of [] \<Rightarrow> Inl MemFault | b # bs \<Rightarrow>
        if b AND 0xC0 \<noteq> 0x80 then Inr None
        else utf8_length_loop first (drop_bit 1 msk) (ignored OR msk) (Suc n) (push_bit 6 utf32 + (scast b AND 0x3F)) bs)"
      by (subst utf8_length_loop.simps) simp
    show ?thesis
    proof (cases cur)
      case (Cons b bs)
      then show ?thesis
        using 1(1) [OF True Cons] 1(2-5) True unfolding loop by (simp add: bit_simps)
    next
      case Nil
      then show ?thesis using loop by simp
    qed
  next
    case False
    show ?thesis
    proof (cases "n = 5")
      case True
      then show ?thesis by (subst utf8_length_loop.simps) simp
    next
      case n: False
      let ?u = "utf32 OR push_bit (6 * (n - 1)) (NOT (ignored OR msk) AND scast first)"
      have "6 * (n - 1) \<le> 18" using 1(5) n by simp
      then have "bit ?u 31" if "31 - 6 * (n - 1) < 32"
        using that 1(2-4) scast_negative [of first "31 - 6 * (n - 1)"] by (simp add: bit_simps)
      then have "bit ?u 31" by simp
      then have "bit (unat ?u) 31" by (simp add: bit_unsigned_iff)
      then have "unat ?u \<ge> 2 ^ 31" by (metis bit_iff_odd div_less even_zero not_le)
      then have "?u > kUnicodeMaxCodepoint" by (simp add: kUnicodeMaxCodepoint_def word_less_nat_alt)
      then have "utf8_length_loop first msk ignored n utf32 cur = Inr None"
        by (subst utf8_length_loop.simps) (simp only: False n Let_def if_False if_True)
      then show ?thesis by simp
    qed
  qed
qed

lemma utf8_length_loop_reads:
  assumes "0 \<in> set cur"
  shows "utf8_length_loop first msk ignored n utf32 cur \<noteq> Inl MemFault"
  using assms
proof (induction first msk ignored n utf32 cur rule: utf8_length_loop.induct)
  case (1 first msk ignored n utf32 cur)
  then show ?case
    by (subst utf8_length_loop.simps) (auto simp: Let_def split: list.split)
qed

lemma utf8_length_from_ascii:
  assumes "0 \<notin> set s"
  shows "utf8_length_from (s @ 0 # r) ret =
    Inr (if \<forall>b\<in>set s. \<not> bit b 7 then int (ret + length s) else - 1)"
  using assms
proof (induction s arbitrary: ret)
  case (Cons b s)
  have m: "\<not> bit (0x40 :: u32) m" "\<not> bit (0x80 :: u32) m" if "8 \<le> m" for m
    using that mask_bits(1) [of m] bit_exp_iff [where 'a = u32, of 6 m] by auto
  show ?case
  proof (cases "bit b 7")
    case True
    then have "bit (b AND 0x80) 7" by (simp add: bit_and_iff)
    then have "b AND 0x80 \<noteq> 0" by auto
    then show ?thesis
      using Cons.prems True m utf8_length_loop_fails [of b "0x40" "0x80" 1 0 "s @ 0 # r", OF True]
        utf8_length_loop_reads [of "s @ 0 # r" b "0x40" "0x80" 1 0]
      by (auto split: if_splits)
  next
    case False
    have "b AND 0x80 = push_bit 7 (of_bool (bit b 7))"
      using and_exp_eq_0_iff_not_bit [of b 7] False by simp
    then show ?thesis using Cons.prems Cons.IH [of "ret + 1"] False by simp
  qed
qed simp

lemma byte_sign:
  "n < 128 \<Longrightarrow> \<not> bit (of_nat n :: byte) 7 \<and> ((of_nat n :: byte) = 0 \<longleftrightarrow> n = 0)"
  "128 \<le> n \<Longrightarrow> n < 256 \<Longrightarrow> bit (of_nat n :: byte) 7 \<and> (of_nat n :: byte) \<noteq> 0"
proof -
  have low: "\<forall>n\<in>set [0..<128]. \<not> bit (of_nat n :: byte) 7 \<and> ((of_nat n :: byte) = 0 \<longleftrightarrow> n = 0)" by code_simp
  have high: "\<forall>n\<in>set [128..<256]. bit (of_nat n :: byte) 7 \<and> (of_nat n :: byte) \<noteq> 0" by code_simp
  show "\<not> bit (of_nat n :: byte) 7 \<and> ((of_nat n :: byte) = 0 \<longleftrightarrow> n = 0)" if "n < 128"
    by (rule bspec [OF low]) (use that in \<open>simp only: set_upt atLeastLessThan_iff, simp\<close>)
  show "bit (of_nat n :: byte) 7 \<and> (of_nat n :: byte) \<noteq> 0" if "128 \<le> n" "n < 256"
    by (rule bspec [OF high]) (use that in \<open>simp only: set_upt atLeastLessThan_iff simp_thms\<close>)
qed

lemma encoded_bytes:
  assumes "scalar c"
  shows "(\<forall>b\<in>set (utf8_encode c). \<not> bit b 7) \<longleftrightarrow> c < 128" and "0 \<in> set (utf8_encode c) \<longleftrightarrow> c = 0"
proof -
  have c: "c < 0x110000" using assms by (simp add: scalar_def)
  have k: "128 \<le> 0x80 + k mod 64" "0x80 + k mod 64 < 256" for k :: nat by simp_all
  note follow = byte_sign(2) [OF k]
  consider "c < 0x80" | "0x80 \<le> c" "c < 0x800" | "0x800 \<le> c" "c < 0x10000" | "0x10000 \<le> c" by linarith
  then have "((\<forall>b\<in>set (utf8_encode c). \<not> bit b 7) \<longleftrightarrow> c < 128) \<and> (0 \<in> set (utf8_encode c) \<longleftrightarrow> c = 0)"
  proof cases
    case 1
    then show ?thesis using byte_sign(1) [of c] by (auto simp: utf8_encode_def)
  next
    case 2
    then show ?thesis using byte_sign(2) [of "0xc0 + c div 64"] follow
      by (auto simp: utf8_encode_def simp del: of_nat_add)
  next
    case 3
    then show ?thesis using byte_sign(2) [of "0xe0 + c div 4096"] follow
      by (auto simp: utf8_encode_def simp del: of_nat_add)
  next
    case 4
    then show ?thesis using byte_sign(2) [of "0xf0 + c div 262144"] follow c
      by (auto simp: utf8_encode_def simp del: of_nat_add)
  qed
  then show "(\<forall>b\<in>set (utf8_encode c). \<not> bit b 7) \<longleftrightarrow> c < 128" and "0 \<in> set (utf8_encode c) \<longleftrightarrow> c = 0" by blast+
qed

lemma utf8_length_text:
  assumes "\<forall>c\<in>set cs. scalar c" and "0 \<notin> set cs"
  shows "utf8_length (concat (map utf8_encode cs) @ 0 # rest) =
    Inr (if \<forall>c\<in>set cs. c < 128 then int (length (concat (map utf8_encode cs))) else - 1)"
proof -
  have "0 \<notin> set (concat (map utf8_encode cs))" using assms encoded_bytes(2) by fastforce
  moreover have "(\<forall>b\<in>set (concat (map utf8_encode cs)). \<not> bit b 7) \<longleftrightarrow> (\<forall>c\<in>set cs. c < 128)"
    using assms(1) encoded_bytes(1) by auto
  ultimately show ?thesis using utf8_length_from_ascii [of "concat (map utf8_encode cs)" rest 0] by (simp add: utf8_length_def)
qed

text \<open>The character at a position, and the position of the next one.\<close>

lemma utf32_from_utf8_at_text:
  assumes "\<forall>c\<in>set cs. scalar c" and "i < length cs"
  shows "utf32_from_utf8_at (concat (map utf8_encode cs) @ rest) (length (concat (map utf8_encode cs)))
      (length (concat (map utf8_encode (take i cs)))) =
    Inr (of_nat (cs ! i), Some (length (concat (map utf8_encode (take (Suc i) cs)))))"
proof -
  let ?u = "\<lambda>cs. concat (map utf8_encode cs)"
  have c: "scalar (cs ! i)" using assms by simp
  have cs: "?u cs = ?u (take i cs) @ utf8_encode (cs ! i) @ ?u (drop (Suc i) cs)"
    using id_take_nth_drop [OF assms(2)] by (metis concat.simps(2) concat_append list.simps(9) map_append)
  have "utf8_encode (cs ! i) \<noteq> []" by (simp add: utf8_encode_def)
  then have lt: "length (?u (take i cs)) < length (?u cs)" unfolding cs by simp
  have "0 \<le>s (of_nat (cs ! i) :: u32)"
  proof -
    have "cs ! i div 2 ^ 31 = 0" and n: "cs ! i < 2 ^ 32" using c by (simp_all add: scalar_def)
    then have "\<not> bit (unat (of_nat (cs ! i) :: u32)) 31" unfolding unat_small [OF n] by (simp add: bit_iff_odd)
    then have "\<not> bit (of_nat (cs ! i) :: u32) 31" by (simp add: bit_unsigned_iff)
    then show ?thesis using bit_last_iff [of "of_nat (cs ! i) :: u32"] by (simp add: word_sle_eq)
  qed
  then show ?thesis
    using lt utf32_at_character [OF c, of "?u (drop (Suc i) cs) @ rest"] assms(2)
    by (simp add: utf32_from_utf8_at_def take_Suc_conv_app_nth) (simp add: cs)
qed

section \<open>Texts\<close>

text \<open>C12: the conversions of the Android libraries agree with the encodings of a text as UTF-8, UTF-16 and UTF-32,
  and so with the conversions of the client: the lengths that \<^verbatim>\<open>utf16_to_utf8_length\<close>, \<^verbatim>\<open>utf32_to_utf8_length\<close>,
  \<^verbatim>\<open>utf8_to_utf16_length\<close> and \<^verbatim>\<open>utf8_to_utf32_length\<close> measure are exact, the conversions write
  the encoding and a 0 behind it, whatever follows the text in memory, the characters are found one by one with
  \<^verbatim>\<open>utf32_from_utf8_at\<close>, and a buffer that is one byte too small ends the process instead of being overrun. The
  exception is \<^verbatim>\<open>utf8_length\<close>, which measures a text of ASCII and gives -1 for every other one.\<close>

theorem unicode_conversions_agree:
  assumes "\<forall>c\<in>set cs. scalar c" and "cs \<noteq> []"
  shows "let u8 = concat (map utf8_encode cs); u16 = concat (map utf16_encode cs) in
    utf16_to_utf8_length u16 = int (length u8) \<and>
    utf16_to_utf8 u16 (length u8 + 1) = Inr (u8 @ [0]) \<and> utf16_to_utf8 u16 (length u8) = Inl Aborted \<and>
    utf32_to_utf8_length (map of_nat cs) = int (length u8) \<and>
    utf32_to_utf8 (map of_nat cs) (length u8 + 1) = Inr (u8 @ [0]) \<and>
    utf8_to_utf16_length (u8 @ rest) (length u8) = Inr (int (length u16)) \<and>
    utf8_to_utf16 (u8 @ rest) (length u8) = Inr (u16 @ [0]) \<and>
    utf8_to_utf32_length u8 = length cs \<and>
    utf8_to_utf32 (u8 @ rest) (length u8) = Inr (map of_nat cs @ [0]) \<and>
    (\<forall>i<length cs. utf32_from_utf8_at (u8 @ rest) (length u8) (length (concat (map utf8_encode (take i cs)))) =
       Inr (of_nat (cs ! i), Some (length (concat (map utf8_encode (take (Suc i) cs)))))) \<and>
    (0 \<notin> set cs \<longrightarrow> utf8_length (u8 @ 0 # rest) = Inr (if \<forall>c\<in>set cs. c < 128 then int (length u8) else - 1)) \<and>
    to_string8 u16 = Inr u8 \<and> to_string16 u8 = Inr u16"
proof -
  have "concat (map utf16_encode cs) \<noteq> []" "concat (map utf8_encode cs) \<noteq> []"
    using assms(2) by (cases cs; simp add: utf16_encode_def utf8_encode_def)+
  then show ?thesis
    using utf16_loop_all [OF assms(1)] utf32_loop_all [OF assms(1)] utf32_length_all [OF assms] utf8_to_utf16_all(1) [OF assms(1), of rest 0]
      utf8_to_utf16_all(2) [OF assms(1), of rest] assms utf8_to_utf32_all [OF assms(1)]
      utf8_decode_all [OF assms(1)] utf16_decode_all [OF assms(1)]
    unfolding Let_def
    by (intro conjI allI impI utf32_from_utf8_at_text utf8_length_text assms(1))
      (simp_all add: utf16_to_utf8_length_def utf16_to_utf8_def utf32_to_utf8_def utf8_to_utf16_length_def
        utf8_to_utf16_def utf8_to_utf32_length_def utf8_to_utf32_def to_string8_def to_string16_def)
qed

theorem unicode_conversions_agree_witness:
  "utf16_to_utf8 [0x41, 0xe9, 0xd83d, 0xde00] 8 = Inr [0x41, 0xc3, 0xa9, 0xf0, 0x9f, 0x98, 0x80, 0] \<and>
   utf8_to_utf16 [0x41, 0xc3, 0xa9, 0xf0, 0x9f, 0x98, 0x80, 0] 7 = Inr [0x41, 0xe9, 0xd83d, 0xde00, 0] \<and>
   utf8_to_utf32 [0x41, 0xc3, 0xa9, 0xf0, 0x9f, 0x98, 0x80, 0] 7 = Inr [0x41, 0xe9, 0x1f600, 0]"
proof -
  let ?cs = "[0x41, 0xe9, 0x1f600] :: nat list"
  let ?u8 = "[0x41, 0xc3, 0xa9, 0xf0, 0x9f, 0x98, 0x80] :: byte list" and ?u16 = "[0x41, 0xe9, 0xd83d, 0xde00] :: u16 list"
  have cs: "\<forall>c\<in>set ?cs. scalar c" "?cs \<noteq> []" by (simp_all add: scalar_def)
  have e: "concat (map utf8_encode ?cs) = ?u8" "concat (map utf16_encode ?cs) = ?u16"
    by (simp_all add: utf8_encode_def utf16_encode_def)
  have l: "length ?u8 = 7" "(7 :: nat) + 1 = 8" by simp_all
  show ?thesis
    using unicode_conversions_agree [OF cs, of "[0]"] unfolding e Let_def l by simp
qed

text \<open>\<^verbatim>\<open>utf8_length\<close> measures exactly the texts that consist of ASCII: \<^verbatim>\<open>char\<close> is signed, the bits of the
  sign stay in the code point of every other character, and that is then larger than every code
  point.\<close>

theorem utf8_length_ascii_only:
  assumes "0 \<notin> set s"
  shows "utf8_length (s @ 0 # r) = Inr (if \<forall>b\<in>set s. \<not> bit b 7 then int (length s) else - 1)"
  using utf8_length_from_ascii [OF assms, of r 0] by (simp add: utf8_length_def)

theorem utf8_length_ascii_only_witness:
  "utf8_length [0x61, 0xc3, 0xa9, 0] = Inr (- 1) \<and> utf8_length [0x61, 0x62, 0] = Inr 2"
  using utf8_length_ascii_only [of "[0x61, 0xc3, 0xa9]" "[]"] utf8_length_ascii_only [of "[0x61, 0x62]" "[]"] by simp

section \<open>Strings of 16-bit characters\<close>

lemma chars_diff_0 [simp]: "chars_diff a b = 0 \<longleftrightarrow> a = b"
  by (simp add: chars_diff_def word_uint_eq_iff)

lemma strncmp16_take:
  assumes "0 \<notin> set s" and "0 \<notin> set t"
  shows "\<exists>d. strncmp16 (s @ 0 # r) (t @ 0 # r') (length t) = Inr d \<and> (d = 0 \<longleftrightarrow> take (length t) s = t)"
  using assms
proof (induction t arbitrary: s)
  case (Cons b t)
  then show ?case
  proof (cases s)
    case Nil
    then show ?thesis using Cons.prems by auto
  next
    case (Cons a s')
    then show ?thesis using Cons.prems Cons.IH [of s'] by auto
  qed
qed simp

text \<open>The offset of the first occurrence of a string in another.\<close>

primrec first_occurrence :: "u16 list \<Rightarrow> u16 list \<Rightarrow> nat option" where
  "first_occurrence t [] = None"
| "first_occurrence t (c # s) =
     (if take (length t) (c # s) = t then Some 0 else map_option Suc (first_occurrence t s))"

lemma strstr16_loop_finds:
  assumes "0 \<notin> set s" and "0 \<notin> set t" and "c \<noteq> 0"
  shows "strstr16_loop c (t @ 0 # r') (length t) (s @ 0 # r) pos =
    Inr (map_option (\<lambda>k. pos + k) (first_occurrence (c # t) s))"
  using assms(1)
proof (induction s arbitrary: pos)
  case Nil
  show ?case by (subst strstr16_loop.simps) simp
next
  case (Cons a s)
  obtain d where "strncmp16 (s @ 0 # r) (t @ 0 # r') (length t) = Inr d" "d = 0 \<longleftrightarrow> take (length t) s = t"
    using strncmp16_take [of s t r r'] Cons.prems assms(2) by auto
  then show ?case
    using Cons.prems Cons.IH [of "Suc pos"] assms(3)
    by (subst strstr16_loop.simps) (auto simp: option.map_comp comp_def)
qed

lemma strlen16_end: "0 \<notin> set s \<Longrightarrow> strlen16 (s @ 0 # r) = Inr (length s)"
  by (induction s) auto

text \<open>C37: the search for a string that is not empty gives the offset of its first occurrence, or null when there is
  none, whatever follows the strings in memory. The search for the empty string reads behind its end.\<close>

theorem strstr16_finds_first:
  assumes "0 \<notin> set s" and "0 \<notin> set t" and "t \<noteq> []"
  shows "strstr16 (s @ 0 # r) (t @ 0 # r') = Inr (first_occurrence t s) \<and> strstr16 (s @ 0 # r) [0] = Inl MemFault"
proof -
  obtain c t' where t: "t = c # t'" using assms(3) by (cases t) auto
  have "strstr16 (s @ 0 # r) (t @ 0 # r') = Inr (map_option (\<lambda>k. 0 + k) (first_occurrence t s))"
    using strstr16_loop_finds [of s t' c r' r 0] assms t strlen16_end [of t' r'] by (simp add: strstr16_def)
  then show ?thesis by (simp add: strstr16_def option.map_ident)
qed

theorem strstr16_finds_first_witness:
  "strstr16 [1, 2, 1, 2, 3, 0] [1, 2, 3, 0] = Inr (Some 2)"
  using strstr16_finds_first [of "[1, 2, 1, 2, 3]" "[1, 2, 3]" "[]" "[]"] by simp

end
