(* ===== verification/Android_Status.thy ===== *)
theory Android_Status
  imports Android_Items Unicode Logger Service_Manager
begin

text \<open>
  \<^verbatim>\<open>src/external/android/binder/Status.cpp\<close>: the outcome of a call as it travels in the reply, and the
  conversions between the two string classes it uses (\<^verbatim>\<open>utils/String8.cpp\<close>, \<^verbatim>\<open>utils/String16.cpp\<close>).
  The memory of a string is its characters and the 0 behind them; memory for a string is
  always found.
\<close>

section \<open>Strings\<close>

text \<open>\<^verbatim>\<open>allocFromUTF8\<close> of \<^verbatim>\<open>String16.cpp\<close> and \<^verbatim>\<open>allocFromUTF16\<close> of \<^verbatim>\<open>String8.cpp\<close>; the results are without the 0.\<close>

definition String16_of_String8 :: "byte list \<Rightarrow> u16 list res" where
  "String16_of_String8 u8str =
     (if u8str = [] then Inr []
      else
        bindR (utf8_to_utf16_length (u8str @ [0]) (length u8str)) (\<lambda>u16len.
        if u16len < 0 then Inr []
        else bindR (utf8_to_utf16 (u8str @ [0]) (length u8str)) (\<lambda>str. Inr (butlast str))))"

definition String8_of_String16 :: "u16 list \<Rightarrow> byte list res" where
  "String8_of_String16 str =
     (if str = [] then Inr []
      else
        let resultStrLen = utf16_to_utf8_length str + 1 in
        if resultStrLen < 1 then Inr []
        else bindR (utf16_to_utf8 str (nat resultStrLen)) (\<lambda>s. Inr (butlast s)))"

lemma String_conversions:
  assumes "\<forall>c\<in>set cs. scalar c"
  shows "String16_of_String8 (concat (map utf8_encode cs)) = Inr (concat (map utf16_encode cs))"
    and "String8_of_String16 (concat (map utf16_encode cs)) = Inr (concat (map utf8_encode cs))"
proof -
  define u8 u16 where "u8 = concat (map utf8_encode cs)" and "u16 = concat (map utf16_encode cs)"
  have e: "utf8_encode c \<noteq> []" "utf16_encode c \<noteq> []" for c by (simp_all add: utf8_encode_def utf16_encode_def)
  then have empty: "u8 = [] \<longleftrightarrow> cs = []" "u16 = [] \<longleftrightarrow> cs = []" by (cases cs; simp add: u8_def u16_def)+
  have len: "utf8_to_utf16_length (u8 @ [0]) (length u8) = Inr (int (length u16))"
    "utf8_to_utf16 (u8 @ [0]) (length u8) = Inr (u16 @ [0])"
    using utf8_to_utf16_all(1) [OF assms, of "[0]" 0] utf8_to_utf16_all(2) [OF assms, of "[0]"]
    unfolding u8_def [symmetric] u16_def [symmetric] by (simp_all add: utf8_to_utf16_length_def utf8_to_utf16_def)
  show "String16_of_String8 (concat (map utf8_encode cs)) = Inr (concat (map utf16_encode cs))"
    unfolding u8_def [symmetric] u16_def [symmetric] String16_of_String8_def using len empty by auto
  have "utf16_to_utf8_length u16 = int (length u8)" "utf16_to_utf8 u16 (length u8 + 1) = Inr (u8 @ [0])" if "u16 \<noteq> []"
    using utf16_loop_all [OF assms] that unfolding u8_def [symmetric] u16_def [symmetric]
    by (simp_all add: utf16_to_utf8_length_def utf16_to_utf8_def)
  moreover have "nat (int (length u8) + 1) = length u8 + 1" by simp
  ultimately show "String8_of_String16 (concat (map utf16_encode cs)) = Inr (concat (map utf8_encode cs))"
    unfolding u8_def [symmetric] u16_def [symmetric] String8_of_String16_def using empty by (auto simp: Let_def)
qed

section \<open>The outcome of a call\<close>

definition EX_NONE :: u32 where "EX_NONE = 0"
definition EX_SERVICE_SPECIFIC :: u32 where "EX_SERVICE_SPECIFIC = - 8"
definition EX_HAS_REPLY_HEADER :: u32 where "EX_HAS_REPLY_HEADER = - 128"
definition EX_TRANSACTION_FAILED :: u32 where "EX_TRANSACTION_FAILED = - 129"

lemmas exception_codes = EX_NONE_def EX_SERVICE_SPECIFIC_def EX_HAS_REPLY_HEADER_def EX_TRANSACTION_FAILED_def

record call_status =
  mException :: u32
  mErrorCode :: u32
  mMessage :: "byte list"

definition Status_new :: "u32 \<Rightarrow> u32 \<Rightarrow> byte list \<Rightarrow> call_status" where
  "Status_new exceptionCode errorCode msg = \<lparr>mException = exceptionCode, mErrorCode = errorCode, mMessage = msg\<rparr>"

definition Status_ok :: call_status where
  "Status_ok = Status_new EX_NONE 0 []"

definition fromExceptionCode :: "u32 \<Rightarrow> byte list \<Rightarrow> call_status" where
  "fromExceptionCode exceptionCode msg = Status_new exceptionCode (status_code OK) msg"

definition fromServiceSpecificError :: "u32 \<Rightarrow> byte list \<Rightarrow> call_status" where
  "fromServiceSpecificError serviceSpecificErrorCode msg = Status_new EX_SERVICE_SPECIFIC serviceSpecificErrorCode msg"

definition setException :: "u32 \<Rightarrow> byte list \<Rightarrow> call_status \<Rightarrow> call_status" where
  "setException ex msg s = s\<lparr>mException := ex, mErrorCode := status_code OK, mMessage := msg\<rparr>"

definition setServiceSpecificError :: "u32 \<Rightarrow> byte list \<Rightarrow> call_status \<Rightarrow> call_status" where
  "setServiceSpecificError errorCode msg s = (setException EX_SERVICE_SPECIFIC msg s)\<lparr>mErrorCode := errorCode\<rparr>"

definition setFromStatusT :: "status \<Rightarrow> call_status \<Rightarrow> call_status" where
  "setFromStatusT st s =
     s\<lparr>mException := if st = OK then EX_NONE else EX_TRANSACTION_FAILED, mErrorCode := status_code st, mMessage := []\<rparr>"

definition fromStatusT :: "status \<Rightarrow> call_status" where
  "fromStatusT st = setFromStatusT st Status_ok"

text \<open>The header of a reply is skipped: its size, and the position it ends at, are computed with 32 bits.\<close>

definition skip_header :: "status parc" where
  "skip_header =
     bindS (getS mDataPos) (\<lambda>header_start.
     bindS (readAligned_status 4) (\<lambda>(st, header_size :: u32).
     if st \<noteq> OK then retS st
     else seqS (setDataPosition (unat (scast (of_nat header_start + header_size) :: u64))) (retS OK)))"

definition readFromParcel :: "call_status \<Rightarrow> (status \<times> call_status) parc" where
  "readFromParcel s =
     bindS (readAligned_status 4) (\<lambda>(st, ex).
     let s = (if st = OK then s\<lparr>mException := ex\<rparr> else s) in
     if st \<noteq> OK then retS (st, setFromStatusT st s)
     else
       bindS (if mException s = EX_HAS_REPLY_HEADER then skip_header else retS OK) (\<lambda>st.
       if st \<noteq> OK then retS (st, setFromStatusT st s)
       else
         let s = (if mException s = EX_HAS_REPLY_HEADER then s\<lparr>mException := EX_NONE\<rparr> else s) in
         if mException s = EX_NONE then retS (st, s)
         else
           bindS readString16_status (\<lambda>(st, msg).
           if st \<noteq> OK then retS (st, setFromStatusT st s)
           else
             bindS (liftS (String8_of_String16 msg)) (\<lambda>msg.
             let s = s\<lparr>mMessage := msg\<rparr> in
             if mException s = EX_SERVICE_SPECIFIC then
               bindS (readAligned_status 4) (\<lambda>(st, code).
               if st \<noteq> OK then retS (st, setFromStatusT st s) else retS (st, s\<lparr>mErrorCode := code\<rparr>))
             else retS (st, s)))))"

definition writeToParcel :: "allocator \<Rightarrow> call_status \<Rightarrow> status parc" where
  "writeToParcel a s =
     (if mException s = EX_TRANSACTION_FAILED then retS (status_of (mErrorCode s))
      else
        bindS (writeInt32 a (mException s)) (\<lambda>st.
        if st \<noteq> OK then retS st
        else if mException s = EX_NONE then retS st
        else
          bindS (liftS (String16_of_String8 (mMessage s))) (\<lambda>msg.
          bindS (writeString16 a (Some msg)) (\<lambda>st.
          if mException s \<noteq> EX_SERVICE_SPECIFIC then retS st
          else writeInt32 a (mErrorCode s)))))"

text \<open>\<^verbatim>\<open>Parcel::readExceptionCode\<close>\<close>

definition readExceptionCode :: "u32 parc" where
  "readExceptionCode = bindS (readFromParcel Status_ok) (\<lambda>(_, s). retS (mException s))"

text \<open>\<^verbatim>\<open>toString8\<close>\<close>

definition signed_decimal :: "u32 \<Rightarrow> string" where
  "signed_decimal w = (if w <s 0 then ''-'' @ decimal (nat (- sint w)) else decimal (unat w))"

definition toString8 :: "call_status \<Rightarrow> byte list" where
  "toString8 s =
     (if mException s = EX_NONE then bytes_of ''No error''
      else
        bytes_of (''Status('' @ signed_decimal (mException s) @ ''): '' @ [CHR 0x27]) @
        (if mException s = EX_SERVICE_SPECIFIC \<or> mException s = EX_TRANSACTION_FAILED
         then bytes_of (signed_decimal (mErrorCode s) @ '': '') else []) @
        mMessage s @ bytes_of [CHR 0x27])"

section \<open>Outcomes travel\<close>

text \<open>What is written for an outcome whose message is the text \<open>cs\<close>.\<close>

definition status_bytes :: "call_status \<Rightarrow> nat list \<Rightarrow> byte list" where
  "status_bytes s cs =
     le_bytes 4 (mException s) @
     (if mException s = EX_NONE then []
      else string16_data (concat (map utf16_encode cs)) @
        (if mException s = EX_SERVICE_SPECIFIC then le_bytes 4 (mErrorCode s) else []))"

lemma writeToParcel_holds:
  assumes a: "total_alloc a" and d: "has_data p d" and s: "mMessage s = concat (map utf8_encode cs)" "\<forall>c\<in>set cs. scalar c"
    and len: "length d + length (status_bytes s cs) \<le> grow_limit" and ex: "mException s \<noteq> EX_TRANSACTION_FAILED"
  shows "\<exists>p'. writeToParcel a s p = (Inr OK, p') \<and> has_data p' (d @ status_bytes s cs) \<and> only_data p p'"
proof -
  let ?u = "concat (map utf16_encode cs)" and ?e = "le_bytes 4 (mException s)"
  obtain p1 where p1: "writeInt32 a (mException s) p = (Inr OK, p1)" "has_data p1 (d @ ?e)" "only_data p p1"
    using writeAligned_holds [OF a d, of 4 "mException s"] len by (auto simp: writeInt32_def status_bytes_def)
  show ?thesis
  proof (cases "mException s = EX_NONE")
    case True
    then show ?thesis using p1 ex by (simp add: writeToParcel_def bindS_def retS_def status_bytes_def)
  next
    case False
    have "length (d @ ?e) + 4 + padded_len (2 * length ?u + 2) \<le> grow_limit"
      using len False by (simp add: status_bytes_def string16_data_def)
    then obtain p2 where p2: "writeString16 a (Some ?u) p1 = (Inr OK, p2)" "has_data p2 ((d @ ?e) @ string16_data ?u)" "only_data p1 p2"
      using writeString16_holds [OF a p1(2)] by (auto simp: string16_data_def)
    have conv: "String16_of_String8 (mMessage s) = Inr ?u" using String_conversions(1) [OF s(2)] s(1) by simp
    show ?thesis
    proof (cases "mException s = EX_SERVICE_SPECIFIC")
      case True
      obtain p3 where "writeInt32 a (mErrorCode s) p2 = (Inr OK, p3)"
        "has_data p3 (((d @ ?e) @ string16_data ?u) @ le_bytes 4 (mErrorCode s))" "only_data p2 p3"
        using writeAligned_holds [OF a p2(2), of 4 "mErrorCode s"] len False True by (auto simp: writeInt32_def status_bytes_def)
      then show ?thesis
        using p1 p2 conv False True ex only_data_trans [of p p1 p2] only_data_trans [of p p2 p3]
        by (simp add: writeToParcel_def bindS_def liftS_def status_bytes_def)
    next
      case no: False
      then show ?thesis
        using p1 p2 conv False ex only_data_trans [of p p1 p2]
        by (simp add: writeToParcel_def bindS_def liftS_def retS_def status_bytes_def)
    qed
  qed
qed

lemma readFromParcel_unread:
  assumes u: "unread p pre (status_bytes s cs @ ys)" and s: "mMessage s = concat (map utf8_encode cs)" "\<forall>c\<in>set cs. scalar c"
    and ex: "mException s \<noteq> EX_HAS_REPLY_HEADER"
  shows "\<exists>p'. readFromParcel s0 p = (Inr (OK,
      if mException s = EX_NONE then s0\<lparr>mException := EX_NONE\<rparr>
      else s\<lparr>mErrorCode := if mException s = EX_SERVICE_SPECIFIC then mErrorCode s else mErrorCode s0\<rparr>), p') \<and>
    unread p' (pre @ status_bytes s cs) ys"
proof -
  let ?u = "concat (map utf16_encode cs)" and ?e = "le_bytes 4 (mException s)"
  let ?tail = "if mException s = EX_NONE then []
      else string16_data ?u @ (if mException s = EX_SERVICE_SPECIFIC then le_bytes 4 (mErrorCode s) else [])"
  have "unread p pre (?e @ (?tail @ ys))" using u by (simp add: status_bytes_def)
  then obtain p1 where p1: "readAligned_status 4 p = (Inr (OK, mException s), p1)" "unread p1 (pre @ ?e) (?tail @ ys)"
    using readAligned_status_unread [of p pre 4 "mException s"] by auto
  show ?thesis
  proof (cases "mException s = EX_NONE")
    case True
    then show ?thesis
      using p1 ex by (simp add: readFromParcel_def bindS_def retS_def Let_def status_bytes_def exception_codes)
  next
    case False
    let ?tail2 = "if mException s = EX_SERVICE_SPECIFIC then le_bytes 4 (mErrorCode s) else []"
    have "unread p1 (pre @ ?e) (string16_data ?u @ (?tail2 @ ys))" using p1(2) False by simp
    then obtain p2 where p2: "readString16_status p1 = (Inr (OK, ?u), p2)" "unread p2 ((pre @ ?e) @ string16_data ?u) (?tail2 @ ys)"
      using readString16_status_unread by blast
    have conv: "String8_of_String16 ?u = Inr (mMessage s)" using String_conversions(2) [OF s(2)] s(1) by simp
    show ?thesis
    proof (cases "mException s = EX_SERVICE_SPECIFIC")
      case True
      then have "unread p2 ((pre @ ?e) @ string16_data ?u) (le_bytes 4 (mErrorCode s) @ ys)" using p2(2) by simp
      then obtain p3 where "readAligned_status 4 p2 = (Inr (OK, mErrorCode s), p3)"
        "unread p3 (((pre @ ?e) @ string16_data ?u) @ le_bytes 4 (mErrorCode s)) ys"
        using readAligned_status_unread [of p2 "(pre @ ?e) @ string16_data ?u" 4 "mErrorCode s" ys] by auto
      then show ?thesis
        using p1(1) p2(1) conv False True ex
        by (auto simp: readFromParcel_def bindS_def liftS_def retS_def Let_def status_bytes_def)
    next
      case no: False
      then show ?thesis
        using p1(1) p2 conv False ex
        by (auto simp: readFromParcel_def bindS_def liftS_def retS_def Let_def status_bytes_def)
    qed
  qed
qed

text \<open>C10: the outcome of a call survives the reply: what \<^verbatim>\<open>writeToParcel\<close> writes, \<^verbatim>\<open>readFromParcel\<close> reads back as the same
  exception with the same message and, for an error of the service, the same code. A failed
  transaction writes nothing and is reported as its status instead.\<close>

theorem outcome_round_trip:
  assumes "total_alloc a" and "mMessage s = concat (map utf8_encode cs)" and "\<forall>c\<in>set cs. scalar c"
    and "length (status_bytes s cs) \<le> grow_limit" and "mException s \<noteq> EX_HAS_REPLY_HEADER"
  shows "(mException s = EX_TRANSACTION_FAILED \<longrightarrow> writeToParcel a s p = (Inr (status_of (mErrorCode s)), p)) \<and>
    (mException s \<noteq> EX_TRANSACTION_FAILED \<longrightarrow>
      (\<exists>p' q q'. writeToParcel a s Parcel_new = (Inr OK, p') \<and> setDataPosition 0 p' = (Inr (), q) \<and>
         readFromParcel Status_ok q = (Inr (OK,
           if mException s = EX_NONE then Status_ok
           else s\<lparr>mErrorCode := if mException s = EX_SERVICE_SPECIFIC then mErrorCode s else 0\<rparr>), q')))"
proof (cases "mException s = EX_TRANSACTION_FAILED")
  case True
  then show ?thesis by (simp add: writeToParcel_def retS_def)
next
  case False
  obtain p' where p': "writeToParcel a s Parcel_new = (Inr OK, p')" "has_data p' (status_bytes s cs)"
    using writeToParcel_holds [OF assms(1) has_data_new assms(2,3) _ False] assms(4) by auto
  have ne: "status_bytes s cs \<noteq> []" by (auto simp: status_bytes_def le_bytes_def)
  let ?q = "p'\<lparr>mDataPos := 0, mNextObjectHint := 0\<rparr>"
  have "unread ?q [] (status_bytes s cs @ [])" using unread_start(2) [OF p'(2) ne] by simp
  then obtain q' where q': "readFromParcel Status_ok ?q = (Inr (OK,
      if mException s = EX_NONE then Status_ok\<lparr>mException := EX_NONE\<rparr>
      else s\<lparr>mErrorCode := if mException s = EX_SERVICE_SPECIFIC then mErrorCode s else mErrorCode Status_ok\<rparr>), q')"
    using readFromParcel_unread [OF _ assms(2,3,5), of ?q "[]" "[]" Status_ok] by blast
  have "Status_ok\<lparr>mException := EX_NONE\<rparr> = Status_ok" "mErrorCode Status_ok = 0"
    by (simp_all add: Status_ok_def Status_new_def)
  then show ?thesis using False p'(1) unread_start(1) [OF p'(2) ne] q' by auto
qed

theorem outcome_round_trip_witness:
  "\<exists>p' q q'. writeToParcel plain_alloc (fromServiceSpecificError 7 [0x61, 0xc3, 0xa9]) Parcel_new = (Inr OK, p') \<and>
     setDataPosition 0 p' = (Inr (), q) \<and>
     readFromParcel Status_ok q = (Inr (OK, fromServiceSpecificError 7 [0x61, 0xc3, 0xa9]), q')"
proof -
  let ?s = "fromServiceSpecificError 7 [0x61, 0xc3, 0xa9]" and ?cs = "[0x61, 0xe9] :: nat list"
  have s: "mMessage ?s = concat (map utf8_encode ?cs)" "\<forall>c\<in>set ?cs. scalar c" "mException ?s = EX_SERVICE_SPECIFIC"
    "mErrorCode ?s = 7"
    by (simp_all add: fromServiceSpecificError_def Status_new_def utf8_encode_def scalar_def)
  have l: "length (status_bytes ?s ?cs) \<le> grow_limit"
    by (simp add: status_bytes_def s(3) exception_codes string16_data_def utf16_encode_def padded_len_def grow_limit_def)
  have x: "mException ?s \<noteq> EX_HAS_REPLY_HEADER" "mException ?s \<noteq> EX_TRANSACTION_FAILED" "mException ?s \<noteq> EX_NONE"
    unfolding s(3) by (simp_all add: exception_codes)
  have same: "?s\<lparr>mErrorCode := 7\<rparr> = ?s" by (simp add: fromServiceSpecificError_def Status_new_def)
  show ?thesis using outcome_round_trip [OF total_plain_alloc s(1,2) l x(1)] x(2,3) s(3,4) by (simp add: same)
qed

end
