(* ===== verification/Android_Services.thy ===== *)
theory Android_Services
  imports Android_Calls Android_Status
begin

text \<open>
  \<^verbatim>\<open>src/external/android/binder/IServiceManager.cpp\<close>: the proxy through which applications of the Android
  libraries reach the service manager, and the stub that serves it from such an application.
  With binderd the service manager at the other end is \<^verbatim>\<open>ServiceManagerService\<close>, of the theory
  \<open>Service_Manager\<close>: what one writes the other reads.
\<close>

section \<open>The proxy\<close>

definition GET_SERVICE_TRANSACTION :: u32 where "GET_SERVICE_TRANSACTION = 1"
definition CHECK_SERVICE_TRANSACTION :: u32 where "CHECK_SERVICE_TRANSACTION = 2"
definition ADD_SERVICE_TRANSACTION :: u32 where "ADD_SERVICE_TRANSACTION = 3"
definition LIST_SERVICES_TRANSACTION :: u32 where "LIST_SERVICES_TRANSACTION = 4"

definition service_descriptor :: "u16 list" where
  "service_descriptor = map (\<lambda>c. of_nat (of_char c)) ''android.os.IServiceManager''"

text \<open>The parcels of the requests; \<open>t\<close> is the state of the calling thread.\<close>

definition check_request :: "allocator \<Rightarrow> ipc_thread \<Rightarrow> u16 list \<Rightarrow> status parc" where
  "check_request a t name = bindS (writeInterfaceToken a t service_descriptor) (\<lambda>_. writeString16 a (Some name))"

definition add_request :: "allocator \<Rightarrow> ipc_thread \<Rightarrow> u16 list \<Rightarrow> ibinder option \<Rightarrow> bool \<Rightarrow> status parc" where
  "add_request a t name service allowIsolated =
     bindS (writeInterfaceToken a t service_descriptor) (\<lambda>_.
     bindS (writeString16 a (Some name)) (\<lambda>_.
     bindS (writeStrongBinder a service) (\<lambda>_.
     writeInt32 a (if allowIsolated then 1 else 0))))"

definition list_services_request :: "allocator \<Rightarrow> ipc_thread \<Rightarrow> u32 \<Rightarrow> status parc" where
  "list_services_request a t n = bindS (writeInterfaceToken a t service_descriptor) (\<lambda>_. writeInt32 a n)"

text \<open>A reference: null, an object of this process, or the proxy with a number.\<close>

datatype binder_ref = NullRef | LocalRef u64 | ProxyRef nat

text \<open>\<^verbatim>\<open>Parcel::readStrongBinder\<close>: \<open>B\<close> and \<open>weak_ok\<close> as for \<open>getStrongProxyForHandle\<close>.\<close>

definition readStrongBinder :: "build \<Rightarrow> (nat \<Rightarrow> bool) \<Rightarrow> aparcel \<Rightarrow> binder_ref aproc" where
  "readStrongBinder B weak_ok parcel =
     bindS (on_ap_client (on_parcel unflatten_binder parcel)) (\<lambda>((_, ob), _).
     case ob of
       None \<Rightarrow> retS NullRef
     | Some (FromCookie addr) \<Rightarrow> retS (if addr = 0 then NullRef else LocalRef addr)
     | Some (ProxyFor handle) \<Rightarrow>
         bindS (getStrongProxyForHandle B weak_ok handle) (\<lambda>k.
         retS (case k of None \<Rightarrow> NullRef | Some k \<Rightarrow> ProxyRef k)))"

text \<open>A transaction with the proxy number \<open>k\<close>.\<close>

definition on_proxy :: "nat \<Rightarrow> 'a prox \<Rightarrow> 'a aproc" where
  "on_proxy k m =
     (\<lambda>s. case proxies s k of
            None \<Rightarrow> (Inl MemFault, s)
          | Some b \<Rightarrow> (case m (b, ap_client s) of
              (r, b', c) \<Rightarrow> (r, s\<lparr>ap_client := c, proxies := (proxies s)(k \<mapsto> b')\<rparr>)))"

definition proxy_transact :: "nat \<Rightarrow> (allocator \<Rightarrow> status parc) \<Rightarrow> u32 \<Rightarrow> (status \<times> aparcel) aproc" where
  "proxy_transact remote request code =
     bindS (getS (\<lambda>s. c_alloc (ap_client s))) (\<lambda>a.
     bindS (on_ap_client (on_parcel (request a) Parcel_new)) (\<lambda>(_, data).
     bindS (on_proxy remote (bp_transact code data (Some Parcel_new) 0)) (\<lambda>(err, reply).
     case reply of None \<Rightarrow> throwS MemFault | Some reply \<Rightarrow> retS (err, reply))))"

definition Bp_checkService :: "build \<Rightarrow> (nat \<Rightarrow> bool) \<Rightarrow> nat \<Rightarrow> ipc_thread \<Rightarrow> u16 list \<Rightarrow> binder_ref aproc" where
  "Bp_checkService B weak_ok remote t name =
     bindS (proxy_transact remote (\<lambda>a. check_request a t name) CHECK_SERVICE_TRANSACTION) (\<lambda>(_, reply).
     readStrongBinder B weak_ok reply)"

text \<open>\<open>n\<close> attempts are left, of five.\<close>

primrec get_loop :: "build \<Rightarrow> (nat \<Rightarrow> bool) \<Rightarrow> nat \<Rightarrow> ipc_thread \<Rightarrow> u16 list \<Rightarrow> nat \<Rightarrow> binder_ref aproc" where
  "get_loop B weak_ok remote t name 0 = retS NullRef"
| "get_loop B weak_ok remote t name (Suc n) =
     bindS (Bp_checkService B weak_ok remote t name) (\<lambda>svc.
     if svc \<noteq> NullRef then retS svc else get_loop B weak_ok remote t name n)"

definition Bp_getService :: "build \<Rightarrow> (nat \<Rightarrow> bool) \<Rightarrow> nat \<Rightarrow> ipc_thread \<Rightarrow> u16 list \<Rightarrow> binder_ref aproc" where
  "Bp_getService B weak_ok remote t name = get_loop B weak_ok remote t name 5"

definition Bp_addService :: "nat \<Rightarrow> ipc_thread \<Rightarrow> u16 list \<Rightarrow> ibinder option \<Rightarrow> bool \<Rightarrow> u32 aproc" where
  "Bp_addService remote t name service allowIsolated =
     bindS (proxy_transact remote (\<lambda>a. add_request a t name service allowIsolated) ADD_SERVICE_TRANSACTION) (\<lambda>(err, reply).
     if err = OK then bindS (on_ap_client (on_parcel readExceptionCode reply)) (\<lambda>(code, _). retS code)
     else retS (status_code err))"

text \<open>The loop asks for one entry after the other until a request fails; see \<open>android_list_ends\<close> for \<open>fuel\<close>.\<close>

primrec Bp_list_loop :: "nat \<Rightarrow> ipc_thread \<Rightarrow> nat \<Rightarrow> u32 \<Rightarrow> u16 list list \<Rightarrow> u16 list list aproc" where
  "Bp_list_loop remote t 0 n res = throwS Blocked"
| "Bp_list_loop remote t (Suc fuel) n res =
     bindS (proxy_transact remote (\<lambda>a. list_services_request a t n) LIST_SERVICES_TRANSACTION) (\<lambda>(err, reply).
     if err \<noteq> OK then retS res
     else
       bindS (on_ap_client (on_parcel readString16 reply)) (\<lambda>(name, _).
       Bp_list_loop remote t fuel (n + 1) (res @ [name])))"

definition Bp_listServices :: "nat \<Rightarrow> ipc_thread \<Rightarrow> u16 list list aproc" where
  "Bp_listServices remote t =
     bindS (getS (\<lambda>s. Suc (length (incoming (ap_client s))))) (\<lambda>fuel. Bp_list_loop remote t fuel 0 [])"

section \<open>The stub\<close>

text \<open>What the class of the service manager implements, and what its base class makes of other codes.\<close>

record service_impl =
  impl_getService :: "u16 list \<Rightarrow> ibinder option cl"
  impl_checkService :: "u16 list \<Rightarrow> ibinder option cl"
  impl_addService :: "u16 list \<Rightarrow> unflattened option \<Rightarrow> status cl"
  impl_listServices :: "u16 list list cl"
  impl_onTransact :: "u32 \<Rightarrow> aparcel \<Rightarrow> aparcel \<Rightarrow> (status \<times> aparcel) cl"

text \<open>The result is the status, the reply and the state of the thread, whose strict mode the token sets.\<close>

definition stub_reply :: "ipc_thread \<Rightarrow> (allocator \<Rightarrow> status parc) \<Rightarrow> aparcel \<Rightarrow> (status \<times> aparcel \<times> ipc_thread) cl" where
  "stub_reply t w reply =
     bindS (getS c_alloc) (\<lambda>a.
     bindS (on_parcel (w a) reply) (\<lambda>(_, reply). retS (OK, reply, t)))"

definition Bn_onTransact ::
    "service_impl \<Rightarrow> ipc_thread \<Rightarrow> u32 \<Rightarrow> aparcel \<Rightarrow> aparcel \<Rightarrow> (status \<times> aparcel \<times> ipc_thread) cl" where
  "Bn_onTransact impl t code data reply =
     (if code \<in> {GET_SERVICE_TRANSACTION, CHECK_SERVICE_TRANSACTION, ADD_SERVICE_TRANSACTION, LIST_SERVICES_TRANSACTION} then
        bindS (on_parcel (enforceInterface service_descriptor t) data) (\<lambda>((ok, t), data).
        if \<not> ok then retS (PermissionDenied, reply, t)
        else if code = GET_SERVICE_TRANSACTION then
          bindS (on_parcel readString16 data) (\<lambda>(which, _).
          bindS (impl_getService impl which) (\<lambda>b. stub_reply t (\<lambda>a. writeStrongBinder a b) reply))
        else if code = CHECK_SERVICE_TRANSACTION then
          bindS (on_parcel readString16 data) (\<lambda>(which, _).
          bindS (impl_checkService impl which) (\<lambda>b. stub_reply t (\<lambda>a. writeStrongBinder a b) reply))
        else if code = ADD_SERVICE_TRANSACTION then
          bindS (on_parcel readString16 data) (\<lambda>(which, data).
          bindS (on_parcel unflatten_binder data) (\<lambda>((_, b), _).
          bindS (impl_addService impl which b) (\<lambda>err. stub_reply t (\<lambda>a. writeInt32 a (status_code err)) reply)))
        else
          bindS (impl_listServices impl) (\<lambda>names.
          bindS (on_parcel readInt32 data) (\<lambda>(n, _).
          if unat (scast n :: u64) \<ge> length names then retS (BadValue, reply, t)
          else stub_reply t (\<lambda>a. writeString16 a (Some (names ! unat n))) reply)))
      else bindS (impl_onTransact impl code data reply) (\<lambda>(st, reply). retS (st, reply, t)))"

section \<open>Requests\<close>

text \<open>The bytes of a request of the Android proxy: token, name, and what follows.\<close>

lemma descriptor_text: "service_descriptor = text16 interface_text"
proof -
  have one: "utf16_encode (of_char c) = [of_nat (of_char c)]" for c
    using less_trans [OF nat_of_char_less_256 [of c], of 65536] by (simp add: utf16_encode_def)
  have "concat (map utf16_encode (map of_char cs)) = map (\<lambda>c. of_nat (of_char c)) cs" for cs
    by (induction cs) (simp_all add: one)
  then show ?thesis unfolding service_descriptor_def interface_text_def by (rule sym)
qed

lemma string16_data_bytes:
  "string16_data s = string16_bytes s @ (if s = [] then [0, 0, 0, 0] else [])"
proof -
  have "u16_bytes [0] = [0, 0]" using u16_bytes_end [of "[]"] by (simp add: u16_bytes_def)
  moreover have "padded_bytes True [0, 0] = [0, 0, 0, 0]" by code_simp
  ultimately show ?thesis by (simp add: string16_data_def string16_bytes_def)
qed

text \<open>A thread that has no policy of its own writes the token that binderd's own proxy writes.\<close>

definition service_items :: "u16 list \<Rightarrow> item list" where
  "service_items name = [Int32_item STRICT_MODE_PENALTY_GATHER, String16_item service_descriptor, String16_item name]"

lemma service_items_bytes:
  assumes "short_text cs"
  shows "items_bytes (service_items (text16 cs)) = request_bytes cs []"
proof -
  have "text16 cs \<noteq> []" "text16 interface_text \<noteq> []"
    using short_text_conv(3) [OF assms] short_text_conv(3) [OF interface_text(1)] by simp_all
  then show ?thesis
    by (simp add: service_items_def items_bytes_def request_bytes_def token_bytes_def string16_data_bytes descriptor_text
        STRICT_MODE_PENALTY_GATHER_def kStrictModePenaltyGather_def)
qed

text \<open>The calls of a request, one after the other, write its items.\<close>

lemma writes_items:
  assumes "total_alloc a" and "length (items_bytes (service_items name @ is)) + 4 \<le> grow_limit" and "mStrictModePolicy t = 0"
  obtains p where "bindS (writeInterfaceToken a t service_descriptor) (\<lambda>_. bindS (writeString16 a (Some name)) k) Parcel_new = k OK p"
    and "has_data p (items_bytes (service_items name))" and "holds_objects p []"
proof -
  have tok: "mStrictModePolicy t OR STRICT_MODE_PENALTY_GATHER = STRICT_MODE_PENALTY_GATHER" using assms(3) by simp
  have "length (items_bytes (service_items name)) + 4 \<le> grow_limit"
    using assms(2) by (simp add: items_bytes_def)
  then obtain p where p: "write_items a (service_items name) Parcel_new = (Inr OK, p)"
    "has_data p ([] @ items_bytes (service_items name))" "holds_objects p ([] @ noted_offsets (length ([] :: byte list)) (service_items name))"
    using write_items_holds [OF assms(1) has_data_new holds_objects_new, of "service_items name"] by auto
  have none: "noted_offsets 0 (service_items name) = []" by (simp add: service_items_def noted_def)
  have "bindS (writeInterfaceToken a t service_descriptor) (\<lambda>_. bindS (writeString16 a (Some name)) k) Parcel_new = k OK p"
    using p(1) unfolding service_items_def writeInterfaceToken_def tok
    by (auto simp: bindS_def retS_def split: prod.splits sum.splits if_splits)
  then show thesis using that p(2,3) none by simp
qed

section \<open>The service manager of binderd\<close>

lemma codes_agree:
  "CHECK_SERVICE_TRANSACTION = CheckServiceTransaction" "ADD_SERVICE_TRANSACTION = AddServiceTransaction"
  "GET_SERVICE_TRANSACTION = GetServiceTransaction" "LIST_SERVICES_TRANSACTION = ListServicesTransaction"
  by (simp_all add: CHECK_SERVICE_TRANSACTION_def ADD_SERVICE_TRANSACTION_def GET_SERVICE_TRANSACTION_def
      LIST_SERVICES_TRANSACTION_def sm_codes)

lemma short_request:
  assumes "short_text cs" and "length (items_bytes is) \<le> 1000"
  shows "length (items_bytes (service_items (text16 cs) @ is)) + 4 \<le> grow_limit"
proof -
  have "length (text16 cs) < 256" "length (text16 interface_text) < 256"
    using assms interface_text(1) by (simp_all add: short_text_def)
  moreover have "padded_len n \<le> n + 3" for n by (simp add: padded_len_def)
  from this [of "2 * length (text16 cs) + 2"] this [of "2 * length (text16 interface_text) + 2"]
  show ?thesis using calculation assms(2)
    by (simp add: service_items_def items_bytes_def string16_data_def descriptor_text grow_limit_def)
qed

lemma check_request_holds:
  assumes "total_alloc a" and "mStrictModePolicy t = 0" and "short_text cs"
  obtains p where "check_request a t (text16 cs) Parcel_new = (Inr OK, p)" and "has_data p (request_bytes cs [])"
    and "holds_objects p []"
proof -
  obtain p where p: "bindS (writeInterfaceToken a t service_descriptor) (\<lambda>_. bindS (writeString16 a (Some (text16 cs))) retS)
      Parcel_new = retS OK p" "has_data p (items_bytes (service_items (text16 cs)))" "holds_objects p []"
    by (rule writes_items [OF assms(1) short_request [OF assms(3), of "[]"] assms(2)]) (simp add: items_bytes_def)
  have "bindS m retS = m" for m :: "status parc" by (simp add: fun_eq_iff bindS_def retS_def split: prod.split sum.split)
  then show thesis using that p service_items_bytes [OF assms(3)] by (simp add: check_request_def retS_def)
qed

text \<open>A reply of the service manager with one reference, as the Android libraries see it.\<close>

lemma InitParcel_reference:
  assumes w: "holds w (flat_bytes f) (le_bytes 8 (0 :: u64))" and f: "fo_type f \<noteq> BINDER_TYPE_FD"
  obtains q where "InitParcelFromTransactionData (Parcel_Finalize w) Parcel_new = (Inr (), q)" and "unread q [] (flat_bytes f)"
    and "objects_ok q" and "object_places q = [0]"
proof -
  have td: "GetObjectOffsets_bytes (Parcel_Finalize w) = Inr (le_bytes 8 (0 :: u64))" "td_readable (Parcel_Finalize w)"
    "td_block (Parcel_Finalize w) = flat_bytes f" "td_base (Parcel_Finalize w) = 0" "td_size (Parcel_Finalize w) = 24"
    "td_count (Parcel_Finalize w) = 1"
    using w by (auto simp: Parcel_Finalize_def WritableTransactionData_def holds_def GetObjectOffsets_bytes_def mem_read_def
        buffer_GetSize_def flat_bytes_def le_bytes_def)
  have os: "offsets_of_bytes (le_bytes 8 (0 :: u64)) = [0]" by (simp add: le_bytes_def numeral_eq_Suc)
  let ?q = "Parcel_new\<lparr>mData := Some (flat_bytes f), mDataSize := 24, mDataCapacity := 24, mObjects := Some [0],
    mObjectsSize := 1, mObjectsCapacity := 1, mOwner := True\<rparr>"
  have fl: "flat_at 0 (flat_bytes f) = Inr f" using flat_at_bytes [of "[]" f "[]"] by simp
  have "InitParcelFromTransactionData (Parcel_Finalize w) Parcel_new = (Inr (), ?q\<lparr>mHasFds := False, mFdsKnown := True\<rparr>)"
    using td os fl f
    by (simp add: InitParcelFromTransactionData_def ipcSetDataReference_def freeDataNoInit_def releaseObjects_def array_part_def
        scanForFds_def flat_at_index_def entry_at_def the_data_def Parcel_new_def bindS_def seqS_def getS_def modS_def liftS_def retS_def)
  moreover have "unread (?q\<lparr>mHasFds := False, mFdsKnown := True\<rparr>) [] (flat_bytes f)"
    by (simp add: unread_def Parcel_new_def PARCEL_INT32_MAX_def)
  ultimately show thesis using that by (simp add: objects_ok_def object_places_def)
qed

text \<open>C9: an application of the Android libraries finds its services in binderd's directory: the request that its proxy for
  the service manager writes is, byte for byte, the request of binderd's own proxy; the directory
  answers it with the object that is registered under the name, and the application reads
  from the answer a reference to the handle of that object. A name that is not registered
  is answered with an error, without a reply.\<close>

theorem android_finds_services:
  assumes "total_alloc a" and "mStrictModePolicy t = 0" and "short_text cs"
    and "total_alloc (c_alloc c)" and "total_alloc (c_alloc (sm_client s))"
  shows "\<exists>data td w. check_request a t (text16 cs) Parcel_new = (Inr OK, data) \<and>
    named_request a CheckServiceTransaction (text8 cs) = Inr w \<and>
    GetData_bytes (Parcel_Finalize w) = parcel_bytes data \<and>
    TransactionDataFromParcel True CHECK_SERVICE_TRANSACTION data False c = (Inr td, c) \<and>
    (case um_find (text8 cs) (services s) of
       None \<Rightarrow> Service_OnTransact True td s = (Inr (BadValue, None), s)
     | Some ob \<Rightarrow> (\<forall>ro. c_objects (sm_client s) ob = Some (RemoteObject ro) \<longrightarrow>
         (\<exists>reply q q'. Service_OnTransact True td s = (Inr (OK, Some reply), s) \<and>
            InitParcelFromTransactionData reply Parcel_new = (Inr (), q) \<and>
            unflatten_binder q = (Inr (OK, Some (ProxyFor (ucast (ro_handle ro)))), q'))))"
proof -
  obtain p where p: "check_request a t (text16 cs) Parcel_new = (Inr OK, p)" "has_data p (request_bytes cs [])" "holds_objects p []"
    by (rule check_request_holds [OF assms(1-3)])
  obtain w where w: "named_request a CheckServiceTransaction (text8 cs) = Inr w" "holds w (request_bytes cs []) []"
    by (rule named_request_holds [OF assms(1,3)])
  have ne: "request_bytes cs [] \<noteq> []" by (auto simp: request_bytes_def token_bytes_def le_bytes_def)
  have car: "carries p (request_bytes cs [])" by (rule carries_written [OF p(2,3)])
  then have bytes: "parcel_bytes p = Inr (request_bytes cs [])"
    using ne by (auto simp: parcel_bytes_def carries_def mem_read_def)
  obtain td where td: "plain_data td (request_bytes cs [])" "td_code td = CHECK_SERVICE_TRANSACTION" "td_writable td"
    "TransactionDataFromParcel True CHECK_SERVICE_TRANSACTION p False c = (Inr td, c)"
    using TransactionDataFromParcel_plain [OF car, of CHECK_SERVICE_TRANSACTION False True] assms(4) ne by blast
  have data: "GetData_bytes td = Inr (request_bytes cs [])" using td(1) by (simp add: plain_data_def)
  have code: "Service_OnTransact True td s = OnGetService True td s"
    using td(2) by (simp add: Service_OnTransact_def codes_agree sm_codes)
  have "case um_find (text8 cs) (services s) of
       None \<Rightarrow> Service_OnTransact True td s = (Inr (BadValue, None), s)
     | Some ob \<Rightarrow> (\<forall>ro. c_objects (sm_client s) ob = Some (RemoteObject ro) \<longrightarrow>
         (\<exists>reply q q'. Service_OnTransact True td s = (Inr (OK, Some reply), s) \<and>
            InitParcelFromTransactionData reply Parcel_new = (Inr (), q) \<and>
            unflatten_binder q = (Inr (OK, Some (ProxyFor (ucast (ro_handle ro)))), q')))"
  proof (cases "um_find (text8 cs) (services s)")
    case None
    then show ?thesis using OnGetService_unknown [OF assms(5,3) td(3) data None] code by simp
  next
    case (Some ob)
    have "\<exists>reply q q'. Service_OnTransact True td s = (Inr (OK, Some reply), s) \<and>
        InitParcelFromTransactionData reply Parcel_new = (Inr (), q) \<and>
        unflatten_binder q = (Inr (OK, Some (ProxyFor (ucast (ro_handle ro)))), q')"
      if ro: "c_objects (sm_client s) ob = Some (RemoteObject ro)" for ro
    proof -
      let ?f = "\<lparr>fo_type = BINDER_TYPE_HANDLE, fo_flags = 0x17f, fo_ptr = ucast (ucast (ro_handle ro) :: u32), fo_cookie = 0\<rparr>"
      have fb: "flat_object BINDER_TYPE_HANDLE 0x17f (ucast (ucast (ro_handle ro) :: u32)) 0 = flat_bytes ?f"
        by (simp add: flat_object_def flat_bytes_def)
      obtain w' where w': "OnGetService True td s = (Inr (OK, Some (Parcel_Finalize w')), s)" "holds w' (flat_bytes ?f) (le_bytes 8 (0 :: u64))"
        using OnGetService_writes [OF assms(5,3) td(3) data Some ro] unfolding fb by blast
      obtain q where q: "InitParcelFromTransactionData (Parcel_Finalize w') Parcel_new = (Inr (), q)" "unread q [] (flat_bytes ?f)"
        "objects_ok q" "object_places q = [0]"
        using InitParcel_reference [OF w'(2)] by auto
      have "\<exists>p' h. unflatten_binder q = (Inr (OK, Some (if fo_type ?f = BINDER_TYPE_BINDER then FromCookie (fo_cookie ?f)
          else ProxyFor (fo_handle ?f))), p') \<and> unread p' ([] @ flat_bytes ?f) [] \<and> p' = q\<lparr>mDataPos := mDataPos p', mNextObjectHint := h\<rparr>"
        by (rule unflatten_unread) (use q in simp_all)
      moreover have "fo_handle ?f = ucast (ro_handle ro)" by (simp add: fo_handle_def ucast_up_ucast_id is_up.rep_eq)
      ultimately have "\<exists>p'. unflatten_binder q = (Inr (OK, Some (ProxyFor (ucast (ro_handle ro)))), p')" by auto
      then show ?thesis using code w'(1) q(1) by auto
    qed
    then show ?thesis using Some by simp
  qed
  then show ?thesis using p(1) w bytes td(4) Finalize_holds(3) [OF w(2)] by (intro exI [of _ p] exI [of _ td] exI [of _ w]) simp
qed

text \<open>A directory with one service.\<close>

definition one_service :: service_manager where
  "one_service =
     (ServiceManagerService ((ClientImpl plain_alloc)\<lparr>c_objects := [0x1000 \<mapsto> RemoteObject \<lparr>ro_handle = 7, ro_has_release = True,
        obituaries_sent = False, obituaries = []\<rparr>]\<rparr>) 1)\<lparr>services := [([0x46, 0x6f, 0x6f], 0x1000)]\<rparr>"

lemma short_Foo: "short_text [0x46, 0x6f, 0x6f]" "text8 [0x46, 0x6f, 0x6f] = [0x46, 0x6f, 0x6f]" "text16 [0x46, 0x6f, 0x6f] = [0x46, 0x6f, 0x6f]"
  by (simp_all add: short_text_def scalar_def utf16_encode_def utf8_encode_def)

theorem android_finds_services_witness:
  "\<exists>data td reply q q'. check_request plain_alloc (IPCThreadState 1 2 OK) [0x46, 0x6f, 0x6f] Parcel_new = (Inr OK, data) \<and>
     TransactionDataFromParcel True CHECK_SERVICE_TRANSACTION data False (ClientImpl plain_alloc) = (Inr td, ClientImpl plain_alloc) \<and>
     Service_OnTransact True td one_service = (Inr (OK, Some reply), one_service) \<and>
     InitParcelFromTransactionData reply Parcel_new = (Inr (), q) \<and>
     unflatten_binder q = (Inr (OK, Some (ProxyFor 7)), q')"
proof -
  let ?ro = "\<lparr>ro_handle = 7, ro_has_release = True, obituaries_sent = False, obituaries = []\<rparr>"
  have c: "c_alloc (ClientImpl plain_alloc) = plain_alloc" "c_alloc (sm_client one_service) = plain_alloc"
    "c_objects (sm_client one_service) 0x1000 = Some (RemoteObject ?ro)"
    "um_find [0x46, 0x6f, 0x6f] (services one_service) = Some 0x1000"
    by (simp_all add: ClientImpl_def one_service_def ServiceManagerService_def um_find_def)
  have p: "mStrictModePolicy (IPCThreadState 1 2 OK) = 0" by (simp add: IPCThreadState_def clearCaller_def)
  have a: "total_alloc (c_alloc (ClientImpl plain_alloc))" "total_alloc (c_alloc (sm_client one_service))"
    using total_plain_alloc c by simp_all
  have h: "ucast (ro_handle ?ro) = (7 :: u32)" by simp
  show ?thesis
    using android_finds_services [OF total_plain_alloc p short_Foo(1) a, unfolded short_Foo(2,3) c(4) option.case] c(3) h by metis
qed

section \<open>Registering\<close>

lemma plain_finalized:
  assumes "holds w d []"
  shows "plain_data (Parcel_Finalize w) d"
  using assms Finalize_holds [OF assms]
  by (auto simp: plain_data_def GetObjectOffsets_bytes_def mem_read_def Parcel_Finalize_def WritableTransactionData_def holds_def)

lemma reply_says_ok:
  assumes "holds w (le_bytes 4 (status_code OK)) []"
  obtains q q' where "InitParcelFromTransactionData (Parcel_Finalize w) Parcel_new = (Inr (), q)"
    and "readExceptionCode q = (Inr EX_NONE, q')"
proof -
  have ne: "le_bytes 4 (status_code OK) \<noteq> []" by (simp add: le_bytes_def)
  obtain q where q: "InitParcelFromTransactionData (Parcel_Finalize w) Parcel_new = (Inr (), q)"
      "unread q [] (le_bytes 4 (status_code OK))"
    using InitParcel_plain [OF plain_finalized [OF assms], of Parcel_new] new_parcel_empty ne by (auto simp: PARCEL_INT32_MAX_def)
  have "unread q [] (status_bytes Status_ok [] @ [])"
    using q(2) by (simp add: status_bytes_def Status_ok_def Status_new_def EX_NONE_def)
  from readFromParcel_unread [OF this, of Status_ok] obtain q' where
    "readFromParcel Status_ok q = (Inr (OK, Status_ok\<lparr>mException := EX_NONE\<rparr>), q')"
    by (auto simp: Status_ok_def Status_new_def exception_codes)
  then show thesis using that q(1) by (simp add: readExceptionCode_def bindS_def retS_def)
qed

text \<open>The parcel of a registration: the request of a name, then the object and the number, and the place of the object.\<close>

lemma add_request_holds:
  assumes "total_alloc a" and "mStrictModePolicy t = 0" and cs: "short_text cs" and "fo_ptr (flat_of_binder service) \<noteq> 0"
  obtains p where "add_request a t (text16 cs) service allow Parcel_new = (Inr OK, p)"
    and "has_data p (request_bytes cs (flat_bytes (flat_of_binder service) @ le_bytes 4 (if allow then 1 else 0 :: u32)))" and "holds_objects p [of_nat (length (request_bytes cs []))]"
proof -
  define v :: u32 where "v = (if allow then 1 else 0)"
  let ?is = "[Binder_item service, Int32_item v]" and ?r = "request_bytes cs []"
  have split: "request_bytes cs xs = ?r @ xs" for xs by (simp add: request_bytes_def)
  have "length (items_bytes ?is) \<le> 1000" by (simp add: items_bytes_def)
  from short_request [OF cs this]
  have len: "length (items_bytes (service_items (text16 cs) @ ?is)) + 4 \<le> grow_limit" "length ?r + length (items_bytes ?is) + 4 \<le> grow_limit"
    using service_items_bytes [OF cs] by (simp_all add: items_bytes_def)
  obtain p0 where p0: "bindS (writeInterfaceToken a t service_descriptor) (\<lambda>_. bindS (writeString16 a (Some (text16 cs)))
      (\<lambda>_. write_items a ?is)) Parcel_new = write_items a ?is p0" "has_data p0 ?r" "holds_objects p0 []"
    using writes_items [OF assms(1) len(1) assms(2), of "\<lambda>_. write_items a ?is"] service_items_bytes [OF cs] by metis
  obtain p where p: "write_items a ?is p0 = (Inr OK, p)" "has_data p (?r @ items_bytes ?is)"
    "holds_objects p ([] @ noted_offsets (length ?r) ?is)"
    using write_items_holds [OF assms(1) p0(2,3) _ len(2)] by auto
  have "add_request a t (text16 cs) service allow Parcel_new = (Inr OK, p)"
    using p0(1) p(1) unfolding add_request_def v_def
    by (auto simp: bindS_def retS_def split: prod.splits sum.splits if_splits)
  moreover have "items_bytes ?is = flat_bytes (flat_of_binder service) @ le_bytes 4 v" by (simp add: items_bytes_def)
  moreover have "noted_offsets (length ?r) ?is = [of_nat (length ?r)]" using assms(4) by (simp add: noted_def)
  ultimately show thesis using that p(2,3) split [of "flat_bytes (flat_of_binder service) @ le_bytes 4 v"] v_def by simp
qed

lemma written_bytes: "has_data p d \<Longrightarrow> parcel_bytes p = Inr d"
  by (cases "d = []") (auto simp: parcel_bytes_def has_data_def ipcDataSize_def mem_read_def split: option.splits)

section \<open>The loop of the proxy ends\<close>

lemma on_parcel_frames: "keepsS (with_frames n) (on_parcel m p)" and run_parcel_frames: "keepsS (with_frames n) (run_parcel m' p)"
  by (auto simp: on_parcel_def run_parcel_def validS_def split: prod.splits sum.splits)

lemma TransactionDataFromParcel_frames: "keepsS (with_frames n) (TransactionDataFromParcel b code p one_way)"
proof -
  have new: "keepsS (with_frames n) (new_object ob)" for ob
    by (auto simp: new_object_def validS_def bindS_def getS_def modS_def seqS_def retS_def with_frames_def calls_ok_def)
  have pool: "keepsS (with_frames n) (on_pool m)" for m
    by (auto simp: on_pool_def validS_def with_frames_def calls_ok_def split: prod.splits sum.splits)
  have "keepsS (with_frames n) (wrap_loop objects k i data)" for objects k i data
    unfolding wrap_object_def
    by (induction k arbitrary: i data) (auto simp: wrap_object_def intro!: keepsS_intros new pool)
  then show ?thesis
    unfolding TransactionDataFromParcel_def Let_def by (auto intro!: keepsS_intros)
qed

text \<open>A transaction that succeeds has used up an answer of the server.\<close>

lemma ipc_transact_frames:
  assumes "calls_ok c" and "ipc_transact handle code data (Some reply) flags c = (Inr (OK, r), c')"
  shows "calls_ok c' \<and> length (incoming c') < length (incoming c)"
proof -
  have "validS (with_frames n) (ipc_transact handle code data (Some reply) flags)
      (\<lambda>(st, _) c. st = OK \<longrightarrow> calls_ok c \<and> length (incoming c) < n) (\<lambda>_. True)" for n
  proof (cases "errorCheck data = OK")
    case True
    let ?R = "\<lambda>(st, _ :: transaction_data option) c. calls_ok c \<and> (st = OK \<longrightarrow> length (incoming c) < n)"
    have td: "validS (with_frames n) (TransactionDataFromParcel b code p w) (\<lambda>_. with_frames n) (\<lambda>_. True)" for b code p w
      using TransactionDataFromParcel_frames by (rule validS_conseq) simp_all
    have rp: "validS P (run_parcel m p) (\<lambda>_. P) (\<lambda>_. True)" for P m p
      by (auto simp: run_parcel_def validS_def split: prod.splits sum.splits)
    have ret: "(\<And>c. P c \<Longrightarrow> Q x c) \<Longrightarrow> validS P (retS x) Q (\<lambda>_. True)" for P Q and x :: "status \<times> aparcel option"
      by (simp add: validS_def retS_def)
    show ?thesis unfolding ipc_transact_def using True
      by (auto intro!: ret validS_bind [OF td] validS_bind [OF Transact_frames] validS_bind [OF rp] split: option.split prod.split)
  next
    case False
    then show ?thesis
      by (auto simp: ipc_transact_def validS_def run_parcel_def bindS_def retS_def split: prod.splits sum.splits)
  qed
  from validS_value [OF this [of "length (incoming c)"], of c] assms show ?thesis by (simp add: with_frames_def)
qed

lemma proxy_transact_frames:
  assumes "calls_ok (ap_client s)" and "proxy_transact remote request code s = (Inr (OK, r), s')"
  shows "calls_ok (ap_client s')" and "length (incoming (ap_client s')) < length (incoming (ap_client s))"
proof -
  obtain st data where data: "request (c_alloc (ap_client s)) Parcel_new = (Inr st, data)"
    using assms(2) by (auto simp: proxy_transact_def bindS_def getS_def on_ap_client_def on_parcel_def split: prod.splits sum.splits)
  obtain b b' r' where b: "proxies s remote = Some b" and
      run: "bp_transact code data (Some Parcel_new) 0 (b, ap_client s) = (Inr (OK, r'), b', ap_client s')"
    using assms(2) data
    by (auto simp: proxy_transact_def bindS_def getS_def on_ap_client_def on_parcel_def on_proxy_def retS_def throwS_def Let_def
        split: prod.splits sum.splits option.splits)
  obtain c1 where "ipc_transact (mHandle b) code data (Some Parcel_new) 0 (ap_client s) = (Inr (OK, r'), c1)" "c1 = ap_client s'"
    using run by (auto simp: bp_transact_def bindS_def seqS_def getS_def lift_cl_def retS_def set_bp_def modS_def split: if_splits prod.splits sum.splits)
  then show "calls_ok (ap_client s')" and "length (incoming (ap_client s')) < length (incoming (ap_client s))"
    using ipc_transact_frames [OF assms(1)] by auto
qed

lemma Bp_list_loop_more:
  "calls_ok (ap_client s) \<Longrightarrow> length (incoming (ap_client s)) < fuel \<Longrightarrow>
   Bp_list_loop remote t (Suc fuel) n res s = Bp_list_loop remote t fuel n res s"
proof (induction fuel arbitrary: n res s)
  case (Suc fuel)
  let ?m = "proxy_transact remote (\<lambda>a. list_services_request a t n) LIST_SERVICES_TRANSACTION"
  obtain r s1 where r: "?m s = (r, s1)" by (cases "?m s")
  show ?case
  proof (cases "\<exists>reply. r = Inr (OK, reply)")
    case True
    then obtain reply where o: "r = Inr (OK, reply)" by auto
    note used = proxy_transact_frames [OF Suc.prems(1) r [unfolded o]]
    have "Bp_list_loop remote t (Suc fuel) n' res' (s1\<lparr>ap_client := ap_client s1\<rparr>) = Bp_list_loop remote t fuel n' res' (s1\<lparr>ap_client := ap_client s1\<rparr>)" for n' res'
      using used Suc.prems(2) by (intro Suc.IH) simp_all
    then show ?thesis using r o
      by (subst (1 2) Bp_list_loop.simps) (auto simp: bindS_def on_ap_client_def on_parcel_def simp del: Bp_list_loop.simps split: prod.split sum.split)
  next
    case False
    then show ?thesis using r by (cases r) (auto simp: bindS_def)
  qed
qed simp

text \<open>the loop of the Android proxy's \<^verbatim>\<open>listServices\<close> ends: it goes on only after an answer of the server, and every
  answer is used up by one pass; so the bound that the model takes is never what stops the
  loop, and with any larger bound the result is the same.\<close>

theorem android_list_ends:
  assumes "calls_ok (ap_client s)"
  shows "Bp_list_loop remote t (Suc (length (incoming (ap_client s))) + k) 0 [] s = Bp_listServices remote t s"
proof (induction k)
  case 0
  show ?case by (simp add: Bp_listServices_def bindS_def getS_def)
next
  case (Suc k)
  have "Bp_list_loop remote t (Suc (Suc (length (incoming (ap_client s))) + k)) 0 [] s =
      Bp_list_loop remote t (Suc (length (incoming (ap_client s))) + k) 0 [] s"
    using assms by (intro Bp_list_loop_more) simp_all
  then show ?case using Suc by simp
qed

definition connected_process :: aprocess where
  "connected_process = (ProcessState (ClientImpl plain_alloc))
     \<lparr>proxies := [0 \<mapsto> BpBinder 0]\<rparr>"

theorem android_list_ends_witness:
  "Bp_list_loop 0 (IPCThreadState 1 2 OK) 8 0 [] connected_process = Bp_listServices 0 (IPCThreadState 1 2 OK) connected_process"
proof -
  have "calls_ok (ap_client connected_process)" "length (incoming (ap_client connected_process)) = 0"
    using calls_ok_new by (simp_all add: connected_process_def ProcessState_def ClientImpl_def)
  then show ?thesis using android_list_ends [where k = 7 and remote = 0 and t = "IPCThreadState 1 2 OK" and s = connected_process] by simp
qed

end
