(* ===== verification/Ref_Base.thy ===== *)
theory Ref_Base
  imports Binder_Prelude "HOL-Library.Multiset"
begin

text \<open>
  \<^verbatim>\<open>src/external/android/utils/RefBase.cpp\<close>: the strong and weak counts that keep the objects and proxies
  of the Android libraries alive. Each access to an atomic variable is one step, so the steps of
  several threads are interleaved in every order.

  Who may call what is part of the model: a token is a reference that somebody holds, or an
  operation that somebody is in the middle of. A reference is copied from one that is held during
  the call; the pointer that \<^verbatim>\<open>new\<close> returns is the token \<open>Creator\<close>. Accesses to the object or to the
  counts after they were freed are faults.
\<close>

section \<open>Memory and tokens\<close>

text \<open>\<^verbatim>\<open>RefBase::weakref_impl\<close> and whether it and the object still exist. The counts are integers: with
  fewer than \<open>max_tokens\<close> tokens they stay within 32 bits. \<open>calls\<close> lists the virtual functions
  that were called.\<close>

datatype callback = OnFirstRef | OnLastStrongRef | OnLastWeakRef

record ref_mem =
  mStrong :: int
  mWeak :: int
  obj_exists :: bool
  impl_exists :: bool
  calls :: "callback list"

definition INITIAL_STRONG_VALUE :: int where "INITIAL_STRONG_VALUE = 268435456"

definition max_tokens :: nat where "max_tokens = 67108864"

definition new_RefBase :: ref_mem where
  "new_RefBase = \<lparr>mStrong = INITIAL_STRONG_VALUE, mWeak = 0, obj_exists = True, impl_exists = True, calls = []\<rparr>"

text \<open>What a new strong reference is made from: the pointer of \<^verbatim>\<open>new\<close>, a strong reference, or (with
  \<^verbatim>\<open>forceIncStrong\<close>) a weak one.\<close>

datatype origin = FromCreator | FromStrong | FromWeak

text \<open>Held references, and the places inside \<^verbatim>\<open>incStrong\<close> and \<^verbatim>\<open>forceIncStrong\<close> (\<open>Inc\<close>), \<^verbatim>\<open>decStrong\<close> (\<open>DecS\<close>),
  \<^verbatim>\<open>decWeak\<close> (\<open>DecW\<close>), \<^verbatim>\<open>attemptIncStrong\<close> (\<open>Try\<close>, with \<^verbatim>\<open>curCount\<close>) and the destructor (\<open>Del\<close>).\<close>

datatype token =
    Creator | Strong | Weak
  | IncBegin origin | IncAdd origin | IncFix origin | IncFirst origin
  | DecSLast | DecSDelete
  | DecW | DecWLast | DelBase | DelImpl
  | TryBegin | TryLoad | TryCas int | TrySlow int | TryInitial int | TryAdd | TryUnneeded | TryFix

text \<open>What a client may do next with a reference it holds.\<close>

datatype client_op = CopyStrong | CopyWeak | Release | Promote | ForceStrong | Destroy

section \<open>Steps\<close>

definition use_obj :: "ref_mem \<Rightarrow> ref_mem res" where
  "use_obj m = (if obj_exists m then Inr m else Inl MemFault)"

definition use_impl :: "ref_mem \<Rightarrow> ref_mem res" where
  "use_impl m = (if impl_exists m then Inr m else Inl MemFault)"

definition call_obj :: "callback \<Rightarrow> ref_mem \<Rightarrow> ref_mem res" where
  "call_obj f m = bindR (use_impl m) (\<lambda>m. bindR (use_obj m) (\<lambda>m. Inr (m\<lparr>calls := calls m @ [f]\<rparr>)))"

definition add_weak :: "int \<Rightarrow> ref_mem \<Rightarrow> ref_mem res" where
  "add_weak k m = bindR (use_impl m) (\<lambda>m. Inr (m\<lparr>mWeak := mWeak m + k\<rparr>))"

definition add_strong :: "int \<Rightarrow> ref_mem \<Rightarrow> ref_mem res" where
  "add_strong k m = bindR (use_impl m) (\<lambda>m. Inr (m\<lparr>mStrong := mStrong m + k\<rparr>))"

definition delete_impl :: "ref_mem \<Rightarrow> ref_mem res" where
  "delete_impl m = bindR (use_impl m) (\<lambda>m. Inr (m\<lparr>impl_exists := False\<rparr>))"

text \<open>\<^verbatim>\<open>RefBase::~RefBase\<close>; \<open>weak_life\<close> is the flag \<^verbatim>\<open>OBJECT_LIFETIME_WEAK\<close>.\<close>

definition delete_obj :: "bool \<Rightarrow> ref_mem \<Rightarrow> ref_mem res" where
  "delete_obj weak_life m =
     bindR (use_obj m) (\<lambda>m.
     bindR (use_impl m) (\<lambda>m.
     bindR (if mStrong m = INITIAL_STRONG_VALUE then delete_impl m
            else if weak_life \<and> mWeak m = 0 then delete_impl m
            else Inr m) (\<lambda>m.
     Inr (m\<lparr>obj_exists := False\<rparr>))))"

primrec held :: "origin \<Rightarrow> token list" where
  "held FromCreator = []"
| "held FromStrong = [Strong]"
| "held FromWeak = [Weak]"

text \<open>The branch after \<^verbatim>\<open>curCount\<close> was read in \<^verbatim>\<open>attemptIncStrong\<close>.\<close>

definition try_branch :: "int \<Rightarrow> token" where
  "try_branch cur = (if cur > 0 \<and> cur \<noteq> INITIAL_STRONG_VALUE then TryCas cur else TrySlow cur)"

text \<open>The step of one token. \<open>op\<close> is what the holder of a reference does; \<open>ok\<close> says whether
  \<^verbatim>\<open>compare_exchange_weak\<close> succeeds when the value is the expected one, and what
  \<^verbatim>\<open>onIncStrongAttempted\<close> returns.\<close>

fun token_step :: "bool \<Rightarrow> client_op \<Rightarrow> bool \<Rightarrow> token \<Rightarrow> ref_mem \<Rightarrow> (ref_mem \<times> token list) res" where
  "token_step wl op ok Creator m =
     (case op of
        CopyStrong \<Rightarrow> bindR (use_obj m) (\<lambda>m. Inr (m, [IncBegin FromCreator]))
      | CopyWeak \<Rightarrow> bindR (use_obj m) (\<lambda>m. bindR (add_weak 1 m) (\<lambda>m. Inr (m, [Weak])))
      | Destroy \<Rightarrow> Inr (m, [DelBase])
      | _ \<Rightarrow> Inr (m, [Creator]))"
| "token_step wl op ok Strong m =
     (case op of
        CopyStrong \<Rightarrow> bindR (use_obj m) (\<lambda>m. Inr (m, [IncBegin FromStrong]))
      | CopyWeak \<Rightarrow> bindR (use_obj m) (\<lambda>m. bindR (add_weak 1 m) (\<lambda>m. Inr (m, [Weak, Strong])))
      | Release \<Rightarrow>
          bindR (use_obj m) (\<lambda>m. bindR (add_strong (- 1) m) (\<lambda>m'.
          Inr (m', [if mStrong m = 1 then DecSLast else DecW])))
      | _ \<Rightarrow> Inr (m, [Strong]))"
| "token_step wl op ok Weak m =
     (case op of
        CopyWeak \<Rightarrow> bindR (add_weak 1 m) (\<lambda>m. Inr (m, [Weak, Weak]))
      | Release \<Rightarrow> Inr (m, [DecW])
      | Promote \<Rightarrow> Inr (m, [TryBegin])
      | ForceStrong \<Rightarrow> if wl then bindR (use_obj m) (\<lambda>m. Inr (m, [IncBegin FromWeak])) else Inr (m, [Weak])
      | _ \<Rightarrow> Inr (m, [Weak]))"
| "token_step wl op ok (IncBegin src) m = bindR (add_weak 1 m) (\<lambda>m. Inr (m, [IncAdd src]))"
| "token_step wl op ok (IncAdd src) m =
     bindR (add_strong 1 m) (\<lambda>m'.
     Inr (m', if mStrong m = INITIAL_STRONG_VALUE then [IncFix src]
              else if src = FromWeak \<and> mStrong m = 0 then [IncFirst src]
              else Strong # held src))"
| "token_step wl op ok (IncFix src) m = bindR (add_strong (- INITIAL_STRONG_VALUE) m) (\<lambda>m. Inr (m, [IncFirst src]))"
| "token_step wl op ok (IncFirst src) m = bindR (call_obj OnFirstRef m) (\<lambda>m. Inr (m, Strong # held src))"
| "token_step wl op ok DecSLast m =
     bindR (call_obj OnLastStrongRef m) (\<lambda>m. Inr (m, [if wl then DecW else DecSDelete]))"
| "token_step wl op ok DecSDelete m = bindR (delete_obj wl m) (\<lambda>m. Inr (m, [DecW]))"
| "token_step wl op ok DecW m =
     bindR (add_weak (- 1) m) (\<lambda>m'. Inr (m', if mWeak m \<noteq> 1 then [] else [DecWLast]))"
| "token_step wl op ok DecWLast m =
     bindR (use_impl m) (\<lambda>m.
     if wl then bindR (call_obj OnLastWeakRef m) (\<lambda>m. Inr (m, [DelBase]))
     else Inr (m, [if mStrong m = INITIAL_STRONG_VALUE then DelBase else DelImpl]))"
| "token_step wl op ok DelBase m = bindR (delete_obj wl m) (\<lambda>m. Inr (m, []))"
| "token_step wl op ok DelImpl m = bindR (delete_impl m) (\<lambda>m. Inr (m, []))"
| "token_step wl op ok TryBegin m = bindR (add_weak 1 m) (\<lambda>m. Inr (m, [TryLoad]))"
| "token_step wl op ok TryLoad m = bindR (use_impl m) (\<lambda>m. Inr (m, [try_branch (mStrong m)]))"
| "token_step wl op ok (TryCas cur) m =
     bindR (use_impl m) (\<lambda>m.
     if mStrong m = cur \<and> ok then Inr (m\<lparr>mStrong := cur + 1\<rparr>, [Strong, Weak])
     else Inr (m, [try_branch (mStrong m)]))"
| "token_step wl op ok (TrySlow cur) m =
     bindR (use_impl m) (\<lambda>m.
     if \<not> wl then Inr (m, if cur \<le> 0 then [DecW, Weak] else [TryInitial cur])
     else bindR (use_obj m) (\<lambda>m. Inr (m, if \<not> ok then [DecW, Weak] else [TryAdd])))"
| "token_step wl op ok (TryInitial cur) m =
     bindR (use_impl m) (\<lambda>m.
     if mStrong m = cur \<and> ok
     then Inr (m\<lparr>mStrong := cur + 1\<rparr>, if cur = INITIAL_STRONG_VALUE then [TryFix] else [Strong, Weak])
     else Inr (m, if mStrong m > 0 then [TryInitial (mStrong m)] else [DecW, Weak]))"
| "token_step wl op ok TryAdd m =
     bindR (add_strong 1 m) (\<lambda>m'.
     Inr (m', if mStrong m = INITIAL_STRONG_VALUE then [TryFix]
              else if mStrong m \<noteq> 0 then [TryUnneeded] else [Strong, Weak]))"
| "token_step wl op ok TryUnneeded m = bindR (call_obj OnLastStrongRef m) (\<lambda>m. Inr (m, [Strong, Weak]))"
| "token_step wl op ok TryFix m = bindR (add_strong (- INITIAL_STRONG_VALUE) m) (\<lambda>m. Inr (m, [Strong, Weak]))"

text \<open>Any token may take the next step.\<close>

inductive ref_reach :: "bool \<Rightarrow> ref_mem \<Rightarrow> token multiset \<Rightarrow> bool" for wl where
  new: "ref_reach wl new_RefBase {#Creator#}"
| step: "ref_reach wl m (add_mset t T) \<Longrightarrow> size T < max_tokens \<Longrightarrow> token_step wl op ok t m = Inr (m', ts) \<Longrightarrow>
    ref_reach wl m' (mset ts + T)"

section \<open>What the counts mean\<close>

text \<open>The share of a token in the strong and in the weak count, and the tokens that still have to take
  \<^verbatim>\<open>INITIAL_STRONG_VALUE\<close> off the strong count.\<close>

primrec origin_s :: "origin \<Rightarrow> nat" where
  "origin_s FromCreator = 0" | "origin_s FromStrong = 1" | "origin_s FromWeak = 0"

primrec origin_w :: "origin \<Rightarrow> nat" where
  "origin_w FromCreator = 0" | "origin_w FromStrong = 1" | "origin_w FromWeak = 1"

fun share_s :: "token \<Rightarrow> nat" where
  "share_s Strong = 1"
| "share_s (IncBegin src) = origin_s src"
| "share_s (IncAdd src) = origin_s src"
| "share_s (IncFix src) = origin_s src + 1"
| "share_s (IncFirst src) = origin_s src + 1"
| "share_s TryUnneeded = 1"
| "share_s TryFix = 1"
| "share_s _ = 0"

fun share_w :: "token \<Rightarrow> nat" where
  "share_w Creator = 0"
| "share_w Strong = 1"
| "share_w Weak = 1"
| "share_w (IncBegin src) = origin_w src"
| "share_w (IncAdd src) = origin_w src + 1"
| "share_w (IncFix src) = origin_w src + 1"
| "share_w (IncFirst src) = origin_w src + 1"
| "share_w DecSLast = 1"
| "share_w DecSDelete = 1"
| "share_w DecW = 1"
| "share_w DecWLast = 0"
| "share_w DelBase = 0"
| "share_w DelImpl = 0"
| "share_w TryBegin = 1"
| "share_w _ = 2"

fun fixups :: "token \<Rightarrow> nat" where
  "fixups (IncFix _) = 1"
| "fixups TryFix = 1"
| "fixups _ = 0"

text \<open>Tokens that are alone: the creator, and whoever took the last weak reference.\<close>

fun alone :: "token \<Rightarrow> nat" where
  "alone Creator = 1"
| "alone (IncBegin src) = (if src = FromCreator then 1 else 0)"
| "alone (IncAdd src) = (if src = FromCreator then 1 else 0)"
| "alone DecWLast = 1"
| "alone DelBase = 1"
| "alone DelImpl = 1"
| "alone _ = 0"

fun owns :: "token \<Rightarrow> nat" where
  "owns Creator = 1"
| "owns (IncBegin src) = (if src = FromCreator then 1 else 0)"
| "owns (IncAdd src) = (if src = FromCreator then 1 else 0)"
| "owns _ = 0"

text \<open>Tokens in front of the deletion of the object in \<^verbatim>\<open>decStrong\<close>.\<close>

fun lasts :: "token \<Rightarrow> nat" where
  "lasts DecSLast = 1"
| "lasts DecSDelete = 1"
| "lasts _ = 0"

definition total :: "(token \<Rightarrow> nat) \<Rightarrow> token multiset \<Rightarrow> nat" where
  "total f T = (\<Sum>t\<in>#T. f t)"

lemma total_simps [simp]:
  "total f {#} = 0" "total f (add_mset t T) = f t + total f T" "total f (T + U) = total f T + total f U"
  by (simp_all add: total_def)

text \<open>What a single token says about the memory.\<close>

fun token_ok :: "bool \<Rightarrow> ref_mem \<Rightarrow> token \<Rightarrow> bool" where
  "token_ok wl m (TryCas cur) = (cur > 0 \<and> cur \<noteq> INITIAL_STRONG_VALUE)"
| "token_ok wl m (TrySlow cur) = (cur \<le> 0 \<or> cur = INITIAL_STRONG_VALUE)"
| "token_ok wl m (TryInitial cur) = (cur > 0 \<and> \<not> wl)"
| "token_ok wl m TryAdd = wl"
| "token_ok wl m TryUnneeded = wl"
| "token_ok wl m DecSDelete = (\<not> wl)"
| "token_ok wl m DelImpl = (\<not> wl \<and> mStrong m \<noteq> INITIAL_STRONG_VALUE)"
| "token_ok wl m DelBase = (wl \<or> mStrong m = INITIAL_STRONG_VALUE)"
| "token_ok wl m (IncBegin src) = (src = FromWeak \<longrightarrow> wl)"
| "token_ok wl m (IncAdd src) = (src = FromWeak \<longrightarrow> wl)"
| "token_ok wl m (IncFix src) = (src = FromWeak \<longrightarrow> wl)"
| "token_ok wl m (IncFirst src) = (src = FromWeak \<longrightarrow> wl)"
| "token_ok wl m _ = True"

definition counts_ok :: "ref_mem \<Rightarrow> token multiset \<Rightarrow> bool" where
  "counts_ok m T \<longleftrightarrow> mWeak m = int (total share_w T) \<and>
     ((mStrong m = INITIAL_STRONG_VALUE \<and> total share_s T = 0 \<and> total fixups T = 0) \<or>
      (mStrong m = INITIAL_STRONG_VALUE + int (total share_s T) \<and> total fixups T = 1 \<and> total owns T = 0) \<or>
      (mStrong m = int (total share_s T) \<and> total fixups T = 0 \<and> total owns T = 0))"

definition life_ok :: "bool \<Rightarrow> ref_mem \<Rightarrow> token multiset \<Rightarrow> bool" where
  "life_ok wl m T \<longleftrightarrow>
     (impl_exists m \<longleftrightarrow> T \<noteq> {#}) \<and>
     (if wl then (obj_exists m \<longleftrightarrow> T \<noteq> {#})
      else (obj_exists m \<longleftrightarrow> T \<noteq> {#} \<and> (mStrong m > 0 \<or> total lasts T > 0)) \<and>
        total lasts T \<le> 1 \<and> (mStrong m > 0 \<longrightarrow> total lasts T = 0))"

definition ref_inv :: "bool \<Rightarrow> ref_mem \<Rightarrow> token multiset \<Rightarrow> bool" where
  "ref_inv wl m T \<longleftrightarrow> counts_ok m T \<and> life_ok wl m T \<and> (total alone T > 0 \<longrightarrow> size T = 1) \<and>
     (\<forall>t\<in>#T. token_ok wl m t)"

lemma token_share: "share_w t + alone t > 0"
proof (cases t)
  case (IncBegin src)
  then show ?thesis by (cases src) simp_all
qed simp_all

lemma tokens_share: "total share_w T + total alone T = 0 \<Longrightarrow> T = {#}"
proof (cases T)
  case (add t U)
  then show "total share_w T + total alone T = 0 \<Longrightarrow> T = {#}" using token_share [of t] by simp
qed simp

lemma total_owns: "total owns T \<le> total alone T"
proof (induction T)
  case (add t T)
  moreover have "owns t \<le> alone t" by (cases t) simp_all
  ultimately show ?case by simp
qed simp

lemma total_share_s: "total share_s T \<le> 2 * size T"
proof (induction T)
  case (add t T)
  moreover have "share_s t \<le> 2"
  proof (cases t)
    case (IncFix src)
    then show ?thesis by (cases src) simp_all
  next
    case (IncFirst src)
    then show ?thesis by (cases src) simp_all
  next
    case (IncBegin src)
    then show ?thesis by (cases src) simp_all
  next
    case (IncAdd src)
    then show ?thesis by (cases src) simp_all
  qed simp_all
  ultimately show ?case by simp
qed simp

text \<open>The strong count covers what is held, and every strong share comes with a weak one.\<close>

lemma total_share_w: "total share_s T \<le> total share_w T"
proof (induction T)
  case (add t T)
  moreover have "origin_s src \<le> origin_w src" for src by (cases src) simp_all
  then have "share_s t \<le> share_w t" by (cases t) (simp_all add: le_SucI)
  ultimately show ?case by simp
qed simp

lemma total_fixups: "total fixups T \<le> total share_s T"
proof (induction T)
  case (add t T)
  moreover have "fixups t \<le> share_s t" by (cases t) simp_all
  ultimately show ?case by simp
qed simp

lemma token_ok_frame: "alone t = 0 \<Longrightarrow> token_ok wl m t \<longleftrightarrow> token_ok wl m' t"
  by (cases t) simp_all

lemma alone_member: "t \<in># T \<Longrightarrow> alone t > 0 \<Longrightarrow> total alone T > 0"
  by (induction T) auto

text \<open>What the invariant says of the tokens \<open>T\<close> beside the one that takes a step.\<close>

lemma ref_inv_rest:
  assumes "ref_inv wl m (add_mset t T)" and "size T < max_tokens"
  shows "int (total share_s T) + 2 < INITIAL_STRONG_VALUE"
    and "T = {#} \<or> alone t = 0"
    and "total alone T = 0" and "total owns T = 0"
    and "total share_w T = 0 \<longleftrightarrow> T = {#}"
    and "\<forall>t\<in>#T. token_ok wl m' t"
proof -
  show "int (total share_s T) + 2 < INITIAL_STRONG_VALUE"
    using total_share_s [of T] assms(2) by (simp add: max_tokens_def INITIAL_STRONG_VALUE_def)
  have al: "alone t + total alone T > 0 \<Longrightarrow> T = {#}"
    using assms(1) by (auto simp: ref_inv_def)
  then show "T = {#} \<or> alone t = 0" by auto
  show a0: "total alone T = 0" using al by (cases "T = {#}") auto
  then show "total owns T = 0" using total_owns [of T] by simp
  show "total share_w T = 0 \<longleftrightarrow> T = {#}" using tokens_share [of T] a0 by auto
  have "alone u = 0" if "u \<in># T" for u using alone_member [OF that] a0 by auto
  then show "\<forall>t\<in>#T. token_ok wl m' t"
    using assms(1) token_ok_frame [of _ wl m m'] by (auto simp: ref_inv_def)
qed


lemmas step_defs = ref_inv_def counts_ok_def life_ok_def use_obj_def use_impl_def call_obj_def add_weak_def
  add_strong_def delete_impl_def delete_obj_def try_branch_def INITIAL_STRONG_VALUE_def

lemma ref_inv_step:
  assumes inv: "ref_inv wl m (add_mset t T)" and size: "size T < max_tokens"
  shows "\<exists>m' ts. token_step wl op ok t m = Inr (m', ts) \<and> ref_inv wl m' (mset ts + T)"
proof -
  note r = ref_inv_rest [OF inv size] total_fixups [of T]
  show ?thesis
  proof (cases t)
    case Creator
    then show ?thesis using inv r by (cases op) (auto simp: step_defs)
  next
    case Strong
    then show ?thesis using inv r by (cases op) (auto simp: step_defs)
  next
    case Weak
    then show ?thesis using inv r by (cases op) (auto simp: step_defs)
  next
    case (IncBegin src)
    then show ?thesis using inv r by (cases src) (auto simp: step_defs)
  next
    case (IncAdd src)
    then show ?thesis using inv r by (cases src) (auto simp: step_defs)
  next
    case (IncFix src)
    then show ?thesis using inv r by (cases src) (auto simp: step_defs)
  next
    case (IncFirst src)
    then show ?thesis using inv r by (cases src) (auto simp: step_defs)
  next
    case DecSLast
    then show ?thesis using inv r by (auto simp: step_defs)
  next
    case DecSDelete
    then show ?thesis using inv r by (auto simp: step_defs)
  next
    case DecW
    then show ?thesis using inv r by (auto simp: step_defs)
  next
    case DecWLast
    then show ?thesis using inv r by (auto simp: step_defs)
  next
    case DelBase
    then show ?thesis using inv r by (auto simp: step_defs)
  next
    case DelImpl
    then show ?thesis using inv r by (auto simp: step_defs)
  next
    case TryBegin
    then show ?thesis using inv r by (auto simp: step_defs)
  next
    case TryLoad
    then show ?thesis using inv r by (auto simp: step_defs)
  next
    case (TryCas cur)
    then show ?thesis using inv r by (auto simp: step_defs)
  next
    case (TrySlow cur)
    then show ?thesis using inv r by (auto simp: step_defs)
  next
    case (TryInitial cur)
    then show ?thesis using inv r by (auto simp: step_defs)
  next
    case TryAdd
    then show ?thesis using inv r by (auto simp: step_defs)
  next
    case TryUnneeded
    then show ?thesis using inv r by (auto simp: step_defs)
  next
    case TryFix
    then show ?thesis using inv r by (auto simp: step_defs)
  qed
qed

lemma ref_inv_new: "ref_inv wl new_RefBase {#Creator#}"
  by (simp add: step_defs new_RefBase_def)

lemma ref_reach_inv: "ref_reach wl m T \<Longrightarrow> ref_inv wl m T"
proof (induction rule: ref_reach.induct)
  case new
  show ?case by (rule ref_inv_new)
next
  case (step m t T op ok m' ts)
  then show ?case using ref_inv_step [of wl m t T op ok] by auto
qed

lemma ref_inv_progress:
  assumes "ref_inv wl m T" and "size T \<le> max_tokens" and "t \<in># T"
  shows "\<exists>m' ts. token_step wl op ok t m = Inr (m', ts)"
proof -
  obtain U where "T = add_mset t U" using assms(3) by (metis mset_add)
  then show ?thesis using ref_inv_step [of wl m t U op ok] assms(1,2) by auto
qed

lemma held_totals:
  assumes "set_mset T \<subseteq> {Strong, Weak}"
  shows "total share_w T = size T" and "total share_s T = count T Strong" and "total fixups T = 0"
  using assms by (induction T) auto

lemma ref_inv_strong:
  assumes "ref_inv wl m T" and "Strong \<in># T"
  shows "obj_exists m"
proof -
  obtain U where "T = add_mset Strong U" using assms(2) by (metis mset_add)
  then show ?thesis using assms(1) by (auto simp: step_defs split: if_splits)
qed

text \<open>C11: threads that copy, promote and release references to one object in any interleaving: no step
  touches freed memory or frees it twice; the object exists as long as somebody holds a strong
  reference, with the extended lifetime as long as somebody holds any reference; when nobody
  holds one, the object and its counts have been freed; and between the calls, when every token is a
  held reference, the weak count is the number of references and the strong count, once there
  was a strong reference, that of the strong ones.\<close>

theorem references_keep_objects:
  assumes "ref_reach wl m T" and "size T \<le> max_tokens"
  shows "(\<forall>t\<in>#T. \<exists>m' ts. token_step wl op ok t m = Inr (m', ts)) \<and>
    (Strong \<in># T \<longrightarrow> obj_exists m) \<and> (wl \<and> T \<noteq> {#} \<longrightarrow> obj_exists m) \<and>
    (T = {#} \<longrightarrow> \<not> obj_exists m \<and> \<not> impl_exists m) \<and>
    (set_mset T \<subseteq> {Strong, Weak} \<longrightarrow> mWeak m = int (size T) \<and>
      (mStrong m = int (count T Strong) \<or> mStrong m = INITIAL_STRONG_VALUE \<and> Strong \<notin># T))"
proof -
  have inv: "ref_inv wl m T" by (rule ref_reach_inv [OF assms(1)])
  have "mWeak m = int (size T) \<and> (mStrong m = int (count T Strong) \<or> mStrong m = INITIAL_STRONG_VALUE \<and> Strong \<notin># T)"
    if "set_mset T \<subseteq> {Strong, Weak}"
    using inv held_totals [OF that] by (auto simp: ref_inv_def counts_ok_def count_eq_zero_iff)
  moreover have "T = {#} \<longrightarrow> \<not> obj_exists m \<and> \<not> impl_exists m" "wl \<and> T \<noteq> {#} \<longrightarrow> obj_exists m"
    using inv by (auto simp: ref_inv_def life_ok_def split: if_splits)
  ultimately show ?thesis using ref_inv_progress [OF inv assms(2)] ref_inv_strong [OF inv] by blast
qed

text \<open>An object that was shared, promoted and released.\<close>

lemma reach_step:
  assumes "ref_reach wl m T" and "T = add_mset t U" and "size U < max_tokens"
    and "token_step wl op ok t m = Inr (m', ts)" and "T' = mset ts + U"
  shows "ref_reach wl m' T'"
  using assms ref_reach.step by auto

definition shared_mem :: ref_mem where
  "shared_mem = \<lparr>mStrong = 1, mWeak = 2, obj_exists = True, impl_exists = True, calls = [OnFirstRef]\<rparr>"

lemma shared_reached: "ref_reach False shared_mem {#Weak, Strong#}"
proof -
  let ?i = INITIAL_STRONG_VALUE
  have "ref_reach False new_RefBase {#IncBegin FromCreator#}"
    by (rule reach_step [OF ref_reach.new, where t = Creator and U = "{#}" and op = CopyStrong and ok = True and ts = "[IncBegin FromCreator]"])
      (simp_all add: new_RefBase_def use_obj_def max_tokens_def)
  then have "ref_reach False (new_RefBase\<lparr>mWeak := 1\<rparr>) {#IncAdd FromCreator#}"
    by (rule reach_step [where t = "IncBegin FromCreator" and U = "{#}" and op = Release and ok = True and ts = "[IncAdd FromCreator]"]) (simp_all add: step_defs new_RefBase_def max_tokens_def)
  then have "ref_reach False (new_RefBase\<lparr>mWeak := 1, mStrong := ?i + 1\<rparr>) {#IncFix FromCreator#}"
    by (rule reach_step [where t = "IncAdd FromCreator" and U = "{#}" and op = Release and ok = True and ts = "[IncFix FromCreator]"]) (simp_all add: step_defs new_RefBase_def max_tokens_def)
  then have "ref_reach False (new_RefBase\<lparr>mWeak := 1, mStrong := 1\<rparr>) {#IncFirst FromCreator#}"
    by (rule reach_step [where t = "IncFix FromCreator" and U = "{#}" and op = Release and ok = True and ts = "[IncFirst FromCreator]"]) (simp_all add: step_defs new_RefBase_def max_tokens_def)
  then have "ref_reach False (new_RefBase\<lparr>mWeak := 1, mStrong := 1, calls := [OnFirstRef]\<rparr>) {#Strong#}"
    by (rule reach_step [where t = "IncFirst FromCreator" and U = "{#}" and op = Release and ok = True and ts = "[Strong]"]) (simp_all add: step_defs new_RefBase_def max_tokens_def)
  then show ?thesis
    by (rule reach_step [where t = Strong and U = "{#}" and op = CopyWeak and ok = True and ts = "[Weak, Strong]"])
      (simp_all add: step_defs new_RefBase_def shared_mem_def max_tokens_def)
qed

theorem references_keep_objects_witness:
  "ref_reach False shared_mem {#Weak, Strong#} \<and> obj_exists shared_mem \<and> mWeak shared_mem = 2 \<and>
   (\<exists>m' ts. token_step False Promote True Weak shared_mem = Inr (m', ts)) \<and>
   (\<exists>m' ts. token_step False Release True Strong shared_mem = Inr (m', ts))"
  using references_keep_objects [OF shared_reached, of Release True] references_keep_objects [OF shared_reached, of Promote True] shared_reached
  by (simp add: max_tokens_def)

section \<open>Promotion without interference\<close>

text \<open>The tokens that are in the middle of an operation take steps until none is left; \<open>n\<close> bounds
  the number of steps.\<close>

definition busy :: "token \<Rightarrow> bool" where
  "busy t \<longleftrightarrow> t \<noteq> Creator \<and> t \<noteq> Strong \<and> t \<noteq> Weak"

primrec solo :: "bool \<Rightarrow> bool \<Rightarrow> nat \<Rightarrow> token list \<Rightarrow> ref_mem \<Rightarrow> (ref_mem \<times> token list) res" where
  "solo wl ok 0 ts m = (if filter busy ts = [] then Inr (m, ts) else Inl Blocked)"
| "solo wl ok (Suc n) ts m =
     (case dropWhile (\<lambda>t. \<not> busy t) ts of
        [] \<Rightarrow> Inr (m, ts)
      | t # us \<Rightarrow>
          bindR (token_step wl Release ok t m) (\<lambda>(m', ts'). solo wl ok n (takeWhile (\<lambda>t. \<not> busy t) ts @ ts' @ us) m'))"

text \<open>a weak reference to an object with the usual lifetime is promoted within five steps exactly
  when the strong count is positive: an object that never had a strong reference gets its first
  one, an object that has one gets another, and an object that lost its last one stays
  as it is.\<close>

theorem promotion_decides:
  assumes "impl_exists m" and "mWeak m \<ge> 1"
  shows "solo False True 5 [TryBegin] m =
    (if mStrong m = INITIAL_STRONG_VALUE then Inr (m\<lparr>mStrong := 1, mWeak := mWeak m + 1\<rparr>, [Strong, Weak])
     else if mStrong m > 0 then Inr (m\<lparr>mStrong := mStrong m + 1, mWeak := mWeak m + 1\<rparr>, [Strong, Weak])
     else Inr (m, [Weak]))"
  using assms by (simp add: numeral_eq_Suc busy_def step_defs)

theorem promotion_decides_witness:
  "solo False True 5 [TryBegin] shared_mem = Inr (shared_mem\<lparr>mStrong := 2, mWeak := 3\<rparr>, [Strong, Weak])"
  using promotion_decides [of shared_mem] by (simp add: shared_mem_def INITIAL_STRONG_VALUE_def)

end
