(* ===== verification/Android_Sorted.thy ===== *)
theory Android_Sorted
  imports Vector_Lists
begin

text \<open>
  The sorting of vectors, \<^verbatim>\<open>VectorImpl::sort\<close>, and the vectors that are kept sorted: \<^verbatim>\<open>SortedVectorImpl\<close>
  (\<^verbatim>\<open>src/external/android/utils/VectorImpl.cpp\<close>), \<^verbatim>\<open>SortedVector\<close>, \<^verbatim>\<open>KeyedVector\<close> and \<^verbatim>\<open>DefaultKeyedVector\<close>
  (\<^verbatim>\<open>include/utils/SortedVector.h\<close>, \<^verbatim>\<open>include/utils/KeyedVector.h\<close>). Elements are compared by a key
  with the operator \<open><\<close> of its type: the element itself, or the first component of a pair.
\<close>

section \<open>Sorting\<close>

text \<open>Comparing reads the element; a raw place has none.\<close>

definition value_at :: "'a source \<Rightarrow> nat \<Rightarrow> ('a, 'a) vec_op" where
  "value_at src k = bindS (fetch src k) (\<lambda>c. case c of None \<Rightarrow> throwS MemFault | Some x \<Rightarrow> retS x)"

text \<open>The inner loop: the element at \<open>j\<close> is moved up while it is greater than \<open>x\<close>; the result is the place for \<open>x\<close>.\<close>

definition shift_up :: "'a elem_type \<Rightarrow> nat \<Rightarrow> nat \<Rightarrow> ('a, unit) vec_op" where
  "shift_up T b j = seqS (destroy_cell T b (Suc j)) (copy_cell T b (Suc j) (InBuffer b) j)"

primrec shift_loop :: "'a elem_type \<Rightarrow> ('a \<Rightarrow> 'a \<Rightarrow> int) \<Rightarrow> nat \<Rightarrow> 'a \<Rightarrow> nat \<Rightarrow> ('a, nat) vec_op" where
  "shift_loop T cmp b x 0 = seqS (shift_up T b 0) (retS 0)"
| "shift_loop T cmp b x (Suc j) =
     seqS (shift_up T b (Suc j))
     (bindS (value_at (InBuffer b) j) (\<lambda>curr. if cmp curr x > 0 then shift_loop T cmp b x j else retS (Suc j)))"

text \<open>\<open>temp\<close> tells whether the copy of an element has been allocated, which also means that the array may be changed.
  \<open>n\<close> elements are left from \<open>i\<close> on. The first result is the status.\<close>

primrec sort_loop :: "build \<Rightarrow> 'a elem_type \<Rightarrow> ('a \<Rightarrow> 'a \<Rightarrow> int) \<Rightarrow> nat \<Rightarrow> nat \<Rightarrow> bool \<Rightarrow> vector \<Rightarrow> ('a, int \<times> vector) vec_op" where
  "sort_loop B T cmp 0 i temp v = retS (0, v)"
| "sort_loop B T cmp (Suc n) i temp v =
     bindS (value_at (arrayImpl v) (i - 1)) (\<lambda>curr.
     bindS (value_at (arrayImpl v) i) (\<lambda>item.
     if cmp curr item > 0 then
       bindS (if temp then retS v else editArrayImpl B T v) (\<lambda>v.
       if \<not> temp \<and> (mStorage v = None \<or> \<not> grants B (item_size T)) then retS (NO_MEMORY, v)
       else
         case mStorage v of
           None \<Rightarrow> throwS MemFault
         | Some b \<Rightarrow>
             bindS (value_at (InBuffer b) i) (\<lambda>x.
             bindS (shift_loop T cmp b x (i - 1)) (\<lambda>next.
             seqS (destroy_cell T b next)
             (seqS (put_cell T b next (Some x)) (sort_loop B T cmp n (Suc i) True v)))))
     else sort_loop B T cmp n (Suc i) temp v))"

definition vec_sort :: "build \<Rightarrow> 'a elem_type \<Rightarrow> ('a \<Rightarrow> 'a \<Rightarrow> int) \<Rightarrow> vector \<Rightarrow> ('a, int \<times> vector) vec_op" where
  "vec_sort B T cmp v = (if mCount v > 1 then sort_loop B T cmp (mCount v - 1) 1 False v else retS (0, v))"

section \<open>Sorted vectors\<close>

definition strictly_order_type :: "'k :: linorder \<Rightarrow> 'k \<Rightarrow> int" where
  "strictly_order_type lhs rhs = (if lhs < rhs then 1 else 0)"

definition compare_type :: "'k :: linorder \<Rightarrow> 'k \<Rightarrow> int" where
  "compare_type lhs rhs = strictly_order_type rhs lhs - strictly_order_type lhs rhs"

definition do_compare :: "('a \<Rightarrow> 'k :: linorder) \<Rightarrow> 'a \<Rightarrow> 'a \<Rightarrow> int" where
  "do_compare key lhs rhs = compare_type (key lhs) (key rhs)"

text \<open>The binary search for the item at \<open>k\<close> of \<open>src\<close>: its index and its place.\<close>

function search_loop :: "('a \<Rightarrow> 'a \<Rightarrow> int) \<Rightarrow> 'a source \<Rightarrow> 'a source \<Rightarrow> nat \<Rightarrow> int \<Rightarrow> int \<Rightarrow> ('a, int \<times> int) vec_op" where
  "search_loop cmp a src k l h =
     (if l \<le> h then
        bindS (value_at a (nat (l + (h - l) div 2))) (\<lambda>curr.
        bindS (value_at src k) (\<lambda>item.
        if cmp curr item = 0 then retS (l + (h - l) div 2, l + (h - l) div 2)
        else if cmp curr item < 0 then search_loop cmp a src k (l + (h - l) div 2 + 1) h
        else search_loop cmp a src k l (l + (h - l) div 2 - 1)))
      else retS (NAME_NOT_FOUND, l))"
  by pat_completeness auto
termination
  by (relation "measure (\<lambda>(_, _, _, _, l, h). nat (h - l + 1))") auto

declare search_loop.simps [simp del]

definition indexOrderOf :: "('a \<Rightarrow> 'a \<Rightarrow> int) \<Rightarrow> 'a source \<Rightarrow> nat \<Rightarrow> vector \<Rightarrow> ('a, int \<times> int) vec_op" where
  "indexOrderOf cmp src k v =
     (if mCount v = 0 then retS (NAME_NOT_FOUND, 0)
      else search_loop cmp (arrayImpl v) src k 0 (ssize_t (size_sub (mCount v) 1)))"

definition indexOf :: "('a \<Rightarrow> 'a \<Rightarrow> int) \<Rightarrow> 'a source \<Rightarrow> nat \<Rightarrow> vector \<Rightarrow> ('a, int) vec_op" where
  "indexOf cmp src k v = bindS (indexOrderOf cmp src k v) (\<lambda>(index, _). retS index)"

definition orderOf :: "('a \<Rightarrow> 'a \<Rightarrow> int) \<Rightarrow> 'a source \<Rightarrow> nat \<Rightarrow> vector \<Rightarrow> ('a, nat) vec_op" where
  "orderOf cmp src k v = bindS (indexOrderOf cmp src k v) (\<lambda>(_, order). retS (nat order))"

definition sorted_add :: "build \<Rightarrow> 'a elem_type \<Rightarrow> ('a \<Rightarrow> 'a \<Rightarrow> int) \<Rightarrow> 'a source \<Rightarrow> nat \<Rightarrow> vector \<Rightarrow> ('a, int \<times> vector) vec_op" where
  "sorted_add B T cmp src k v =
     bindS (indexOrderOf cmp src k v) (\<lambda>(index, order).
     if index < 0 then insertAt B T (Some (src, k)) (nat order) 1 v
     else replaceAt B T (Some (src, k)) (nat index) v)"

definition sorted_remove :: "build \<Rightarrow> 'a elem_type \<Rightarrow> ('a \<Rightarrow> 'a \<Rightarrow> int) \<Rightarrow> 'a source \<Rightarrow> nat \<Rightarrow> vector \<Rightarrow> ('a, int \<times> vector) vec_op" where
  "sorted_remove B T cmp src k v =
     bindS (indexOf cmp src k v) (\<lambda>i.
     if i \<ge> 0 then bindS (removeItemsAt B T (nat i) 1 v) (\<lambda>(_, v). retS (i, v)) else retS (i, v))"

primrec merge_loop :: "build \<Rightarrow> 'a elem_type \<Rightarrow> ('a \<Rightarrow> 'a \<Rightarrow> int) \<Rightarrow> 'a source \<Rightarrow> nat \<Rightarrow> nat \<Rightarrow> vector \<Rightarrow> ('a, int \<times> vector) vec_op" where
  "merge_loop B T cmp buffer i 0 v = retS (0, v)"
| "merge_loop B T cmp buffer i (Suc n) v =
     bindS (sorted_add B T cmp buffer i v) (\<lambda>(err, v).
     if err < 0 then retS (err, v) else merge_loop B T cmp buffer (Suc i) n v)"

definition merge_vector :: "build \<Rightarrow> 'a elem_type \<Rightarrow> ('a \<Rightarrow> 'a \<Rightarrow> int) \<Rightarrow> vector \<Rightarrow> vector \<Rightarrow> ('a, int \<times> vector) vec_op" where
  "merge_vector B T cmp w v =
     (if mCount w \<noteq> 0 then merge_loop B T cmp (arrayImpl w) 0 (mCount w) v else retS (0, v))"

text \<open>The pointer that \<^verbatim>\<open>itemLocation\<close> gives is followed by the comparison.\<close>

definition item_at_location :: "build \<Rightarrow> 'a elem_type \<Rightarrow> nat \<Rightarrow> vector \<Rightarrow> ('a, 'a) vec_op" where
  "item_at_location B T index v =
     bindS (itemLocation B T index v) (\<lambda>p. case p of None \<Rightarrow> throwS MemFault | Some b \<Rightarrow> value_at (InBuffer b) index)"

definition merge_sorted :: "build \<Rightarrow> 'a elem_type \<Rightarrow> ('a \<Rightarrow> 'a \<Rightarrow> int) \<Rightarrow> vector \<Rightarrow> vector \<Rightarrow> ('a, int \<times> vector) vec_op" where
  "merge_sorted B T cmp w v =
     (if mCount w = 0 then retS (0, v)
      else
        bindS (item_at_location B T (mCount w - 1) w) (\<lambda>last.
        bindS (value_at (arrayImpl v) 0) (\<lambda>first.
        if cmp last first \<le> 0 then insertVectorAt B T w 0 v
        else
          bindS (value_at (arrayImpl w) 0) (\<lambda>first.
          bindS (item_at_location B T (size_sub (mCount v) 1) v) (\<lambda>last.
          if cmp first last \<ge> 0 then appendVector B T w v
          else merge_vector B T cmp w v)))))"

section \<open>Keyed vectors\<close>

text \<open>The vector of pairs is compared by the keys; a pair that is made from a key alone has an indeterminate value, of which
  nothing is used.\<close>

definition key_pair :: "'k \<Rightarrow> 'v \<Rightarrow> ('k \<times> 'v) source" where
  "key_pair key any_value = Given [(key, any_value)]"

abbreviation (input) by_key :: "('k :: linorder \<times> 'v) \<Rightarrow> ('k \<times> 'v) \<Rightarrow> int" where
  "by_key \<equiv> do_compare fst"

definition indexOfKey :: "'v \<Rightarrow> 'k :: linorder \<Rightarrow> vector \<Rightarrow> ('k \<times> 'v, int) vec_op" where
  "indexOfKey any_value key v = indexOf by_key (key_pair key any_value) 0 v"

definition valueAt :: "build \<Rightarrow> nat \<Rightarrow> vector \<Rightarrow> ('k \<times> 'v, 'v option) vec_op" where
  "valueAt B index v = bindS (itemAt B index v) (\<lambda>c. retS (map_option snd c))"

definition keyAt :: "build \<Rightarrow> nat \<Rightarrow> vector \<Rightarrow> ('k \<times> 'v, 'k option) vec_op" where
  "keyAt B index v = bindS (itemAt B index v) (\<lambda>c. retS (map_option fst c))"

definition valueFor :: "build \<Rightarrow> 'v \<Rightarrow> 'k :: linorder \<Rightarrow> vector \<Rightarrow> ('k \<times> 'v, 'v option) vec_op" where
  "valueFor B any_value key v =
     bindS (indexOfKey any_value key v) (\<lambda>i. if i < 0 then throwS Aborted else valueAt B (nat i) v)"

definition default_valueFor :: "build \<Rightarrow> 'v \<Rightarrow> 'v \<Rightarrow> 'k :: linorder \<Rightarrow> vector \<Rightarrow> ('k \<times> 'v, 'v option) vec_op" where
  "default_valueFor B mDefault any_value key v =
     bindS (indexOfKey any_value key v) (\<lambda>i. if i \<ge> 0 then valueAt B (nat i) v else retS (Some mDefault))"

definition keyed_add :: "build \<Rightarrow> ('k :: linorder \<times> 'v) elem_type \<Rightarrow> 'k \<Rightarrow> 'v \<Rightarrow> vector \<Rightarrow> ('k \<times> 'v, int \<times> vector) vec_op" where
  "keyed_add B T key value v = sorted_add B T by_key (Given [(key, value)]) 0 v"

definition replaceValueFor :: "build \<Rightarrow> ('k :: linorder \<times> 'v) elem_type \<Rightarrow> 'k \<Rightarrow> 'v \<Rightarrow> vector \<Rightarrow> ('k \<times> 'v, int \<times> vector) vec_op" where
  "replaceValueFor B T key value v =
     bindS (sorted_remove B T by_key (Given [(key, value)]) 0 v) (\<lambda>(_, v).
     sorted_add B T by_key (Given [(key, value)]) 0 v)"

text \<open>The assignments of a value to the reference that \<^verbatim>\<open>editValueAt\<close> and \<^verbatim>\<open>editValueFor\<close> return.\<close>

definition editValueAt :: "build \<Rightarrow> ('k \<times> 'v) elem_type \<Rightarrow> nat \<Rightarrow> 'v \<Rightarrow> vector \<Rightarrow> ('k \<times> 'v, vector) vec_op" where
  "editValueAt B T index value v =
     editItemAt B T index (\<lambda>c. case c of Some (k, _) \<Rightarrow> (k, value) | None \<Rightarrow> (fst (default_item T), value)) v"

definition editValueFor :: "build \<Rightarrow> ('k :: linorder \<times> 'v) elem_type \<Rightarrow> 'v \<Rightarrow> 'k \<Rightarrow> 'v \<Rightarrow> vector \<Rightarrow> ('k \<times> 'v, vector) vec_op" where
  "editValueFor B T any_value key value v =
     bindS (indexOfKey any_value key v) (\<lambda>i. if i < 0 then throwS Aborted else editValueAt B T (nat i) value v)"

definition replaceValueAt :: "build \<Rightarrow> ('k \<times> 'v) elem_type \<Rightarrow> nat \<Rightarrow> 'v \<Rightarrow> vector \<Rightarrow> ('k \<times> 'v, int \<times> vector) vec_op" where
  "replaceValueAt B T index value v =
     (if index < mCount v then bindS (editValueAt B T index value v) (\<lambda>v. retS (ssize_t index, v))
      else retS (BAD_INDEX, v))"

definition removeItem :: "build \<Rightarrow> ('k :: linorder \<times> 'v) elem_type \<Rightarrow> 'v \<Rightarrow> 'k \<Rightarrow> vector \<Rightarrow> ('k \<times> 'v, int \<times> vector) vec_op" where
  "removeItem B T any_value key v = sorted_remove B T by_key (key_pair key any_value) 0 v"

end
