(* ===== verification/Vector_Maps.thy ===== *)
theory Vector_Maps
  imports Android_Sorted
begin

text \<open>
  A sorted vector is a list with increasing keys, its binary search finds what is there, and a keyed vector is a partial map.
\<close>

section \<open>Reading\<close>

lemma fetch_item:
  assumes st: "vectors_in T h M" and v: "(v, xs) \<in># M" and k: "k < length xs"
  shows "cell_at h (arrayImpl v) k = Some (xs ! k)"
proof -
  have ok: "holding_ok T h (v, xs)" by (rule store_item [OF st v])
  then obtain b sb where "mStorage v = Some b" "bufs h b = Some sb" "holds_items T sb xs"
    using k by (cases "mStorage v") (auto split: option.splits)
  moreover from this(3) have "k < length (cells sb)" "cells sb ! k = xs ! k"
    using k nth_take [of k "length xs" "cells sb"] by (auto simp: holds_items_def)
  ultimately show ?thesis by (simp add: cell_at_def arrayImpl_def)
qed

lemma value_at_item:
  assumes "vectors_in T h M" and "(v, map Some ys) \<in># M" and "k < length ys"
  shows "value_at (arrayImpl v) k h = (Inr (ys ! k), h)"
  using fetch_run [OF fetch_item [OF assms(1,2), of k]] assms(3) by (simp add: value_at_def bindS_def retS_def)

lemma value_at_given: "k < length ys \<Longrightarrow> value_at (Given ys) k h = (Inr (ys ! k), h)"
  by (simp add: value_at_def bindS_def retS_def)

lemma do_compare_simps:
  "do_compare key x y = 0 \<longleftrightarrow> key x = key y" "do_compare key x y < 0 \<longleftrightarrow> key x < key y" "do_compare key x y > 0 \<longleftrightarrow> key y < key x"
  "do_compare key x y \<le> 0 \<longleftrightarrow> key x \<le> key y" "do_compare key x y \<ge> 0 \<longleftrightarrow> key y \<le> key x"
  by (auto simp: do_compare_def compare_type_def strictly_order_type_def)

section \<open>The binary search\<close>

definition increasing :: "('a \<Rightarrow> 'k :: linorder) \<Rightarrow> 'a list \<Rightarrow> bool" where
  "increasing key ys \<longleftrightarrow> sorted_wrt (<) (map key ys)"

lemma increasing_nth: "increasing key ys \<Longrightarrow> i < j \<Longrightarrow> j < length ys \<Longrightarrow> key (ys ! i) < key (ys ! j)"
  using sorted_wrt_nth_less [of "(<)" "map key ys" i j] by (simp add: increasing_def)

text \<open>The place of a key: before the elements with a greater key.\<close>

definition place_of :: "('a \<Rightarrow> 'k :: linorder) \<Rightarrow> 'k \<Rightarrow> 'a list \<Rightarrow> nat" where
  "place_of key k ys = length (takeWhile (\<lambda>y. key y < k) ys)"

lemma place_of_unique:
  assumes "p \<le> length ys" and "\<And>i. i < p \<Longrightarrow> key (ys ! i) < k" and "p < length ys \<Longrightarrow> \<not> key (ys ! p) < k"
  shows "place_of key k ys = p"
proof -
  have "takeWhile (\<lambda>y. key y < k) ys = take p ys"
    using assms by (intro takeWhile_eq_take_P_nth) auto
  then show ?thesis using assms(1) by (simp add: place_of_def)
qed

definition search_result :: "('a \<Rightarrow> 'k :: linorder) \<Rightarrow> 'k \<Rightarrow> 'a list \<Rightarrow> int \<times> int" where
  "search_result key k ys =
     (let p = place_of key k ys in (if k \<in> key ` set ys then int p else NAME_NOT_FOUND, int p))"

lemma search_loop_run:
  assumes inc: "increasing key ys" and a: "\<And>i. i < length ys \<Longrightarrow> value_at a i H = (Inr (ys ! i), H)"
    and item: "value_at src k H = (Inr x, H)"
  shows "0 \<le> l \<Longrightarrow> h < int (length ys) \<Longrightarrow> l \<le> h + 1 \<Longrightarrow> (\<And>i. i < nat l \<Longrightarrow> key (ys ! i) < key x) \<Longrightarrow>
    (\<And>i. nat (h + 1) \<le> i \<Longrightarrow> i < length ys \<Longrightarrow> key x < key (ys ! i)) \<Longrightarrow>
    search_loop (do_compare key) a src k l h H = (Inr (search_result key (key x) ys), H)"
proof (induction "nat (h - l + 1)" arbitrary: l h rule: less_induct)
  case less
  define mid where "mid = l + (h - l) div 2"
  define i where "i = nat mid"
  show ?case
  proof (cases "l \<le> h")
    case True
    have mid: "l \<le> mid" "mid \<le> h" "mid = int i" "i < length ys" using True less.prems by (auto simp: mid_def i_def)
    have step: "search_loop (do_compare key) a src k l h H =
        (if key (ys ! i) = key x then (Inr (int i, int i), H)
         else if key (ys ! i) < key x then search_loop (do_compare key) a src k (mid + 1) h H
         else search_loop (do_compare key) a src k l (mid - 1) H)"
      using True a [OF mid(4)] item
      by (subst search_loop.simps) (simp add: bindS_def retS_def do_compare_simps flip: mid_def i_def, simp add: mid(3))
    have below: "key (ys ! j) < key (ys ! i)" if "j < i" for j using increasing_nth [OF inc that mid(4)] .
    have above: "key (ys ! i) < key (ys ! j)" if "i < j" "j < length ys" for j using increasing_nth [OF inc that] .
    consider "key (ys ! i) = key x" | "key (ys ! i) < key x" | "key x < key (ys ! i)" by fastforce
    then show ?thesis
    proof cases
      case 1
      have "place_of key (key x) ys = i" by (rule place_of_unique) (use mid(4) 1 below in auto)
      moreover have "key x \<in> key ` set ys" using 1 mid(4) by (metis image_eqI nth_mem)
      ultimately show ?thesis using step 1 by (simp add: search_result_def Let_def)
    next
      case 2
      have "search_loop (do_compare key) a src k (mid + 1) h H = (Inr (search_result key (key x) ys), H)"
      proof (rule less.hyps)
        show "nat (h - (mid + 1) + 1) < nat (h - l + 1)" using mid by simp
        show "key (ys ! j) < key x" if "j < nat (mid + 1)" for j
        proof -
          have "j < Suc i" using that mid(3) by simp
          then show ?thesis using below [of j] 2 by (cases "j = i") auto
        qed
      qed (use less.prems mid in auto)
      then show ?thesis using step 2 by auto
    next
      case 3
      have "search_loop (do_compare key) a src k l (mid - 1) H = (Inr (search_result key (key x) ys), H)"
      proof (rule less.hyps)
        show "nat (mid - 1 - l + 1) < nat (h - l + 1)" using mid by simp
        show "key x < key (ys ! j)" if "nat (mid - 1 + 1) \<le> j" "j < length ys" for j
          using that mid(3) above [of j] 3 by (cases "j = i") auto
      qed (use less.prems mid in auto)
      then show ?thesis using step 3 by auto
    qed
  next
    case False
    then have lh: "l = h + 1" using less.prems(3) by simp
    define p where "p = nat l"
    have p: "p \<le> length ys" "int p = l" using less.prems(1,2) lh by (auto simp: p_def)
    have none: "key x \<noteq> key y" if y: "y \<in> set ys" for y
    proof -
      obtain j where j: "j < length ys" "y = ys ! j" using y by (auto simp: in_set_conv_nth)
      then show ?thesis using less.prems(4) [of j] less.prems(5) [of j] lh p by (cases "j < p") (auto simp: p_def)
    qed
    have "place_of key (key x) ys = p"
      by (rule place_of_unique) (use p less.prems(4) less.prems(5) [of p] lh in \<open>auto simp: p_def\<close>)
    moreover have "key x \<notin> key ` set ys" using none by auto
    ultimately show ?thesis using False p by (subst search_loop.simps) (simp add: retS_def search_result_def Let_def)
  qed
qed

lemma indexOrderOf_run:
  assumes st: "vectors_in T h M" and v: "(v, map Some ys) \<in># M" and inc: "increasing key ys" and sz: "length ys < 2 ^ 63"
    and item: "value_at src k h = (Inr x, h)"
  shows "indexOrderOf (do_compare key) src k v h = (Inr (search_result key (key x) ys), h)"
proof (cases "ys = []")
  case True
  then have "mCount v = 0" using store_item [OF st v] by simp
  then show ?thesis using True by (simp add: indexOrderOf_def search_result_def place_of_def retS_def)
next
  case False
  have c: "mCount v = length ys" using store_item [OF st v] by simp
  have "ssize_t (size_sub (length ys) 1) = int (length ys) - 1"
    using False sz by (subst size_sub_id) (simp_all add: ssize_t_id Suc_le_eq of_nat_diff)
  moreover have "search_loop (do_compare key) (arrayImpl v) src k 0 (int (length ys) - 1) h = (Inr (search_result key (key x) ys), h)"
    by (rule search_loop_run [OF inc value_at_item [OF st v] item]) auto
  ultimately show ?thesis using False c by (simp add: indexOrderOf_def)
qed

section \<open>Insertion and removal\<close>

definition put_key :: "('a \<Rightarrow> 'k :: linorder) \<Rightarrow> 'a \<Rightarrow> 'a list \<Rightarrow> 'a list" where
  "put_key key x ys =
     (let p = place_of key (key x) ys in if key x \<in> key ` set ys then ys[p := x] else inserted p [x] ys)"

definition drop_key :: "('a \<Rightarrow> 'k :: linorder) \<Rightarrow> 'k \<Rightarrow> 'a list \<Rightarrow> 'a list" where
  "drop_key key k ys = (if k \<in> key ` set ys then removed (place_of key k ys) 1 ys else ys)"

lemma place_of_le: "place_of key k ys \<le> length ys"
  by (simp add: place_of_def length_takeWhile_le)

text \<open>What is before and behind the place of a key.\<close>

lemma place_split:
  assumes inc: "increasing key ys"
  obtains (found) us y ws where "ys = us @ y # ws" and "place_of key k ys = length us" and "key y = k" and "k \<in> key ` set ys"
      and "\<forall>u \<in> set us. key u < k" and "\<forall>w \<in> set ws. k < key w"
  | (missing) us ws where "ys = us @ ws" and "place_of key k ys = length us" and "k \<notin> key ` set ys"
      and "\<forall>u \<in> set us. key u < k" and "\<forall>w \<in> set ws. k < key w"
proof -
  let ?us = "takeWhile (\<lambda>y. key y < k) ys" and ?ws = "dropWhile (\<lambda>y. key y < k) ys"
  have us: "\<forall>u \<in> set ?us. key u < k" by (auto dest: set_takeWhileD)
  have len: "place_of key k ys = length ?us" by (simp add: place_of_def)
  have ys: "ys = ?us @ ?ws" by simp
  have inc': "increasing key (?us @ ?ws)" using inc by simp
  show thesis
  proof (cases ?ws)
    case Nil
    then have "\<forall>y \<in> set ys. key y < k" by simp
    then have "k \<notin> key ` set ys" by auto
    then show thesis using missing [OF ys len _ us] Nil by simp
  next
    case (Cons w ws)
    have w: "k \<le> key w" using hd_dropWhile [of "\<lambda>y. key y < k" ys] Cons by simp
    have more: "\<forall>w' \<in> set ws. key w < key w'" using inc' Cons by (auto simp: increasing_def sorted_wrt_append)
    show thesis
    proof (cases "key w = k")
      case True
      have "k \<in> key ` set ys" using True ys Cons by (metis imageI in_set_conv_decomp)
      then show thesis using found [of ?us w ws] ys Cons len True us more by simp
    next
      case False
      then have gt: "\<forall>w' \<in> set ?ws. k < key w'" using w more Cons by fastforce
      have "y \<in> set ?us \<or> y \<in> set ?ws" if "y \<in> set ys" for y using that ys by (metis Un_iff set_append)
      then have "k \<notin> key ` set ys" using us gt by fastforce
      then show thesis using missing [OF ys len _ us gt] by simp
    qed
  qed
qed

lemma increasing_simps [simp]:
  "increasing key []" "increasing key (y # ws) \<longleftrightarrow> (\<forall>w \<in> set ws. key y < key w) \<and> increasing key ws"
  "increasing key (us @ ws) \<longleftrightarrow> increasing key us \<and> increasing key ws \<and> (\<forall>u \<in> set us. \<forall>w \<in> set ws. key u < key w)"
  by (auto simp: increasing_def sorted_wrt_append)

lemma increasing_put: "increasing key ys \<Longrightarrow> increasing key (put_key key x ys)"
  by (rule place_split [of key ys "key x"]) (auto simp: put_key_def Let_def inserted_def list_update_append)

lemma increasing_drop: "increasing key ys \<Longrightarrow> increasing key (drop_key key k ys)"
  by (rule place_split [of key ys k]) (auto simp: drop_key_def removed_def)

lemma not_in_keys: "\<forall>u \<in> set us. fst u < k \<Longrightarrow> map_of us (k :: 'k :: linorder) = None"
    "\<forall>u \<in> set us. k < fst u \<Longrightarrow> map_of us (k :: 'k :: linorder) = None"
  by (auto simp: map_of_eq_None_iff)

lemma map_of_put:
  assumes "increasing fst ys"
  shows "map_of (put_key fst (k, v) ys) = (map_of ys)(k \<mapsto> v)"
proof (rule place_split [OF assms, of k])
  fix us y ws assume s: "ys = us @ y # ws" "place_of fst k ys = length us" "fst y = k" "k \<in> fst ` set ys" "\<forall>u \<in> set us. fst u < k"
  then have "put_key fst (k, v) ys = us @ (k, v) # ws" by (simp add: put_key_def Let_def list_update_append)
  then show ?thesis using s(1,3) not_in_keys(1) [OF s(5)] by (cases y) (auto simp: map_add_upd_left dom_def)
next
  fix us ws assume s: "ys = us @ ws" "place_of fst k ys = length us" "k \<notin> fst ` set ys" "\<forall>u \<in> set us. fst u < k"
  then have "put_key fst (k, v) ys = us @ (k, v) # ws" by (simp add: put_key_def Let_def inserted_def)
  then show ?thesis using s(1) not_in_keys(1) [OF s(4)] by (auto simp: map_add_upd_left dom_def)
qed

lemma map_of_drop:
  assumes "increasing fst ys"
  shows "map_of (drop_key fst k ys) = (map_of ys)(k := None)"
proof (rule place_split [OF assms, of k])
  fix us y ws assume s: "ys = us @ y # ws" "place_of fst k ys = length us" "fst y = k" "k \<in> fst ` set ys"
    "\<forall>u \<in> set us. fst u < k" "\<forall>w \<in> set ws. k < fst w"
  then have "drop_key fst k ys = us @ ws" by (simp add: drop_key_def removed_def)
  then show ?thesis using s(1,3) not_in_keys(1) [OF s(5)] not_in_keys(2) [OF s(6)]
    by (cases y) (auto simp: map_add_def fun_eq_iff split: option.split)
next
  fix us ws assume s: "k \<notin> fst ` set ys"
  then have "drop_key fst k ys = ys" "map_of ys k = None" by (simp_all add: drop_key_def map_of_eq_None_iff)
  then show ?thesis by (simp add: fun_upd_idem)
qed

lemma found_at:
  assumes "increasing key ys" and "k \<in> key ` set ys"
  shows "place_of key k ys < length ys" and "key (ys ! place_of key k ys) = k"
  by (rule place_split [OF assms(1), of k]; use assms(2) in auto)+

lemma map_of_found:
  assumes "increasing fst ys" and "k \<in> fst ` set ys"
  shows "map_of ys k = Some (snd (ys ! place_of fst k ys))"
proof (rule place_split [OF assms(1), of k])
  fix us y ws assume s: "ys = us @ y # ws" "place_of fst k ys = length us" "fst y = k" "\<forall>u \<in> set us. fst u < k"
  then show ?thesis using not_in_keys(1) [OF s(4)] by (cases y) (simp add: map_add_def)
qed (use assms(2) in simp)

text \<open>The operations of a sorted vector, with an item that is not in a vector.\<close>

lemma sorted_add_run:
  assumes st: "vectors_in T h (add_mset (v, map Some ys) M)" and B: "plenty B" and inc: "increasing key ys" and fit: "fits_memory T (Suc (length ys))"
  obtains v' h' where "sorted_add B T (do_compare key) (Given [x]) 0 v h = (Inr (int (place_of key (key x) ys), v'), h')"
    and "vectors_in T h' (add_mset (v', map Some (put_key key x ys)) M)"
proof -
  let ?p = "place_of key (key x) ys"
  have sz: "length ys < 2 ^ 63" using fit by (simp add: fits_memory_def)
  have idx: "indexOrderOf (do_compare key) (Given [x]) 0 v h = (Inr (search_result key (key x) ys), h)"
    by (rule indexOrderOf_run [OF st _ inc sz]) (simp_all add: value_at_given)
  show thesis
  proof (cases "key x \<in> key ` set ys")
    case True
    have "?p < length (map Some ys)" using found_at(1) [OF inc True] by simp
    moreover have "fits_memory T (length (map Some ys))" using fits_mono [OF fit] by simp
    ultimately obtain v' h' where r: "replaceAt B T (Some (Given [x], 0)) ?p v h = (Inr (int ?p, v'), h')"
        "vectors_in T h' (add_mset (v', (map Some ys)[?p := Some x]) M)"
      by (rule replaceAt_run [OF st B])
    have "sorted_add B T (do_compare key) (Given [x]) 0 v h = (Inr (int ?p, v'), h')"
      using idx r(1) True by (simp add: sorted_add_def search_result_def Let_def bindS_def)
    then show thesis using that r(2) True by (simp add: put_key_def Let_def map_update)
  next
    case False
    have "?p \<le> length (map Some ys)" "fits_memory T (length (map Some ys) + 1)" using place_of_le fit by auto
    then obtain v' h' where r: "insertAt B T (Some (Given [x], 0)) ?p 1 v h = (Inr (int ?p, v'), h')"
        "vectors_in T h' (add_mset (v', inserted ?p (replicate 1 (Some x)) (map Some ys)) M)"
      using insertAt_run [OF st B, of ?p 1 "Some (Given [x], 0)" x] by auto
    have "sorted_add B T (do_compare key) (Given [x]) 0 v h = (Inr (int ?p, v'), h')"
      using idx r(1) False by (simp add: sorted_add_def search_result_def Let_def bindS_def NAME_NOT_FOUND_def)
    then show thesis using that r(2) False by (simp add: put_key_def Let_def inserted_def take_map drop_map)
  qed
qed

lemma sorted_remove_run:
  assumes st: "vectors_in T h (add_mset (v, map Some ys) M)" and B: "plenty B" and inc: "increasing key ys" and fit: "fits_memory T (length ys)"
  obtains v' h' where "sorted_remove B T (do_compare key) (Given [x]) 0 v h = (Inr (fst (search_result key (key x) ys), v'), h')"
    and "vectors_in T h' (add_mset (v', map Some (drop_key key (key x) ys)) M)"
proof -
  let ?p = "place_of key (key x) ys"
  have sz: "length ys < 2 ^ 63" using fit by (simp add: fits_memory_def)
  have idx: "indexOrderOf (do_compare key) (Given [x]) 0 v h = (Inr (search_result key (key x) ys), h)"
    by (rule indexOrderOf_run [OF st _ inc sz]) (simp_all add: value_at_given)
  show thesis
  proof (cases "key x \<in> key ` set ys")
    case True
    have "?p + 1 \<le> length (map Some ys)" "0 < (1 :: nat) \<or> ?p = length (map Some ys)" "fits_memory T (length (map Some ys))"
      using found_at(1) [OF inc True] fit by simp_all
    then obtain v' h' where r: "removeItemsAt B T ?p 1 v h = (Inr (int ?p, v'), h')"
        "vectors_in T h' (add_mset (v', removed ?p 1 (map Some ys)) M)"
      by (rule removeItemsAt_run [OF st B])
    have "sorted_remove B T (do_compare key) (Given [x]) 0 v h = (Inr (int ?p, v'), h')"
      using idx r(1) True by (simp add: sorted_remove_def indexOf_def search_result_def Let_def bindS_def retS_def)
    then show thesis using that r(2) True
      by (simp add: drop_key_def removed_def take_map drop_map search_result_def Let_def)
  next
    case False
    have "sorted_remove B T (do_compare key) (Given [x]) 0 v h = (Inr (NAME_NOT_FOUND, v), h)"
      using idx False by (simp add: sorted_remove_def indexOf_def search_result_def Let_def bindS_def retS_def NAME_NOT_FOUND_def)
    then show thesis using that st False by (simp add: drop_key_def search_result_def Let_def)
  qed
qed

section \<open>Keyed vectors are maps\<close>

datatype ('k, 'v) key_command = KAdd 'k 'v | KReplace 'k 'v | KEdit 'k 'v | KRemove 'k | KValue 'k | KValueOr 'v 'k

text \<open>The values that are looked up are the results.\<close>

primrec keyed_step :: "build \<Rightarrow> ('k :: linorder \<times> 'v) elem_type \<Rightarrow> ('k, 'v) key_command \<Rightarrow> vector \<Rightarrow> ('k \<times> 'v, 'v option \<times> vector) vec_op" where
  "keyed_step B T (KAdd k x) v = bindS (keyed_add B T k x v) (\<lambda>(_, v). retS (None, v))"
| "keyed_step B T (KReplace k x) v = bindS (replaceValueFor B T k x v) (\<lambda>(_, v). retS (None, v))"
| "keyed_step B T (KEdit k x) v = bindS (editValueFor B T (snd (default_item T)) k x v) (\<lambda>v. retS (None, v))"
| "keyed_step B T (KRemove k) v = bindS (removeItem B T (snd (default_item T)) k v) (\<lambda>(_, v). retS (None, v))"
| "keyed_step B T (KValue k) v = bindS (valueFor B (snd (default_item T)) k v) (\<lambda>r. retS (r, v))"
| "keyed_step B T (KValueOr d k) v = bindS (default_valueFor B d (snd (default_item T)) k v) (\<lambda>r. retS (r, v))"

primrec map_step :: "('k, 'v) key_command \<Rightarrow> ('k \<rightharpoonup> 'v) \<Rightarrow> 'v option \<times> ('k \<rightharpoonup> 'v)" where
  "map_step (KAdd k x) m = (None, m(k \<mapsto> x))"
| "map_step (KReplace k x) m = (None, m(k \<mapsto> x))"
| "map_step (KEdit k x) m = (None, m(k \<mapsto> x))"
| "map_step (KRemove k) m = (None, m(k := None))"
| "map_step (KValue k) m = (m k, m)"
| "map_step (KValueOr d k) m = (Some (case m k of None \<Rightarrow> d | Some x \<Rightarrow> x), m)"

text \<open>The vector can hold one more pair; a value that must be there is.\<close>

definition keyed_allowed :: "('k \<times> 'v) elem_type \<Rightarrow> ('k, 'v) key_command \<Rightarrow> ('k \<rightharpoonup> 'v) \<Rightarrow> bool" where
  "keyed_allowed T c m \<longleftrightarrow> fits_memory T (Suc (card (dom m))) \<and>
     (case c of KEdit k _ \<Rightarrow> m k \<noteq> None | KValue k \<Rightarrow> m k \<noteq> None | _ \<Rightarrow> True)"

definition keyed_rel :: "('k :: linorder \<times> 'v) elem_type \<Rightarrow> ('k \<times> 'v) holding multiset \<Rightarrow> ('k \<times> 'v) vec_heap \<Rightarrow> vector \<Rightarrow> ('k \<rightharpoonup> 'v) \<Rightarrow> bool" where
  "keyed_rel T M h v m \<longleftrightarrow> (\<exists>ys. vectors_in T h (add_mset (v, map Some ys) M) \<and> increasing fst ys \<and> m = map_of ys)"

lemma keyed_size:
  assumes "increasing fst ys"
  shows "card (dom (map_of ys)) = length ys"
proof -
  have "distinct (map fst ys)" using assms by (simp add: increasing_def strict_sorted_iff)
  then show ?thesis by (simp add: dom_map_of_conv_image_fst distinct_card flip: set_map)
qed

lemma search_result_keys:
  assumes "increasing fst ys"
  shows "fst (search_result fst k ys) = (if map_of ys k = None then NAME_NOT_FOUND else int (place_of fst k ys))"
  by (auto simp: search_result_def Let_def map_of_eq_None_iff)

lemma put_after_drop:
  assumes "increasing fst ys"
  shows "map_of (put_key fst (k, x) (drop_key fst k ys)) = (map_of ys)(k \<mapsto> x)"
  using map_of_put [OF increasing_drop [OF assms, of k], of k x] map_of_drop [OF assms, of k] by simp

lemma length_drop_key: "length (drop_key key k ys) \<le> length ys"
  using place_of_le [of key k ys] by (auto simp: drop_key_def removed_def)

lemma keyed_step_refines:
  assumes rel: "keyed_rel T M h v m" and ok: "keyed_allowed T c m" and B: "plenty B"
  shows "\<exists>v' h'. keyed_step B T c v h = (Inr (fst (map_step c m), v'), h') \<and> keyed_rel T M h' v' (snd (map_step c m))"
proof -
  obtain ys where st: "vectors_in T h (add_mset (v, map Some ys) M)" and inc: "increasing fst ys" and m: "m = map_of ys"
    using rel by (auto simp: keyed_rel_def)
  have fit: "fits_memory T (Suc (length ys))" using ok keyed_size [OF inc] m by (simp add: keyed_allowed_def)
  have fit': "fits_memory T (length ys)" by (rule fits_mono [OF fit]) simp
  have sz: "length ys < 2 ^ 63" using fit' by (simp add: fits_memory_def)
  let ?d = "snd (default_item T)"
  have index: "indexOfKey ?d k v h = (Inr (if map_of ys k = None then NAME_NOT_FOUND else int (place_of fst k ys)), h)" for k
    using indexOrderOf_run [OF st _ inc sz, where v = v and src = "Given [(k, ?d)]" and k = 0 and x = "(k, ?d)"] search_result_keys [OF inc, of k]
    by (auto simp: indexOfKey_def indexOf_def key_pair_def value_at_given bindS_def retS_def split: prod.splits)
  have found: "place_of fst k ys < length ys" "fst (ys ! place_of fst k ys) = k" "snd (ys ! place_of fst k ys) = x"
      "itemAt B (place_of fst k ys) v h = (Inr (Some (k, x)), h)" if "map_of ys k = Some x" for k x
  proof -
    have "(k, x) \<in> set ys" using that by (rule map_of_SomeD)
    then have k: "k \<in> fst ` set ys" by force
    show 1: "place_of fst k ys < length ys" "fst (ys ! place_of fst k ys) = k" by (rule found_at [OF inc k])+
    show 2: "snd (ys ! place_of fst k ys) = x" using map_of_found [OF inc k] that by simp
    have "fetch (arrayImpl v) (place_of fst k ys) h = (Inr (map Some ys ! place_of fst k ys), h)"
      using 1 by (intro fetch_run fetch_item [OF st]) simp_all
    then show "itemAt B (place_of fst k ys) v h = (Inr (Some (k, x)), h)"
      using 1 2 store_facts(1) [OF st] by (cases "ys ! place_of fst k ys") (simp add: itemAt_def)
  qed
  show ?thesis
  proof (cases c)
    case (KAdd k x)
    obtain i v' h' where "sorted_add B T (do_compare fst) (Given [(k, x)]) 0 v h = (Inr (i, v'), h')"
        "vectors_in T h' (add_mset (v', map Some (put_key fst (k, x) ys)) M)"
      by (rule sorted_add_run [OF st B inc fit])
    then show ?thesis using KAdd m map_of_put [OF inc] increasing_put [OF inc]
      by (auto simp: keyed_add_def keyed_rel_def bindS_def retS_def)
  next
    case (KReplace k x)
    obtain i v1 h1 where 1: "sorted_remove B T (do_compare fst) (Given [(k, x)]) 0 v h = (Inr (i, v1), h1)"
        "vectors_in T h1 (add_mset (v1, map Some (drop_key fst (fst (k, x)) ys)) M)"
      by (rule sorted_remove_run [OF st B inc fit'])
    have "fits_memory T (Suc (length (drop_key fst (fst (k, x)) ys)))" by (rule fits_mono [OF fit]) (simp add: length_drop_key)
    then obtain j v' h' where "sorted_add B T (do_compare fst) (Given [(k, x)]) 0 v1 h1 = (Inr (j, v'), h')"
        "vectors_in T h' (add_mset (v', map Some (put_key fst (k, x) (drop_key fst (fst (k, x)) ys))) M)"
      by (rule sorted_add_run [OF 1(2) B increasing_drop [OF inc]])
    then show ?thesis using KReplace m 1(1) put_after_drop [OF inc] increasing_put [OF increasing_drop [OF inc]]
      by (auto simp: replaceValueFor_def keyed_rel_def bindS_def retS_def)
  next
    case (KRemove k)
    obtain i v' h' where "sorted_remove B T (do_compare fst) (Given [(k, ?d)]) 0 v h = (Inr (i, v'), h')"
        "vectors_in T h' (add_mset (v', map Some (drop_key fst (fst (k, ?d)) ys)) M)"
      by (rule sorted_remove_run [OF st B inc fit'])
    then show ?thesis using KRemove m map_of_drop [OF inc] increasing_drop [OF inc]
      by (auto simp: removeItem_def key_pair_def keyed_rel_def bindS_def retS_def)
  next
    case (KEdit k x)
    let ?p = "place_of fst k ys"
    obtain y where y: "map_of ys k = Some y" using KEdit ok m by (auto simp: keyed_allowed_def)
    note f = found [OF y]
    have "?p < length (map Some ys)" using f(1) by simp
    then obtain v' h' where e: "editItemAt B T ?p (\<lambda>c. case c of Some (k, _) \<Rightarrow> (k, x) | None \<Rightarrow> (fst (default_item T), x)) v h = (Inr v', h')"
        "vectors_in T h' (add_mset (v', (map Some ys)[?p := Some (case (map Some ys) ! ?p of Some (k, _) \<Rightarrow> (k, x) | None \<Rightarrow> (fst (default_item T), x))]) M)"
      by (rule editItemAt_run [OF st B])
    have "(map Some ys)[?p := Some (case (map Some ys) ! ?p of Some (k, _) \<Rightarrow> (k, x) | None \<Rightarrow> (fst (default_item T), x))] = map Some (put_key fst (k, x) ys)"
    proof -
      have "k \<in> fst ` set ys" using f(1,2) by (metis image_eqI nth_mem)
      then show ?thesis using f(1,2) by (cases "ys ! ?p") (simp add: put_key_def Let_def map_update)
    qed
    then show ?thesis using KEdit e m y index [of k] map_of_put [OF inc] increasing_put [OF inc]
      by (auto simp: editValueFor_def editValueAt_def keyed_rel_def bindS_def retS_def)
  next
    case (KValue k)
    obtain y where y: "map_of ys k = Some y" using KValue ok m by (auto simp: keyed_allowed_def)
    then show ?thesis using KValue m rel index [of k] found(4) [OF y]
      by (auto simp: valueFor_def valueAt_def bindS_def retS_def)
  next
    case (KValueOr d k)
    then show ?thesis using m rel index [of k] found(4) [of k]
      by (cases "map_of ys k") (auto simp: default_valueFor_def valueAt_def bindS_def retS_def NAME_NOT_FOUND_def)
  qed
qed

locale keyed_vectors = vectors_of B T for B :: build and T :: "('k :: linorder \<times> 'v) elem_type" +
  fixes M :: "('k \<times> 'v) holding multiset"

sublocale keyed_vectors \<subseteq> keyed: command_refinement "keyed_step B T" map_step "keyed_rel T M" "keyed_allowed T"
  by unfold_locales (rule keyed_step_refines [OF _ _ memory])

context keyed_vectors
begin

lemma keyed_refine:
  "keyed_rel T M h v m \<Longrightarrow> all_allowed (keyed_allowed T) map_step cs m \<Longrightarrow>
   \<exists>v' h'. run_commands (keyed_step B T) cs v h = (Inr (fst (spec_commands map_step cs m), v'), h') \<and>
     keyed_rel T M h' v' (snd (spec_commands map_step cs m))"
  by (rule keyed.commands_refine)

end

text \<open>Maps from numbers to addresses.\<close>

interpretation address_maps: keyed_vectors plain_build "class_type 16 (0 :: nat, 0 :: u64)" "{#}"
  by unfold_locales (simp_all add: plenty_plain class_type_def)

text \<open>C14: a keyed vector is a partial map: whatever pairs are added, replaced, edited, removed and looked up, each look-up gives the value
  that a map gives, and all other vectors keep their elements. The pairs are kept in the order of their keys, each key once,
  which is what the binary search needs.\<close>

theorem keyed_vectors_are_maps:
  assumes "plenty B" and "vectors_in T h (add_mset (v, map Some ys) M)" and "increasing fst ys"
    and "all_allowed (keyed_allowed T) map_step cs (map_of ys)" and "spec_commands map_step cs (map_of ys) = (rs, m)"
  shows "\<exists>v' h' zs. run_commands (keyed_step B T) cs v h = (Inr (rs, v'), h') \<and>
    vectors_in T h' (add_mset (v', map Some zs) M) \<and> increasing fst zs \<and> map_of zs = m"
proof -
  have "keyed_vectors B T" using assms(1) store_size [OF assms(2)] by unfold_locales
  moreover have "keyed_rel T M h v (map_of ys)" using assms(2,3) by (auto simp: keyed_rel_def)
  ultimately obtain v' h' where "run_commands (keyed_step B T) cs v h = (Inr (rs, v'), h')" "keyed_rel T M h' v' m"
    using keyed_vectors.keyed_refine [of B T M h v "map_of ys" cs] assms(4,5) by auto
  then show ?thesis by (auto simp: keyed_rel_def)
qed

text \<open>A map that is filled from an empty vector.\<close>

definition example_keys :: "(nat, u64) key_command list" where
  "example_keys = [KAdd 5 50, KAdd 3 30, KReplace 5 51, KAdd 4 40, KRemove 3, KEdit 4 41, KValue 5, KValueOr 9 3, KValue 4]"

theorem keyed_vectors_are_maps_witness:
  "\<exists>v h zs. run_commands (keyed_step plain_build (class_type 16 (0, 0))) example_keys VectorImpl no_vectors =
      (Inr ([None, None, None, None, None, None, Some 51, Some 9, Some 41], v), h) \<and>
    vectors_in (class_type 16 (0, 0)) h {#(v, map Some zs)#} \<and> increasing fst zs \<and> map_of zs = [5 \<mapsto> 51, 4 \<mapsto> 41]"
proof -
  let ?T = "class_type 16 (0 :: nat, 0 :: u64)"
  have "vec_rel ?T no_vectors [] []" by (rule vec_rel_empty) (simp add: class_type_def)
  then have st: "vectors_in ?T no_vectors {#(VectorImpl, map Some [])#}" using store_empty by (auto simp: vec_rel_def)
  have dom: "dom [5 \<mapsto> x] = {5 :: nat}" "dom [5 \<mapsto> x, 3 \<mapsto> y] = {3, 5 :: nat}" for x y :: u64 by auto
  have fit: "n \<le> 10 \<Longrightarrow> fits_memory ?T n" for n by (auto simp: fits_memory_def class_type_def size_max_def buffer_header_size_def)
  have "all_allowed (keyed_allowed ?T) map_step example_keys (map_of [])"
    by (simp add: example_keys_def keyed_allowed_def fit)
  moreover have "spec_commands map_step example_keys (map_of []) =
      ([None, None, None, None, None, None, Some 51, Some 9, Some 41], [5 \<mapsto> 51, 4 \<mapsto> 41])"
    by (auto simp: example_keys_def fun_eq_iff)
  ultimately show ?thesis
    using keyed_vectors_are_maps [OF plenty_plain st, of example_keys] by auto
qed

end
