(* ===== verification/Vector_Sort.thy ===== *)
theory Vector_Sort
  imports Vector_Maps
begin

text \<open>Sorting. \<^verbatim>\<open>VectorImpl::sort\<close> (\<^verbatim>\<open>src/external/android/utils/VectorImpl.cpp\<close>) is an insertion sort that moves the elements within the
  storage, destroying and copying one element at a time. The theory shows that the storage ends with the stable sort of the elements.\<close>

lemma sort_key_snoc:
  assumes "\<forall>u \<in> set (take p (sort_key key zs)). key u \<le> key x" and "\<forall>w \<in> set (drop p (sort_key key zs)). key x < key w"
  shows "sort_key key (zs @ [x]) = take p (sort_key key zs) @ x # drop p (sort_key key zs)"
proof (rule properties_for_sort_key)
  let ?s = "sort_key key zs" and ?ys = "take p (sort_key key zs) @ x # drop p (sort_key key zs)"
  have parts: "mset (take p ?s) + mset (drop p ?s) = mset ?s" by (metis append_take_drop_id mset_append)
  then show "mset ?ys = mset (zs @ [x])" by simp
  have st: "filter (\<lambda>y. key k = key y) ?s = filter (\<lambda>y. key k = key y) zs" for k
  proof -
    have "(\<lambda>y. key k = key y) = (\<lambda>y. key y = key k)" by auto
    then show ?thesis by (simp only: sort_key_stable)
  qed
  show "filter (\<lambda>y. key k = key y) ?ys = filter (\<lambda>y. key k = key y) (zs @ [x])" for k
  proof (cases "key k = key x")
    case True
    then have "filter (\<lambda>y. key k = key y) (drop p ?s) = []" using assms(2) by (auto simp: filter_empty_conv)
    moreover have "filter (\<lambda>y. key k = key y) (take p ?s) @ filter (\<lambda>y. key k = key y) (drop p ?s) = filter (\<lambda>y. key k = key y) zs"
      using st [of k] by (metis append_take_drop_id filter_append)
    ultimately show ?thesis using True by simp
  next
    case False
    moreover have "filter (\<lambda>y. key k = key y) (take p ?s) @ filter (\<lambda>y. key k = key y) (drop p ?s) = filter (\<lambda>y. key k = key y) zs"
      using st [of k] by (metis append_take_drop_id filter_append)
    ultimately show ?thesis by simp
  qed
  have "sorted (map key (take p ?s) @ map key (drop p ?s))" by (simp flip: map_append)
  then show "sorted (map key ?ys)" using assms by (auto simp: sorted_append intro: order.strict_implies_order)
qed

lemma sorted_keys_le: "sorted (map key ws) \<Longrightarrow> i \<le> j \<Longrightarrow> j < length ws \<Longrightarrow> key (ws ! i) \<le> key (ws ! j)"
  using sorted_nth_mono [of "map key ws" i j] by simp

text \<open>The inner loop finds the place of \<open>x\<close> among the sorted elements \<open>ws\<close>.\<close>

lemma shift_up_run:
  assumes "bufs h b = Some sb" and "cells sb = map Some (ws @ [w]) @ Some c # rest" and "j = length ws"
  shows "shift_up T b j h = (Inr (), set_cells b (map Some (ws @ [w]) @ Some w # rest) h)"
proof -
  let ?d = "if trivial_dtor T then Some c else None"
  let ?h = "set_cells b (map Some (ws @ [w]) @ ?d # rest) h"
  have 1: "destroy_cell T b (Suc j) h = (Inr (), ?h)"
    using destroy_cell_run [OF assms(1,2)] assms(3) by simp
  have "copy_cell T b (length (map Some ws @ Some w # [])) (InBuffer b) (length (map Some ws)) ?h =
      (Inr (), set_cells b (map Some ws @ Some w # [] @ Some w # rest) ?h)"
    by (rule copy_within [where sb = "sb\<lparr>cells := map Some (ws @ [w]) @ ?d # rest\<rparr>"])
      (use assms in \<open>auto split: if_splits\<close>)
  then show ?thesis using 1 assms(3) by (simp add: shift_up_def seqS_def bindS_def)
qed

lemma shift_loop_run:
  assumes "ws \<noteq> []" and "bufs h b = Some sb" and "cells sb = map Some ws @ Some c # rest" and "key x < key (last ws)"
  shows "\<exists>p c'. shift_loop T (do_compare key) b x (length ws - 1) h =
      (Inr p, set_cells b (map Some (take p ws) @ Some c' # map Some (drop p ws) @ rest) h) \<and>
    p < length ws \<and> (\<forall>w \<in> set (drop p ws). key x < key w) \<and> (0 < p \<longrightarrow> key (ws ! (p - 1)) \<le> key x)"
  using assms
proof (induction ws arbitrary: h sb c rest rule: rev_induct)
  case (snoc w ws)
  have up: "shift_up T b (length ws) h = (Inr (), set_cells b (map Some (ws @ [w]) @ Some w # rest) h)"
    by (rule shift_up_run [OF snoc.prems(2,3)]) simp
  let ?h = "set_cells b (map Some (ws @ [w]) @ Some w # rest) h"
  show ?case
  proof (cases "ws = []")
    case True
    then have "shift_loop T (do_compare key) b x (length (ws @ [w]) - 1) h = (Inr 0, ?h)"
      using up by (simp add: seqS_def bindS_def retS_def)
    then show ?thesis using True snoc.prems(4) by (intro exI [of _ 0] exI [of _ w]) simp
  next
    case False
    then obtain j where j: "length ws = Suc j" by (cases ws) auto
    have at: "value_at (InBuffer b) j ?h = (Inr (last ws), ?h)"
      using snoc.prems(2) j False by (simp add: value_at_def bindS_def retS_def nth_append last_conv_nth)
    have run: "shift_loop T (do_compare key) b x (length (ws @ [w]) - 1) h =
        (if key x < key (last ws) then shift_loop T (do_compare key) b x j ?h else (Inr (Suc j), ?h))"
      using up at j by (simp add: seqS_def bindS_def retS_def do_compare_simps)
    show ?thesis
    proof (cases "key x < key (last ws)")
      case True
      have sb': "bufs ?h b = Some (sb\<lparr>cells := map Some (ws @ [w]) @ Some w # rest\<rparr>)" using snoc.prems(2) by simp
      obtain p c' where p: "shift_loop T (do_compare key) b x (length ws - 1) ?h =
            (Inr p, set_cells b (map Some (take p ws) @ Some c' # map Some (drop p ws) @ Some w # rest) ?h)"
          "p < length ws" "\<forall>w \<in> set (drop p ws). key x < key w" "0 < p \<longrightarrow> key (ws ! (p - 1)) \<le> key x"
        using snoc.IH [OF False sb', of w "Some w # rest"] True by auto
      show ?thesis
        by (intro exI [of _ p] exI [of _ c']) (use run True p j snoc.prems(4) in \<open>auto simp: nth_append\<close>)
    next
      case le: False
      have "shift_loop T (do_compare key) b x (length (ws @ [w]) - 1) h = (Inr (Suc j), ?h)" using run le by simp
      then show ?thesis using le j snoc.prems(4) False
        by (intro exI [of _ "Suc j"] exI [of _ w]) (auto simp: nth_append last_conv_nth)
    qed
  qed
qed simp

text \<open>One element is put in its place.\<close>

lemma insert_place_run:
  assumes own: "owned T h b sb M" and cs: "cells sb = map Some ws @ Some x # rest" and ws: "ws \<noteq> []" "sorted (map key ws)" "key x < key (last ws)"
  obtains p cs' where "bindS (shift_loop T (do_compare key) b x (length ws - 1)) (\<lambda>next.
      seqS (destroy_cell T b next) (seqS (put_cell T b next (Some x)) k)) h = k (set_cells b cs' h)"
    and "cs' = map Some (take p ws @ x # drop p ws) @ rest" and "\<forall>u \<in> set (take p ws). key u \<le> key x" and "\<forall>w \<in> set (drop p ws). key x < key w"
proof -
  have sb: "bufs h b = Some sb" using own by (simp add: owned_def)
  obtain p c' where p: "shift_loop T (do_compare key) b x (length ws - 1) h =
        (Inr p, set_cells b (map Some (take p ws) @ Some c' # map Some (drop p ws) @ rest) h)"
      "p < length ws" "\<forall>w \<in> set (drop p ws). key x < key w" "0 < p \<longrightarrow> key (ws ! (p - 1)) \<le> key x"
    using shift_loop_run [OF ws(1) sb cs ws(3)] by blast
  let ?pre = "map Some (take p ws)" and ?rest = "map Some (drop p ws) @ rest"
  let ?d = "if trivial_dtor T then Some c' else None" and ?h1 = "set_cells b (map Some (take p ws) @ Some c' # map Some (drop p ws) @ rest) h"
  let ?h2 = "set_cells b (?pre @ ?d # ?rest) h"
  have 1: "destroy_cell T b p ?h1 = (Inr (), ?h2)"
    using destroy_cell_run [of ?h1 b "sb\<lparr>cells := ?pre @ Some c' # ?rest\<rparr>" ?pre "Some c'" ?rest T] sb p(2) by (simp add: min_absorb2)
  have 2: "put_cell T b p (Some x) ?h2 = (Inr (), set_cells b (?pre @ Some x # ?rest) h)"
    using put_cell_run [of ?h2 b "sb\<lparr>cells := ?pre @ ?d # ?rest\<rparr>" ?pre ?d ?rest T "Some x"] sb p(2) by (simp add: min_absorb2)
  have "key u \<le> key x" if u: "u \<in> set (take p ws)" for u
  proof -
    obtain i where "i < length (take p ws)" "take p ws ! i = u" using u in_set_conv_nth [of u "take p ws"] by blast
    then have i: "i < p" "u = ws ! i" by simp_all
    then have "key u \<le> key (ws ! (p - 1))" using sorted_keys_le [OF ws(2), of i "p - 1"] p(2) by simp
    also have "\<dots> \<le> key x" using p(4) i(1) by simp
    finally show ?thesis .
  qed
  then have below: "\<forall>u \<in> set (take p ws). key u \<le> key x" by blast
  have "bindS (shift_loop T (do_compare key) b x (length ws - 1)) (\<lambda>next.
      seqS (destroy_cell T b next) (seqS (put_cell T b next (Some x)) k)) h = k (set_cells b (?pre @ Some x # ?rest) h)"
    by (simp add: bindS_def seqS_def p(1) [unfolded One_nat_def] 1 2 del: shift_loop.simps)
  then show thesis by (rule that [OF _ _ below p(3)]) simp
qed

lemma sort_loop_run:
  assumes "plenty B"
  shows "vectors_in T h (add_mset (v, map Some (sort_key key us @ zs)) M) \<Longrightarrow> us \<noteq> [] \<Longrightarrow>
    (temp \<Longrightarrow> \<exists>b sb. mStorage v = Some b \<and> bufs h b = Some sb \<and> mRefs sb = 1) \<Longrightarrow>
    \<exists>v' h'. sort_loop B T (do_compare key) (length zs) (length us) temp v h = (Inr (0, v'), h') \<and>
      vectors_in T h' (add_mset (v', map Some (sort_key key (us @ zs))) M)"
proof (induction zs arbitrary: us h v temp)
  case Nil
  then show ?case by (simp add: retS_def)
next
  case (Cons x zs)
  let ?ws = "sort_key key us" and ?i = "length us"
  note st = Cons.prems(1)
  have ws: "?ws \<noteq> []" "sorted (map key ?ws)" "length ?ws = ?i" using Cons.prems(2) by (auto simp: length_greater_0_conv [symmetric] simp del: length_greater_0_conv)
  have len: "0 < ?i" using Cons.prems(2) by simp
  have 1: "value_at (arrayImpl v) (?i - 1) h = (Inr (last ?ws), h)" "value_at (arrayImpl v) ?i h = (Inr x, h)"
    using value_at_item [OF st, of v "?ws @ x # zs"] ws len by (simp_all add: nth_append last_conv_nth)
  show ?case
  proof (cases "key x < key (last ?ws)")
    case False
    have "\<forall>w \<in> set ?ws. key w \<le> key x"
    proof
      fix w assume "w \<in> set ?ws"
      then obtain j where "j < length ?ws" "?ws ! j = w" using in_set_conv_nth [of w ?ws] by blast
      then have "key w \<le> key (last ?ws)" using sorted_keys_le [OF ws(2), of j "length ?ws - 1"] ws(1) by (simp add: last_conv_nth)
      then show "key w \<le> key x" using False by simp
    qed
    then have snoc: "sort_key key (us @ [x]) = ?ws @ [x]" using sort_key_snoc [of ?i key us x] ws(3) by simp
    then have "\<exists>v' h'. sort_loop B T (do_compare key) (length zs) (length (us @ [x])) temp v h = (Inr (0, v'), h') \<and>
        vectors_in T h' (add_mset (v', map Some (sort_key key ((us @ [x]) @ zs))) M)"
      using st Cons.prems(3) by (intro Cons.IH) simp_all
    then show ?thesis using 1 False by (simp add: bindS_def do_compare_simps)
  next
    case True
    obtain v1 h1 b sb where e: "(if temp then retS v else editArrayImpl B T v) h = (Inr v1, h1)" "mStorage v1 = Some b" "mCount v1 = mCount v"
        "owned T h1 b sb M" "holds_items T sb (map Some (?ws @ x # zs))"
    proof (cases temp)
      case True
      then obtain b sb where b: "mStorage v = Some b" "bufs h b = Some sb" "mRefs sb = 1" using Cons.prems(3) by blast
      show thesis using that [of v h b sb] True b store_owned(1,2) [OF st b] by (simp add: retS_def)
    next
      case False
      obtain b where b: "mStorage v = Some b" using store_facts(3) [OF st] by (cases "mStorage v") auto
      show thesis by (rule editArrayImpl_run [OF st assms b]) (use that False in auto)
    qed
    have sb: "bufs h1 b = Some sb" using e(4) by (simp add: owned_def)
    define rest where "rest = drop (length (?ws @ x # zs)) (cells sb)"
    have rest: "no_item T rest" and cs: "cells sb = map Some ?ws @ Some x # map Some zs @ rest"
      using e(5) append_take_drop_id [of "length (?ws @ x # zs)" "cells sb"] by (auto simp: holds_items_def no_item_def rest_def)
    have x: "value_at (InBuffer b) ?i h1 = (Inr x, h1)"
      using sb cs ws(3) by (simp add: value_at_def bindS_def retS_def nth_append)
    let ?k = "sort_loop B T (do_compare key) (length zs) (Suc ?i) True v1"
    obtain p cs' where p: "bindS (shift_loop T (do_compare key) b x (length ?ws - 1)) (\<lambda>next.
          seqS (destroy_cell T b next) (seqS (put_cell T b next (Some x)) ?k)) h1 = ?k (set_cells b cs' h1)"
        "cs' = map Some (take p ?ws @ x # drop p ?ws) @ map Some zs @ rest"
        "\<forall>u \<in> set (take p ?ws). key u \<le> key x" "\<forall>w \<in> set (drop p ?ws). key x < key w"
      by (rule insert_place_run [OF e(4) cs ws(1,2) True])
    note snoc = sort_key_snoc [OF p(3,4)]
    have cs': "cs' = map Some (sort_key key (us @ [x]) @ zs) @ rest" using p(2) snoc by simp
    have own: "owned T (set_cells b cs' h1) b (sb\<lparr>cells := cs'\<rparr>) M"
      by (rule owned_set_cells [OF e(4)]) (use cs cs' ws(3) in simp)
    have "vectors_in T (set_cells b cs' h1) (add_mset (v1, map Some (sort_key key (us @ [x]) @ zs)) M)"
      by (rule owned_store [OF own e(2)]) (use e(3) store_facts(1) [OF st] cs' rest in \<open>auto intro: holds_itemsI\<close>)
    then have "\<exists>v' h'. sort_loop B T (do_compare key) (length zs) (length (us @ [x])) True v1 (set_cells b cs' h1) = (Inr (0, v'), h') \<and>
        vectors_in T h' (add_mset (v', map Some (sort_key key ((us @ [x]) @ zs))) M)"
      by (rule Cons.IH) (use e(2) own in \<open>auto simp: owned_def\<close>)
    moreover have "sort_loop B T (do_compare key) (length (x # zs)) ?i temp v h = ?k (set_cells b cs' h1)"
      using 1 True e(1,2) x p(1) assms ws(3) by (simp add: bindS_def do_compare_simps plenty_def)
    ultimately show ?thesis by simp
  qed
qed

text \<open>C15: \<^verbatim>\<open>sort\<close> sorts a vector by the keys of its elements, and stably: elements with equal keys keep their order. Every other vector keeps its
  elements, also those that shared the storage.\<close>

theorem sort_is_stable_sort:
  assumes "plenty B" and "vectors_in T h (add_mset (v, map Some xs) M)"
  shows "\<exists>v' h'. vec_sort B T (do_compare key) v h = (Inr (0, v'), h') \<and> vectors_in T h' (add_mset (v', map Some (sort_key key xs)) M)"
proof (cases "length xs > 1")
  case True
  then obtain x zs where xs: "xs = x # zs" by (cases xs) auto
  have "\<exists>v' h'. sort_loop B T (do_compare key) (length zs) (length [x]) False v h = (Inr (0, v'), h') \<and>
      vectors_in T h' (add_mset (v', map Some (sort_key key ([x] @ zs))) M)"
    by (rule sort_loop_run [OF assms(1)]) (use assms(2) xs in simp_all)
  then show ?thesis using True xs store_facts(1) [OF assms(2)] by (simp add: vec_sort_def)
next
  case False
  then have "sort_key key xs = xs" by (cases xs; cases "tl xs") auto
  then show ?thesis using False assms(2) store_facts(1) [OF assms(2)] by (simp add: vec_sort_def retS_def)
qed

definition example_sort :: "u32 vec_command list" where
  "example_sort = [Make, Put 0 0 1 4, Put 0 0 1 9, Put 0 0 1 5, CopyOf 0]"

theorem sort_is_stable_sort_witness:
  "\<exists>v w h v' h'. run_commands (vec_step plain_build (class_type 16 0)) example_sort [] no_vectors = (Inr ([0, 0, 0, 0, 0], [v, w]), h) \<and>
    vectors_in (class_type 16 0) h (add_mset (v, map Some [5, 9, 4]) {#(w, map Some [5, 9, 4])#}) \<and>
    vec_sort plain_build (class_type 16 0) (do_compare (\<lambda>x :: u32. unat x div 4)) v h = (Inr (0, v'), h') \<and>
    vectors_in (class_type 16 0) h' (add_mset (v', map Some [5, 4, 9]) {#(w, map Some [5, 9, 4])#})"
proof -
  let ?T = "class_type 16 (0 :: u32)" and ?xs = "map Some [5, 9, 4 :: u32]"
  have "spec_commands (list_step ?T) example_sort [] = ([0, 0, 0, 0, 0], [?xs, ?xs])"
    by (simp add: example_sort_def inserted_def)
  moreover have "all_allowed (vec_allowed ?T) (list_step ?T) example_sort []"
    by (simp add: example_sort_def fits_memory_def class_type_def size_max_def buffer_header_size_def inserted_def)
  moreover have "vectors_of plain_build ?T" by unfold_locales (simp_all add: plenty_plain class_type_def)
  ultimately obtain vs h where r: "run_commands (vec_step plain_build ?T) example_sort [] no_vectors = (Inr ([0, 0, 0, 0, 0], vs), h)"
      "vec_rel ?T h vs [?xs, ?xs]"
    using vectors_of.programs_refine [of plain_build ?T example_sort] by auto
  then obtain v w where vs: "vs = [v, w]" and st: "vectors_in ?T h (add_mset (v, ?xs) {#(w, ?xs)#})"
    by (auto simp: vec_rel_def length_Suc_conv)
  have "sort_key (\<lambda>x :: u32. unat x div 4) [5, 9, 4] = [5, 4, 9]" by simp
  then show ?thesis
    using r(1) vs st sort_is_stable_sort [OF plenty_plain st, of "\<lambda>x. unat x div 4"] by auto
qed

end
