(* ===== verification/Vector_Limits.thy ===== *)
theory Vector_Limits
  imports Vector_Lists
begin

text \<open>
  Where vectors are not lists, each time for a reason that \<open>vectors_are_lists\<close> excludes: nothing is inserted, sizes in bytes
  wrap around, or there is no memory.
\<close>

section \<open>Nothing to insert\<close>

lemma put_cell_live:
  "bufs h b = Some sb \<Longrightarrow> i < length (cells sb) \<Longrightarrow> cells sb ! i = Some x \<Longrightarrow> \<not> trivial_dtor T \<Longrightarrow> put_cell T b i c h = (Inl MemFault, h)"
  by (simp add: put_cell_def bindS_def throwS_def)

lemma move_onto_itself:
  assumes "bufs h b = Some sb" and "i + n < length (cells sb)" and "cells sb ! (i + n) = Some x" and "\<not> trivial_dtor T"
  shows "move_up T b i i (Suc n) h = (Inl MemFault, h)"
  using assms put_cell_live [of h b sb "i + n" x T] by (simp add: copy_cell_def seqS_def bindS_def retS_def)

text \<open>C33: Inserting no element into a vector of objects, in front of one of its elements, breaks it: \<^verbatim>\<open>_grow\<close> moves the elements by zero places, and so copies each
  of them onto itself and then destroys it. This happens when the vector does not share its storage.\<close>

theorem insert_nothing_destroys:
  assumes st: "vectors_in T h (add_mset (v, map Some xs) M)" and b: "mStorage v = Some b" "bufs h b = Some sb" "mRefs sb = 1"
    and T: "\<not> trivial_dtor T" "\<not> trivial_move T" and i: "i < length xs" and len: "length xs < 2 ^ 64"
  shows "insertAt B T item i 0 v h = (Inl MemFault, h)"
proof -
  obtain n where n: "length xs - i = Suc n" using i by (cases "length xs - i") auto
  have holds: "holds_items T sb (map Some xs)" using store_buffer [OF st b(1)] b(2) by auto
  have "cells sb ! (i + n) = map Some xs ! (i + n)" "i + n < length (cells sb)"
    using holds n nth_take [of "i + n" "length xs" "cells sb"] by (auto simp: holds_items_def)
  then have mv: "move_up T b i i (Suc n) h = (Inl MemFault, h)"
    using move_onto_itself [OF b(2) _ _ T(1), of i n] n by simp
  have cap: "vec_capacity T v h = (Inr (cap_of T h v), h)" "length xs \<le> cap_of T h v" using capacity_run [OF st] by simp_all
  have edit: "editArrayImpl B T v h = (Inr v, h)"
    using b by (simp add: editArrayImpl_def SB_attemptEdit_def onlyOwner_def bindS_def retS_def)
  have "grow_storage B T i 0 (cap_of T h v) (length xs) v h = (Inl MemFault, h)"
    using cap(2) edit b(1) i len T mv n store_facts(1) [OF st]
    by (simp add: grow_storage_def do_move_forward_def by_memmove_def size_t_id bindS_def seqS_def)
  then show ?thesis using cap(1) i len store_facts(1) [OF st]
    by (simp add: insertAt_def vec_grow_def Let_def size_t_id bindS_def)
qed

theorem insert_nothing_destroys_witness:
  "\<exists>v h. run_commands (vec_step plain_build (class_type 16 0)) [Make, Put 0 0 2 7] [] no_vectors = (Inr ([0, 0], [v]), h) \<and>
    insertAt plain_build (class_type 16 (0 :: u32)) None 1 0 v h = (Inl MemFault, h)"
proof -
  let ?T = "class_type 16 (0 :: u32)" and ?cs = "[Make, Put 0 0 2 7] :: u32 vec_command list"
  have "spec_commands (list_step ?T) ?cs [] = ([0, 0], [map Some [7, 7]])" by (simp add: inserted_def numeral_2_eq_2)
  moreover have "all_allowed (vec_allowed ?T) (list_step ?T) ?cs []"
    by (simp add: fits_memory_def class_type_def size_max_def buffer_header_size_def inserted_def)
  moreover have "vectors_of plain_build ?T" by unfold_locales (simp_all add: plenty_plain class_type_def)
  ultimately obtain vs h where r: "run_commands (vec_step plain_build ?T) ?cs [] no_vectors = (Inr ([0, 0], vs), h)"
      "vec_rel ?T h vs [map Some [7, 7]]"
    using vectors_of.programs_refine [of plain_build ?T ?cs] by auto
  then obtain v where vs: "vs = [v]" and st: "vectors_in ?T h (add_mset (v, map Some [7, 7]) {#})"
    by (auto simp: vec_rel_def length_Suc_conv)
  obtain b where b: "mStorage v = Some b" using store_facts(3) [OF st] by (cases "mStorage v") auto
  obtain sb where sb: "bufs h b = Some sb" by (rule store_buffer [OF st b])
  have "mRefs sb = 1" using store_buf [OF st sb] b by (simp add: owners_def)
  then have "insertAt plain_build ?T None 1 0 v h = (Inl MemFault, h)"
    by (intro insert_nothing_destroys [OF st b sb]) (simp_all add: class_type_def)
  then show ?thesis using r(1) vs by auto
qed

section \<open>Sizes that wrap around\<close>




section \<open>No memory\<close>

lemma alloc_refused: "\<not> grants B (buffer_header_size + n) \<Longrightarrow> n < size_max - buffer_header_size \<Longrightarrow> SB_alloc B T n h = (Inr None, h)"
  by (simp add: SB_alloc_def retS_def)

lemma resize_refused:
  assumes "\<not> grants B (buffer_header_size + n)" and "n < size_max - buffer_header_size" and "bufs h b = Some sb" and "mSize sb \<noteq> n"
  shows "resize_storage B T n b v h = (Inr None, h)"
  using assms alloc_refused [OF assms(1,2), of T h] by (simp add: resize_storage_def SB_editResize_def Let_def bindS_def retS_def)

lemma relocate_refused:
  assumes "\<not> grants B (buffer_header_size + n)" and "n < size_max - buffer_header_size"
  shows "relocate B T n wh dest from k v h = (Inr None, h)"
  using alloc_refused [OF assms, of T h] by (simp add: relocate_def bindS_def retS_def)


text \<open>A vector of three elements and an allocator that refuses everything.\<close>

definition full_heap :: "u32 vec_heap" where
  "full_heap = \<lparr>bufs = [0 \<mapsto> \<lparr>mRefs = 1, mSize = 40, cells = [Some 7, Some 8, Some 9] @ replicate 7 None\<rparr>], next_buf = 1\<rparr>"

definition no_memory_build :: build where
  "no_memory_build = \<lparr>grants = \<lambda>_. False, fill = \<lambda>_. 0, asserts = True\<rparr>"

lemma full_heap_vectors:
  "vectors_in (plain_type 4 0) full_heap (add_mset (\<lparr>mStorage = Some 0, mCount = 3\<rparr>, map Some [7, 8, 9]) {#})"
  "cap_of (plain_type 4 (0 :: u32)) full_heap \<lparr>mStorage = Some 0, mCount = 3\<rparr> = 10"
  by (simp_all add: vectors_in_def full_heap_def plain_type_def cap_of_def holds_items_def buffer_ok_def values_ok_def owners_def
      size_max_def buffer_header_size_def)


text \<open>Without memory for a smaller storage, \<^verbatim>\<open>removeItemsAt\<close> returns the index as it does when elements were removed, but the vector keeps
  all its elements.\<close>

theorem remove_without_memory:
  assumes st: "vectors_in T h (add_mset (v, xs) M)" and n: "i + n \<le> length xs" "length xs - n < cap_of T h v div 2" "4 < cap_of T h v"
    and no: "\<And>k. \<not> grants B k"
  shows "removeItemsAt B T i n v h = (Inr (ssize_t i, v), h)"
proof -
  obtain b where b: "mStorage v = Some b" using n(3) by (cases "mStorage v") (auto simp: cap_of_def)
  obtain sb where sb: "bufs h b = Some sb" "buffer_ok T sb" by (rule store_buffer [OF st b])
  let ?m = "length xs - n" and ?cap = "cap_of T h v"
  let ?bytes = "max 4 (?m * 2) * item_size T"
  have sz: "item_size T > 0" by (rule store_size [OF st])
  have cap: "?cap * item_size T \<le> mSize sb" "mSize sb < size_max - buffer_header_size"
    using b sb by (simp_all add: cap_of_def buffer_ok_def)
  have "max 4 (?m * 2) < ?cap" using n(2,3) by auto
  then have "?bytes < ?cap * item_size T" using sz by simp
  then have lt: "?bytes < mSize sb" "?bytes < size_max - buffer_header_size" using cap by linarith+
  have "length xs \<le> ?cap" by (rule capacity_run(2) [OF st])
  also have "\<dots> \<le> ?cap * item_size T" using sz by simp
  finally have len: "length xs < 2 ^ 64" using cap by (simp add: size_max_def)
  have "max 4 (?m * 2) * 1 \<le> ?bytes" using sz by (intro mult_le_mono2) simp
  then have m: "?m * 2 < 2 ^ 64" "?bytes < 2 ^ 64" using lt(2) by (auto simp: size_max_def)
  have small: "size_sub (length xs) n = ?m" "size_t (i + n) = i + n" "size_t (?m * 2) = ?m * 2" "size_t ?bytes = ?bytes"
    using n(1) len m by (simp_all add: size_sub_id size_t_id)
  have "shrink_storage B T b i n ?cap ?m v h = (Inr None, h)"
    using n(2) small resize_refused [OF no lt(2) sb(1)] relocate_refused [OF no lt(2)] lt(1)
    by (auto simp: shrink_storage_def Let_def kMinVectorCapacity_def)
  then have "vec_shrink B T i n v h = (Inr v, h)"
    using b n(1) small(1,2) capacity_run(1) [OF st] store_facts(1) [OF st] by (simp add: vec_shrink_def Let_def bindS_def retS_def)
  then show ?thesis using n(1) small(2) store_facts(1) [OF st] by (simp add: removeItemsAt_def bindS_def retS_def)
qed

theorem remove_without_memory_witness:
  "removeItemsAt no_memory_build (plain_type 4 0) 1 1 \<lparr>mStorage = Some 0, mCount = 3\<rparr> full_heap =
    (Inr (1, \<lparr>mStorage = Some 0, mCount = 3\<rparr>), full_heap)"
  using remove_without_memory [OF full_heap_vectors(1), of 1 1 no_memory_build]
  by (simp add: full_heap_vectors(2) no_memory_build_def ssize_t_def size_t_def)

end
