(* ===== verification/Spec2Isabelle.thy ===== *)
theory Spec2Isabelle
  imports Commands Common Android_Services Ref_Base Vector_Sort Vector_Limits
begin

text \<open>
  binderd lets processes exchange Android Binder transactions without a kernel driver. A
  server process passes messages between sessions, one for each connected client; a client
  library gives applications local objects, remote objects and a service directory. All
  paths below are relative to \<^verbatim>\<open>src/src/binderd\<close> unless they begin with \<^verbatim>\<open>src\<close>.

  \<^bold>\<open>Layers, from the wire up.\<close>

  \<^item> \<open>Binder_Prelude\<close>: bytes and words, outcomes (a value or one of the exceptions
    \<open>OutOfRange\<close>, \<open>RuntimeError\<close>, \<open>MemFault\<close>, \<open>Blocked\<close>, \<open>Aborted\<close>), the state and exception monad with
    its triples, checked access to a block of memory, \<^verbatim>\<open>std::unordered_map\<close>, and the
    interface \<open>entry_table\<close> of such maps.
  \<^item> \<open>Buffer\<close> (\<^verbatim>\<open>buffer.cpp\<close>), \<open>Binary_IO\<close> (\<^verbatim>\<open>common/binary_writer.cpp\<close>,
    \<^verbatim>\<open>common/binary_reader.cpp\<close>): buffers, owned or over existing memory, and the writer and
    reader of numbers, padded blocks and strings. What an enlarged block holds before it is
    written is decided by a parameter of the model, the allocator.
  \<^item> \<open>Message\<close> (\<^verbatim>\<open>message.cpp\<close>, \<^verbatim>\<open>message_parser.cpp\<close>, \<^verbatim>\<open>status.h\<close>) and
    \<open>Transaction_Data\<close> (\<^verbatim>\<open>transaction_data*.cpp\<close>, \<^verbatim>\<open>writable_transaction_data.cpp\<close>,
    \<^verbatim>\<open>transaction_status.cpp\<close> and the layout of \<^verbatim>\<open>flat_binder_object\<close>): the wire format.
  \<^item> \<open>Socket_Messenger\<close> (\<^verbatim>\<open>socket_messenger.cpp\<close>): frames with a header of two bytes, the
    write queue with its errors and its end, and the two reads that make up a message. The model records the frames
    that are given to the socket; their buffer is already freed while a write is pending, so nothing is claimed of what
    is then sent.

  \<^bold>\<open>The server.\<close>

  \<^item> \<open>Registry\<close> (\<^verbatim>\<open>registry.cpp\<close>): handles and the sessions that own them, references, the
    context manager and the monitor; the interface \<open>handle_table\<close> states what the sessions
    rely on.
  \<^item> \<open>Server_Session\<close> (\<^verbatim>\<open>server_session.cpp\<close>, \<^verbatim>\<open>sessions.h\<close>): every handler of a session on
    one record \<open>server\<close> that holds all sessions, the registry and what each session has sent;
    \<open>server_step\<close> is an accepted connection or the completion of a read.
  \<^item> \<open>Server_Invariant\<close>: what every reachable state satisfies, by a triple for each handler.
    \<open>Server_Behaviour\<close>: what the handlers do, case by case, and the properties of whole
    exchanges (a transaction and its reply, an object that becomes a handle, a session that ends).
  \<^item> \<open>Server_Process\<close> (\<^verbatim>\<open>server_impl.cpp\<close>): the socket file, the start and the event loop
    \<open>Run\<close>, which reaches exactly the states of \<open>server_step\<close>.

  \<^bold>\<open>The client.\<close>

  \<^item> \<open>Object_Pool\<close> (\<^verbatim>\<open>object_pool.cpp\<close>, \<^verbatim>\<open>common/ref_counted.h\<close>): reference counts.
  \<^item> \<open>Object_Translator\<close> (\<^verbatim>\<open>object_translator.cpp\<close>): addresses of local objects are replaced
    by numbers before they leave the process; the interface \<open>address_hiding\<close> says that the
    numbers are faithful.
  \<^item> \<open>Client\<close> (\<^verbatim>\<open>client_impl.cpp\<close>, \<^verbatim>\<open>remote_object.cpp\<close>, \<^verbatim>\<open>local_object.cpp\<close>): calls that
    wait for answers, commands from the server, death notifications. The interfaces
    \<open>call_frame\<close> and \<open>death_frame\<close> collect what a call leaves unchanged. \<open>Client_Threads\<close> interleaves
    the callers, io workers, the strand and the pool workers of a client. The table of pending calls is shared without a
    lock: an access to it has a beginning and an end, and a run in which two of them overlap ends in \<open>MemFault\<close>, so what is
    proved of the callers holds for the runs in which none do. The interface \<open>calling_handler\<close> says what
    an application may do with the client.
  \<^item> \<open>Parcel\<close> (\<^verbatim>\<open>parcel_transaction_data_*.cpp\<close>) and \<open>Service_Manager\<close>
    (\<^verbatim>\<open>service_manager_*.cpp\<close>): arguments of calls, and the directory of services with its
    proxy; the directory refines a partial map from names to objects.

  \<^item> \<open>End_To_End\<close>: a call of one client to the context manager in another, through both sockets and
    the server and back.

  \<^bold>\<open>The Android libraries\<close> (\<^verbatim>\<open>src/external/android\<close>), which binderd replaces the kernel driver under.

  \<^item> \<open>Android_Parcel\<close> (\<^verbatim>\<open>binder/Parcel.cpp\<close>): the block of a parcel, its array of object offsets, the
    writers and readers of numbers, strings and references, and the search for an object at a
    position. \<open>Android_Items\<close>: what is written is read back.
  \<^item> \<open>Android_Bridge\<close> (\<^verbatim>\<open>binder/IPCThreadState.cpp\<close>, \<^verbatim>\<open>ProcessState.cpp\<close>, \<^verbatim>\<open>BpBinder.cpp\<close>, \<^verbatim>\<open>Binder.cpp\<close>,
    \<^verbatim>\<open>TransactionDataFromParcel.cpp\<close>): proxies, the table of handles of a process, wrapped
    objects, and the transactions made from parcels. The table is one of the vectors below; \<open>Handle_Table\<close> shows that it is a
    map from handles to proxies (the interface \<open>proxy_tables\<close>), and what negative handles do. \<open>Android_Calls\<close>: a call from an application that
    uses these libraries, through the client and the server, and the same from the side of the
    object.
  \<^item> \<open>Android_Status\<close> (\<^verbatim>\<open>binder/Status.cpp\<close>): the outcome of a call. \<open>Android_Services\<close>
    (\<^verbatim>\<open>binder/IServiceManager.cpp\<close>): the proxy and the stub of the service manager, and what
    binderd's directory makes of the requests of that proxy.
  \<^item> \<open>Ref_Base\<close> (\<^verbatim>\<open>utils/RefBase.cpp\<close>): strong and weak counts, with the atomic accesses of all
    threads interleaved.
  \<^item> \<open>Unicode\<close> (\<^verbatim>\<open>utils/Unicode.cpp\<close>): conversions between UTF-8, UTF-16 and UTF-32, and strings of
    16-bit characters.
  \<^item> \<open>Android_Vector\<close> (\<^verbatim>\<open>utils/SharedBuffer.cpp\<close>, \<^verbatim>\<open>utils/VectorImpl.cpp\<close>, \<^verbatim>\<open>include/utils/Vector.h\<close>,
    \<^verbatim>\<open>TypeHelpers.h\<close>): vectors that share their storage until one of them changes, for any element type,
    on a heap of counted buffers whose places are raw or hold an element. Constructing over, or freeing, an
    element that has a destructor is a \<open>MemFault\<close> like the use of freed memory. \<open>Vector_Contents\<close>: the
    invariant \<open>vectors_in\<close>, which gives each vector the list of its elements, and how buffers are copied, grown and
    shrunk under it. \<open>Vector_Lists\<close>: programs of vector operations refine lists (the interfaces
    \<open>command_refinement\<close> and \<open>vectors_of\<close>), and no storage is left over. \<open>Vector_Limits\<close>: what happens where nothing is
    inserted, where sizes overflow and where there is no memory.
  \<^item> \<open>Android_Sorted\<close> (\<^verbatim>\<open>VectorImpl::sort\<close>, \<^verbatim>\<open>SortedVectorImpl\<close>, \<^verbatim>\<open>include/utils/SortedVector.h\<close>, \<^verbatim>\<open>KeyedVector.h\<close>):
    sorting, binary search, sorted and keyed vectors. \<open>Vector_Maps\<close>: keyed vectors refine partial maps (the interface
    \<open>keyed_vectors\<close>). \<open>Vector_Sort\<close>: the sort is the stable sort.

  \<^bold>\<open>The program.\<close> \<open>Utils\<close> (\<^verbatim>\<open>common/utils.cpp\<close>), \<open>Common\<close> (\<^verbatim>\<open>common/fd.cpp\<close>,
  \<^verbatim>\<open>common/variable_length_array.h\<close>), \<open>Logger\<close> (\<^verbatim>\<open>logger.cpp\<close>), \<open>Cli\<close> (\<^verbatim>\<open>cli.cpp\<close>) and
  \<open>Commands\<close> (\<^verbatim>\<open>cmds/*.cpp\<close>, \<^verbatim>\<open>daemon.cpp\<close>, \<^verbatim>\<open>client.cpp\<close>, \<^verbatim>\<open>src/src/main.cpp\<close>).

  \<^bold>\<open>Conventions.\<close> Integers keep their width (\<open>u16\<close>, \<open>u32\<close>, \<open>u64\<close>, bytes). A reader of
  memory outside a block is \<open>MemFault\<close>, which no handler catches; \<open>Aborted\<close> is the end of the process by a failed assertion. \<open>Blocked\<close> is a thread that
  waits for a frame that does not come: the frames a client will receive are listed in its
  state, and waiting works them off.

  \<^bold>\<open>Loops.\<close> The loops over messages, object offsets and list elements are total functions.
  Five loops take a bound: the proxies that list services (\<open>list_loop\<close>, \<open>Bp_list_loop\<close>; one more than the
  number of frames that will arrive is enough, as \<open>ListServices_fuel\<close> and \<open>android_list_ends\<close> show: a pass that finds no frame
  left waits, which is \<open>Blocked\<close>, and so is the end of the bound), the worker loop
  of a command, \<open>joinThreadPool\<close> and the event loop \<open>Run\<close>, whose bounds stand for the moment the
  process is told to stop. In \<open>Ref_Base\<close> the number of references and of operations under way is
  less than \<open>max_tokens\<close>, which keeps the counts within 32 bits. The refinement of vectors has the bound \<open>fits_memory\<close>: the bytes
  of one and a half times the elements are fewer than \<^verbatim>\<open>size_t\<close> can count, which every vector that fits in memory
  satisfies; beyond that the sizes wrap around.

  \<^bold>\<open>Values instead of views.\<close> Messages, and the parcels made from replies, are kept by value. In the source the data of a
  message is a view into the buffer of the messenger (\<^verbatim>\<open>common/binary_reader.cpp\<close>, \<^verbatim>\<open>socket_messenger.cpp\<close>), which the next
  frame overwrites, and the reply parcel of \<^verbatim>\<open>IPCThreadState::transact\<close> points into a response that is freed when it
  returns. What is proved of them holds as long as no further frame has arrived, or the memory was not
  used again.

  \<^bold>\<open>Not modelled.\<close> Several threads that handle the events of the server at the same time (\<^verbatim>\<open>RunAsync\<close>, which only
  the tests use), and the steps within a handler of an application: each
  handler is one step. The destruction of a proxy that nobody holds, which gives its reference back, is modelled
  where the directory refuses a service (\<open>let_go\<close>); after a death notification it depends on the pointers that the application
  keeps and is left out. The atomic accesses of \<open>Ref_Base\<close> are sequentially consistent, whatever memory order the source
  asks for, and \<^verbatim>\<open>attemptIncWeak\<close> is left out. Threads that share the storage of a vector, and pointers into it that are kept while it changes. The asio library (a socket is the bytes it delivers and the errors it
  reports), \<^verbatim>\<open>boost::program_options\<close> (a parameter), the file system and signals. Of the Android
  libraries, the vectors, blobs, file descriptors and flattenable objects of a parcel, checks of permissions, shared memory, loopers,
  logging and the C utilities. The demonstrations under \<^verbatim>\<open>src/tools\<close> and the tests
  under \<^verbatim>\<open>src/tests\<close>.
\<close>

end
